(* ===== verification/Prelude.thy ===== *)
theory Prelude
  imports Complex_Main "HOL-Library.Word" "HOL-Library.Finite_Map"
begin

text \<open>
  Shared vocabulary of the development: the fixed-width integers and byte strings of the Go
  sources, Go error values with \<open>errors.Is\<close> and \<open>errors.Join\<close>, UTF-8 as the standard library
  reads it, and the generic lemmas on finite maps, counting and lists that the component
  theories use.  The collections \<open>ctl_inv\<close> (preservation lemmas of an invariant), \<open>frame\<close>
  (fields an operation leaves alone) and \<open>go_defs\<close> (definitions that are unfolded in
  component proofs) are filled by the components.
\<close>

named_theorems ctl_inv "preservation lemmas of component invariants"
named_theorems frame "fields left unchanged by an operation"
named_theorems go_defs "definitions unfolded by component proofs"

type_synonym uint64 = "64 word"
type_synonym uint32 = "32 word"
type_synonym uint16 = "16 word"
type_synonym uint8 = "8 word"

text \<open>Go's integer division and remainder truncate towards zero.\<close>

definition go_div :: "int \<Rightarrow> int \<Rightarrow> int" where
  "go_div a b = sgn a * sgn b * (\<bar>a\<bar> div \<bar>b\<bar>)"

definition go_mod :: "int \<Rightarrow> int \<Rightarrow> int" where
  "go_mod a b = a - b * go_div a b"

lemma go_div_mod_nonneg:
  assumes "0 \<le> a" "0 < b"
  shows "go_div a b = a div b" "go_mod a b = a mod b"
proof -
  show d: "go_div a b = a div b" using assms by (cases "a = 0") (simp_all add: go_div_def)
  then show "go_mod a b = a mod b" by (simp add: go_mod_def minus_mult_div_eq_mod)
qed

subsection \<open>Error values\<close>

text \<open>
  A Go error is a package-level sentinel (compared by identity, named here by its text), an
  error built from a format string and its arguments, an error that wraps another one
  (\<open>%w\<close>), or the join of several errors.
\<close>

datatype goerror =
    Sentinel string
  | Errorf string "farg list"
  | Wrap string goerror "farg list"
  | Join "goerror list"
and farg = FStr string | FInt int | FErr goerror

abbreviation errorsNew :: "string \<Rightarrow> goerror" where
  "errorsNew s \<equiv> Errorf s []"

fun errorsIs :: "goerror \<Rightarrow> string \<Rightarrow> bool" where
  "errorsIs (Sentinel s) t = (s = t)"
| "errorsIs (Errorf f a) t = False"
| "errorsIs (Wrap f e a) t = errorsIs e t"
| "errorsIs (Join es) t = (\<exists>e\<in>set es. errorsIs e t)"

fun somes :: "'a option list \<Rightarrow> 'a list" where
  "somes [] = []"
| "somes (None # xs) = somes xs"
| "somes (Some x # xs) = x # somes xs"

text \<open>\<open>errors.Join\<close> drops nil errors and is nil when nothing is left.\<close>

definition errorsJoin :: "goerror option list \<Rightarrow> goerror option" where
  "errorsJoin es = (case somes es of [] \<Rightarrow> None | xs \<Rightarrow> Some (Join xs))"

lemma somes_append [simp]: "somes (xs @ ys) = somes xs @ somes ys"
  by (induction xs rule: somes.induct) auto

lemma set_somes [simp]: "set (somes xs) = {x. Some x \<in> set xs}"
  by (induction xs rule: somes.induct) auto

lemma somes_eq_Nil_iff: "somes xs = [] \<longleftrightarrow> (\<forall>x\<in>set xs. x = None)"
  by (induction xs rule: somes.induct) auto

lemma errorsJoin_None_iff [simp]: "errorsJoin es = None \<longleftrightarrow> (\<forall>e\<in>set es. e = None)"
  by (auto simp: errorsJoin_def somes_eq_Nil_iff [symmetric] split: list.splits)

lemma errorsJoin_SomeD: "errorsJoin es = Some e \<Longrightarrow> errorsIs e t \<longleftrightarrow> (\<exists>x. Some x \<in> set es \<and> errorsIs x t)"
proof -
  assume "errorsJoin es = Some e"
  then have "e = Join (somes es)"
    by (auto simp: errorsJoin_def split: list.splits)
  then show ?thesis by auto
qed

subsection \<open>UTF-8\<close>

text \<open>
  \<open>decodeRune\<close> is \<open>utf8.DecodeRune\<close> on a non-empty byte sequence: the first rune and its width,
  with \<open>(65533, 1)\<close> (\<open>utf8.RuneError\<close>) for a byte that starts no well-formed sequence.
\<close>

abbreviation byte_of :: "char \<Rightarrow> nat" where
  "byte_of \<equiv> of_char"

definition inRange :: "nat \<Rightarrow> nat \<Rightarrow> nat \<Rightarrow> bool" where
  "inRange lo hi b = (lo \<le> b \<and> b \<le> hi)"

definition runeError :: "nat \<times> nat" where
  "runeError = (65533, 1)"

fun decodeRune :: "nat list \<Rightarrow> nat \<times> nat" where
  "decodeRune [] = (65533, 0)"
| "decodeRune (b0 # r) =
    (if b0 < 128 then (b0, 1)
     else if inRange 194 223 b0 then
       (case r of
          b1 # _ \<Rightarrow> if inRange 128 191 b1 then ((b0 - 192) * 64 + (b1 - 128), 2) else runeError
        | [] \<Rightarrow> runeError)
     else if inRange 224 239 b0 then
       (case r of
          b1 # b2 # _ \<Rightarrow>
            if inRange (if b0 = 224 then 160 else 128) (if b0 = 237 then 159 else 191) b1
               \<and> inRange 128 191 b2
            then ((b0 - 224) * 4096 + (b1 - 128) * 64 + (b2 - 128), 3) else runeError
        | _ \<Rightarrow> runeError)
     else if inRange 240 244 b0 then
       (case r of
          b1 # b2 # b3 # _ \<Rightarrow>
            if inRange (if b0 = 240 then 144 else 128) (if b0 = 244 then 143 else 191) b1
               \<and> inRange 128 191 b2 \<and> inRange 128 191 b3
            then ((b0 - 240) * 262144 + (b1 - 128) * 4096 + (b2 - 128) * 64 + (b3 - 128), 4)
            else runeError
        | _ \<Rightarrow> runeError)
     else runeError)"

lemma decodeRune_width: "bs \<noteq> [] \<Longrightarrow> 0 < snd (decodeRune bs)"
  by (cases bs) (auto simp: runeError_def split: list.splits)

text \<open>The runes a \<open>range\<close> loop over the string visits, with their widths.\<close>

function runesW :: "nat list \<Rightarrow> (nat \<times> nat) list" where
  "runesW bs = (if bs = [] then [] else decodeRune bs # runesW (drop (snd (decodeRune bs)) bs))"
  by pat_completeness auto
termination
proof (relation "measure length")
  fix bs :: "nat list"
  assume "bs \<noteq> []"
  then have "0 < snd (decodeRune bs)" and "0 < length bs"
    using decodeRune_width by auto
  then show "(drop (snd (decodeRune bs)) bs, bs) \<in> measure length"
    by simp
qed simp

declare runesW.simps [simp del]

lemma runesW_code [code]:
  "runesW [] = []"
  "runesW (b # bs) = decodeRune (b # bs) # runesW (drop (snd (decodeRune (b # bs)) - 1) bs)"
proof -
  show "runesW [] = []" by (simp add: runesW.simps)
  have "0 < snd (decodeRune (b # bs))" by (rule decodeRune_width) simp
  then have "drop (snd (decodeRune (b # bs))) (b # bs) = drop (snd (decodeRune (b # bs)) - 1) bs"
    by (cases "snd (decodeRune (b # bs))") simp_all
  then show "runesW (b # bs) = decodeRune (b # bs) # runesW (drop (snd (decodeRune (b # bs)) - 1) bs)"
    by (subst runesW.simps) simp
qed

definition runes :: "string \<Rightarrow> nat list" where
  "runes s = map fst (runesW (map byte_of s))"

definition utf8Valid :: "string \<Rightarrow> bool" where
  "utf8Valid s = (\<forall>rw \<in> set (runesW (map byte_of s)). rw \<noteq> runeError)"

text \<open>\<open>unicode.IsControl\<close>: the C0 and C1 control characters.\<close>

definition isControl :: "nat \<Rightarrow> bool" where
  "isControl r = (r < 32 \<or> 127 \<le> r \<and> r < 160)"

text \<open>\<open>unicode.IsSpace\<close>; \<open>strings.TrimSpace\<close> on runes and on the bytes of a string.\<close>

definition isSpace :: "int \<Rightarrow> bool" where
  "isSpace r = (r \<in> {9, 10, 11, 12, 13, 32, 133, 160, 5760, 8232, 8233, 8239, 8287, 12288} \<or> 8192 \<le> r \<and> r \<le> 8202)"

definition trimSpace :: "int list \<Rightarrow> int list" where
  "trimSpace rs = rev (dropWhile isSpace (rev (dropWhile isSpace rs)))"

definition TrimSpace :: "string \<Rightarrow> string" where
  "TrimSpace s =
    (let rs = runesW (map byte_of s);
         lead = sum_list (map snd (takeWhile (\<lambda>rw. isSpace (int (fst rw))) rs));
         trail = sum_list (map snd (takeWhile (\<lambda>rw. isSpace (int (fst rw))) (rev rs)))
     in take (length s - lead - trail) (drop lead s))"

text \<open>Decimal digits of a number, as \<open>%d\<close> prints them.\<close>

fun decimal :: "nat \<Rightarrow> string" where
  "decimal n = (if n < 10 then [char_of (48 + n)] else decimal (n div 10) @ [char_of (48 + n mod 10)])"

declare decimal.simps [simp del]

definition showInt :: "int \<Rightarrow> string" where
  "showInt n = (if n < 0 then ''-'' @ decimal (nat (- n)) else decimal (nat n))"

subsection \<open>Finite maps\<close>

lemma fmdom'_fmupd [simp]: "fmdom' (fmupd k v m) = insert k (fmdom' m)"
  by (auto simp: fmdom'_alt_def)

lemma fmdom'_fmdrop [simp]: "fmdom' (fmdrop k m) = fmdom' m - {k}"
  by (auto simp: fmdom'_alt_def)

lemma fmlookup_in_dom: "fmlookup m k = Some v \<Longrightarrow> k \<in> fmdom' m"
  by (simp add: fmlookup_dom'_iff)

text \<open>Number of entries of a map whose value satisfies a predicate.\<close>

definition fmcount :: "('v \<Rightarrow> bool) \<Rightarrow> ('k, 'v) fmap \<Rightarrow> nat" where
  "fmcount P m = card {k \<in> fmdom' m. P (the (fmlookup m k))}"

lemma fmcount_empty [simp]: "fmcount P fmempty = 0"
  by (simp add: fmcount_def)

lemma fmcount_alt: "fmcount P m = card {k. \<exists>v. fmlookup m k = Some v \<and> P v}"
proof -
  have "{k \<in> fmdom' m. P (the (fmlookup m k))} = {k. \<exists>v. fmlookup m k = Some v \<and> P v}"
    by (auto simp: fmlookup_dom'_iff)
  then show ?thesis by (simp only: fmcount_def)
qed

lemma finite_fmcount: "finite {k. \<exists>v. fmlookup m k = Some v \<and> P v}"
  by (rule finite_subset [of _ "fmdom' m"]) (auto simp: fmlookup_dom'_iff)

lemma fmcount_drop:
  assumes "fmlookup m k = Some v"
  shows "fmcount P m = fmcount P (fmdrop k m) + (if P v then 1 else 0)"
proof -
  let ?A = "{j. \<exists>v. fmlookup m j = Some v \<and> P v}"
  let ?B = "{j. \<exists>v. fmlookup (fmdrop k m) j = Some v \<and> P v}"
  have B: "?B = ?A - {k}" by auto
  have fin: "finite ?A" by (rule finite_fmcount)
  show ?thesis
  proof (cases "P v")
    case True
    then have "k \<in> ?A" using assms by auto
    then have "card ?A = card (?A - {k}) + 1"
      using fin card.remove [of ?A k] by simp
    then show ?thesis using True B by (simp add: fmcount_alt)
  next
    case False
    then have "k \<notin> ?A" using assms by auto
    then show ?thesis using False B by (simp add: fmcount_alt)
  qed
qed

lemma fmcount_upd_fresh:
  assumes "fmlookup m k = None"
  shows "fmcount P (fmupd k v m) = fmcount P m + (if P v then 1 else 0)"
proof -
  have "fmdrop k (fmupd k v m) = m"
    by (rule fmap_ext) (use assms in auto)
  then show ?thesis using fmcount_drop [of "fmupd k v m" k v P] by simp
qed

lemma fmcount_upd:
  assumes "fmlookup m k = Some v0"
  shows "fmcount P (fmupd k v m) + (if P v0 then 1 else 0) = fmcount P m + (if P v then 1 else 0)"
proof -
  have "fmdrop k (fmupd k v m) = fmdrop k m"
    by (rule fmap_ext) auto
  then show ?thesis
    using fmcount_drop [of "fmupd k v m" k v P] fmcount_drop [OF assms, of P] by simp
qed

lemma fmcount_pos: "fmlookup m k = Some v \<Longrightarrow> P v \<Longrightarrow> 0 < fmcount P m"
  using finite_fmcount [of m P] by (auto simp: fmcount_alt card_gt_0_iff)

lemma fmcount_zero_iff: "fmcount P m = 0 \<longleftrightarrow> (\<forall>k v. fmlookup m k = Some v \<longrightarrow> \<not> P v)"
  using finite_fmcount [of m P] by (auto simp: fmcount_alt)

end
