(* ===== verification/Float64.thy ===== *)
theory Float64
  imports Prelude "HOL-Library.Log_Nat"
begin

text \<open>
  Go's \<open>float64\<close>: IEEE 754 binary64 with round to nearest, ties to even, evaluated without
  fused operations (amd64).  A finite value is its exact rational; the two zeros are identified,
  which no operation of the sources tells apart.  \<open>round64\<close> rounds an exact result; the other
  operations are the exact rational operation followed by \<open>round64\<close>, with the IEEE rules for NaN
  and the infinities.  The lemmas say that rounding respects representable bounds and is exact on
  the integers up to \<open>2 ^ 53\<close>, which is what the callers rely on.
\<close>

datatype float64 = NaN | Inf bool | Fin rat

subsection \<open>Rounding\<close>

definition flog2 :: "rat \<Rightarrow> int" where
  "flog2 x =
    (let (n, d) = quotient_of x;
         k = bitlen n - bitlen d
     in if 2 powi k \<le> x then k else k - 1)"

definition ulpExp :: "rat \<Rightarrow> int" where
  "ulpExp x = max (flog2 x - 52) (- 1074)"

definition rne :: "rat \<Rightarrow> int" where
  "rne x =
    (let f = \<lfloor>x\<rfloor>; r = x - of_int f
     in if r < 1 / 2 then f else if 1 / 2 < r then f + 1 else if even f then f else f + 1)"

definition round64 :: "rat \<Rightarrow> float64" where
  "round64 x =
    (if x = 0 then Fin 0
     else let q = ulpExp \<bar>x\<bar>; v = of_int (rne (\<bar>x\<bar> / 2 powi q)) * 2 powi q
          in if 2 ^ 1024 \<le> v then Inf (x < 0) else Fin (sgn x * v))"

definition representable :: "rat \<Rightarrow> bool" where
  "representable r = (round64 r = Fin r)"

subsection \<open>Operations\<close>

definition isNaN :: "float64 \<Rightarrow> bool" where
  "isNaN a = (a = NaN)"

definition isInf :: "float64 \<Rightarrow> bool" where
  "isInf a = (case a of Inf _ \<Rightarrow> True | _ \<Rightarrow> False)"

fun fneg :: "float64 \<Rightarrow> float64" where
  "fneg NaN = NaN"
| "fneg (Inf s) = Inf (\<not> s)"
| "fneg (Fin r) = Fin (- r)"

fun fadd :: "float64 \<Rightarrow> float64 \<Rightarrow> float64" where
  "fadd (Fin a) (Fin b) = round64 (a + b)"
| "fadd (Inf s) (Inf t) = (if s = t then Inf s else NaN)"
| "fadd (Inf s) (Fin _) = Inf s"
| "fadd (Fin _) (Inf s) = Inf s"
| "fadd _ _ = NaN"

definition fsub :: "float64 \<Rightarrow> float64 \<Rightarrow> float64" where
  "fsub a b = fadd a (fneg b)"

fun fmul :: "float64 \<Rightarrow> float64 \<Rightarrow> float64" where
  "fmul (Fin a) (Fin b) = round64 (a * b)"
| "fmul (Inf s) (Inf t) = Inf (s \<noteq> t)"
| "fmul (Inf s) (Fin b) = (if b = 0 then NaN else Inf (s \<noteq> (b < 0)))"
| "fmul (Fin a) (Inf t) = (if a = 0 then NaN else Inf (t \<noteq> (a < 0)))"
| "fmul _ _ = NaN"

text \<open>Division by a positive finite constant, the only kind the sources use.\<close>

fun fdivPos :: "float64 \<Rightarrow> rat \<Rightarrow> float64" where
  "fdivPos (Fin a) r = round64 (a / r)"
| "fdivPos (Inf s) r = Inf s"
| "fdivPos NaN r = NaN"

fun flt :: "float64 \<Rightarrow> float64 \<Rightarrow> bool" where
  "flt (Fin a) (Fin b) = (a < b)"
| "flt (Inf s) (Inf t) = (s \<and> \<not> t)"
| "flt (Inf s) (Fin _) = s"
| "flt (Fin _) (Inf t) = (\<not> t)"
| "flt _ _ = False"

definition feq :: "float64 \<Rightarrow> float64 \<Rightarrow> bool" where
  "feq a b = (a = b \<and> a \<noteq> NaN)"

definition fmin :: "float64 \<Rightarrow> float64 \<Rightarrow> float64" where
  "fmin a b = (if a = NaN \<or> b = NaN then NaN else if flt b a then b else a)"

definition fofInt :: "int \<Rightarrow> float64" where
  "fofInt n = round64 (of_int n)"

text \<open>Conversion to a 64-bit \<open>int\<close>: truncation, and the amd64 indefinite value out of range.\<close>

definition truncRat :: "rat \<Rightarrow> int" where
  "truncRat r = (if 0 \<le> r then \<lfloor>r\<rfloor> else \<lceil>r\<rceil>)"

definition ftoInt :: "float64 \<Rightarrow> int" where
  "ftoInt a =
    (case a of
       Fin r \<Rightarrow> (let n = truncRat r in if - (2 ^ 63) \<le> n \<and> n < 2 ^ 63 then n else - (2 ^ 63))
     | _ \<Rightarrow> - (2 ^ 63))"

subsection \<open>The exponent\<close>

lemma two_powi_pos: "0 < (2 :: rat) powi k"
  by simp

lemma two_powi_mono: "a \<le> b \<Longrightarrow> (2 :: rat) powi a \<le> 2 powi b"
  by (rule power_int_increasing) auto

lemma two_powi_less_cancel: "(2 :: rat) powi a < 2 powi b \<Longrightarrow> a < b"
  using two_powi_mono [of b a] by (metis not_le)

lemma floorlog2_bounds:
  assumes "0 < n"
  shows "2 powi (int (floorlog 2 n) - 1) \<le> (of_nat n :: rat)"
    and "(of_nat n :: rat) < 2 powi (int (floorlog 2 n))"
proof -
  have f0: "0 < floorlog 2 n" using assms by (simp add: floorlog_def)
  have b: "2 ^ (floorlog 2 n - 1) \<le> n" "n < 2 ^ floorlog 2 n"
    using floorlog_bounds [of n 2] assms by auto
  have "2 powi (int (floorlog 2 n) - 1) = (2 :: rat) ^ (floorlog 2 n - 1)"
    using f0 by (simp add: power_int_def nat_diff_distrib)
  also have "\<dots> = of_nat (2 ^ (floorlog 2 n - 1))" by simp
  also have "\<dots> \<le> of_nat n" using b(1) by (simp only: of_nat_le_iff)
  finally show "2 powi (int (floorlog 2 n) - 1) \<le> (of_nat n :: rat)" .
  have "(of_nat n :: rat) < of_nat (2 ^ floorlog 2 n)"
    using b(2) by (simp only: of_nat_less_iff)
  then show "(of_nat n :: rat) < 2 powi (int (floorlog 2 n))"
    by simp
qed

lemma flog2_bounds:
  assumes "0 < x"
  shows "2 powi (flog2 x) \<le> x" and "x < 2 powi (flog2 x + 1)"
proof -
  obtain n d where q: "quotient_of x = (n, d)" by (cases "quotient_of x")
  have d: "0 < d" using q by (rule quotient_of_denom_pos)
  have x: "x = of_int n / of_int d" using q by (rule quotient_of_div)
  have n: "0 < n" using assms d unfolding x by (simp add: zero_less_divide_iff)
  define ln ld where "ln = int (floorlog 2 (nat n))" and "ld = int (floorlog 2 (nat d))"
  have N: "2 powi (ln - 1) \<le> (of_int n :: rat)" "(of_int n :: rat) < 2 powi ln"
    using floorlog2_bounds [of "nat n"] n unfolding ln_def by auto
  have D: "2 powi (ld - 1) \<le> (of_int d :: rat)" "(of_int d :: rat) < 2 powi ld"
    using floorlog2_bounds [of "nat d"] d unfolding ld_def by auto
  have dpos: "0 < (of_int d :: rat)" using d by simp
  have up: "x < 2 powi (ln - ld + 1)"
  proof -
    have "x \<le> of_int n / 2 powi (ld - 1)"
      unfolding x by (rule divide_left_mono) (use D(1) n dpos in auto)
    also have "\<dots> < 2 powi ln / 2 powi (ld - 1)"
      by (rule divide_strict_right_mono [OF N(2)]) simp
    also have "\<dots> = 2 powi (ln - ld + 1)"
      by (simp add: power_int_diff [symmetric] algebra_simps)
    finally show ?thesis .
  qed
  have lo: "2 powi (ln - ld - 1) \<le> x"
  proof -
    have "2 powi (ln - ld - 1) = (2 :: rat) powi (ln - 1) / 2 powi ld"
      by (simp add: power_int_diff [symmetric] algebra_simps)
    also have "\<dots> \<le> of_int n / 2 powi ld"
      by (rule divide_right_mono [OF N(1)]) simp
    also have "\<dots> \<le> x"
      unfolding x by (rule divide_left_mono) (use D(2) n dpos in auto)
    finally show ?thesis .
  qed
  have f: "flog2 x = (if 2 powi (ln - ld) \<le> x then ln - ld else ln - ld - 1)"
    by (simp add: flog2_def bitlen_def q ln_def ld_def Let_def)
  show "2 powi (flog2 x) \<le> x" using f lo by auto
  show "x < 2 powi (flog2 x + 1)" using f up by auto
qed

text \<open>
  Equations for evaluation: powers of two are computed on integers, and overflow is read off the
  exponent instead of comparing with \<open>2 ^ 1024\<close>.
\<close>

definition pow2 :: "int \<Rightarrow> rat" where
  "pow2 k = 2 powi k"

lemma pow2_code [code]: "pow2 k = (if 0 \<le> k then of_int (2 ^ nat k) else 1 / of_int (2 ^ nat (- k)))"
  by (simp add: pow2_def power_int_def power_one_over)

lemma flog2_code [code]:
  "flog2 x = (let (n, d) = quotient_of x; k = bitlen n - bitlen d in if pow2 k \<le> x then k else k - 1)"
  by (simp add: flog2_def pow2_def)

lemma overflow_flog2: "0 < v \<Longrightarrow> (2 :: rat) ^ 1024 \<le> v \<longleftrightarrow> 1024 \<le> flog2 v"
proof
  assume v: "0 < v" and le: "1024 \<le> flog2 v"
  have "(2 :: rat) powi 1024 \<le> 2 powi (flog2 v)" by (rule two_powi_mono [OF le])
  also have "\<dots> \<le> v" by (rule flog2_bounds [OF v])
  finally show "2 ^ 1024 \<le> v" by simp
next
  assume v: "0 < v" and le: "2 ^ 1024 \<le> v"
  have "(2 :: rat) powi 1024 < 2 powi (flog2 v + 1)"
    using le flog2_bounds(2) [OF v] by (simp add: le_less_trans)
  then show "1024 \<le> flog2 v" using two_powi_less_cancel by fastforce
qed

lemma round64_code [code]:
  "round64 x =
    (if x = 0 then Fin 0
     else let q = ulpExp \<bar>x\<bar>; p = pow2 q; v = of_int (rne (\<bar>x\<bar> / p)) * p
          in if 0 < v \<and> 1024 \<le> flog2 v then Inf (x < 0) else Fin (if x < 0 then - v else v))"
proof -
  have "(2 :: rat) ^ 1024 \<le> v \<longleftrightarrow> 0 < v \<and> 1024 \<le> flog2 v" for v
  proof (cases "0 < v")
    case False
    then have "v \<le> 0" by simp
    also have "0 < (2 :: rat) ^ 1024" by (rule zero_less_power) simp
    finally have "v < 2 ^ 1024" .
    then show ?thesis using False by (simp only: not_le [symmetric]) simp
  next
    case True
    then show ?thesis by (simp only: overflow_flog2 True simp_thms)
  qed
  then show ?thesis by (simp only: round64_def pow2_def Let_def) (simp add: sgn_if)
qed

lemma flog2_mono:
  assumes "0 < x" "x \<le> y"
  shows "flog2 x \<le> flog2 y"
proof -
  have "2 powi (flog2 x) \<le> x" by (rule flog2_bounds(1) [OF assms(1)])
  also have "x \<le> y" by (rule assms(2))
  also have "y < 2 powi (flog2 y + 1)" using assms by (intro flog2_bounds(2)) simp
  finally have "flog2 x < flog2 y + 1" by (rule two_powi_less_cancel)
  then show ?thesis by simp
qed

lemma ulpExp_mono: "0 < x \<Longrightarrow> x \<le> y \<Longrightarrow> ulpExp x \<le> ulpExp y"
  using flog2_mono [of x y] by (simp add: ulpExp_def)

subsection \<open>Rounding respects representable bounds\<close>

lemma rne_bounds: "\<lfloor>x\<rfloor> \<le> rne x" "rne x \<le> \<lfloor>x\<rfloor> + 1"
  by (auto simp: rne_def Let_def)

lemma rne_of_int [simp]: "rne (of_int k) = k"
  by (simp add: rne_def)

lemma rne_le:
  assumes "x \<le> of_int k"
  shows "rne x \<le> k"
proof (cases "x = of_int k")
  case True
  then show ?thesis by simp
next
  case False
  then have "\<lfloor>x\<rfloor> < k" using assms by (simp add: floor_less_iff)
  then show ?thesis using rne_bounds(2) [of x] by simp
qed

lemma rne_ge: "of_int k \<le> x \<Longrightarrow> k \<le> rne x"
  using rne_bounds(1) [of x] le_floor_iff [of k x] by linarith

lemma representable_multiple:
  assumes "representable t" "0 < t"
  obtains m where "t = of_int m * 2 powi (ulpExp t)"
proof -
  have "t = of_int (rne (t / 2 powi (ulpExp t))) * 2 powi (ulpExp t)"
    using assms by (auto simp: representable_def round64_def Let_def split: if_splits)
  then show ?thesis by (rule that)
qed

lemma representable_less: "representable t \<Longrightarrow> 0 < t \<Longrightarrow> t < 2 ^ 1024"
  by (auto simp: representable_def round64_def Let_def split: if_splits)

lemma representable_grid:
  assumes "representable t" "0 < x" "x \<le> t"
  shows "\<exists>m :: int. t / 2 powi (ulpExp x) = of_int m"
proof -
  have "0 < t" using assms by simp
  then obtain m where m: "t = of_int m * 2 powi (ulpExp t)"
    using representable_multiple [OF assms(1)] by blast
  define k where "k = nat (ulpExp t - ulpExp x)"
  have "ulpExp x \<le> ulpExp t" using assms by (intro ulpExp_mono) auto
  then have "(2 :: rat) powi (ulpExp t - ulpExp x) = 2 ^ k"
    by (simp add: k_def power_int_def)
  then have "(2 :: rat) powi (ulpExp t) / 2 powi (ulpExp x) = 2 ^ k"
    by (simp add: power_int_diff)
  then have "t / 2 powi (ulpExp x) = of_int m * 2 ^ k"
    using m by (metis times_divide_eq_right)
  then have "t / 2 powi (ulpExp x) = of_int (m * 2 ^ k)" by simp
  then show ?thesis ..
qed

theorem round64_le_representable:
  assumes "representable t" "0 < x" "x \<le> t"
  obtains v where "round64 x = Fin v" "0 \<le> v" "v \<le> t"
proof -
  define q where "q = ulpExp x"
  define v :: rat where "v = of_int (rne (x / 2 powi q)) * 2 powi q"
  obtain m :: int where m: "t / 2 powi q = of_int m"
    using representable_grid [OF assms] unfolding q_def by auto
  have "x / 2 powi q \<le> t / 2 powi q"
    by (rule divide_right_mono [OF assms(3)]) (simp add: less_imp_le)
  then have "rne (x / 2 powi q) \<le> m" using m by (intro rne_le) simp
  then have "v \<le> of_int m * 2 powi q" unfolding v_def by (intro mult_right_mono) (auto simp: less_imp_le)
  also have "\<dots> = t" using m by (simp add: field_simps)
  finally have vt: "v \<le> t" .
  have "0 \<le> rne (x / 2 powi q)"
    using assms(2) by (intro rne_ge) (simp add: less_imp_le)
  then have v0: "0 \<le> v" unfolding v_def by (simp add: less_imp_le)
  have "0 < t" using assms by simp
  then have "v < 2 ^ 1024" using vt representable_less [OF assms(1)] by simp
  then have "round64 x = Fin v"
    using assms(2) by (simp add: round64_def Let_def q_def v_def)
  then show ?thesis using v0 vt by (rule that)
qed

lemma round64_zero [simp]: "round64 0 = Fin 0"
  by (simp add: round64_def)

lemma round64_neg: "round64 (- x) = fneg (round64 x)"
  by (auto simp: round64_def Let_def)

text \<open>Integers up to \<open>2 ^ 53\<close> are exact.\<close>

lemma representable_nat:
  assumes "0 < n" "n \<le> 2 ^ 53"
  shows "representable (of_int n)"
proof -
  define x :: rat where "x = of_int n"
  have x0: "0 < x" using assms by (simp add: x_def)
  define q where "q = ulpExp x"
  have grid: "\<exists>m :: int. x / 2 powi q = of_int m"
  proof (cases "q \<le> 0")
    case True
    then have "x / 2 powi q = of_int (n * 2 ^ nat (- q))"
      by (simp add: x_def power_int_def field_simps)
    then show ?thesis by blast
  next
    case False
    then have "53 \<le> flog2 x" by (simp add: q_def ulpExp_def)
    then have "(2 :: rat) powi 53 \<le> 2 powi (flog2 x)" by (rule two_powi_mono)
    also have "\<dots> \<le> x" by (rule flog2_bounds(1) [OF x0])
    finally have "2 ^ 53 \<le> x" by simp
    then have nx: "n = 2 ^ 53" using assms by (simp add: x_def)
    have "2 powi (flog2 x) \<le> (2 :: rat) powi 53"
      using flog2_bounds(1) [OF x0] nx by (simp add: x_def)
    then have "(2 :: rat) powi (flog2 x) < 2 powi 54"
      by (simp add: order_le_less_trans)
    then have "flog2 x < 54" by (rule two_powi_less_cancel)
    then have "q = 1" using False \<open>53 \<le> flog2 x\<close> by (simp add: q_def ulpExp_def)
    then have "x / 2 powi q = of_int (2 ^ 52)" using nx by (simp add: x_def)
    then show ?thesis by blast
  qed
  then obtain m :: int where m: "x / 2 powi q = of_int m" ..
  have "of_int (rne (x / 2 powi q)) * 2 powi q = x"
    using m by (simp add: field_simps)
  moreover have "x < 2 ^ 1024"
  proof -
    have "x \<le> of_int (2 ^ 53)" using assms(2) unfolding x_def by (simp only: of_int_le_iff)
    also have "\<dots> < 2 ^ 1024" by simp
    finally show ?thesis .
  qed
  ultimately show ?thesis
    using x0 by (simp add: representable_def round64_def Let_def q_def x_def)
qed

lemma fofInt_exact:
  assumes "\<bar>n\<bar> \<le> 2 ^ 53"
  shows "fofInt n = Fin (of_int n)"
proof -
  consider "n = 0" | "0 < n" | "n < 0" by linarith
  then show ?thesis
  proof cases
    case 2
    then show ?thesis using representable_nat [of n] assms by (simp add: fofInt_def representable_def)
  next
    case 3
    then have "representable (of_int (- n))" using assms by (intro representable_nat) auto
    then have "round64 (- of_int n) = Fin (- of_int n)" by (simp add: representable_def)
    then have "fneg (round64 (of_int n)) = Fin (- of_int n)" by (simp add: round64_neg)
    then show ?thesis by (cases "round64 (of_int n)") (auto simp: fofInt_def)
  qed (simp add: fofInt_def)
qed

lemma ftoInt_le:
  assumes "a = Fin v" "0 \<le> v" "v \<le> of_int t" "t < 2 ^ 63"
  shows "0 \<le> ftoInt a" and "ftoInt a \<le> t"
proof -
  have f: "0 \<le> \<lfloor>v\<rfloor>" "\<lfloor>v\<rfloor> \<le> t" using assms by (auto simp: floor_le_iff)
  then have "ftoInt a = \<lfloor>v\<rfloor>" using assms by (simp add: ftoInt_def truncRat_def Let_def)
  then show "0 \<le> ftoInt a" "ftoInt a \<le> t" using f by auto
qed

lemma ftoInt_range: "- (2 ^ 63) \<le> ftoInt a \<and> ftoInt a < 2 ^ 63"
  by (cases a) (auto simp: ftoInt_def Let_def)

lemma fadd_not_NaN: "fadd (Fin a) (Fin b) \<noteq> NaN"
  by (simp add: round64_def Let_def)

subsection \<open>Upper bounds\<close>

text \<open>\<open>fle a t\<close>: the value \<open>a\<close> is not NaN and at most \<open>t\<close>.\<close>

definition fle :: "float64 \<Rightarrow> rat \<Rightarrow> bool" where
  "fle a t = (case a of Fin r \<Rightarrow> r \<le> t | Inf s \<Rightarrow> s | NaN \<Rightarrow> False)"

lemma round64_nonneg: "0 \<le> x \<Longrightarrow> round64 x = Inf False \<or> (\<exists>v. round64 x = Fin v \<and> 0 \<le> v)"
proof -
  assume x: "0 \<le> x"
  have "0 \<le> (rne (x / 2 powi q))" for q
    using x by (intro rne_ge) simp
  then have "0 \<le> (of_int (rne (x / 2 powi q)) * 2 powi q :: rat)" for q
    by simp
  then show ?thesis using x by (auto simp: round64_def Let_def)
qed

lemma round64_fle:
  assumes "representable t" "0 \<le> t" "x \<le> t"
  shows "fle (round64 x) t"
proof (cases "0 < x")
  case True
  then obtain v where "round64 x = Fin v" "v \<le> t"
    using round64_le_representable [OF assms(1) True assms(3)] by blast
  then show ?thesis by (simp add: fle_def)
next
  case False
  then have "round64 (- x) = Inf False \<or> (\<exists>v. round64 (- x) = Fin v \<and> 0 \<le> v)"
    by (intro round64_nonneg) simp
  moreover have "round64 x = fneg (round64 (- x))" using round64_neg [of "- x"] by simp
  ultimately show ?thesis using assms(2) by (auto simp: fle_def)
qed

lemma ftoInt_fle:
  assumes "fle a (of_int n)" "0 \<le> n"
  shows "ftoInt a \<le> n"
proof (cases a)
  case (Fin r)
  then have "truncRat r \<le> n"
    using assms by (auto simp: fle_def truncRat_def floor_le_iff ceiling_le_iff)
  then show ?thesis using Fin assms(2) by (simp add: ftoInt_def Let_def)
qed (use assms in \<open>auto simp: fle_def ftoInt_def\<close>)

text \<open>Multiplying a positive integer by something at most one does not exceed it.\<close>

lemma fmul_fle:
  assumes "0 < n" "n \<le> 2 ^ 53" "fle f 1"
  shows "fle (fmul (fofInt n) f) (of_int n)"
proof -
  have n: "fofInt n = Fin (of_int n)" using assms fofInt_exact [of n] by simp
  then have rep: "representable (of_int n)" by (simp add: representable_def fofInt_def)
  show ?thesis
  proof (cases f)
    case (Fin r)
    then have "of_int n * r \<le> of_int n" using assms by (simp add: fle_def mult_left_le)
    then show ?thesis using n Fin round64_fle [OF rep, of "of_int n * r"] assms(1) by simp
  qed (use assms n in \<open>auto simp: fle_def\<close>)
qed

end
