(* ===== verification/Input_Controller.thy ===== *)
theory Input_Controller
  imports Float64
begin

text \<open>
  The input controller (\<open>src/input/controller.go\<close>): peers acquire leases, submit events into one
  bounded queue, and a worker delivers the events to the desktop's input sender.  Every critical
  section of the Go code (the code between \<open>mu.Lock\<close> and \<open>mu.Unlock\<close>) is one function on the
  controller record; callbacks that Go runs after unlocking are returned as a list.  The sender is
  a parameter: a record of its operations over an arbitrary sender state.
\<close>

subsection \<open>Sentinel errors\<close>

definition ErrBusy :: goerror where "ErrBusy = Sentinel ''input is owned by another peer''"
definition ErrDisabled :: goerror where "ErrDisabled = Sentinel ''input is disabled''"
definition ErrPointerUnauthorized :: goerror where
  "ErrPointerUnauthorized = Sentinel ''pointer input is not authorized''"
definition ErrKeyboardUnauthorized :: goerror where
  "ErrKeyboardUnauthorized = Sentinel ''keyboard input is not authorized''"
definition ErrNotReady :: goerror where "ErrNotReady = Sentinel ''input sender is not ready''"
definition ErrNotOwner :: goerror where "ErrNotOwner = Sentinel ''peer does not own input''"
definition ErrOverloaded :: goerror where "ErrOverloaded = Sentinel ''input queue is full''"
definition ErrClosed :: goerror where "ErrClosed = Sentinel ''input controller is closed''"

lemmas input_errors = ErrBusy_def ErrDisabled_def ErrPointerUnauthorized_def
  ErrKeyboardUnauthorized_def ErrNotReady_def ErrNotOwner_def ErrOverloaded_def ErrClosed_def

subsection \<open>Data\<close>

record inputConfig =
  cfgEnabled :: bool
  cfgLocking :: bool
  cfgPointer :: bool
  cfgKeyboard :: bool
  cfgQueueSize :: int

record authorization =
  authPointer :: bool
  authKeyboard :: bool

record capabilities =
  capPointer :: bool
  capKeyboard :: bool
  capText :: bool

text \<open>\<open>EventType\<close> is a \<open>uint8\<close>; \<open>EventOther\<close> stands for the values without a name.\<close>

datatype eventType = EventPointerAbsolute | EventPointerRelative | EventPointerButton
  | EventPointerScroll | EventKeyboardKey | EventKeyboardText | EventOther uint8

record event =
  evSequence :: uint64
  evType :: eventType
  evX :: float64
  evY :: float64
  evDX :: float64
  evDY :: float64
  evButtonCode :: uint32
  evKeycode :: uint32
  evText :: string
  evPressed :: bool
  evHorizontal :: float64
  evVertical :: float64
  evStopHorizontal :: bool
  evStopVertical :: bool

record senderStatus =
  ssConnected :: bool
  ssPointer :: bool
  ssKeyboard :: bool
  ssText :: bool
  ssReset :: uint64
  ssErr :: "goerror option"

text \<open>
  The \<open>Sender\<close> interface over sender states \<open>'s\<close>: every call returns its error and the new state.
  \<open>opKeyboardText\<close> is \<open>None\<close> when the sender does not implement \<open>KeyboardTextSender\<close>.
\<close>

type_synonym 's call = "'s \<Rightarrow> goerror option \<times> 's"

record 's senderOps =
  opStatus :: "'s \<Rightarrow> senderStatus"
  opPointerAbsolute :: "float64 \<Rightarrow> float64 \<Rightarrow> 's call"
  opPointerRelative :: "float64 \<Rightarrow> float64 \<Rightarrow> 's call"
  opButton :: "uint32 \<Rightarrow> bool \<Rightarrow> 's call"
  opScroll :: "float64 \<Rightarrow> float64 \<Rightarrow> bool \<Rightarrow> bool \<Rightarrow> 's call"
  opKeyboardKey :: "uint32 \<Rightarrow> bool \<Rightarrow> 's call"
  opKeyboardText :: "(string \<Rightarrow> 's call) option"
  opClose :: "'s call"

record queuedEvent =
  qOwner :: uint64
  qGeneration :: uint64
  qEvent :: event

record 'cb ownerState =
  osGeneration :: uint64
  osRevoke :: "'cb option"
  osQueued :: int
  osPressedKeys :: "uint32 fset"
  osPressedButtons :: "uint32 fset"

record 'cb revocation =
  rvRevoke :: 'cb
  rvSequence :: uint64
  rvCause :: goerror

text \<open>
  \<open>ctlWake\<close> is the one-element buffer of the channel \<open>wake\<close>; \<open>ctlStop\<close> says that \<open>stop\<close> is closed.
\<close>

record ('s, 'cb) controller =
  ctlCfg :: inputConfig
  ctlAuthorization :: authorization
  ctlSender :: "'s option"
  ctlSetupErr :: "goerror option"
  ctlGeneration :: uint64
  ctlOwners :: "(uint64, 'cb ownerState) fmap"
  ctlPressedKeys :: "(uint32, uint64) fmap"
  ctlPressedButtons :: "(uint32, uint64) fmap"
  ctlClosed :: bool
  ctlQueue :: "queuedEvent list"
  ctlWake :: bool
  ctlStop :: bool

subsection \<open>Construction and attachment\<close>

definition New :: "inputConfig \<Rightarrow> goerror + ('s, 'cb) controller" where
  "New cfg =
    (if cfgQueueSize cfg < 1 then Inl (errorsNew ''input queue size must be positive'')
     else Inr \<lparr>ctlCfg = cfg, ctlAuthorization = \<lparr>authPointer = False, authKeyboard = False\<rparr>,
       ctlSender = None, ctlSetupErr = None, ctlGeneration = 0, ctlOwners = fmempty,
       ctlPressedKeys = fmempty, ctlPressedButtons = fmempty, ctlClosed = False,
       ctlQueue = [], ctlWake = False, ctlStop = False\<rparr>)"

text \<open>
  \<open>Attach\<close> also returns the sender it had to close because the controller did not take it;
  the sender argument is \<open>None\<close> for nil.
\<close>

definition Attach :: "'s senderOps \<Rightarrow> authorization \<Rightarrow> 's option \<Rightarrow> ('s, 'cb) controller
    \<Rightarrow> goerror option \<times> 's option \<times> ('s, 'cb) controller" where
  "Attach ops auth s c =
    (case s of
       None \<Rightarrow> (Some (errorsNew ''input sender is required''), None, c)
     | Some s' \<Rightarrow>
         if ctlClosed c then (Some ErrClosed, Some (snd (opClose ops s')), c)
         else if ctlSender c \<noteq> None
           then (Some (errorsNew ''input controller already has a sender''), Some (snd (opClose ops s')), c)
         else (None, None, c\<lparr>ctlAuthorization := auth, ctlSender := Some s', ctlSetupErr := None\<rparr>))"

definition SetUnavailable :: "authorization \<Rightarrow> goerror option \<Rightarrow> ('s, 'cb) controller \<Rightarrow> ('s, 'cb) controller" where
  "SetUnavailable auth err c = c\<lparr>ctlAuthorization := auth, ctlSetupErr := err\<rparr>"

subsection \<open>Leases\<close>

text \<open>\<open>AcqPanic\<close> is the nil dereference of \<open>c.sender.Status()\<close> for a lease without a sender.\<close>

datatype acquireResult = AcqOk capabilities | AcqErr goerror | AcqPanic

definition senderReady :: "inputConfig \<Rightarrow> senderStatus \<Rightarrow> bool" where
  "senderReady cfg st = (ssConnected st \<and> (cfgPointer cfg \<longrightarrow> ssPointer st) \<and> (cfgKeyboard cfg \<longrightarrow> ssKeyboard st))"

definition grantedCaps :: "inputConfig \<Rightarrow> senderStatus \<Rightarrow> capabilities" where
  "grantedCaps cfg st = \<lparr>capPointer = cfgPointer cfg, capKeyboard = cfgKeyboard cfg, capText = ssText st\<rparr>"

definition notReady :: "goerror option \<Rightarrow> goerror" where
  "notReady e = (case e of None \<Rightarrow> ErrNotReady | Some e' \<Rightarrow> Wrap ''%w: %v'' ErrNotReady [FErr e'])"

definition Acquire :: "'s senderOps \<Rightarrow> uint64 \<Rightarrow> 'cb option \<Rightarrow> ('s, 'cb) controller
    \<Rightarrow> acquireResult \<times> ('s, 'cb) controller" where
  "Acquire ops owner revoke c =
    (if ctlClosed c then (AcqErr ErrClosed, c)
     else if \<not> cfgEnabled (ctlCfg c) then (AcqErr ErrDisabled, c)
     else if cfgPointer (ctlCfg c) \<and> \<not> authPointer (ctlAuthorization c) then (AcqErr ErrPointerUnauthorized, c)
     else if cfgKeyboard (ctlCfg c) \<and> \<not> authKeyboard (ctlAuthorization c) then (AcqErr ErrKeyboardUnauthorized, c)
     else (case fmlookup (ctlOwners c) owner of
       Some state \<Rightarrow>
         (let c' = c\<lparr>ctlOwners := fmupd owner (state\<lparr>osRevoke := revoke\<rparr>) (ctlOwners c)\<rparr>
          in case ctlSender c of
               None \<Rightarrow> (AcqPanic, c')
             | Some s \<Rightarrow> (AcqOk (grantedCaps (ctlCfg c) (opStatus ops s)), c'))
     | None \<Rightarrow>
         if cfgLocking (ctlCfg c) \<and> fmdom (ctlOwners c) \<noteq> {||} then (AcqErr ErrBusy, c)
         else (case ctlSender c of
           None \<Rightarrow> (AcqErr (notReady (ctlSetupErr c)), c)
         | Some s \<Rightarrow>
             (let status = opStatus ops s
              in if \<not> senderReady (ctlCfg c) status then (AcqErr (notReady (ssErr status)), c)
                 else (AcqOk (grantedCaps (ctlCfg c) status),
                   c\<lparr>ctlGeneration := ctlGeneration c + 1,
                     ctlOwners := fmupd owner
                       \<lparr>osGeneration = ctlGeneration c + 1, osRevoke = revoke, osQueued = 0,
                        osPressedKeys = {||}, osPressedButtons = {||}\<rparr> (ctlOwners c)\<rparr>)))))"

definition Owns :: "uint64 \<Rightarrow> ('s, 'cb) controller \<Rightarrow> bool" where
  "Owns owner c = (fmlookup (ctlOwners c) owner \<noteq> None)"

subsection \<open>Releasing held keys and dropping leases\<close>

text \<open>The zero value a Go map read gives for a missing key.\<close>

definition countOf :: "(uint32, uint64) fmap \<Rightarrow> uint32 \<Rightarrow> uint64" where
  "countOf m k = (case fmlookup m k of None \<Rightarrow> 0 | Some n \<Rightarrow> n)"

text \<open>One iteration of either loop of \<open>releaseHeldLocked\<close>; the error of the call is dropped.\<close>

definition releaseCode :: "(uint32 \<Rightarrow> bool \<Rightarrow> 's call) \<Rightarrow> uint32
    \<Rightarrow> (uint32, uint64) fmap \<times> 's option \<Rightarrow> (uint32, uint64) fmap \<times> 's option" where
  "releaseCode send code = (\<lambda>(counts, s).
    let count = countOf counts code
    in if count = 1 then (fmdrop code counts, map_option (\<lambda>s. snd (send code False s)) s)
       else (fmupd code (count - 1) counts, s))"

definition releaseCodes :: "(uint32 \<Rightarrow> bool \<Rightarrow> 's call) \<Rightarrow> uint32 fset
    \<Rightarrow> (uint32, uint64) fmap \<times> 's option \<Rightarrow> (uint32, uint64) fmap \<times> 's option" where
  "releaseCodes send held = fold (releaseCode send) (sorted_list_of_fset held)"

definition releaseHeldLocked :: "'s senderOps \<Rightarrow> 'cb ownerState \<Rightarrow> ('s, 'cb) controller \<Rightarrow> ('s, 'cb) controller" where
  "releaseHeldLocked ops state c =
    (let (keys, s1) = releaseCodes (opKeyboardKey ops) (osPressedKeys state) (ctlPressedKeys c, ctlSender c);
         (buttons, s2) = releaseCodes (opButton ops) (osPressedButtons state) (ctlPressedButtons c, s1)
     in c\<lparr>ctlPressedKeys := keys, ctlPressedButtons := buttons, ctlSender := s2\<rparr>)"

definition revokeOwnerLocked :: "'s senderOps \<Rightarrow> uint64 \<Rightarrow> uint64 \<Rightarrow> goerror option \<Rightarrow> ('s, 'cb) controller
    \<Rightarrow> 'cb revocation list \<times> ('s, 'cb) controller" where
  "revokeOwnerLocked ops owner sequence cause c =
    (case fmlookup (ctlOwners c) owner of
       None \<Rightarrow> ([], c)
     | Some state \<Rightarrow>
         (let c1 = releaseHeldLocked ops state c;
              c2 = c1\<lparr>ctlOwners := fmdrop owner (ctlOwners c1),
                      ctlQueue := filter (\<lambda>q. qOwner q \<noteq> owner) (ctlQueue c1)\<rparr>
          in (case (cause, osRevoke state) of
                (Some e, Some cb) \<Rightarrow> [\<lparr>rvRevoke = cb, rvSequence = sequence, rvCause = e\<rparr>]
              | _ \<Rightarrow> [], c2)))"

fun revokeOwners :: "'s senderOps \<Rightarrow> uint64 list \<Rightarrow> goerror option \<Rightarrow> ('s, 'cb) controller
    \<Rightarrow> 'cb revocation list \<times> ('s, 'cb) controller" where
  "revokeOwners ops [] cause c = ([], c)"
| "revokeOwners ops (owner # rest) cause c =
    (let (r1, c1) = revokeOwnerLocked ops owner 0 cause c;
         (r2, c2) = revokeOwners ops rest cause c1
     in (r1 @ r2, c2))"

definition revokeAllLocked :: "'s senderOps \<Rightarrow> goerror option \<Rightarrow> ('s, 'cb) controller
    \<Rightarrow> 'cb revocation list \<times> ('s, 'cb) controller" where
  "revokeAllLocked ops cause c = revokeOwners ops (sorted_list_of_fset (fmdom (ctlOwners c))) cause c"

definition Release :: "'s senderOps \<Rightarrow> uint64 \<Rightarrow> ('s, 'cb) controller \<Rightarrow> goerror option \<times> ('s, 'cb) controller" where
  "Release ops owner c =
    (if fmlookup (ctlOwners c) owner = None then (Some ErrNotOwner, c)
     else (None, snd (revokeOwnerLocked ops owner 0 None c)))"

definition Revoke :: "'s senderOps \<Rightarrow> goerror option \<Rightarrow> ('s, 'cb) controller
    \<Rightarrow> 'cb revocation list \<times> ('s, 'cb) controller" where
  "Revoke ops cause c = revokeAllLocked ops cause c"

text \<open>
  The locked part of \<open>Close\<close> and, once the worker has stopped, the call of the sender's
  \<open>Close\<close>.  The first component of \<open>Close\<close> says whether the caller waits for the worker.
\<close>

definition CloseLocked :: "'s senderOps \<Rightarrow> ('s, 'cb) controller \<Rightarrow> bool \<times> ('s, 'cb) controller" where
  "CloseLocked ops c =
    (if ctlClosed c then (False, c)
     else (True, (snd (revokeAllLocked ops None (c\<lparr>ctlClosed := True\<rparr>)))\<lparr>ctlStop := True\<rparr>))"

definition CloseSender :: "'s senderOps \<Rightarrow> ('s, 'cb) controller \<Rightarrow> goerror option \<times> ('s, 'cb) controller" where
  "CloseSender ops c =
    (case ctlSender c of
       None \<Rightarrow> (None, c)
     | Some s \<Rightarrow> (let (err, s') = opClose ops s in (err, c\<lparr>ctlSender := Some s'\<rparr>)))"

subsection \<open>Submitting events\<close>

definition eventClassError :: "inputConfig \<Rightarrow> eventType \<Rightarrow> goerror option" where
  "eventClassError cfg t =
    (case t of
       EventOther _ \<Rightarrow> Some (errorsNew ''input event type is invalid'')
     | _ \<Rightarrow>
       if t \<in> {EventKeyboardKey, EventKeyboardText}
       then if cfgKeyboard cfg then None else Some (errorsNew ''keyboard input is disabled'')
       else if cfgPointer cfg then None else Some (errorsNew ''pointer input is disabled''))"

text \<open>The event that replaces the last queued one, when the two can be merged.\<close>

definition coalesce :: "event \<Rightarrow> event \<Rightarrow> event option" where
  "coalesce lst ev =
    (if evType lst = EventPointerAbsolute \<and> evType ev = EventPointerAbsolute then Some ev
     else if evType lst = EventPointerRelative \<and> evType ev = EventPointerRelative then
       (let dx = fadd (evDX lst) (evDX ev); dy = fadd (evDY lst) (evDY ev)
        in if \<not> isInf dx \<and> \<not> isInf dy
           then Some (lst\<lparr>evSequence := evSequence ev, evDX := dx, evDY := dy\<rparr>) else None)
     else if evType lst = EventPointerScroll \<and> evType ev = EventPointerScroll
         \<and> \<not> evStopHorizontal lst \<and> \<not> evStopVertical lst
         \<and> \<not> evStopHorizontal ev \<and> \<not> evStopVertical ev then
       (let h = fadd (evHorizontal lst) (evHorizontal ev); v = fadd (evVertical lst) (evVertical ev)
        in if \<not> isInf h \<and> \<not> isInf v
           then Some (lst\<lparr>evSequence := evSequence ev, evHorizontal := h, evVertical := v\<rparr>) else None)
     else None)"

definition coalesceQueue :: "queuedEvent \<Rightarrow> queuedEvent list \<Rightarrow> queuedEvent list option" where
  "coalesceQueue q qs =
    (if qs = [] then None
     else let lst = last qs
          in if qOwner lst = qOwner q \<and> qGeneration lst = qGeneration q
             then map_option (\<lambda>e. butlast qs @ [lst\<lparr>qEvent := e\<rparr>]) (coalesce (qEvent lst) (qEvent q))
             else None)"

definition Submit :: "'s senderOps \<Rightarrow> uint64 \<Rightarrow> event \<Rightarrow> ('s, 'cb) controller
    \<Rightarrow> goerror option \<times> 'cb revocation list \<times> ('s, 'cb) controller" where
  "Submit ops owner ev c =
    (if ctlClosed c then (Some ErrClosed, [], c)
     else (case fmlookup (ctlOwners c) owner of
       None \<Rightarrow> (Some ErrNotOwner, [], c)
     | Some state \<Rightarrow>
       (case eventClassError (ctlCfg c) (evType ev) of
          Some e \<Rightarrow> (Some e, [], c)
        | None \<Rightarrow>
          (let queued = \<lparr>qOwner = owner, qGeneration = osGeneration state, qEvent = ev\<rparr>
           in (case coalesceQueue queued (ctlQueue c) of
                 Some qs \<Rightarrow> (None, [], c\<lparr>ctlQueue := qs\<rparr>)
               | None \<Rightarrow>
                   if osQueued state < cfgQueueSize (ctlCfg c)
                   then (None, [], c\<lparr>ctlQueue := ctlQueue c @ [queued],
                           ctlOwners := fmupd owner (state\<lparr>osQueued := osQueued state + 1\<rparr>) (ctlOwners c),
                           ctlWake := True\<rparr>)
                   else (let (r, c') = revokeOwnerLocked ops owner (evSequence ev) (Some ErrOverloaded) c
                         in (Some ErrOverloaded, r, c')))))))"

subsection \<open>Delivering events\<close>

text \<open>
  A key or button transition of one owner: \<open>None\<close> when the owner's state does not change,
  otherwise the error and the new holder set, counts and sender.
\<close>

definition holdTransition :: "(uint32 \<Rightarrow> bool \<Rightarrow> 's call) \<Rightarrow> uint32 \<Rightarrow> bool \<Rightarrow> uint32 fset
    \<Rightarrow> (uint32, uint64) fmap \<Rightarrow> 's \<Rightarrow> (goerror option \<times> uint32 fset \<times> (uint32, uint64) fmap \<times> 's) option" where
  "holdTransition send code pressed held counts s =
    (if (code |\<in>| held) = pressed then None
     else let count = countOf counts code in
       if pressed then
         (let (err, s') = (if count = 0 then send code True s else (None, s))
          in Some (if err = None then (err, finsert code held, fmupd code (count + 1) counts, s')
                   else (err, held, counts, s')))
       else
         (let (err, s') = (if count = 1 then send code False s else (None, s))
          in Some (if err = None
                   then (err, held |-| {|code|},
                         (if count = 1 then fmdrop code counts else fmupd code (count - 1) counts), s')
                   else (err, held, counts, s'))))"

text \<open>The \<open>switch\<close> of \<open>handleEvent\<close>; \<open>None\<close> is its early return.\<close>

definition deliver :: "'s senderOps \<Rightarrow> uint64 \<Rightarrow> 'cb ownerState \<Rightarrow> event \<Rightarrow> 's \<Rightarrow> ('s, 'cb) controller
    \<Rightarrow> (goerror option \<times> ('s, 'cb) controller) option" where
  "deliver ops owner state ev s c =
    (let plain = (\<lambda>(err, s'). Some (err, c\<lparr>ctlSender := Some s'\<rparr>))
     in (case evType ev of
       EventPointerAbsolute \<Rightarrow> plain (opPointerAbsolute ops (evX ev) (evY ev) s)
     | EventPointerRelative \<Rightarrow> plain (opPointerRelative ops (evDX ev) (evDY ev) s)
     | EventPointerButton \<Rightarrow>
         map_option (\<lambda>(err, held, counts, s').
             (err, c\<lparr>ctlOwners := fmupd owner (state\<lparr>osPressedButtons := held\<rparr>) (ctlOwners c),
                     ctlPressedButtons := counts, ctlSender := Some s'\<rparr>))
           (holdTransition (opButton ops) (evButtonCode ev) (evPressed ev) (osPressedButtons state)
             (ctlPressedButtons c) s)
     | EventPointerScroll \<Rightarrow>
         plain (opScroll ops (evHorizontal ev) (evVertical ev) (evStopHorizontal ev) (evStopVertical ev) s)
     | EventKeyboardKey \<Rightarrow>
         map_option (\<lambda>(err, held, counts, s').
             (err, c\<lparr>ctlOwners := fmupd owner (state\<lparr>osPressedKeys := held\<rparr>) (ctlOwners c),
                     ctlPressedKeys := counts, ctlSender := Some s'\<rparr>))
           (holdTransition (opKeyboardKey ops) (evKeycode ev) (evPressed ev) (osPressedKeys state)
             (ctlPressedKeys c) s)
     | EventKeyboardText \<Rightarrow>
         (case opKeyboardText ops of
            None \<Rightarrow> plain (Some ErrNotReady, s)
          | Some send \<Rightarrow> plain (send (evText ev) s))
     | EventOther _ \<Rightarrow> plain (None, s)))"

definition handleEvent :: "'s senderOps \<Rightarrow> queuedEvent \<Rightarrow> ('s, 'cb) controller
    \<Rightarrow> 'cb revocation list \<times> ('s, 'cb) controller" where
  "handleEvent ops q c =
    (case (fmlookup (ctlOwners c) (qOwner q), ctlSender c) of
       (Some state, Some s) \<Rightarrow>
         if ctlClosed c \<or> osGeneration state \<noteq> qGeneration q then ([], c)
         else (case deliver ops (qOwner q) state (qEvent q) s c of
                 None \<Rightarrow> ([], c)
               | Some (None, c') \<Rightarrow> ([], c')
               | Some (Some err, c') \<Rightarrow>
                   (let (r1, c1) = revokeOwnerLocked ops (qOwner q) (evSequence (qEvent q)) (Some err) c';
                        (r2, c2) = revokeAllLocked ops (Some err) c1
                    in (r1 @ r2, c2)))
     | _ \<Rightarrow> ([], c))"

text \<open>The locked part of one iteration of the worker's inner loop: \<open>None\<close> when the queue is empty.\<close>

definition dequeue :: "('s, 'cb) controller \<Rightarrow> (queuedEvent \<times> ('s, 'cb) controller) option" where
  "dequeue c =
    (case ctlQueue c of
       [] \<Rightarrow> None
     | q # rest \<Rightarrow>
         Some (q, c\<lparr>ctlQueue := rest,
           ctlOwners := (case fmlookup (ctlOwners c) (qOwner q) of
                Some state \<Rightarrow>
                  if osGeneration state = qGeneration q
                  then fmupd (qOwner q) (state\<lparr>osQueued := osQueued state - 1\<rparr>) (ctlOwners c)
                  else ctlOwners c
              | None \<Rightarrow> ctlOwners c)\<rparr>))"

text \<open>
  The two reactions of \<open>watchSender\<close>, on a status read before the lock is taken; the second one
  returns the new value of the local \<open>reset\<close>.
\<close>

definition watchDone :: "'s senderOps \<Rightarrow> senderStatus \<Rightarrow> ('s, 'cb) controller
    \<Rightarrow> 'cb revocation list \<times> ('s, 'cb) controller" where
  "watchDone ops status c = Revoke ops (errorsJoin [Some ErrNotReady, ssErr status]) c"

definition watchChange :: "'s senderOps \<Rightarrow> uint64 \<Rightarrow> senderStatus \<Rightarrow> ('s, 'cb) controller
    \<Rightarrow> uint64 \<times> 'cb revocation list \<times> ('s, 'cb) controller" where
  "watchChange ops reset status c =
    (ssReset status,
     if \<not> senderReady (ctlCfg c) status \<or> ssReset status \<noteq> reset
     then Revoke ops (errorsJoin [Some ErrNotReady, ssErr status]) c else ([], c))"

section \<open>Reference counts of held keys\<close>

text \<open>
  The count of a code is the number of owners that hold it, read as a 64-bit word.  The number
  never exceeds \<open>2 ^ 64\<close>, the number of possible owners, so the tests \<open>count == 0\<close> and
  \<open>count == 1\<close> of the code are exact even at the wrap-around.
\<close>

definition encCount :: "nat \<Rightarrow> uint64 option" where
  "encCount n = (if n = 0 then None else Some (of_nat n))"

definition refsOK :: "('o \<Rightarrow> uint32 fset) \<Rightarrow> (uint64, 'o) fmap \<Rightarrow> (uint32, uint64) fmap \<Rightarrow> bool" where
  "refsOK sel owners counts =
    (\<forall>k. fmlookup counts k = encCount (fmcount (\<lambda>st. k |\<in>| sel st) owners))"

lemma fmcount_le_64: "fmcount P (m :: (uint64, 'o) fmap) \<le> 2 ^ 64"
proof -
  have "fmcount P m \<le> card (UNIV :: uint64 set)"
    unfolding fmcount_def by (rule card_mono) auto
  then show ?thesis by (simp add: card_word)
qed

lemma of_nat_eq_1_64:
  assumes "n \<le> 2 ^ 64"
  shows "(of_nat n :: uint64) = 1 \<longleftrightarrow> n = 1"
proof
  assume "(of_nat n :: uint64) = 1"
  then have "unat (of_nat n :: uint64) = 1" by simp
  then have "n mod 2 ^ 64 = 1" by (simp add: unat_of_nat)
  then show "n = 1" using assms by (cases "n = 2 ^ 64") auto
qed simp

lemma of_nat_eq_0_64:
  assumes "n < 2 ^ 64"
  shows "(of_nat n :: uint64) = 0 \<longleftrightarrow> n = 0"
proof
  assume "(of_nat n :: uint64) = 0"
  then have "unat (of_nat n :: uint64) = 0" by simp
  then show "n = 0" using assms by (simp add: unat_of_nat)
qed simp

lemma countOf_enc: "fmlookup m k = encCount n \<Longrightarrow> countOf m k = of_nat n"
  by (simp add: countOf_def encCount_def)

lemma refsOK_countOf: "refsOK sel owners counts \<Longrightarrow>
    countOf counts k = of_nat (fmcount (\<lambda>st. k |\<in>| sel st) owners)"
  by (rule countOf_enc) (simp add: refsOK_def)

definition releaseCount :: "uint32 \<Rightarrow> (uint32, uint64) fmap \<Rightarrow> (uint32, uint64) fmap" where
  "releaseCount k m = (if countOf m k = 1 then fmdrop k m else fmupd k (countOf m k - 1) m)"

lemma releaseCount_lookup:
  assumes "fmlookup m k = encCount n" "1 \<le> n" "n \<le> 2 ^ 64"
  shows "fmlookup (releaseCount k m) j = (if j = k then encCount (n - 1) else fmlookup m j)"
proof (cases "n = 1")
  case False
  then have "countOf m k \<noteq> 1" using assms by (simp add: countOf_enc of_nat_eq_1_64)
  then show ?thesis using False assms by (simp add: releaseCount_def countOf_enc encCount_def)
next
  case True
  then have "countOf m k = 1" using countOf_enc [OF assms(1)] by simp
  then show ?thesis using True by (simp add: releaseCount_def encCount_def)
qed

lemma fst_releaseCodes: "fst (fold (releaseCode send) ks (m, s)) = fold releaseCount ks m"
  by (induction ks arbitrary: m s) (auto simp: releaseCode_def releaseCount_def Let_def)

lemma fold_releaseCount:
  assumes "distinct ks" "\<forall>k. fmlookup m k = encCount (n k) \<and> n k \<le> 2 ^ 64" "\<forall>k\<in>set ks. 1 \<le> n k"
  shows "fmlookup (fold releaseCount ks m) j = encCount (n j - (if j \<in> set ks then 1 else 0))"
  using assms
proof (induction ks arbitrary: m n)
  case (Cons k ks)
  let ?n = "n(k := n k - 1)"
  have 1: "1 \<le> n k" "fmlookup m k = encCount (n k)" "n k \<le> 2 ^ 64" using Cons.prems by auto
  have "\<forall>j. fmlookup (releaseCount k m) j = encCount (?n j) \<and> ?n j \<le> 2 ^ 64"
    using Cons.prems(2) releaseCount_lookup [OF 1(2) 1(1) 1(3)]
    by (auto intro: le_trans [OF diff_le_self])
  moreover have "\<forall>j\<in>set ks. 1 \<le> ?n j" using Cons.prems by auto
  ultimately have "fmlookup (fold releaseCount ks (releaseCount k m)) j
      = encCount (?n j - (if j \<in> set ks then 1 else 0))"
    using Cons.prems(1) by (intro Cons.IH) auto
  then show ?case using Cons.prems(1) by auto
qed auto

lemma refsOK_release:
  assumes "refsOK sel owners counts" "fmlookup owners o' = Some st"
  shows "refsOK sel (fmdrop o' owners) (fst (releaseCodes send (sel st) (counts, s)))"
proof -
  let ?n = "\<lambda>k. fmcount (\<lambda>st. k |\<in>| sel st) owners"
  have pos: "\<forall>k\<in>set (sorted_list_of_fset (sel st)). 1 \<le> ?n k"
    using assms(2) fmcount_pos [OF assms(2)] by (auto simp: Suc_le_eq)
  have drop: "?n k = fmcount (\<lambda>st. k |\<in>| sel st) (fmdrop o' owners) + (if k |\<in>| sel st then 1 else 0)" for k
    using fmcount_drop [OF assms(2), of "\<lambda>st. k |\<in>| sel st"] by simp
  have look: "\<forall>k. fmlookup counts k = encCount (?n k) \<and> ?n k \<le> 2 ^ 64"
    using assms(1) fmcount_le_64 by (auto simp: refsOK_def)
  have "fmlookup (fst (releaseCodes send (sel st) (counts, s))) j =
      encCount (?n j - (if j \<in> set (sorted_list_of_fset (sel st)) then 1 else 0))" for j
    unfolding releaseCodes_def fst_releaseCodes
    by (rule fold_releaseCount [OF _ look pos]) (simp add: sorted_list_of_fset.rep_eq)
  then show ?thesis using drop by (auto simp: refsOK_def)
qed

lemma refsOK_same:
  assumes "fmlookup owners o' = Some st" "sel st' = sel st"
  shows "refsOK sel (fmupd o' st' owners) counts = refsOK sel owners counts"
proof -
  have "fmcount (\<lambda>st. k |\<in>| sel st) (fmupd o' st' owners) = fmcount (\<lambda>st. k |\<in>| sel st) owners" for k
    using fmcount_upd [OF assms(1), of "\<lambda>st. k |\<in>| sel st" st'] assms(2) by simp
  then show ?thesis by (simp add: refsOK_def)
qed

lemma refsOK_fresh:
  assumes "fmlookup owners o' = None" "sel st' = {||}"
  shows "refsOK sel (fmupd o' st' owners) counts = refsOK sel owners counts"
  using assms by (simp add: refsOK_def fmcount_upd_fresh)

lemma refsOK_press:
  assumes "refsOK sel owners counts" "fmlookup owners o' = Some st" "code |\<notin>| sel st"
    "sel st' = finsert code (sel st)"
  shows "refsOK sel (fmupd o' st' owners) (fmupd code (countOf counts code + 1) counts)"
proof -
  have "fmcount (\<lambda>st. k |\<in>| sel st) (fmupd o' st' owners)
      = fmcount (\<lambda>st. k |\<in>| sel st) owners + (if k = code then 1 else 0)" for k
    using fmcount_upd [OF assms(2), of "\<lambda>st. k |\<in>| sel st" st'] assms(3,4) by auto
  then show ?thesis
    using assms(1) refsOK_countOf [OF assms(1), of code] by (simp add: refsOK_def encCount_def)
qed

lemma refsOK_unpress:
  assumes "refsOK sel owners counts" "fmlookup owners o' = Some st" "code |\<in>| sel st"
    "sel st' = sel st |-| {|code|}"
  shows "refsOK sel (fmupd o' st' owners) (releaseCount code counts)"
proof -
  let ?n = "\<lambda>k. fmcount (\<lambda>st. k |\<in>| sel st) owners"
  have cnt: "?n k = fmcount (\<lambda>st. k |\<in>| sel st) (fmupd o' st' owners) + (if k = code then 1 else 0)" for k
    using fmcount_upd [OF assms(2), of "\<lambda>st. k |\<in>| sel st" st'] assms(3,4)
    by (cases "k = code"; cases "k |\<in>| sel st") simp_all
  have "fmlookup (releaseCount code counts) j = (if j = code then encCount (?n code - 1) else fmlookup counts j)" for j
  proof (rule releaseCount_lookup)
    show "fmlookup counts code = encCount (?n code)" using assms(1) by (simp add: refsOK_def)
    show "1 \<le> ?n code"
      using fmcount_pos [OF assms(2), of "\<lambda>st. code |\<in>| sel st"] assms(3) by simp
    show "?n code \<le> 2 ^ 64" by (rule fmcount_le_64)
  qed
  moreover have "fmcount (\<lambda>st. k |\<in>| sel st) (fmupd o' st' owners) = ?n k - (if k = code then 1 else 0)" for k
    using cnt [of k] by simp
  ultimately show ?thesis using assms(1) by (simp add: refsOK_def)
qed

lemma holders_split:
  assumes "fmlookup owners o' = Some st"
  shows "fmcount P owners = card {a. a \<noteq> o' \<and> (\<exists>st'. fmlookup owners a = Some st' \<and> P st')} + (if P st then 1 else 0)"
proof -
  have "{a. \<exists>st'. fmlookup (fmdrop o' owners) a = Some st' \<and> P st'}
      = {a. a \<noteq> o' \<and> (\<exists>st'. fmlookup owners a = Some st' \<and> P st')}" by auto
  then show ?thesis using fmcount_drop [OF assms, of P] by (simp add: fmcount_alt)
qed

lemma count_one_iff:
  assumes "refsOK sel owners counts" "fmlookup owners o' = Some st" "code |\<in>| sel st"
  shows "countOf counts code = 1 \<longleftrightarrow> {a. a \<noteq> o' \<and> (\<exists>st'. fmlookup owners a = Some st' \<and> code |\<in>| sel st')} = {}"
    (is "_ \<longleftrightarrow> ?A = {}")
proof -
  have "finite ?A" by simp
  moreover have "fmcount (\<lambda>st. code |\<in>| sel st) owners = card ?A + 1"
    using holders_split [OF assms(2), of "\<lambda>st. code |\<in>| sel st"] assms(3) by simp
  moreover have "countOf counts code = 1 \<longleftrightarrow> fmcount (\<lambda>st. code |\<in>| sel st) owners = 1"
    using refsOK_countOf [OF assms(1)] of_nat_eq_1_64 [OF fmcount_le_64] by simp
  ultimately show ?thesis by simp
qed

lemma refsOK_empty: "refsOK sel fmempty counts \<longleftrightarrow> counts = fmempty"
  by (auto simp: refsOK_def encCount_def intro: fmap_ext)

text \<open>An owner that does not hold a code leaves room for it: the count is exact below the wrap.\<close>

lemma count_zero_iff:
  assumes "refsOK sel owners counts" "fmlookup owners o' = Some st" "code |\<notin>| sel st"
  shows "countOf counts code = 0 \<longleftrightarrow> fmlookup counts code = None"
proof -
  let ?A = "{k \<in> fmdom' owners. code |\<in>| sel (the (fmlookup owners k))}"
  have "o' \<notin> ?A" using assms(2,3) by simp
  then have "?A \<subset> (UNIV :: uint64 set)" by blast
  then have "card ?A < card (UNIV :: uint64 set)" by (intro psubset_card_mono) auto
  then have "fmcount (\<lambda>st. code |\<in>| sel st) owners < 2 ^ 64"
    by (simp add: fmcount_def card_word)
  then show ?thesis
    using assms(1) refsOK_countOf [OF assms(1), of code]
    by (auto simp: refsOK_def encCount_def of_nat_eq_0_64)
qed

lemma count_zero_others:
  assumes "refsOK sel owners counts" "fmlookup owners o' = Some st" "code |\<notin>| sel st"
  shows "countOf counts code = 0 \<longleftrightarrow> {a. a \<noteq> o' \<and> (\<exists>st'. fmlookup owners a = Some st' \<and> code |\<in>| sel st')} = {}"
    (is "_ \<longleftrightarrow> ?A = {}")
proof -
  have "finite ?A" by simp
  moreover have "fmcount (\<lambda>st. code |\<in>| sel st) owners = card ?A"
    using holders_split [OF assms(2), of "\<lambda>st. code |\<in>| sel st"] assms(3) by simp
  moreover have "countOf counts code = 0 \<longleftrightarrow> fmcount (\<lambda>st. code |\<in>| sel st) owners = 0"
    using count_zero_iff [OF assms] assms(1) by (simp add: refsOK_def encCount_def)
  ultimately show ?thesis by simp
qed

section \<open>The controller invariant\<close>

definition ownQueued :: "uint64 \<Rightarrow> queuedEvent list \<Rightarrow> int" where
  "ownQueued owner qs = int (length (filter (\<lambda>q. qOwner q = owner) qs))"

text \<open>Every queued event belongs to a live lease of the same generation and to an enabled class.\<close>

definition queueLive :: "('s, 'cb) controller \<Rightarrow> bool" where
  "queueLive c = (\<forall>q\<in>set (ctlQueue c). \<exists>st. fmlookup (ctlOwners c) (qOwner q) = Some st
     \<and> osGeneration st = qGeneration q \<and> eventClassError (ctlCfg c) (evType (qEvent q)) = None)"

text \<open>\<open>queued\<close> counts the owner's queued events and never exceeds the configured size.\<close>

definition queueBounded :: "('s, 'cb) controller \<Rightarrow> bool" where
  "queueBounded c = (\<forall>owner st. fmlookup (ctlOwners c) owner = Some st \<longrightarrow>
     osQueued st = ownQueued owner (ctlQueue c) \<and> ownQueued owner (ctlQueue c) \<le> cfgQueueSize (ctlCfg c))"

definition leasesOK :: "('s, 'cb) controller \<Rightarrow> bool" where
  "leasesOK c =
    ((cfgLocking (ctlCfg c) \<longrightarrow> (\<forall>a\<in>fmdom' (ctlOwners c). \<forall>b\<in>fmdom' (ctlOwners c). a = b))
     \<and> (ctlOwners c \<noteq> fmempty \<longrightarrow> ctlSender c \<noteq> None \<and> \<not> ctlClosed c)
     \<and> ctlStop c = ctlClosed c \<and> 1 \<le> cfgQueueSize (ctlCfg c))"

definition coreInv :: "('s, 'cb) controller \<Rightarrow> bool" where
  "coreInv c = (refsOK osPressedKeys (ctlOwners c) (ctlPressedKeys c)
     \<and> refsOK osPressedButtons (ctlOwners c) (ctlPressedButtons c)
     \<and> queueLive c \<and> queueBounded c)"

definition ctlInv :: "('s, 'cb) controller \<Rightarrow> bool" where
  "ctlInv c = (coreInv c \<and> leasesOK c)"

lemmas inv_defs = ctlInv_def coreInv_def queueLive_def queueBounded_def leasesOK_def

lemma ownQueued_simps [simp]:
  "ownQueued owner [] = 0"
  "ownQueued owner (q # qs) = (if qOwner q = owner then 1 else 0) + ownQueued owner qs"
  "ownQueued owner (qs @ rs) = ownQueued owner qs + ownQueued owner rs"
  by (simp_all add: ownQueued_def)

lemma ownQueued_filter [simp]:
  "ownQueued a (filter (\<lambda>q. qOwner q \<noteq> b) qs) = (if a = b then 0 else ownQueued a qs)"
  by (induction qs) auto

subsection \<open>Fields an operation leaves alone\<close>

lemma releaseHeldLocked_frame [simp, frame]:
  "ctlOwners (releaseHeldLocked ops st c) = ctlOwners c"
  "ctlQueue (releaseHeldLocked ops st c) = ctlQueue c"
  "ctlCfg (releaseHeldLocked ops st c) = ctlCfg c"
  "ctlClosed (releaseHeldLocked ops st c) = ctlClosed c"
  "ctlStop (releaseHeldLocked ops st c) = ctlStop c"
  "ctlWake (releaseHeldLocked ops st c) = ctlWake c"
  "ctlGeneration (releaseHeldLocked ops st c) = ctlGeneration c"
  "ctlAuthorization (releaseHeldLocked ops st c) = ctlAuthorization c"
  by (simp_all add: releaseHeldLocked_def Let_def split: prod.splits)

lemma snd_releaseCodes_None: "snd (releaseCodes send held (m, s)) = None \<longleftrightarrow> s = None"
proof -
  have "snd (fold (releaseCode send) ks (m, s)) = None \<longleftrightarrow> s = None" for ks
    by (induction ks arbitrary: m s) (auto simp: releaseCode_def Let_def)
  then show ?thesis by (simp add: releaseCodes_def)
qed

lemma fst_releaseCodes_sender: "fst (releaseCodes send held (m, s)) = fst (releaseCodes send held (m, t))"
  by (simp add: releaseCodes_def fst_releaseCodes)

lemma releaseHeldLocked_counts:
  "ctlPressedKeys (releaseHeldLocked ops st c)
     = fst (releaseCodes (opKeyboardKey ops) (osPressedKeys st) (ctlPressedKeys c, ctlSender c))"
  "ctlPressedButtons (releaseHeldLocked ops st c)
     = fst (releaseCodes (opButton ops) (osPressedButtons st) (ctlPressedButtons c, ctlSender c))"
proof -
  show "ctlPressedKeys (releaseHeldLocked ops st c)
     = fst (releaseCodes (opKeyboardKey ops) (osPressedKeys st) (ctlPressedKeys c, ctlSender c))"
    by (simp add: releaseHeldLocked_def split: prod.splits)
  show "ctlPressedButtons (releaseHeldLocked ops st c)
     = fst (releaseCodes (opButton ops) (osPressedButtons st) (ctlPressedButtons c, ctlSender c))"
    by (simp add: releaseHeldLocked_def split: prod.splits) (metis fst_conv fst_releaseCodes_sender)
qed

lemma releaseHeldLocked_sender [simp]:
  "ctlSender (releaseHeldLocked ops st c) = None \<longleftrightarrow> ctlSender c = None"
proof -
  obtain k1 s1 where 1: "releaseCodes (opKeyboardKey ops) (osPressedKeys st) (ctlPressedKeys c, ctlSender c) = (k1, s1)"
    by fastforce
  obtain k2 s2 where 2: "releaseCodes (opButton ops) (osPressedButtons st) (ctlPressedButtons c, s1) = (k2, s2)"
    by fastforce
  have "s1 = None \<longleftrightarrow> ctlSender c = None" "s2 = None \<longleftrightarrow> s1 = None"
    using snd_releaseCodes_None [of "opKeyboardKey ops"] snd_releaseCodes_None [of "opButton ops"] 1 2
    by (metis snd_conv)+
  then show ?thesis using 1 2 by (simp add: releaseHeldLocked_def)
qed

lemma revokeOwnerLocked_frame [simp, frame]:
  "ctlCfg (snd (revokeOwnerLocked ops owner sq cause c)) = ctlCfg c"
  "ctlClosed (snd (revokeOwnerLocked ops owner sq cause c)) = ctlClosed c"
  "ctlStop (snd (revokeOwnerLocked ops owner sq cause c)) = ctlStop c"
  "ctlWake (snd (revokeOwnerLocked ops owner sq cause c)) = ctlWake c"
  "ctlGeneration (snd (revokeOwnerLocked ops owner sq cause c)) = ctlGeneration c"
  "ctlAuthorization (snd (revokeOwnerLocked ops owner sq cause c)) = ctlAuthorization c"
  "ctlSender (snd (revokeOwnerLocked ops owner sq cause c)) = None \<longleftrightarrow> ctlSender c = None"
  by (auto simp: revokeOwnerLocked_def Let_def split: option.splits)

lemma revokeOwnerLocked_owners [simp]:
  "ctlOwners (snd (revokeOwnerLocked ops owner sq cause c)) = fmdrop owner (ctlOwners c)"
  by (auto simp: revokeOwnerLocked_def Let_def fmdrop_idle' fmdom'_notI split: option.splits)

lemma revokeOwnerLocked_queue:
  "fmlookup (ctlOwners c) owner = Some st \<Longrightarrow>
     ctlQueue (snd (revokeOwnerLocked ops owner sq cause c)) = filter (\<lambda>q. qOwner q \<noteq> owner) (ctlQueue c)"
  by (simp add: revokeOwnerLocked_def Let_def)

lemma revokeOwnerLocked_idle: "fmlookup (ctlOwners c) owner = None \<Longrightarrow> revokeOwnerLocked ops owner sq cause c = ([], c)"
  by (simp add: revokeOwnerLocked_def)

subsection \<open>Every operation keeps the invariant\<close>

lemma revokeOwnerLocked_core:
  assumes "coreInv c"
  shows "coreInv (snd (revokeOwnerLocked ops owner sq cause c))"
proof (cases "fmlookup (ctlOwners c) owner")
  case (Some st)
  let ?c = "snd (revokeOwnerLocked ops owner sq cause c)"
  have eq: "ctlPressedKeys ?c = ctlPressedKeys (releaseHeldLocked ops st c)"
    "ctlPressedButtons ?c = ctlPressedButtons (releaseHeldLocked ops st c)"
    "ctlQueue ?c = filter (\<lambda>q. qOwner q \<noteq> owner) (ctlQueue c)"
    using Some by (simp_all add: revokeOwnerLocked_def Let_def)
  have "refsOK osPressedKeys (ctlOwners ?c) (ctlPressedKeys ?c)"
    "refsOK osPressedButtons (ctlOwners ?c) (ctlPressedButtons ?c)"
    using assms Some by (auto simp: coreInv_def eq releaseHeldLocked_counts intro: refsOK_release)
  moreover have "queueLive ?c" "queueBounded ?c"
    using assms by (auto simp: inv_defs eq)
  ultimately show ?thesis by (simp add: coreInv_def)
qed (simp add: revokeOwnerLocked_idle assms)

lemma revokeOwnerLocked_leases: "leasesOK c \<Longrightarrow> leasesOK (snd (revokeOwnerLocked ops owner sq cause c))"
  by (auto simp: leasesOK_def)

lemma revokeOwners_step:
  "snd (revokeOwners ops (owner # os) cause c) = snd (revokeOwners ops os cause (snd (revokeOwnerLocked ops owner 0 cause c)))"
  by (simp split: prod.splits)

lemma revokeOwners_core: "coreInv c \<Longrightarrow> coreInv (snd (revokeOwners ops os cause c))"
  by (induction os arbitrary: c)
    (simp_all add: revokeOwners_step revokeOwnerLocked_core del: revokeOwners.simps(2))

lemma revokeOwners_frame [simp, frame]:
  "ctlCfg (snd (revokeOwners ops os cause c)) = ctlCfg c"
  "ctlClosed (snd (revokeOwners ops os cause c)) = ctlClosed c"
  "ctlStop (snd (revokeOwners ops os cause c)) = ctlStop c"
  "ctlWake (snd (revokeOwners ops os cause c)) = ctlWake c"
  "ctlGeneration (snd (revokeOwners ops os cause c)) = ctlGeneration c"
  "ctlSender (snd (revokeOwners ops os cause c)) = None \<longleftrightarrow> ctlSender c = None"
  by (induction os arbitrary: c) (simp_all add: revokeOwners_step del: revokeOwners.simps(2))

lemma revokeOwners_lookup:
  "fmlookup (ctlOwners (snd (revokeOwners ops os cause c))) j
     = (if j \<in> set os then None else fmlookup (ctlOwners c) j)"
  by (induction os arbitrary: c) (auto simp: revokeOwners_step simp del: revokeOwners.simps(2))

lemma revokeAllLocked_core: "coreInv c \<Longrightarrow> coreInv (snd (revokeAllLocked ops cause c))"
  by (simp add: revokeAllLocked_def revokeOwners_core)

lemma revokeAllLocked_frame [simp, frame]:
  "ctlCfg (snd (revokeAllLocked ops cause c)) = ctlCfg c"
  "ctlClosed (snd (revokeAllLocked ops cause c)) = ctlClosed c"
  "ctlStop (snd (revokeAllLocked ops cause c)) = ctlStop c"
  "ctlWake (snd (revokeAllLocked ops cause c)) = ctlWake c"
  "ctlGeneration (snd (revokeAllLocked ops cause c)) = ctlGeneration c"
  "ctlSender (snd (revokeAllLocked ops cause c)) = None \<longleftrightarrow> ctlSender c = None"
  by (simp_all add: revokeAllLocked_def)

lemma revokeAllLocked_owners [simp]: "ctlOwners (snd (revokeAllLocked ops cause c)) = fmempty"
  by (rule fmap_ext) (auto simp: revokeAllLocked_def revokeOwners_lookup fmlookup_dom_iff)

lemma coreInv_no_owners:
  assumes "coreInv c" "ctlOwners c = fmempty"
  shows "ctlQueue c = []" "ctlPressedKeys c = fmempty" "ctlPressedButtons c = fmempty"
proof -
  show "ctlQueue c = []" using assms by (cases "ctlQueue c") (auto simp: inv_defs)
  show "ctlPressedKeys c = fmempty" "ctlPressedButtons c = fmempty"
    using assms by (auto simp: coreInv_def refsOK_empty)
qed

lemma revokeAllLocked_empties:
  assumes "coreInv c"
  shows "ctlQueue (snd (revokeAllLocked ops cause c)) = []"
    "ctlPressedKeys (snd (revokeAllLocked ops cause c)) = fmempty"
    "ctlPressedButtons (snd (revokeAllLocked ops cause c)) = fmempty"
  using coreInv_no_owners [OF revokeAllLocked_core [OF assms] revokeAllLocked_owners] by auto

lemma New_inv [ctl_inv]: "New cfg = Inr c \<Longrightarrow> ctlInv c"
  by (auto simp: New_def inv_defs refsOK_empty split: if_splits)

lemma Attach_inv [ctl_inv]: "ctlInv c \<Longrightarrow> ctlInv (snd (snd (Attach ops auth s c)))"
  by (auto simp: Attach_def inv_defs split: option.splits)

lemma SetUnavailable_inv [ctl_inv]: "ctlInv c \<Longrightarrow> ctlInv (SetUnavailable auth e c)"
  by (simp add: SetUnavailable_def inv_defs)

lemma Release_inv [ctl_inv]: "ctlInv c \<Longrightarrow> ctlInv (snd (Release ops owner c))"
  by (simp add: Release_def ctlInv_def revokeOwnerLocked_core revokeOwnerLocked_leases)

lemma revokeAllLocked_inv: "ctlInv c \<Longrightarrow> ctlInv (snd (revokeAllLocked ops cause c))"
  by (auto simp: ctlInv_def revokeAllLocked_core leasesOK_def)

lemma Revoke_inv [ctl_inv]: "ctlInv c \<Longrightarrow> ctlInv (snd (Revoke ops cause c))"
  by (simp add: Revoke_def revokeAllLocked_inv)

lemma coreInv_closed [simp]: "coreInv (c\<lparr>ctlClosed := b\<rparr>) = coreInv c" "coreInv (c\<lparr>ctlStop := b\<rparr>) = coreInv c"
  by (simp_all add: inv_defs)

lemma CloseLocked_inv [ctl_inv]: "ctlInv c \<Longrightarrow> ctlInv (snd (CloseLocked ops c))"
  by (auto simp: CloseLocked_def ctlInv_def revokeAllLocked_core leasesOK_def)

lemma CloseSender_inv [ctl_inv]: "ctlInv c \<Longrightarrow> ctlInv (snd (CloseSender ops c))"
  by (auto simp: CloseSender_def inv_defs split: option.splits prod.splits)

lemma watch_inv [ctl_inv]:
  "ctlInv c \<Longrightarrow> ctlInv (snd (watchDone ops status c))"
  "ctlInv c \<Longrightarrow> ctlInv (snd (snd (watchChange ops reset status c)))"
  by (simp_all add: watchDone_def watchChange_def Revoke_inv)

lemma dequeue_inv [ctl_inv]:
  assumes "ctlInv c" "dequeue c = Some (q, c')"
  shows "ctlInv c'"
proof -
  obtain rest where q: "ctlQueue c = q # rest" using assms(2) by (auto simp: dequeue_def split: list.splits)
  then obtain st where st: "fmlookup (ctlOwners c) (qOwner q) = Some st" "osGeneration st = qGeneration q"
    using assms(1) by (auto simp: inv_defs)
  have c': "c' = c\<lparr>ctlQueue := rest, ctlOwners := fmupd (qOwner q) (st\<lparr>osQueued := osQueued st - 1\<rparr>) (ctlOwners c)\<rparr>"
    using assms(2) st q by (simp add: dequeue_def)
  have inv: "refsOK osPressedKeys (ctlOwners c) (ctlPressedKeys c)"
    "refsOK osPressedButtons (ctlOwners c) (ctlPressedButtons c)" "queueLive c" "queueBounded c" "leasesOK c"
    using assms(1) by (auto simp: ctlInv_def coreInv_def)
  have "refsOK osPressedKeys (ctlOwners c') (ctlPressedKeys c')"
    "refsOK osPressedButtons (ctlOwners c') (ctlPressedButtons c')"
    using inv(1,2) by (simp_all add: c' refsOK_same [OF st(1)])
  moreover have "queueLive c'" using inv(3) q st by (auto simp: queueLive_def c')
  moreover have "queueBounded c'" using inv(4) q st by (fastforce simp: queueBounded_def c')
  moreover have "leasesOK c'" using inv(5) fmlookup_in_dom [OF st(1)] by (auto simp: leasesOK_def c')
  ultimately show ?thesis by (simp add: ctlInv_def coreInv_def)
qed

lemma Acquire_inv [ctl_inv]:
  assumes "ctlInv c"
  shows "ctlInv (snd (Acquire ops owner revoke c))"
proof -
  have inv: "refsOK osPressedKeys (ctlOwners c) (ctlPressedKeys c)"
    "refsOK osPressedButtons (ctlOwners c) (ctlPressedButtons c)" "queueLive c" "queueBounded c" "leasesOK c"
    using assms by (auto simp: ctlInv_def coreInv_def)
  show ?thesis
  proof (cases "fmlookup (ctlOwners c) owner")
    case (Some st)
    let ?c = "c\<lparr>ctlOwners := fmupd owner (st\<lparr>osRevoke := revoke\<rparr>) (ctlOwners c)\<rparr>"
    have "coreInv ?c" using inv Some
      by (auto simp: coreInv_def queueLive_def queueBounded_def refsOK_same [OF Some])
    moreover have "leasesOK ?c" using inv(5) fmlookup_in_dom [OF Some] Some by (auto simp: leasesOK_def)
    ultimately show ?thesis using Some assms
      by (auto simp: Acquire_def Let_def ctlInv_def split: option.splits)
  next
    case None
    have fresh: "ownQueued owner (ctlQueue c) = 0"
      using inv(3) None by (auto simp: queueLive_def ownQueued_def filter_empty_conv)
    have "fmdom (ctlOwners c) = {||} \<longleftrightarrow> ctlOwners c = fmempty"
      by (metis fmdom_empty fmrestrict_fset_dom fmrestrict_fset_null)
    then show ?thesis using None assms inv fresh
      by (auto simp: Acquire_def Let_def ctlInv_def coreInv_def queueLive_def queueBounded_def leasesOK_def
            refsOK_fresh split: option.splits if_splits)
  qed
qed

lemma coalesceQueue_Some:
  assumes "coalesceQueue q qs = Some qs'"
  obtains pre lst e where "qs = pre @ [lst]" "qs' = pre @ [lst\<lparr>qEvent := e\<rparr>]"
    "qOwner lst = qOwner q" "qGeneration lst = qGeneration q" "coalesce (qEvent lst) (qEvent q) = Some e"
proof -
  from assms have "qs \<noteq> []" by (auto simp: coalesceQueue_def)
  then have "qs = butlast qs @ [last qs]" by simp
  then show ?thesis using assms that [of "butlast qs" "last qs"]
    by (auto simp: coalesceQueue_def Let_def split: if_splits)
qed

lemma coalesce_type: "coalesce lst ev = Some e \<Longrightarrow> evType e = evType ev \<and> evSequence e = evSequence ev"
  by (auto simp: coalesce_def Let_def split: if_splits)

lemma Submit_inv [ctl_inv]:
  assumes "ctlInv c"
  shows "ctlInv (snd (snd (Submit ops owner ev c)))"
proof (cases "fmlookup (ctlOwners c) owner")
  case (Some st)
  note inv = assms [unfolded ctlInv_def coreInv_def]
  let ?q = "\<lparr>qOwner = owner, qGeneration = osGeneration st, qEvent = ev\<rparr>"
  show ?thesis
  proof (cases "ctlClosed c \<or> eventClassError (ctlCfg c) (evType ev) \<noteq> None")
    case False
    show ?thesis
    proof (cases "coalesceQueue ?q (ctlQueue c)")
      case (Some qs)
      then obtain pre lst e where q: "ctlQueue c = pre @ [lst]" "qs = pre @ [lst\<lparr>qEvent := e\<rparr>]"
        "qOwner lst = owner" "coalesce (qEvent lst) ev = Some e"
        by (auto elim: coalesceQueue_Some)
      have "ctlInv (c\<lparr>ctlQueue := qs\<rparr>)"
        using inv q coalesce_type [OF q(4)] False by (auto simp: inv_defs)
      then show ?thesis using False Some \<open>fmlookup (ctlOwners c) owner = _\<close>
        by (simp add: Submit_def Let_def)
    next
      case None
      let ?c = "c\<lparr>ctlQueue := ctlQueue c @ [?q],
        ctlOwners := fmupd owner (st\<lparr>osQueued := osQueued st + 1\<rparr>) (ctlOwners c), ctlWake := True\<rparr>"
      have "osQueued st < cfgQueueSize (ctlCfg c) \<Longrightarrow> coreInv ?c"
        using inv Some False by (auto simp: coreInv_def queueLive_def queueBounded_def refsOK_same [OF Some])
      moreover have "leasesOK ?c" using inv fmlookup_in_dom [OF Some] Some by (auto simp: leasesOK_def)
      ultimately show ?thesis using False None Some assms
        by (simp add: Submit_def Let_def ctlInv_def revokeOwnerLocked_core revokeOwnerLocked_leases case_prod_beta)
    qed
  qed (use Some assms in \<open>auto simp: Submit_def\<close>)
qed (use assms in \<open>simp add: Submit_def\<close>)

lemma holdTransition_refs:
  assumes "refsOK sel owners counts" "fmlookup owners o' = Some st"
    "holdTransition send code pressed (sel st) counts s = Some (err, held, counts', s')" "sel st' = held"
  shows "refsOK sel (fmupd o' st' owners) counts'"
proof -
  have un: "refsOK sel (fmupd o' st' owners) (releaseCount code counts)"
    if "code |\<in>| sel st" "sel st' = sel st |-| {|code|}"
    using refsOK_unpress [OF assms(1,2) that] .
  have pr: "refsOK sel (fmupd o' st' owners) (fmupd code (countOf counts code + 1) counts)"
    if "code |\<notin>| sel st" "sel st' = finsert code (sel st)"
    using refsOK_press [OF assms(1,2) that] .
  have sm: "refsOK sel (fmupd o' st' owners) counts" if "sel st' = sel st"
    using assms(1) refsOK_same [OF assms(2) that] by simp
  show ?thesis using assms(3,4) un pr sm
    by (auto simp: holdTransition_def Let_def releaseCount_def split: if_splits prod.splits)
qed

lemma upd_owner_inv:
  assumes "ctlInv c" "fmlookup (ctlOwners c) owner = Some st"
    "osGeneration st' = osGeneration st" "osQueued st' = osQueued st"
    "refsOK osPressedKeys (fmupd owner st' (ctlOwners c)) keys"
    "refsOK osPressedButtons (fmupd owner st' (ctlOwners c)) buttons"
  shows "ctlInv (c\<lparr>ctlOwners := fmupd owner st' (ctlOwners c), ctlPressedKeys := keys,
    ctlPressedButtons := buttons, ctlSender := Some s\<rparr>)" (is "ctlInv ?c")
proof -
  note inv = assms(1) [unfolded ctlInv_def coreInv_def]
  have "queueLive ?c" using inv assms(2,3) by (auto simp: queueLive_def)
  moreover have "queueBounded ?c" using inv assms(2,4) by (auto simp: queueBounded_def)
  moreover have "leasesOK ?c" using inv assms(2) fmlookup_in_dom [OF assms(2)] by (auto simp: leasesOK_def)
  ultimately show ?thesis using assms(5,6) by (simp add: ctlInv_def coreInv_def)
qed

lemma set_sender_inv: "ctlInv c \<Longrightarrow> ctlInv (c\<lparr>ctlSender := Some s\<rparr>)"
  by (auto simp: inv_defs)

lemma deliver_inv:
  assumes "ctlInv c" "fmlookup (ctlOwners c) owner = Some st" "deliver ops owner st ev s c = Some (err, c')"
  shows "ctlInv c'"
proof -
  note refs = assms(1) [unfolded ctlInv_def coreInv_def]
  have key: "ctlInv (c\<lparr>ctlOwners := fmupd owner (st\<lparr>osPressedKeys := held\<rparr>) (ctlOwners c),
      ctlPressedKeys := counts, ctlSender := Some s'\<rparr>)"
    if "holdTransition (opKeyboardKey ops) k p (osPressedKeys st) (ctlPressedKeys c) s = Some (e, held, counts, s')"
    for k p e held counts s'
    using upd_owner_inv [OF assms(1,2), of "st\<lparr>osPressedKeys := held\<rparr>" counts "ctlPressedButtons c" s']
      holdTransition_refs [where sel = osPressedKeys, OF _ assms(2) that] refs
    by (simp add: refsOK_same [OF assms(2)])
  have button: "ctlInv (c\<lparr>ctlOwners := fmupd owner (st\<lparr>osPressedButtons := held\<rparr>) (ctlOwners c),
      ctlPressedButtons := counts, ctlSender := Some s'\<rparr>)"
    if "holdTransition (opButton ops) k p (osPressedButtons st) (ctlPressedButtons c) s = Some (e, held, counts, s')"
    for k p e held counts s'
    using upd_owner_inv [OF assms(1,2), of "st\<lparr>osPressedButtons := held\<rparr>" "ctlPressedKeys c" counts s']
      holdTransition_refs [where sel = osPressedButtons, OF _ assms(2) that] refs
    by (simp add: refsOK_same [OF assms(2)])
  show ?thesis using assms(3) key button set_sender_inv [OF assms(1)]
    by (auto simp: deliver_def Let_def split: eventType.splits option.splits prod.splits)
qed

lemma handleEvent_inv [ctl_inv]:
  fixes c :: "('a, 'b) controller"
  assumes "ctlInv c"
  shows "ctlInv (snd (handleEvent ops q c))"
proof -
  have fail: "ctlInv (snd (revokeAllLocked ops e (snd (revokeOwnerLocked ops (qOwner q) sq e' c'))))"
    if "ctlInv c'" for c' :: "('a, 'b) controller" and e e' sq
    using that revokeAllLocked_inv [of "snd (revokeOwnerLocked ops (qOwner q) sq e' c')"]
    by (simp add: ctlInv_def revokeOwnerLocked_core revokeOwnerLocked_leases)
  show ?thesis using assms deliver_inv [OF assms]
    by (auto simp: handleEvent_def Let_def case_prod_beta fail split: option.splits)
qed

section \<open>What the sender has been told\<close>

text \<open>
  The sender's keys against the keys that have a count, related by \<open>R\<close>: equality between
  operations, inclusion while a failed delivery is being revoked.
\<close>

type_synonym codeRel = "uint32 set \<Rightarrow> uint32 set \<Rightarrow> bool"

definition delStable :: "codeRel \<Rightarrow> bool" where
  "delStable R = (\<forall>A B k. R A B \<longrightarrow> R (A - {k}) (B - {k}))"

lemma delStable_eq: "delStable (=)" and delStable_subset: "delStable (\<subseteq>)"
  by (auto simp: delStable_def)

definition tracksBy :: "codeRel \<Rightarrow> ('s \<Rightarrow> uint32 set) \<Rightarrow> ('s \<Rightarrow> uint32 set) \<Rightarrow> ('s, 'cb) controller \<Rightarrow> bool" where
  "tracksBy R keysDown buttonsDown c = (\<forall>s. ctlSender c = Some s \<longrightarrow>
     R (keysDown s) (fmdom' (ctlPressedKeys c)) \<and> R (buttonsDown s) (fmdom' (ctlPressedButtons c)))"

lemma releaseCode_down:
  assumes rel: "\<And>k s. down (snd (send k False s)) = down s - {k}" "\<And>k s. other (snd (send k False s)) = other s"
    and "delStable R" "R (down s) (fmdom' m)" "k \<in> fmdom' m" "releaseCode send k (m, Some s) = (m', s1)"
  shows "\<exists>s'. s1 = Some s' \<and> other s' = other s \<and> R (down s') (fmdom' m') \<and> fmdom' m - {k} \<subseteq> fmdom' m'"
proof (cases "countOf m k = 1")
  case True
  then show ?thesis using assms(3-) by (auto simp: releaseCode_def Let_def rel delStable_def)
next
  case False
  moreover have "insert k (fmdom' m) = fmdom' m" using assms(5) by auto
  ultimately show ?thesis using assms(3-) by (auto simp: releaseCode_def Let_def)
qed

lemma releaseCodes_down:
  assumes rel: "\<And>k s. down (snd (send k False s)) = down s - {k}" "\<And>k s. other (snd (send k False s)) = other s"
    and R: "delStable R" and "R (down s) (fmdom' m)" "fset held \<subseteq> fmdom' m" "releaseCodes send held (m, Some s) = (m', s1)"
  shows "\<exists>s'. s1 = Some s' \<and> other s' = other s \<and> R (down s') (fmdom' m')"
proof -
  have "fold (releaseCode send) ks (m, Some s) = (m', s1) \<Longrightarrow> R (down s) (fmdom' m) \<Longrightarrow> distinct ks \<Longrightarrow>
      set ks \<subseteq> fmdom' m \<Longrightarrow> ?thesis" for ks
  proof (induction ks arbitrary: m s)
    case (Cons k ks)
    obtain m2 s2 where 1: "releaseCode send k (m, Some s) = (m2, s2)" by fastforce
    then obtain s2' where 2: "s2 = Some s2'" "other s2' = other s" "R (down s2') (fmdom' m2)" "fmdom' m - {k} \<subseteq> fmdom' m2"
      using releaseCode_down [where send = send and down = down and other = other, OF rel R _ _ 1] Cons.prems
      by auto
    have "\<exists>s'. s1 = Some s' \<and> other s' = other s2' \<and> R (down s') (fmdom' m')"
      by (rule Cons.IH [where m = m2 and s = s2']) (use 1 2 Cons.prems in auto)
    then show ?case using 2 by auto
  qed auto
  then show ?thesis using assms(4-) by (simp add: releaseCodes_def sorted_list_of_fset.rep_eq)
qed

lemma refsOK_dom:
  assumes "refsOK sel owners counts"
  shows "fmdom' counts = {k. \<exists>o' st. fmlookup owners o' = Some st \<and> k |\<in>| sel st}"
proof (rule set_eqI)
  fix k
  have "k \<in> fmdom' counts \<longleftrightarrow> fmcount (\<lambda>st. k |\<in>| sel st) owners \<noteq> 0"
    using assms by (simp add: refsOK_def encCount_def fmlookup_dom'_iff)
  then show "k \<in> fmdom' counts \<longleftrightarrow> k \<in> {k. \<exists>o' st. fmlookup owners o' = Some st \<and> k |\<in>| sel st}"
    by (simp add: fmcount_zero_iff)
qed

lemma refsOK_held_dom:
  assumes "refsOK sel owners counts" "fmlookup owners o' = Some st"
  shows "fset (sel st) \<subseteq> fmdom' counts"
proof
  fix k assume "k |\<in>| sel st"
  then have "0 < fmcount (\<lambda>st. k |\<in>| sel st) owners" using fmcount_pos [OF assms(2)] by auto
  then show "k \<in> fmdom' counts" using assms(1) by (auto simp: refsOK_def encCount_def fmlookup_dom'_iff)
qed

text \<open>
  The contract of a sender as far as held keys are concerned: which keys and buttons are down
  after a call.  A successful press puts the code down, a failed press does not, a release lifts it
  (the controller forgets a key whose release fails), and no other call changes anything.
\<close>

locale tracked_sender =
  fixes ops :: "'s senderOps"
    and keysDown :: "'s \<Rightarrow> uint32 set"
    and buttonsDown :: "'s \<Rightarrow> uint32 set"
  assumes key_press: "keysDown (snd (opKeyboardKey ops k True s))
      = (if fst (opKeyboardKey ops k True s) = None then insert k (keysDown s) else keysDown s)"
    and key_release: "keysDown (snd (opKeyboardKey ops k False s)) = keysDown s - {k}"
    and key_buttons: "buttonsDown (snd (opKeyboardKey ops k p s)) = buttonsDown s"
    and button_press: "buttonsDown (snd (opButton ops k True s))
      = (if fst (opButton ops k True s) = None then insert k (buttonsDown s) else buttonsDown s)"
    and button_release: "buttonsDown (snd (opButton ops k False s)) = buttonsDown s - {k}"
    and button_keys: "keysDown (snd (opButton ops k p s)) = keysDown s"
    and absolute: "keysDown (snd (opPointerAbsolute ops x y s)) = keysDown s"
      "buttonsDown (snd (opPointerAbsolute ops x y s)) = buttonsDown s"
    and relative: "keysDown (snd (opPointerRelative ops x y s)) = keysDown s"
      "buttonsDown (snd (opPointerRelative ops x y s)) = buttonsDown s"
    and scroll: "keysDown (snd (opScroll ops x y h v s)) = keysDown s"
      "buttonsDown (snd (opScroll ops x y h v s)) = buttonsDown s"
    and committed: "opKeyboardText ops = Some f \<Longrightarrow> keysDown (snd (f t s)) = keysDown s"
      "opKeyboardText ops = Some f \<Longrightarrow> buttonsDown (snd (f t s)) = buttonsDown s"
    and close: "keysDown (snd (opClose ops s)) = keysDown s" "buttonsDown (snd (opClose ops s)) = buttonsDown s"
begin

lemma releaseHeldLocked_tracks:
  assumes R: "delStable R" and "coreInv c" "fmlookup (ctlOwners c) owner = Some st" "tracksBy R keysDown buttonsDown c"
  shows "tracksBy R keysDown buttonsDown (releaseHeldLocked ops st c)"
proof (cases "ctlSender c")
  case (Some s)
  have held: "fset (osPressedKeys st) \<subseteq> fmdom' (ctlPressedKeys c)" "fset (osPressedButtons st) \<subseteq> fmdom' (ctlPressedButtons c)"
    using assms(2,3) by (auto simp: coreInv_def dest: refsOK_held_dom)
  have down: "R (keysDown s) (fmdom' (ctlPressedKeys c))" "R (buttonsDown s) (fmdom' (ctlPressedButtons c))"
    using assms(4) Some by (auto simp: tracksBy_def)
  obtain k1 t1 where 1: "releaseCodes (opKeyboardKey ops) (osPressedKeys st) (ctlPressedKeys c, Some s) = (k1, t1)"
    by fastforce
  then obtain s1 where s1: "t1 = Some s1" "buttonsDown s1 = buttonsDown s" "R (keysDown s1) (fmdom' k1)"
    using releaseCodes_down [where send = "opKeyboardKey ops" and down = keysDown and other = buttonsDown,
        OF key_release key_buttons R down(1) held(1)] by blast
  obtain k2 t2 where 2: "releaseCodes (opButton ops) (osPressedButtons st) (ctlPressedButtons c, Some s1) = (k2, t2)"
    by fastforce
  have "R (buttonsDown s1) (fmdom' (ctlPressedButtons c))" using s1 down by simp
  then obtain s2 where "t2 = Some s2" "keysDown s2 = keysDown s1" "R (buttonsDown s2) (fmdom' k2)"
    using releaseCodes_down [where send = "opButton ops" and down = buttonsDown and other = keysDown,
        OF button_release button_keys R _ held(2)] 2 by blast
  then show ?thesis using 1 2 s1 Some by (simp add: releaseHeldLocked_def tracksBy_def)
next
  case None
  then have "ctlSender (releaseHeldLocked ops st c) = None" by simp
  then show ?thesis by (simp add: tracksBy_def del: releaseHeldLocked_sender)
qed

lemma revokeOwnerLocked_tracks:
  assumes "delStable R" "coreInv c" "tracksBy R keysDown buttonsDown c"
  shows "tracksBy R keysDown buttonsDown (snd (revokeOwnerLocked ops owner sq cause c))"
proof (cases "fmlookup (ctlOwners c) owner")
  case (Some st)
  then have "tracksBy R keysDown buttonsDown (releaseHeldLocked ops st c)"
    using releaseHeldLocked_tracks assms by blast
  then show ?thesis using Some by (simp add: revokeOwnerLocked_def Let_def tracksBy_def)
qed (simp add: revokeOwnerLocked_idle assms)

lemma revokeAllLocked_tracks:
  assumes "delStable R" "coreInv c" "tracksBy R keysDown buttonsDown c"
  shows "tracksBy R keysDown buttonsDown (snd (revokeAllLocked ops cause c))"
proof -
  have "tracksBy R keysDown buttonsDown (snd (revokeOwners ops os cause c))" for os
    using assms by (induction os arbitrary: c)
      (simp_all add: revokeOwners_step revokeOwnerLocked_core revokeOwnerLocked_tracks del: revokeOwners.simps(2))
  then show ?thesis by (simp add: revokeAllLocked_def)
qed

text \<open>
  One transition of a code: on success the sender and the counts agree again; on failure the
  sender holds no more than the counts say, and the revocation that follows makes up for it.
\<close>

lemma holdTransition_down:
  assumes "\<And>k s. down (snd (send k False s)) = down s - {k}" "\<And>k p s. other (snd (send k p s)) = other s"
    "\<And>k s. down (snd (send k True s)) = (if fst (send k True s) = None then insert k (down s) else down s)"
    "down s = fmdom' counts" "refsOK sel owners counts" "fmlookup owners o' = Some st"
    "holdTransition send code pressed (sel st) counts s = Some (err, held, counts', s')"
  shows "other s' = other s" "err = None \<Longrightarrow> down s' = fmdom' counts'" "down s' \<subseteq> fmdom' counts'"
proof -
  have held: "code |\<in>| sel st \<Longrightarrow> insert code (fmdom' counts) = fmdom' counts"
    using refsOK_held_dom [OF assms(5,6)] by auto
  have zero: "code |\<notin>| sel st \<Longrightarrow> countOf counts code \<noteq> 0 \<Longrightarrow> code \<in> fmdom' counts"
    using count_zero_iff [OF assms(5,6)] by (auto simp: fmlookup_dom'_iff)
  note facts = assms(1-4,7) held zero
  show "other s' = other s" using facts
    by (auto simp: holdTransition_def Let_def case_prod_beta split: if_splits)
  show "err = None \<Longrightarrow> down s' = fmdom' counts'" using facts
    by (auto simp: holdTransition_def Let_def case_prod_beta split: if_splits)
  show "down s' \<subseteq> fmdom' counts'" using facts
    by (auto simp: holdTransition_def Let_def case_prod_beta split: if_splits)
qed

lemma deliver_tracks:
  assumes "ctlInv c" "tracksBy (=) keysDown buttonsDown c" "ctlSender c = Some s"
    "fmlookup (ctlOwners c) owner = Some st" "deliver ops owner st ev s c = Some (err, c')"
  shows "tracksBy (\<subseteq>) keysDown buttonsDown c'" "err = None \<Longrightarrow> tracksBy (=) keysDown buttonsDown c'"
proof -
  have refs: "refsOK osPressedKeys (ctlOwners c) (ctlPressedKeys c)" "refsOK osPressedButtons (ctlOwners c) (ctlPressedButtons c)"
    using assms(1) by (auto simp: ctlInv_def coreInv_def)
  have down: "keysDown s = fmdom' (ctlPressedKeys c)" "buttonsDown s = fmdom' (ctlPressedButtons c)"
    using assms(2,3) by (auto simp: tracksBy_def)
  note key = holdTransition_down [where send = "opKeyboardKey ops" and down = keysDown and other = buttonsDown,
      OF key_release key_buttons key_press down(1) refs(1) assms(4)]
  note button = holdTransition_down [where send = "opButton ops" and down = buttonsDown and other = keysDown,
      OF button_release button_keys button_press down(2) refs(2) assms(4)]
  note plain = absolute relative scroll committed down
  have "tracksBy (\<subseteq>) keysDown buttonsDown c' \<and> (err = None \<longrightarrow> tracksBy (=) keysDown buttonsDown c')"
  proof (cases "evType ev")
    case EventPointerButton
    then show ?thesis using assms(5) button down by (fastforce simp: deliver_def tracksBy_def)
  next
    case EventKeyboardKey
    then show ?thesis using assms(5) key down by (fastforce simp: deliver_def tracksBy_def)
  qed (use assms(5) plain in \<open>auto simp: deliver_def tracksBy_def case_prod_beta Let_def split: option.splits\<close>)
  then show "tracksBy (\<subseteq>) keysDown buttonsDown c'" "err = None \<Longrightarrow> tracksBy (=) keysDown buttonsDown c'" by auto
qed

lemma fail_tracks:
  assumes "ctlInv c" "tracksBy (\<subseteq>) keysDown buttonsDown c"
  shows "tracksBy (=) keysDown buttonsDown (snd (revokeAllLocked ops e (snd (revokeOwnerLocked ops owner sq e' c))))"
    (is "tracksBy (=) keysDown buttonsDown ?c")
proof -
  let ?c1 = "snd (revokeOwnerLocked ops owner sq e' c)"
  have core: "coreInv ?c1" using assms(1) by (simp add: ctlInv_def revokeOwnerLocked_core)
  have "tracksBy (\<subseteq>) keysDown buttonsDown ?c1"
    using assms by (intro revokeOwnerLocked_tracks) (auto simp: delStable_subset ctlInv_def)
  then have "tracksBy (\<subseteq>) keysDown buttonsDown ?c"
    using core by (intro revokeAllLocked_tracks) (auto simp: delStable_subset)
  then show ?thesis using revokeAllLocked_empties [OF core] by (auto simp: tracksBy_def)
qed

lemma handleEvent_tracks:
  assumes "ctlInv c" "tracksBy (=) keysDown buttonsDown c"
  shows "tracksBy (=) keysDown buttonsDown (snd (handleEvent ops q c))"
  using assms deliver_tracks [OF assms] deliver_inv [OF assms(1)]
  by (auto simp: handleEvent_def Let_def case_prod_beta fail_tracks split: option.splits)

lemma Submit_tracks:
  assumes "ctlInv c" "tracksBy (=) keysDown buttonsDown c"
  shows "tracksBy (=) keysDown buttonsDown (snd (snd (Submit ops owner ev c)))"
proof -
  have "tracksBy (=) keysDown buttonsDown (snd (revokeOwnerLocked ops owner sq cause c))" for sq cause
    using assms by (intro revokeOwnerLocked_tracks) (auto simp: delStable_eq ctlInv_def)
  then show ?thesis using assms
    by (auto simp: Submit_def Let_def case_prod_beta tracksBy_def split: option.splits)
qed

lemma Release_tracks:
  "ctlInv c \<Longrightarrow> tracksBy (=) keysDown buttonsDown c \<Longrightarrow> tracksBy (=) keysDown buttonsDown (snd (Release ops owner c))"
  by (auto simp: Release_def ctlInv_def intro: revokeOwnerLocked_tracks delStable_eq)

lemma Revoke_tracks:
  "ctlInv c \<Longrightarrow> tracksBy (=) keysDown buttonsDown c \<Longrightarrow> tracksBy (=) keysDown buttonsDown (snd (Revoke ops cause c))"
  by (auto simp: Revoke_def ctlInv_def intro: revokeAllLocked_tracks delStable_eq)

lemma watch_tracks:
  "ctlInv c \<Longrightarrow> tracksBy (=) keysDown buttonsDown c \<Longrightarrow> tracksBy (=) keysDown buttonsDown (snd (watchDone ops st c))"
  "ctlInv c \<Longrightarrow> tracksBy (=) keysDown buttonsDown c \<Longrightarrow> tracksBy (=) keysDown buttonsDown (snd (snd (watchChange ops r st c)))"
  by (auto simp: watchDone_def watchChange_def intro: Revoke_tracks)

lemma Acquire_tracks:
  "tracksBy (=) keysDown buttonsDown c \<Longrightarrow> tracksBy (=) keysDown buttonsDown (snd (Acquire ops owner cb c))"
  by (auto simp: Acquire_def Let_def tracksBy_def split: option.splits)

lemma CloseLocked_tracks:
  assumes "ctlInv c" "tracksBy (=) keysDown buttonsDown c"
  shows "tracksBy (=) keysDown buttonsDown (snd (CloseLocked ops c))"
proof -
  have "tracksBy (=) keysDown buttonsDown (snd (revokeAllLocked ops None (c\<lparr>ctlClosed := True\<rparr>)))"
    using assms by (intro revokeAllLocked_tracks) (auto simp: delStable_eq ctlInv_def tracksBy_def)
  then show ?thesis using assms by (simp add: CloseLocked_def tracksBy_def)
qed

lemma CloseSender_tracks:
  "tracksBy (=) keysDown buttonsDown c \<Longrightarrow> tracksBy (=) keysDown buttonsDown (snd (CloseSender ops c))"
  by (auto simp: CloseSender_def tracksBy_def case_prod_beta close split: option.splits)

lemma dequeue_tracks:
  "dequeue c = Some (q, c') \<Longrightarrow> tracksBy (=) keysDown buttonsDown c \<Longrightarrow> tracksBy (=) keysDown buttonsDown c'"
  by (auto simp: dequeue_def tracksBy_def split: list.splits option.splits)

end

subsection \<open>A sender that records its calls\<close>

text \<open>
  Any sender, extended by the trace of its calls (newest first) with their success.  It satisfies
  the contract above, with the keys read off the trace, whatever the underlying sender does.
\<close>

datatype senderCall = CallKey uint32 bool | CallButton uint32 bool | CallMotion | CallText string | CallClose

type_synonym callTrace = "(senderCall \<times> bool) list"

definition recordCall :: "senderCall \<Rightarrow> 's call \<Rightarrow> ('s \<times> callTrace) call" where
  "recordCall cl f = (\<lambda>(s, tr). let (err, s') = f s in (err, (s', (cl, err = None) # tr)))"

definition recorded :: "'s senderOps \<Rightarrow> ('s \<times> callTrace) senderOps" where
  "recorded ops =
    \<lparr>opStatus = opStatus ops \<circ> fst,
     opPointerAbsolute = (\<lambda>x y. recordCall CallMotion (opPointerAbsolute ops x y)),
     opPointerRelative = (\<lambda>x y. recordCall CallMotion (opPointerRelative ops x y)),
     opButton = (\<lambda>k p. recordCall (CallButton k p) (opButton ops k p)),
     opScroll = (\<lambda>x y h v. recordCall CallMotion (opScroll ops x y h v)),
     opKeyboardKey = (\<lambda>k p. recordCall (CallKey k p) (opKeyboardKey ops k p)),
     opKeyboardText = map_option (\<lambda>f t. recordCall (CallText t) (f t)) (opKeyboardText ops),
     opClose = recordCall CallClose (opClose ops)\<rparr>"

fun downKeys :: "callTrace \<Rightarrow> uint32 set" where
  "downKeys [] = {}"
| "downKeys ((CallKey k p, ok) # tr) =
    (if \<not> p then downKeys tr - {k} else if ok then insert k (downKeys tr) else downKeys tr)"
| "downKeys (_ # tr) = downKeys tr"

fun downButtons :: "callTrace \<Rightarrow> uint32 set" where
  "downButtons [] = {}"
| "downButtons ((CallButton k p, ok) # tr) =
    (if \<not> p then downButtons tr - {k} else if ok then insert k (downButtons tr) else downButtons tr)"
| "downButtons (_ # tr) = downButtons tr"

interpretation recsender: tracked_sender "recorded ops" "downKeys \<circ> snd" "downButtons \<circ> snd"
  by unfold_locales (auto simp: recorded_def recordCall_def case_prod_beta Let_def)

section \<open>The controller and its goroutines\<close>

text \<open>
  The worker goroutine is between iterations of its \<open>select\<close>, inside the drain loop, or holding
  an event it has taken off the queue but not yet delivered; \<open>sysWatch\<close> is the value of
  \<open>reset\<close> in the goroutine that watches the attached sender.
\<close>

datatype worker = Idle | Draining | Handling queuedEvent | Stopped

record ('s, 'cb) inputSystem =
  sysCtl :: "('s \<times> callTrace, 'cb) controller"
  sysWorker :: worker
  sysWatch :: "uint64 option"

inductive workerStep :: "'s senderOps \<Rightarrow> ('s, 'cb) inputSystem \<Rightarrow> ('s, 'cb) inputSystem \<Rightarrow> bool" for ops where
  wake: "sysWorker sys = Idle \<Longrightarrow> ctlWake (sysCtl sys) \<Longrightarrow>
    workerStep ops sys (sys\<lparr>sysWorker := Draining, sysCtl := (sysCtl sys)\<lparr>ctlWake := False\<rparr>\<rparr>)"
| stop: "sysWorker sys = Idle \<Longrightarrow> ctlStop (sysCtl sys) \<Longrightarrow> workerStep ops sys (sys\<lparr>sysWorker := Stopped\<rparr>)"
| drained: "sysWorker sys = Draining \<Longrightarrow> dequeue (sysCtl sys) = None \<Longrightarrow> workerStep ops sys (sys\<lparr>sysWorker := Idle\<rparr>)"
| take: "sysWorker sys = Draining \<Longrightarrow> dequeue (sysCtl sys) = Some (q, c') \<Longrightarrow>
    workerStep ops sys (sys\<lparr>sysWorker := Handling q, sysCtl := c'\<rparr>)"
| handle: "sysWorker sys = Handling q \<Longrightarrow> handleEvent (recorded ops) q (sysCtl sys) = (revs, c') \<Longrightarrow>
    workerStep ops sys (sys\<lparr>sysWorker := Draining, sysCtl := c'\<rparr>)"

text \<open>The controller's methods, each one critical section, as any goroutine may call them.\<close>

inductive methodStep :: "'s senderOps \<Rightarrow> ('s, 'cb) controller \<Rightarrow> ('s, 'cb) controller \<Rightarrow> bool" for ops where
  unavailable: "methodStep ops c (SetUnavailable auth err c)"
| acquire: "methodStep ops c (snd (Acquire ops owner cb c))"
| submit: "methodStep ops c (snd (snd (Submit ops owner ev c)))"
| release: "methodStep ops c (snd (Release ops owner c))"
| revoke: "methodStep ops c (snd (Revoke ops cause c))"
| close: "methodStep ops c (snd (CloseLocked ops c))"
| closeSender: "ctlClosed c \<Longrightarrow> methodStep ops c (snd (CloseSender ops c))"

text \<open>
  All interleavings: method calls, the worker, the attachment of a fresh sender, the watcher (with
  any status it may have read), and the sender's own state, which changes at any time.
\<close>

inductive inputStep :: "'s senderOps \<Rightarrow> ('s, 'cb) inputSystem \<Rightarrow> ('s, 'cb) inputSystem \<Rightarrow> bool" for ops where
  worker: "workerStep ops sys sys' \<Longrightarrow> inputStep ops sys sys'"
| call: "methodStep (recorded ops) (sysCtl sys) c' \<Longrightarrow> inputStep ops sys (sys\<lparr>sysCtl := c'\<rparr>)"
| attach: "Attach (recorded ops) auth (Some (s, [])) (sysCtl sys) = (None, rejected, c') \<Longrightarrow>
    inputStep ops sys (sys\<lparr>sysCtl := c', sysWatch := Some (ssReset (opStatus ops s))\<rparr>)"
| watchDone: "sysWatch sys = Some reset \<Longrightarrow>
    inputStep ops sys (sys\<lparr>sysCtl := snd (watchDone (recorded ops) status (sysCtl sys)), sysWatch := None\<rparr>)"
| watchChange: "sysWatch sys = Some reset \<Longrightarrow>
    watchChange (recorded ops) reset status (sysCtl sys) = (reset', revs, c') \<Longrightarrow>
    inputStep ops sys (sys\<lparr>sysCtl := c', sysWatch := Some reset'\<rparr>)"
| watchStop: "ctlStop (sysCtl sys) \<Longrightarrow> inputStep ops sys (sys\<lparr>sysWatch := None\<rparr>)"
| senderMoves: "ctlSender (sysCtl sys) = Some (s, tr) \<Longrightarrow>
    inputStep ops sys (sys\<lparr>sysCtl := (sysCtl sys)\<lparr>ctlSender := Some (s', tr)\<rparr>\<rparr>)"

inductive inputReach :: "'s senderOps \<Rightarrow> inputConfig \<Rightarrow> ('s, 'cb) inputSystem \<Rightarrow> bool" for ops cfg where
  init: "New cfg = Inr c \<Longrightarrow> inputReach ops cfg \<lparr>sysCtl = c, sysWorker = Idle, sysWatch = None\<rparr>"
| step: "inputReach ops cfg sys \<Longrightarrow> inputStep ops sys sys' \<Longrightarrow> inputReach ops cfg sys'"

definition sysInv :: "('s, 'cb) inputSystem \<Rightarrow> bool" where
  "sysInv sys = (ctlInv (sysCtl sys) \<and> tracksBy (=) (downKeys \<circ> snd) (downButtons \<circ> snd) (sysCtl sys))"

lemma ctlInv_no_sender: "ctlInv c \<Longrightarrow> ctlSender c = None \<Longrightarrow> ctlPressedKeys c = fmempty \<and> ctlPressedButtons c = fmempty"
  using coreInv_no_owners [of c] by (auto simp: ctlInv_def leasesOK_def)

lemma Attach_tracks:
  assumes "ctlInv c" "Attach (recorded ops) auth (Some (s, [])) c = (None, cl, c')"
  shows "tracksBy (=) (downKeys \<circ> snd) (downButtons \<circ> snd) c'"
  using assms ctlInv_no_sender [OF assms(1)]
  by (cases "ctlSender c") (auto simp: Attach_def tracksBy_def split: if_splits)

lemma workerStep_sysInv:
  assumes "workerStep ops sys sys'" "sysInv sys"
  shows "sysInv sys'"
  using assms
proof cases
  case wake
  then show ?thesis using assms(2) by (auto simp: sysInv_def inv_defs tracksBy_def)
next
  case (take q c')
  then show ?thesis using assms(2) by (auto simp: sysInv_def intro: dequeue_inv recsender.dequeue_tracks)
next
  case (handle q revs c')
  then have "c' = snd (handleEvent (recorded ops) q (sysCtl sys))" by simp
  then show ?thesis using handle(1) assms(2)
    by (simp add: sysInv_def handleEvent_inv recsender.handleEvent_tracks)
qed (use assms(2) in \<open>simp_all add: sysInv_def\<close>)

lemma methodStep_inv:
  assumes "methodStep (recorded ops) c c'" "ctlInv c" "tracksBy (=) (downKeys \<circ> snd) (downButtons \<circ> snd) c"
  shows "ctlInv c' \<and> tracksBy (=) (downKeys \<circ> snd) (downButtons \<circ> snd) c'"
  using assms
proof cases
  case (unavailable auth err)
  then show ?thesis using assms(2,3) by (simp add: SetUnavailable_inv) (simp add: SetUnavailable_def tracksBy_def)
qed (use assms(2,3) in \<open>simp_all add: ctl_inv recsender.Acquire_tracks recsender.Submit_tracks recsender.Release_tracks
      recsender.Revoke_tracks recsender.CloseLocked_tracks recsender.CloseSender_tracks\<close>)

lemma watchChange_method:
  "methodStep ops c (snd (snd (watchChange ops r st c))) \<or> snd (snd (watchChange ops r st c)) = c"
  by (auto simp: watchChange_def intro: methodStep.revoke)

lemma watchDone_method: "methodStep ops c (snd (watchDone ops st c))"
  by (simp add: watchDone_def methodStep.revoke)

text \<open>A step that is not the worker's is a method call, an attachment, or leaves all but the sender alone.\<close>

lemma inputStep_elim:
  assumes "inputStep ops sys sys'"
  obtains (worker) "workerStep ops sys sys'"
  | (call) "sysWorker sys' = sysWorker sys" "methodStep (recorded ops) (sysCtl sys) (sysCtl sys')"
  | (attach) auth s r where "sysWorker sys' = sysWorker sys"
      "Attach (recorded ops) auth (Some (s, [])) (sysCtl sys) = (None, r, sysCtl sys')"
  | (same) "sysWorker sys' = sysWorker sys" "sysCtl sys' = sysCtl sys"
  | (sender) s tr s' where "sysWorker sys' = sysWorker sys" "ctlSender (sysCtl sys) = Some (s, tr)"
      "sysCtl sys' = (sysCtl sys)\<lparr>ctlSender := Some (s', tr)\<rparr>"
  using assms
proof cases
  case (watchChange reset status reset' revs c')
  then have "c' = snd (snd (Input_Controller.watchChange (recorded ops) reset status (sysCtl sys)))" by simp
  then show ?thesis using watchChange(1) watchChange_method [of "recorded ops" "sysCtl sys" reset status] same call
    by auto
qed (auto simp: watchDone_method intro: that)

lemma inputStep_sysInv:
  assumes "inputStep ops sys sys'" "sysInv sys"
  shows "sysInv sys'"
  using assms(1)
proof (cases rule: inputStep_elim)
  case (attach auth s r)
  then have "sysCtl sys' = snd (snd (Attach (recorded ops) auth (Some (s, [])) (sysCtl sys)))" by simp
  then show ?thesis using attach assms(2) Attach_inv Attach_tracks by (metis sysInv_def)
next
  case (sender s tr s')
  then show ?thesis using assms(2) by (auto simp: sysInv_def set_sender_inv tracksBy_def)
qed (use assms(2) in \<open>auto simp: sysInv_def workerStep_sysInv [unfolded sysInv_def] dest: methodStep_inv\<close>)

lemma inputReach_sysInv: "inputReach ops cfg sys \<Longrightarrow> sysInv sys"
proof (induction rule: inputReach.induct)
  case (init c)
  then have "ctlInv c" "ctlSender c = None" by (auto simp: New_inv) (auto simp: New_def split: if_splits)
  then show ?case by (simp add: sysInv_def tracksBy_def)
qed (rule inputStep_sysInv)

subsection \<open>The worker is woken and stops\<close>

definition wakeOK :: "('s, 'cb) controller \<Rightarrow> bool" where
  "wakeOK c = (ctlQueue c \<noteq> [] \<longrightarrow> ctlWake c)"

lemma revokeOwnerLocked_queue_empty:
  "ctlQueue c = [] \<Longrightarrow> ctlQueue (snd (revokeOwnerLocked ops owner sq cause c)) = []"
  by (simp add: revokeOwnerLocked_def Let_def split: option.splits)

lemma revokeAllLocked_queue_empty: "ctlQueue c = [] \<Longrightarrow> ctlQueue (snd (revokeAllLocked ops cause c)) = []"
proof -
  have "ctlQueue c = [] \<Longrightarrow> ctlQueue (snd (revokeOwners ops os cause c)) = []" for os
    by (induction os arbitrary: c)
      (simp_all add: revokeOwners_step revokeOwnerLocked_queue_empty del: revokeOwners.simps(2))
  then show "ctlQueue c = [] \<Longrightarrow> ctlQueue (snd (revokeAllLocked ops cause c)) = []"
    by (simp add: revokeAllLocked_def)
qed

lemma revoke_wakeOK:
  "wakeOK c \<Longrightarrow> wakeOK (snd (revokeOwnerLocked ops owner sq cause c))"
  "wakeOK c \<Longrightarrow> wakeOK (snd (revokeAllLocked ops cause c))"
  by (auto simp: wakeOK_def dest: revokeOwnerLocked_queue_empty revokeAllLocked_queue_empty)

lemma coalesceQueue_nonempty: "coalesceQueue q qs = Some qs' \<Longrightarrow> qs \<noteq> []"
  by (auto simp: coalesceQueue_def)

lemma ops_wakeOK:
  "wakeOK c \<Longrightarrow> wakeOK (snd (snd (Attach ops auth s c)))"
  "wakeOK c \<Longrightarrow> wakeOK (SetUnavailable auth e c)"
  "wakeOK c \<Longrightarrow> wakeOK (snd (Acquire ops owner cb c))"
  "wakeOK c \<Longrightarrow> wakeOK (snd (snd (Submit ops owner ev c)))"
  "wakeOK c \<Longrightarrow> wakeOK (snd (Release ops owner c))"
  "wakeOK c \<Longrightarrow> wakeOK (snd (Revoke ops cause c))"
  "wakeOK c \<Longrightarrow> wakeOK (snd (CloseLocked ops c))"
  "wakeOK c \<Longrightarrow> wakeOK (snd (CloseSender ops c))"
  "wakeOK c \<Longrightarrow> wakeOK (snd (watchDone ops st c))"
  "wakeOK c \<Longrightarrow> wakeOK (snd (snd (watchChange ops r st c)))"
proof -
  assume w: "wakeOK c"
  show "wakeOK (snd (snd (Submit ops owner ev c)))"
    using w revoke_wakeOK(1) [OF w] coalesceQueue_nonempty
    by (auto simp: Submit_def Let_def case_prod_beta wakeOK_def split: option.splits)
  show "wakeOK (snd (CloseLocked ops c))"
    using w revoke_wakeOK(2) [of "c\<lparr>ctlClosed := True\<rparr>" ops None] by (simp add: CloseLocked_def wakeOK_def)
  show "wakeOK (snd (snd (Attach ops auth s c)))" "wakeOK (SetUnavailable auth e c)" "wakeOK (snd (CloseSender ops c))"
    using w by (auto simp: Attach_def SetUnavailable_def CloseSender_def wakeOK_def split: option.splits prod.splits)
  show "wakeOK (snd (Acquire ops owner cb c))"
    using w by (auto simp: Acquire_def Let_def wakeOK_def split: option.splits)
qed (simp_all add: Release_def Revoke_def watchDone_def watchChange_def revoke_wakeOK)

text \<open>How many worker steps are left at most once the controller is closed.\<close>

definition stopMeasure :: "('s, 'cb) inputSystem \<Rightarrow> nat" where
  "stopMeasure sys = (if ctlWake (sysCtl sys) then 2 else 0)
    + (case sysWorker sys of Stopped \<Rightarrow> 0 | Idle \<Rightarrow> 1 | Draining \<Rightarrow> 2 | Handling _ \<Rightarrow> 3)"

definition workerOK :: "('s, 'cb) inputSystem \<Rightarrow> bool" where
  "workerOK sys = ((sysWorker sys = Idle \<longrightarrow> wakeOK (sysCtl sys)) \<and> (sysWorker sys = Stopped \<longrightarrow> ctlClosed (sysCtl sys)))"

lemma ops_closed:
  "ctlClosed c \<Longrightarrow> ctlClosed (snd (snd (Attach ops auth s c)))"
  "ctlClosed (SetUnavailable auth e c) = ctlClosed c"
  "ctlClosed (snd (Acquire ops owner cb c)) = ctlClosed c"
  "ctlClosed (snd (snd (Submit ops owner ev c))) = ctlClosed c"
  "ctlClosed (snd (Release ops owner c)) = ctlClosed c"
  "ctlClosed (snd (Revoke ops cause c)) = ctlClosed c"
  "ctlClosed (snd (CloseLocked ops c))"
  "ctlClosed (snd (CloseSender ops c)) = ctlClosed c"
  "ctlClosed (snd (watchDone ops st c)) = ctlClosed c"
  "ctlClosed (snd (snd (watchChange ops r st c))) = ctlClosed c"
  by (auto simp: Attach_def SetUnavailable_def Acquire_def Submit_def Release_def Revoke_def CloseLocked_def
      CloseSender_def watchDone_def watchChange_def Let_def case_prod_beta split: option.splits)

lemma ops_wake:
  "ctlWake (SetUnavailable auth e c) = ctlWake c"
  "ctlWake (snd (Acquire ops owner cb c)) = ctlWake c"
  "ctlClosed c \<Longrightarrow> ctlWake (snd (snd (Submit ops owner ev c))) = ctlWake c"
  "ctlWake (snd (Release ops owner c)) = ctlWake c"
  "ctlWake (snd (Revoke ops cause c)) = ctlWake c"
  "ctlWake (snd (CloseLocked ops c)) = ctlWake c"
  "ctlWake (snd (CloseSender ops c)) = ctlWake c"
  by (auto simp: SetUnavailable_def Acquire_def Submit_def Release_def Revoke_def CloseLocked_def
      CloseSender_def Let_def case_prod_beta split: option.splits)

lemma methodStep_wake:
  assumes "methodStep ops c c'"
  shows "wakeOK c \<Longrightarrow> wakeOK c'" "ctlClosed c \<Longrightarrow> ctlClosed c' \<and> (ctlWake c' \<longrightarrow> ctlWake c)"
  using assms
  by (cases; simp add: ops_wakeOK ops_closed ops_wake)+

lemma inputStep_workerOK:
  assumes "inputStep ops sys sys'" "sysInv sys" "workerOK sys"
  shows "workerOK sys'"
  using assms(1)
proof (cases rule: inputStep_elim)
  case worker
  then show ?thesis using assms(2,3)
    by cases (auto simp: workerOK_def wakeOK_def sysInv_def ctlInv_def leasesOK_def dequeue_def split: list.splits)
next
  case (attach auth s r)
  then have "sysCtl sys' = snd (snd (Attach (recorded ops) auth (Some (s, [])) (sysCtl sys)))" by simp
  then show ?thesis using attach(1) assms(3) ops_wakeOK(1) ops_closed(1) by (metis workerOK_def)
qed (use assms(3) in \<open>auto simp: workerOK_def dest: methodStep_wake, auto simp: wakeOK_def\<close>)

lemma inputReach_workerOK: "inputReach ops cfg sys \<Longrightarrow> workerOK sys"
proof (induction rule: inputReach.induct)
  case (init c)
  then show ?case by (auto simp: workerOK_def wakeOK_def New_def split: if_splits)
next
  case (step sys sys')
  then show ?case using inputStep_workerOK inputReach_sysInv by blast
qed

lemma closed_empty:
  assumes "sysInv sys" "ctlClosed (sysCtl sys)"
  shows "ctlOwners (sysCtl sys) = fmempty" "ctlQueue (sysCtl sys) = []"
proof -
  show "ctlOwners (sysCtl sys) = fmempty" using assms by (auto simp: sysInv_def ctlInv_def leasesOK_def)
  then show "ctlQueue (sysCtl sys) = []" using assms coreInv_no_owners(1) by (auto simp: sysInv_def ctlInv_def)
qed

lemma workerStep_measure:
  assumes "workerStep ops sys sys'" "sysInv sys" "ctlClosed (sysCtl sys)"
  shows "stopMeasure sys' < stopMeasure sys"
  using assms(1)
proof cases
  case (handle q revs c')
  then have "c' = sysCtl sys" using closed_empty [OF assms(2,3)] by (simp add: handleEvent_def)
  then show ?thesis using handle by (simp add: stopMeasure_def)
qed (use closed_empty [OF assms(2,3)] in \<open>auto simp: stopMeasure_def dequeue_def\<close>)

lemma inputStep_measure:
  assumes "inputStep ops sys sys'" "sysInv sys" "ctlClosed (sysCtl sys)"
  shows "stopMeasure sys' \<le> stopMeasure sys"
  using assms(1)
proof (cases rule: inputStep_elim)
  case call
  then show ?thesis using methodStep_wake(2) [OF call(2) assms(3)] by (simp add: stopMeasure_def)
next
  case (attach auth s r)
  then show ?thesis using assms(3) by (simp add: Attach_def)
next
  case worker
  then show ?thesis using workerStep_measure [OF _ assms(2,3)] by (simp add: less_imp_le)
qed (simp_all add: stopMeasure_def)

lemma inputStep_closed:
  assumes "inputStep ops sys sys'" "sysInv sys" "ctlClosed (sysCtl sys)"
  shows "ctlClosed (sysCtl sys')"
  using assms(1)
proof (cases rule: inputStep_elim)
  case worker
  then show ?thesis
    using assms(3) closed_empty [OF assms(2,3)] by cases (auto simp: dequeue_def handleEvent_def)
qed (use assms(3) in \<open>auto simp: Attach_def dest: methodStep_wake(2)\<close>)

lemma worker_progress:
  assumes "sysWorker sys \<noteq> Stopped" "sysWorker sys = Idle \<longrightarrow> ctlStop (sysCtl sys) \<or> ctlWake (sysCtl sys)"
  shows "\<exists>sys'. workerStep ops sys sys'"
proof (cases "sysWorker sys")
  case Draining
  then show ?thesis
    by (cases "dequeue (sysCtl sys)") (auto intro: workerStep.drained workerStep.take)
next
  case (Handling q)
  then show ?thesis
    by (cases "handleEvent (recorded ops) q (sysCtl sys)") (auto intro: workerStep.handle)
qed (use assms in \<open>auto intro: workerStep.wake workerStep.stop\<close>)

section \<open>Properties\<close>

text \<open>
  C1.  In every reachable state of the controller and its goroutines, for every sender: the count of
  a key or button is the number of leases that hold it (and the entry is absent exactly when that
  number is zero), every lease's \<open>queued\<close> is the number of its events in the queue and at most
  \<open>QueueSize\<close>, every queued event belongs to a live lease of its generation, and with
  \<open>Locking\<close> at most one lease exists.
\<close>

theorem input_invariant:
  assumes "inputReach ops cfg sys"
  shows "(\<forall>k. fmlookup (ctlPressedKeys (sysCtl sys)) k
        = encCount (card {o'. \<exists>st. fmlookup (ctlOwners (sysCtl sys)) o' = Some st \<and> k |\<in>| osPressedKeys st}))
    \<and> (\<forall>k. fmlookup (ctlPressedButtons (sysCtl sys)) k
        = encCount (card {o'. \<exists>st. fmlookup (ctlOwners (sysCtl sys)) o' = Some st \<and> k |\<in>| osPressedButtons st}))
    \<and> (\<forall>owner st. fmlookup (ctlOwners (sysCtl sys)) owner = Some st \<longrightarrow>
        osQueued st = ownQueued owner (ctlQueue (sysCtl sys)) \<and> osQueued st \<le> cfgQueueSize (ctlCfg (sysCtl sys)))
    \<and> (\<forall>q\<in>set (ctlQueue (sysCtl sys)).
        map_option osGeneration (fmlookup (ctlOwners (sysCtl sys)) (qOwner q)) = Some (qGeneration q))
    \<and> (cfgLocking (ctlCfg (sysCtl sys)) \<longrightarrow>
        (\<forall>a b. Owns a (sysCtl sys) \<longrightarrow> Owns b (sysCtl sys) \<longrightarrow> a = b))"
proof -
  have inv: "coreInv (sysCtl sys)" "leasesOK (sysCtl sys)"
    using inputReach_sysInv [OF assms] by (auto simp: sysInv_def ctlInv_def)
  have "cfgLocking (ctlCfg (sysCtl sys)) \<longrightarrow> (\<forall>a b. Owns a (sysCtl sys) \<longrightarrow> Owns b (sysCtl sys) \<longrightarrow> a = b)"
    using inv(2) by (auto simp: leasesOK_def Owns_def fmlookup_dom'_iff)
  moreover have "\<forall>q\<in>set (ctlQueue (sysCtl sys)).
      map_option osGeneration (fmlookup (ctlOwners (sysCtl sys)) (qOwner q)) = Some (qGeneration q)"
    using inv(1) by (auto simp: coreInv_def queueLive_def)
  ultimately show ?thesis using inv(1) by (simp add: coreInv_def refsOK_def fmcount_alt queueBounded_def)
qed


text \<open>
  \<open>Revoke\<close> (which a lost or reset sender triggers) and \<open>Close\<close> leave no lease, an empty queue,
  and no key or button down, in every reachable state with a sender attached.
\<close>

theorem revoke_and_close_lift_all:
  assumes "inputReach ops cfg sys" "ctlSender (sysCtl sys) = Some (s, calls)"
    "c' = snd (Revoke (recorded ops) cause (sysCtl sys)) \<or> \<not> ctlClosed (sysCtl sys) \<and> c' = snd (CloseLocked (recorded ops) (sysCtl sys))"
  shows "\<exists>s' calls'. ctlSender c' = Some (s', calls') \<and> downKeys calls' = {} \<and> downButtons calls' = {}
    \<and> ctlOwners c' = fmempty \<and> ctlQueue c' = []"
proof -
  have step: "inputStep ops sys (sys\<lparr>sysCtl := c'\<rparr>)"
    using assms(3) by (auto intro: inputStep.call methodStep.revoke methodStep.close)
  have inv: "sysInv (sys\<lparr>sysCtl := c'\<rparr>)"
    using inputStep_sysInv [OF step inputReach_sysInv [OF assms(1)]] .
  have owners: "ctlOwners c' = fmempty" using assms(3) by (auto simp: Revoke_def CloseLocked_def)
  have "ctlSender c' = None \<longleftrightarrow> ctlSender (sysCtl sys) = None"
    using assms(3) by (auto simp: Revoke_def CloseLocked_def)
  then have sender: "ctlSender c' \<noteq> None" using assms(2) by simp
  have "coreInv c'" using inv by (simp add: sysInv_def ctlInv_def)
  note coreInv_no_owners [OF this owners]
  then show ?thesis using inv owners sender by (auto simp: sysInv_def tracksBy_def)
qed

text \<open>
  C4.  The worker is never left asleep: when the queue is not empty and the controller is open, the
  worker can step.  Once the controller is closed the worker still can step until it has stopped,
  each of its steps decreases a measure of at most five, and no other goroutine's step increases it;
  so \<open>Close\<close>, which waits for the worker, returns.
\<close>

theorem worker_wakes_and_stops:
  assumes "inputReach ops cfg sys"
  shows "(ctlQueue (sysCtl sys) \<noteq> [] \<longrightarrow> (\<exists>sys'. workerStep ops sys sys'))
    \<and> (ctlClosed (sysCtl sys) \<longrightarrow>
        (sysWorker sys \<noteq> Stopped \<longrightarrow> (\<exists>sys'. workerStep ops sys sys'))
        \<and> (\<forall>sys'. workerStep ops sys sys' \<longrightarrow> stopMeasure sys' < stopMeasure sys)
        \<and> (\<forall>sys'. inputStep ops sys sys' \<longrightarrow> stopMeasure sys' \<le> stopMeasure sys \<and> ctlClosed (sysCtl sys')))
    \<and> stopMeasure sys \<le> 5"
proof -
  note inv = inputReach_sysInv [OF assms] and ok = inputReach_workerOK [OF assms]
  have "ctlQueue (sysCtl sys) \<noteq> [] \<longrightarrow> (\<exists>sys'. workerStep ops sys sys')"
    using ok closed_empty(2) [OF inv] worker_progress [of sys ops] by (auto simp: workerOK_def wakeOK_def)
  moreover have "ctlClosed (sysCtl sys) \<longrightarrow> sysWorker sys \<noteq> Stopped \<longrightarrow> (\<exists>sys'. workerStep ops sys sys')"
    using inv worker_progress [of sys ops] by (auto simp: sysInv_def ctlInv_def leasesOK_def)
  moreover have "ctlClosed (sysCtl sys) \<longrightarrow> (\<forall>sys'. workerStep ops sys sys' \<longrightarrow> stopMeasure sys' < stopMeasure sys)"
    using workerStep_measure [OF _ inv] by blast
  moreover have "ctlClosed (sysCtl sys) \<longrightarrow> (\<forall>sys'. inputStep ops sys sys' \<longrightarrow> stopMeasure sys' \<le> stopMeasure sys)"
    using inputStep_measure [OF _ inv] by blast
  moreover have "ctlClosed (sysCtl sys) \<longrightarrow> (\<forall>sys'. inputStep ops sys sys' \<longrightarrow> ctlClosed (sysCtl sys'))"
    using inputStep_closed [OF _ inv] by blast
  moreover have "stopMeasure sys \<le> 5" by (simp add: stopMeasure_def split: worker.splits)
  ultimately show ?thesis by blast
qed

text \<open>
  What \<open>Submit\<close> does for an accepted event of a live lease.  Either the event ends up last in the
  queue, behind everything else, merged only with a directly preceding motion or scroll event of the
  same lease (a key, button or text event is never merged), or the lease already has \<open>QueueSize\<close>
  queued events: then it is revoked with \<open>ErrOverloaded\<close>, exactly its own events leave the queue,
  and its callback is called with the sequence number of the event.
\<close>

theorem submit_effect:
  assumes "ctlInv c" "fmlookup (ctlOwners c) owner = Some st" "eventClassError (ctlCfg c) (evType ev) = None"
    "Submit ops owner ev c = (err, revs, c')"
  shows "(err = None \<and> revs = [] \<and> Owns owner c'
      \<and> (\<exists>e pre. ctlQueue c' = pre @ [\<lparr>qOwner = owner, qGeneration = osGeneration st, qEvent = e\<rparr>]
          \<and> evSequence e = evSequence ev \<and> evType e = evType ev
          \<and> (e = ev \<and> pre = ctlQueue c
             \<or> evType ev \<in> {EventPointerAbsolute, EventPointerRelative, EventPointerScroll}
               \<and> (\<exists>e0. ctlQueue c = pre @ [\<lparr>qOwner = owner, qGeneration = osGeneration st, qEvent = e0\<rparr>]
                    \<and> coalesce e0 ev = Some e))))
    \<or> (err = Some ErrOverloaded \<and> ownQueued owner (ctlQueue c) = cfgQueueSize (ctlCfg c) \<and> \<not> Owns owner c'
      \<and> ctlQueue c' = filter (\<lambda>q. qOwner q \<noteq> owner) (ctlQueue c)
      \<and> revs = (case osRevoke st of None \<Rightarrow> []
           | Some cb \<Rightarrow> [\<lparr>rvRevoke = cb, rvSequence = evSequence ev, rvCause = ErrOverloaded\<rparr>]))"
proof -
  let ?q = "\<lparr>qOwner = owner, qGeneration = osGeneration st, qEvent = ev\<rparr>"
  have open': "\<not> ctlClosed c" using assms(1,2) by (auto simp: ctlInv_def leasesOK_def)
  have queued: "osQueued st = ownQueued owner (ctlQueue c)" "ownQueued owner (ctlQueue c) \<le> cfgQueueSize (ctlCfg c)"
    using assms(1,2) by (auto simp: inv_defs)
  show ?thesis
  proof (cases "coalesceQueue ?q (ctlQueue c)")
    case (Some qs)
    then obtain pre lst e where q: "ctlQueue c = pre @ [lst]" "qs = pre @ [lst\<lparr>qEvent := e\<rparr>]"
      "qOwner lst = owner" "qGeneration lst = osGeneration st" "coalesce (qEvent lst) ev = Some e"
      by (auto elim: coalesceQueue_Some)
    have "evType ev \<in> {EventPointerAbsolute, EventPointerRelative, EventPointerScroll}"
      using q(5) by (auto simp: coalesce_def split: if_splits)
    moreover have "err = None" "revs = []" "c' = c\<lparr>ctlQueue := qs\<rparr>"
      using assms(2-4) open' Some by (simp_all add: Submit_def)
    moreover have "ctlQueue c = pre @ [\<lparr>qOwner = owner, qGeneration = osGeneration st, qEvent = qEvent lst\<rparr>]"
      "qs = pre @ [\<lparr>qOwner = owner, qGeneration = osGeneration st, qEvent = e\<rparr>]"
      using q by simp_all
    ultimately show ?thesis using q(5) assms(2) coalesce_type [OF q(5)]
      by (intro disjI1 conjI exI [of _ e] exI [of _ pre] disjI2 exI [of _ "qEvent lst"]) (simp_all add: Owns_def)
  next
    case None
    show ?thesis
    proof (cases "osQueued st < cfgQueueSize (ctlCfg c)")
      case True
      then show ?thesis using assms(2-4) open' None by (auto simp: Submit_def Owns_def)
    next
      case False
      then have eq: "(revs, c') = revokeOwnerLocked ops owner (evSequence ev) (Some ErrOverloaded) c" "err = Some ErrOverloaded"
        using assms(2-4) open' None by (auto simp: Submit_def case_prod_beta)
      then have c': "c' = snd (revokeOwnerLocked ops owner (evSequence ev) (Some ErrOverloaded) c)"
        and revs: "revs = fst (revokeOwnerLocked ops owner (evSequence ev) (Some ErrOverloaded) c)"
        by (metis snd_conv, metis fst_conv)
      have "revs = (case osRevoke st of None \<Rightarrow> []
           | Some cb \<Rightarrow> [\<lparr>rvRevoke = cb, rvSequence = evSequence ev, rvCause = ErrOverloaded\<rparr>])"
        using assms(2) by (simp add: revs revokeOwnerLocked_def Let_def split: option.splits)
      then show ?thesis using False queued eq(2)
        by (simp add: c' Owns_def revokeOwnerLocked_queue [OF assms(2)])
    qed
  qed
qed

text \<open>
  \<open>Acquire\<close> never dereferences a missing sender, touches no other lease, and succeeds exactly when
  input is enabled, the configured classes are authorised, and the caller already holds a lease or
  can get a new one: with \<open>Locking\<close> no other lease exists, and the sender is connected with the
  configured devices.  On success the caller owns a lease, on failure nothing changes.
\<close>

theorem acquire_correct:
  assumes "ctlInv c" "Acquire ops owner cb c = (res, c')"
  shows "res \<noteq> AcqPanic
    \<and> (\<forall>o'. o' \<noteq> owner \<longrightarrow> fmlookup (ctlOwners c') o' = fmlookup (ctlOwners c) o')
    \<and> ((\<exists>caps. res = AcqOk caps) \<longleftrightarrow>
        \<not> ctlClosed c \<and> cfgEnabled (ctlCfg c)
        \<and> (cfgPointer (ctlCfg c) \<longrightarrow> authPointer (ctlAuthorization c))
        \<and> (cfgKeyboard (ctlCfg c) \<longrightarrow> authKeyboard (ctlAuthorization c))
        \<and> (Owns owner c \<or> (cfgLocking (ctlCfg c) \<longrightarrow> ctlOwners c = fmempty)
            \<and> (\<exists>s. ctlSender c = Some s \<and> senderReady (ctlCfg c) (opStatus ops s))))
    \<and> (\<forall>caps. res = AcqOk caps \<longrightarrow> Owns owner c'
        \<and> map_option osRevoke (fmlookup (ctlOwners c') owner) = Some cb)
    \<and> (\<forall>e. res = AcqErr e \<longrightarrow> c' = c)"
proof -
  have dom: "fmdom (ctlOwners c) = {||} \<longleftrightarrow> ctlOwners c = fmempty"
    by (metis fmdom_empty fmrestrict_fset_dom fmrestrict_fset_null)
  show ?thesis
  proof (cases "fmlookup (ctlOwners c) owner")
    case (Some st)
    then obtain s where "ctlSender c = Some s" "\<not> ctlClosed c"
      using assms(1) by (auto simp: ctlInv_def leasesOK_def)
    then show ?thesis using assms(2) Some by (auto simp: Acquire_def Owns_def split: if_splits)
  next
    case None
    then show ?thesis using assms(2) dom by (auto simp: Acquire_def Owns_def Let_def split: if_splits option.splits)
  qed
qed

text \<open>
  Keys shared between leases: delivering a press or release of a lease whose state it changes
  makes a call to the sender exactly at the first press and at the last release of the key, and the
  lease then holds the key or no longer does.
\<close>

theorem key_transition:
  assumes "ctlInv c" "fmlookup (ctlOwners c) (qOwner q) = Some st" "osGeneration st = qGeneration q"
    "ctlSender c = Some (s, calls)" "evType (qEvent q) = EventKeyboardKey" "k = evKeycode (qEvent q)"
    "(k |\<in>| osPressedKeys st) \<noteq> evPressed (qEvent q)"
    "opKeyboardKey ops k (evPressed (qEvent q)) s = (None, s')"
    "others = {o'. o' \<noteq> qOwner q \<and> (\<exists>st'. fmlookup (ctlOwners c) o' = Some st' \<and> k |\<in>| osPressedKeys st')}"
  shows "\<exists>c' st'. handleEvent (recorded ops) q c = ([], c') \<and> fmlookup (ctlOwners c') (qOwner q) = Some st'
    \<and> (k |\<in>| osPressedKeys st') = evPressed (qEvent q)
    \<and> ctlSender c' = Some (if others = {} then (s', (CallKey k (evPressed (qEvent q)), True) # calls) else (s, calls))"
proof -
  let ?p = "evPressed (qEvent q)"
  have refs: "refsOK osPressedKeys (ctlOwners c) (ctlPressedKeys c)" and open': "\<not> ctlClosed c"
    using assms(1,2) by (auto simp: inv_defs)
  have zero: "\<not> k |\<in>| osPressedKeys st \<Longrightarrow> countOf (ctlPressedKeys c) k = 0 \<longleftrightarrow> others = {}"
    unfolding assms(9) by (rule count_zero_others [OF refs assms(2)])
  have one: "k |\<in>| osPressedKeys st \<Longrightarrow> countOf (ctlPressedKeys c) k = 1 \<longleftrightarrow> others = {}"
    unfolding assms(9) by (rule count_one_iff [OF refs assms(2)])
  let ?r = "holdTransition (opKeyboardKey (recorded ops)) k ?p (osPressedKeys st) (ctlPressedKeys c) (s, calls)"
  have "\<exists>held counts. ?r = Some (None, held, counts, if others = {} then (s', (CallKey k ?p, True) # calls) else (s, calls))
      \<and> (k |\<in>| held) = ?p"
    using assms(7,8) zero one
    by (cases ?p) (auto simp: holdTransition_def recorded_def recordCall_def Let_def)
  then obtain held counts where r: "?r = Some (None, held, counts,
      if others = {} then (s', (CallKey k ?p, True) # calls) else (s, calls))" "(k |\<in>| held) = ?p" by blast
  show ?thesis
    using assms(2-6) r open' by (simp add: handleEvent_def deliver_def)
qed

section \<open>A concrete run\<close>

text \<open>
  A controller with locking and a queue of two events; a sender that accepts every call; owner 7
  acquires, presses key 30, and the worker delivers it.
\<close>

definition demoStatus :: senderStatus where
  "demoStatus = \<lparr>ssConnected = True, ssPointer = True, ssKeyboard = True, ssText = False, ssReset = 0, ssErr = None\<rparr>"

definition demoOps :: "unit senderOps" where
  "demoOps = \<lparr>opStatus = (\<lambda>_. demoStatus), opPointerAbsolute = (\<lambda>_ _ s. (None, s)),
     opPointerRelative = (\<lambda>_ _ s. (None, s)), opButton = (\<lambda>_ _ s. (None, s)),
     opScroll = (\<lambda>_ _ _ _ s. (None, s)), opKeyboardKey = (\<lambda>_ _ s. (None, s)),
     opKeyboardText = None, opClose = (\<lambda>s. (None, s))\<rparr>"

definition demoCfg :: inputConfig where
  "demoCfg = \<lparr>cfgEnabled = True, cfgLocking = True, cfgPointer = True, cfgKeyboard = True, cfgQueueSize = 2\<rparr>"

definition demoKey :: "uint64 \<Rightarrow> uint32 \<Rightarrow> bool \<Rightarrow> event" where
  "demoKey sq k p = \<lparr>evSequence = sq, evType = EventKeyboardKey, evX = Fin 0, evY = Fin 0, evDX = Fin 0,
     evDY = Fin 0, evButtonCode = 0, evKeycode = k, evText = [], evPressed = p, evHorizontal = Fin 0,
     evVertical = Fin 0, evStopHorizontal = False, evStopVertical = False\<rparr>"

type_synonym demoCtl = "(unit \<times> callTrace, nat) controller"

definition demoNew :: demoCtl where "demoNew = projr (New demoCfg)"
definition demoAttached :: demoCtl where
  "demoAttached = snd (snd (Attach (recorded demoOps) \<lparr>authPointer = True, authKeyboard = True\<rparr> (Some ((), [])) demoNew))"
definition demoOwned :: demoCtl where "demoOwned = snd (Acquire (recorded demoOps) 7 (Some 1) demoAttached)"
definition demoQueued :: demoCtl where
  "demoQueued = snd (snd (Submit (recorded demoOps) 7 (demoKey 1 30 True) demoOwned))"
definition demoTaken :: demoCtl where "demoTaken = snd (the (dequeue (demoQueued\<lparr>ctlWake := False\<rparr>)))"
definition demoEvent :: queuedEvent where "demoEvent = fst (the (dequeue (demoQueued\<lparr>ctlWake := False\<rparr>)))"
definition demoHeld :: demoCtl where "demoHeld = snd (handleEvent (recorded demoOps) demoEvent demoTaken)"

definition demoSys :: "worker \<Rightarrow> demoCtl \<Rightarrow> (unit, nat) inputSystem" where
  "demoSys w c = \<lparr>sysCtl = c, sysWorker = w, sysWatch = Some 0\<rparr>"

lemma demo_queued: "inputReach demoOps demoCfg (demoSys Idle demoQueued)"
proof -
  have 0: "inputReach demoOps demoCfg \<lparr>sysCtl = demoNew, sysWorker = Idle, sysWatch = None\<rparr>"
    by (rule inputReach.init) (simp add: demoNew_def New_def demoCfg_def)
  have att: "Attach (recorded demoOps) \<lparr>authPointer = True, authKeyboard = True\<rparr> (Some ((), [])) demoNew
      = (None, None, demoAttached)" by (simp add: demoAttached_def Attach_def demoNew_def New_def demoCfg_def)
  have "inputStep demoOps \<lparr>sysCtl = demoNew, sysWorker = Idle, sysWatch = None\<rparr> (demoSys Idle demoAttached)"
    using inputStep.attach [of demoOps "\<lparr>authPointer = True, authKeyboard = True\<rparr>" "()"
        "\<lparr>sysCtl = demoNew, sysWorker = Idle, sysWatch = None\<rparr>" None demoAttached] att
    by (simp add: demoSys_def demoOps_def demoStatus_def)
  note 1 = inputReach.step [OF 0 this]
  have "inputStep demoOps (demoSys Idle demoAttached) (demoSys Idle demoOwned)"
    using inputStep.call [OF methodStep.acquire, of demoOps "demoSys Idle demoAttached" 7 "Some 1"]
    by (simp add: demoSys_def demoOwned_def)
  note 2 = inputReach.step [OF 1 this]
  have "inputStep demoOps (demoSys Idle demoOwned) (demoSys Idle demoQueued)"
    using inputStep.call [OF methodStep.submit, of demoOps "demoSys Idle demoOwned" 7 "demoKey 1 30 True"]
    by (simp add: demoSys_def demoQueued_def)
  then show ?thesis by (rule inputReach.step [OF 2])
qed

lemma demo_take: "ctlWake demoQueued" "dequeue (demoQueued\<lparr>ctlWake := False\<rparr>) = Some (demoEvent, demoTaken)"
  by code_simp+

lemma demo_held: "inputReach demoOps demoCfg (demoSys Draining demoHeld)"
proof -
  have "workerStep demoOps (demoSys Idle demoQueued) (demoSys Draining (demoQueued\<lparr>ctlWake := False\<rparr>))"
    using workerStep.wake [of "demoSys Idle demoQueued" demoOps] demo_take(1) by (simp add: demoSys_def)
  note 1 = inputReach.step [OF demo_queued inputStep.worker [OF this]]
  have "workerStep demoOps (demoSys Draining (demoQueued\<lparr>ctlWake := False\<rparr>)) (demoSys (Handling demoEvent) demoTaken)"
    using workerStep.take [of "demoSys Draining (demoQueued\<lparr>ctlWake := False\<rparr>)" demoEvent demoTaken demoOps] demo_take(2)
    by (simp add: demoSys_def)
  note 2 = inputReach.step [OF 1 inputStep.worker [OF this]]
  have "workerStep demoOps (demoSys (Handling demoEvent) demoTaken) (demoSys Draining demoHeld)"
    using workerStep.handle [of "demoSys (Handling demoEvent) demoTaken" demoEvent demoOps _ demoHeld]
    by (simp add: demoSys_def demoHeld_def prod_eq_iff)
  then show ?thesis by (intro inputReach.step [OF 2] inputStep.worker)
qed

lemma demo_sysInv: "ctlInv demoHeld" "ctlInv demoTaken" "ctlInv demoAttached" "ctlInv demoOwned"
proof -
  have "ctlInv demoNew" by (rule New_inv [of demoCfg]) (simp add: demoNew_def New_def demoCfg_def)
  then show "ctlInv demoAttached" by (simp add: demoAttached_def Attach_inv)
  then show "ctlInv demoOwned" by (simp add: demoOwned_def Acquire_inv)
  then have "ctlInv demoQueued" by (simp add: demoQueued_def Submit_inv)
  then have "ctlInv (demoQueued\<lparr>ctlWake := False\<rparr>)" by (simp add: inv_defs)
  then show "ctlInv demoTaken" using demo_take(2) by (rule dequeue_inv)
  then show "ctlInv demoHeld" by (simp add: demoHeld_def handleEvent_inv)
qed

theorem input_invariant_witness:
  "fmlookup (ctlPressedKeys demoHeld) 30 = Some 1
   \<and> card {o'. \<exists>st. fmlookup (ctlOwners demoHeld) o' = Some st \<and> 30 |\<in>| osPressedKeys st} = 1
   \<and> Owns 7 demoHeld \<and> \<not> Owns 8 demoHeld"
proof -
  let ?n = "card {o'. \<exists>st. fmlookup (ctlOwners demoHeld) o' = Some st \<and> 30 |\<in>| osPressedKeys st}"
  have ev: "fmlookup (ctlPressedKeys demoHeld) 30 = Some 1" "cfgLocking (ctlCfg demoHeld)" "Owns 7 demoHeld"
    by code_simp+
  note inv = input_invariant [OF demo_held, unfolded demoSys_def, simplified]
  have "Some 1 = encCount ?n" using inv ev(1) by metis
  moreover have "?n \<le> 2 ^ 64"
    using fmcount_le_64 [of "\<lambda>st. 30 |\<in>| osPressedKeys st" "ctlOwners demoHeld"] by (simp only: fmcount_alt)
  ultimately have "?n = 1" by (auto simp: encCount_def of_nat_eq_1_64 dest: sym split: if_splits)
  moreover have "\<not> Owns 8 demoHeld"
  proof
    assume "Owns 8 demoHeld"
    then have "(8 :: uint64) = 7" using inv ev(2,3) by metis
    then show False by simp
  qed
  ultimately show ?thesis using ev by simp
qed


theorem revoke_and_close_lift_all_witness:
  "downKeys (snd (the (ctlSender demoHeld))) = {30}
   \<and> (\<exists>s' calls'. ctlSender (snd (CloseLocked (recorded demoOps) demoHeld)) = Some (s', calls') \<and> downKeys calls' = {})"
proof -
  have ev: "ctlSender demoHeld = Some ((), [(CallKey 30 True, True)])" "\<not> ctlClosed demoHeld" by code_simp+
  show ?thesis
    using revoke_and_close_lift_all [OF demo_held, of "()" "[(CallKey 30 True, True)]"
        "snd (CloseLocked (recorded demoOps) demoHeld)" None] ev
    by (auto simp: demoSys_def)
qed

theorem worker_wakes_and_stops_witness:
  "ctlQueue demoQueued \<noteq> [] \<and> (\<exists>sys'. workerStep demoOps (demoSys Idle demoQueued) sys')"
proof -
  have "ctlQueue demoQueued \<noteq> []" by code_simp
  then show ?thesis using worker_wakes_and_stops [OF demo_queued] by (simp add: demoSys_def)
qed

theorem submit_effect_witness:
  "\<exists>e pre. ctlQueue demoQueued = pre @ [e] \<and> qOwner e = 7 \<and> evSequence (qEvent e) = 1"
proof -
  let ?st = "the (fmlookup (ctlOwners demoOwned) 7)" and ?ev = "demoKey 1 30 True"
  have ev: "fmlookup (ctlOwners demoOwned) 7 = Some ?st" "eventClassError (ctlCfg demoOwned) (evType ?ev) = None"
    "ownQueued 7 (ctlQueue demoOwned) \<noteq> cfgQueueSize (ctlCfg demoOwned)"
    by code_simp+
  have res: "Submit (recorded demoOps) 7 ?ev demoOwned = (None, [], demoQueued)"
    "evSequence ?ev = 1" by code_simp+
  show ?thesis
    using submit_effect [OF demo_sysInv(4) ev(1,2) res(1)] ev(3) res(2) by auto
qed

theorem acquire_correct_witness:
  "(\<exists>caps. fst (Acquire (recorded demoOps) 7 (Some 1) demoAttached) = AcqOk caps) \<and> Owns 7 demoOwned"
proof -
  have ev: "\<not> ctlClosed demoAttached" "cfgEnabled (ctlCfg demoAttached)" "authPointer (ctlAuthorization demoAttached)"
    "authKeyboard (ctlAuthorization demoAttached)" "ctlOwners demoAttached = fmempty" "ctlSender demoAttached = Some ((), [])"
    "senderReady (ctlCfg demoAttached) (opStatus (recorded demoOps) ((), []))"
    by code_simp+
  have "Acquire (recorded demoOps) 7 (Some 1) demoAttached
      = (fst (Acquire (recorded demoOps) 7 (Some 1) demoAttached), demoOwned)" by (simp add: demoOwned_def)
  from acquire_correct [OF demo_sysInv(3) this] show ?thesis using ev by auto
qed

theorem key_transition_witness:
  "\<exists>c'. handleEvent (recorded demoOps) demoEvent demoTaken = ([], c')
     \<and> ctlSender c' = Some ((), [(CallKey 30 True, True)])"
proof -
  let ?st = "the (fmlookup (ctlOwners demoTaken) 7)"
  have ev: "fmlookup (ctlOwners demoTaken) (qOwner demoEvent) = Some ?st" "osGeneration ?st = qGeneration demoEvent"
    "ctlSender demoTaken = Some ((), [])" "evType (qEvent demoEvent) = EventKeyboardKey"
    "30 = evKeycode (qEvent demoEvent)" "(30 |\<in>| osPressedKeys ?st) \<noteq> evPressed (qEvent demoEvent)"
    "opKeyboardKey demoOps 30 (evPressed (qEvent demoEvent)) () = (None, ())" "qOwner demoEvent = 7"
    "evPressed (qEvent demoEvent)" "fmdom (ctlOwners demoTaken) = {|7|}"
    by code_simp+
  have none: "{o'. o' \<noteq> qOwner demoEvent \<and> (\<exists>st'. fmlookup (ctlOwners demoTaken) o' = Some st' \<and> 30 |\<in>| osPressedKeys st')} = {}"
    using ev(8,10) by (auto dest: fmdomI)
  show ?thesis
    using key_transition [OF demo_sysInv(2) ev(1-7) refl] none ev(9) by auto
qed

end
