(* ===== verification/Bandwidth.thy ===== *)
theory Bandwidth
  imports Float64
begin

text \<open>
  The bandwidth estimator (\<open>src/webrtc/bandwidth_estimator.go\<close>).  The congestion detector is a
  third-party library: its statistics are an argument of \<open>update\<close>, and so are the bitrate the
  encoder reports and the library function \<open>math.Pow\<close>.  Times are nanoseconds since the epoch (never
  negative, so Go's truncating division and remainder are \<open>div\<close> and \<open>mod\<close>), the zero \<open>time.Time\<close> is \<open>None\<close>; the ring of sent bytes is a list of ten cells.
\<close>

subsection \<open>Constants and state\<close>

definition bandwidthMinBitrate :: int where "bandwidthMinBitrate = 100000"
definition bandwidthMaxBitrate :: int where "bandwidthMaxBitrate = 50000000"
definition sentRateBucketCount :: int where "sentRateBucketCount = 10"
definition sentRateBucketPeriod :: int where "sentRateBucketPeriod = 50000000"
definition applicationLimitEnter :: float64 where "applicationLimitEnter = round64 (65 / 100)"
definition applicationLimitExit :: float64 where "applicationLimitExit = round64 (80 / 100)"
definition delayIncreaseFactor :: float64 where "delayIncreaseFactor = round64 (108 / 100)"
definition delayIncreaseCap :: float64 where "delayIncreaseCap = Fin (3 / 2)"
definition lossDecreaseThreshold :: float64 where "lossDecreaseThreshold = round64 (1 / 10)"
definition lossDecreaseInterval :: int where "lossDecreaseInterval = 200000000"

lemmas bw_consts = bandwidthMinBitrate_def bandwidthMaxBitrate_def

record delayStats =
  dsState :: string
  dsMeasurement :: float64
  dsEstimate :: float64
  dsThreshold :: float64
  dsTargetBitrate :: int

record bandwidthEstimator =
  beSentBuckets :: "int list"
  beSentBucket :: int
  beTarget :: int
  beApplicationLimited :: bool
  beLastDelayStats :: delayStats
  beLastIncrease :: "int option"
  beLastLossDecrease :: "int option"
  beOnChange :: bool

subsection \<open>Reading the detector's statistics\<close>

text \<open>A value of type \<open>any\<close> in the statistics map, as far as the type assertions tell values apart.\<close>

datatype statValue = StatString string | StatFloat float64 | StatInt int | StatOther

type_synonym stats = "(string, statValue) fmap"

definition statString :: "stats \<Rightarrow> string \<Rightarrow> string" where
  "statString m k = (case fmlookup m k of Some (StatString s) \<Rightarrow> s | _ \<Rightarrow> [])"

definition statFloat :: "stats \<Rightarrow> string \<Rightarrow> float64" where
  "statFloat m k = (case fmlookup m k of Some (StatFloat f) \<Rightarrow> f | _ \<Rightarrow> Fin 0)"

definition statInt :: "stats \<Rightarrow> string \<Rightarrow> int" where
  "statInt m k = (case fmlookup m k of Some (StatInt i) \<Rightarrow> i | _ \<Rightarrow> 0)"

definition readDelayStats :: "stats \<Rightarrow> delayStats" where
  "readDelayStats m =
    \<lparr>dsState = statString m ''state'', dsMeasurement = statFloat m ''delayMeasurement'',
     dsEstimate = statFloat m ''delayEstimate'', dsThreshold = statFloat m ''delayThreshold'',
     dsTargetBitrate = statInt m ''delayTargetBitrate''\<rparr>"

text \<open>Go's \<open>==\<close> on the struct: a NaN field makes the structs different.\<close>

definition delayStatsEq :: "delayStats \<Rightarrow> delayStats \<Rightarrow> bool" where
  "delayStatsEq a b = (dsState a = dsState b \<and> feq (dsMeasurement a) (dsMeasurement b)
     \<and> feq (dsEstimate a) (dsEstimate b) \<and> feq (dsThreshold a) (dsThreshold b)
     \<and> dsTargetBitrate a = dsTargetBitrate b)"

subsection \<open>The sent-rate ring\<close>

definition bucketOf :: "int \<Rightarrow> int" where
  "bucketOf now = now div sentRateBucketPeriod"

definition slot :: "int \<Rightarrow> nat" where
  "slot bucket = nat (bucket mod sentRateBucketCount)"

definition advanceSentBucketsLocked :: "int \<Rightarrow> bandwidthEstimator \<Rightarrow> bandwidthEstimator" where
  "advanceSentBucketsLocked bucket e =
    (if bucket \<le> beSentBucket e then e
     else let stale = min (bucket - beSentBucket e) sentRateBucketCount
          in e\<lparr>beSentBuckets := fold (\<lambda>offset bs. bs[slot (beSentBucket e + offset) := 0]) [1..stale] (beSentBuckets e),
               beSentBucket := bucket\<rparr>)"

definition recordSent :: "int \<Rightarrow> int \<Rightarrow> bandwidthEstimator \<Rightarrow> bandwidthEstimator" where
  "recordSent now sz e =
    (let bucket = bucketOf now; e' = advanceSentBucketsLocked bucket e
     in e'\<lparr>beSentBuckets := (beSentBuckets e')[slot bucket := beSentBuckets e' ! slot bucket + sz]\<rparr>)"

definition sentBitrate :: "int \<Rightarrow> bandwidthEstimator \<Rightarrow> int \<times> bandwidthEstimator" where
  "sentBitrate now e =
    (let e' = advanceSentBucketsLocked (bucketOf now) e
     in (ftoInt (fdivPos (fofInt (sum_list (beSentBuckets e') * 8)) (1 / 2)), e'))"

subsection \<open>The target bitrate\<close>

definition clampBitrate :: "int \<Rightarrow> int" where
  "clampBitrate b = min (max b bandwidthMinBitrate) bandwidthMaxBitrate"

definition newBandwidthEstimator :: "int \<Rightarrow> bandwidthEstimator" where
  "newBandwidthEstimator initial =
    \<lparr>beSentBuckets = replicate 10 0, beSentBucket = 0, beTarget = clampBitrate initial,
     beApplicationLimited = False,
     beLastDelayStats = \<lparr>dsState = [], dsMeasurement = Fin 0, dsEstimate = Fin 0, dsThreshold = Fin 0, dsTargetBitrate = 0\<rparr>,
     beLastIncrease = None, beLastLossDecrease = None, beOnChange = False\<rparr>"

text \<open>\<open>Time.Sub\<close> saturates; \<open>Duration.Seconds\<close> adds whole seconds and the rounded fraction.\<close>

definition timeSub :: "int \<Rightarrow> int option \<Rightarrow> int" where
  "timeSub now t =
    (case t of None \<Rightarrow> 2 ^ 63 - 1 | Some t' \<Rightarrow> max (- (2 ^ 63)) (min (2 ^ 63 - 1) (now - t')))"

definition durationSeconds :: "int \<Rightarrow> float64" where
  "durationSeconds d = fadd (fofInt (go_div d 1000000000)) (fdivPos (fofInt (go_mod d 1000000000)) 1000000000)"

definition limitState :: "int \<Rightarrow> int \<Rightarrow> bool \<Rightarrow> bool" where
  "limitState sent budget limited =
    (if flt (fofInt sent) (fmul applicationLimitEnter (fofInt budget)) then True
     else if flt (fmul applicationLimitExit (fofInt budget)) (fofInt sent) then False
     else limited)"

definition increasedTarget :: "(float64 \<Rightarrow> float64 \<Rightarrow> float64) \<Rightarrow> int \<Rightarrow> int option \<Rightarrow> int \<Rightarrow> int \<Rightarrow> int" where
  "increasedTarget pow now lastIncrease target sent =
    (let elapsed = (case lastIncrease of None \<Rightarrow> Fin 1 | Some t \<Rightarrow> fmin (durationSeconds (timeSub now (Some t))) (Fin 1));
         increased = ftoInt (fmul (fofInt target) (pow delayIncreaseFactor elapsed));
         ceiling = max target (ftoInt (fmul delayIncreaseCap (fofInt sent)))
     in clampBitrate (min increased ceiling))"

definition lossTarget :: "float64 \<Rightarrow> int \<Rightarrow> int" where
  "lossTarget averageLoss target =
    clampBitrate (ftoInt (fmul (fofInt target) (fsub (Fin 1) (fmul (Fin (1 / 2)) averageLoss))))"

text \<open>
  \<open>update\<close> under the lock; the first component is the bitrate handed to the change callback, if the
  target changed and a callback is set.
\<close>

definition applyDelay :: "(float64 \<Rightarrow> float64 \<Rightarrow> float64) \<Rightarrow> int \<Rightarrow> delayStats \<Rightarrow> int \<Rightarrow> bandwidthEstimator \<Rightarrow> bandwidthEstimator" where
  "applyDelay pow now delay sent e =
    (if dsState delay = ''decrease'' then
       e\<lparr>beTarget := min (beTarget e) (clampBitrate (dsTargetBitrate delay)), beLastIncrease := Some now\<rparr>
     else if dsState delay = ''increase'' then
       e\<lparr>beTarget := increasedTarget pow now (beLastIncrease e) (beTarget e) sent, beLastIncrease := Some now\<rparr>
     else e)"

definition applyLoss :: "int \<Rightarrow> float64 \<Rightarrow> bandwidthEstimator \<Rightarrow> bandwidthEstimator" where
  "applyLoss now averageLoss e =
    (if flt lossDecreaseThreshold averageLoss \<and> timeSub now (beLastLossDecrease e) > lossDecreaseInterval
     then e\<lparr>beTarget := lossTarget averageLoss (beTarget e), beLastLossDecrease := Some now\<rparr> else e)"

definition update :: "(float64 \<Rightarrow> float64 \<Rightarrow> float64) \<Rightarrow> int \<Rightarrow> stats \<Rightarrow> int \<Rightarrow> bandwidthEstimator
    \<Rightarrow> int option \<times> bandwidthEstimator" where
  "update pow now m encoderBitrate e0 =
    (let delay = readDelayStats m;
         averageLoss = statFloat m ''averageLoss'';
         (sent, e1) = sentBitrate now e0;
         budget = min (beTarget e1) encoderBitrate;
         e2 = e1\<lparr>beApplicationLimited := limitState sent budget (beApplicationLimited e1)\<rparr>;
         freshDelay = (\<not> delayStatsEq delay (beLastDelayStats e2));
         e3 = e2\<lparr>beLastDelayStats := delay\<rparr>;
         e4 = (if freshDelay \<and> \<not> beApplicationLimited e3 then applyDelay pow now delay sent e3 else e3);
         e5 = applyLoss now averageLoss e4
     in (if beTarget e5 \<noteq> beTarget e0 \<and> beOnChange e5 then Some (beTarget e5) else None, e5))"

text \<open>Which RTCP packets carry congestion feedback; \<open>err\<close> is the detector's answer to the batch.\<close>

datatype rtcpKind = TransportLayerCC | CCFeedbackReport | OtherRTCP

definition WriteRTCP :: "(float64 \<Rightarrow> float64 \<Rightarrow> float64) \<Rightarrow> int \<Rightarrow> stats \<Rightarrow> int \<Rightarrow> goerror option \<Rightarrow> rtcpKind list
    \<Rightarrow> bandwidthEstimator \<Rightarrow> goerror option \<times> int option \<times> bandwidthEstimator" where
  "WriteRTCP pow now m encoderBitrate err packets e =
    (if err \<noteq> None then (err, None, e)
     else if list_ex (\<lambda>p. p \<noteq> OtherRTCP) packets then (None, update pow now m encoderBitrate e)
     else (None, None, e))"

definition GetTargetBitrate :: "bandwidthEstimator \<Rightarrow> int" where
  "GetTargetBitrate e = beTarget e"

definition OnTargetBitrateChange :: "bool \<Rightarrow> bandwidthEstimator \<Rightarrow> bandwidthEstimator" where
  "OnTargetBitrateChange f e = e\<lparr>beOnChange := f\<rparr>"

section \<open>The ring holds the last half second\<close>

text \<open>
  The reference: a log of everything sent, as (bucket, bytes).  The ring agrees with the log on the
  ten buckets ending at the current one.
\<close>

definition sentIn :: "(int \<times> int) list \<Rightarrow> int \<Rightarrow> int" where
  "sentIn entries b = sum_list (map snd (filter (\<lambda>p. fst p = b) entries))"

definition windowSum :: "(int \<times> int) list \<Rightarrow> int \<Rightarrow> int" where
  "windowSum entries cur = (\<Sum>b\<in>{cur - 9..cur}. sentIn entries b)"

definition ringOK :: "(int \<times> int) list \<Rightarrow> bandwidthEstimator \<Rightarrow> bool" where
  "ringOK entries e = (length (beSentBuckets e) = 10 \<and> (\<forall>p\<in>set entries. fst p \<le> beSentBucket e)
     \<and> (\<forall>b. beSentBucket e - 10 < b \<and> b \<le> beSentBucket e \<longrightarrow> beSentBuckets e ! slot b = sentIn entries b))"

lemma slot_less [simp]: "slot b < 10"
  by (simp add: slot_def sentRateBucketCount_def nat_less_iff)

lemma slot_eq_iff: "slot a = slot b \<longleftrightarrow> a mod 10 = b mod 10"
  by (simp add: slot_def sentRateBucketCount_def eq_nat_nat_iff)

lemma slot_inj: "slot a = slot b \<Longrightarrow> \<bar>a - b\<bar> < 10 \<Longrightarrow> a = b"
  unfolding slot_eq_iff by presburger

lemma slot_period: "slot (b - 10 * d) = slot b"
  unfolding slot_eq_iff using mod_mult_self2 [of b 10 "- d"] by simp

lemma sentIn_future: "\<forall>p\<in>set entries. fst p \<le> cur \<Longrightarrow> cur < b \<Longrightarrow> sentIn entries b = 0"
  by (induction entries) (auto simp: sentIn_def)

lemma sentIn_Cons: "sentIn ((a, n) # entries) b = (if a = b then n else 0) + sentIn entries b"
  by (simp add: sentIn_def)

lemma fold_zero_length: "length (fold (\<lambda>offset bs. bs[slot (c + offset) := 0]) os (bs :: int list)) = length bs"
  by (induction os arbitrary: bs) auto

lemma fold_zero_nth:
  "length bs = 10 \<Longrightarrow> i < 10 \<Longrightarrow>
    fold (\<lambda>offset bs. bs[slot (c + offset) := 0]) os (bs :: int list) ! i
      = (if \<exists>off\<in>set os. slot (c + off) = i then 0 else bs ! i)"
  by (induction os arbitrary: bs) (auto simp: nth_list_update)

lemma advance_ring:
  assumes "ringOK entries e"
  shows "ringOK entries (advanceSentBucketsLocked bucket e)"
    and "beSentBucket (advanceSentBucketsLocked bucket e) = max bucket (beSentBucket e)"
proof -
  show "beSentBucket (advanceSentBucketsLocked bucket e) = max bucket (beSentBucket e)"
    by (simp add: advanceSentBucketsLocked_def Let_def)
  show "ringOK entries (advanceSentBucketsLocked bucket e)"
  proof (cases "bucket \<le> beSentBucket e")
    case False
    let ?cur = "beSentBucket e" and ?e = "advanceSentBucketsLocked bucket e"
    let ?offs = "[1..min (bucket - ?cur) 10]"
    have e: "beSentBuckets ?e = fold (\<lambda>offset bs. bs[slot (?cur + offset) := 0]) ?offs (beSentBuckets e)"
      using False by (simp add: advanceSentBucketsLocked_def Let_def sentRateBucketCount_def)
    have "beSentBuckets ?e ! slot b = sentIn entries b" if b: "bucket - 10 < b" "b \<le> bucket" for b
    proof (cases "b \<le> ?cur")
      case True
      have "slot (?cur + off) \<noteq> slot b" if "off \<in> set ?offs" for off
        using that b True slot_inj [of "?cur + off" b] by auto
      then show ?thesis using assms b True False by (auto simp: e ringOK_def fold_zero_nth)
    next
      case late: False
      have "\<exists>off\<in>set ?offs. slot (?cur + off) = slot b"
      proof (cases "b - ?cur \<le> 10")
        case True
        then show ?thesis using late b by (intro bexI [of _ "b - ?cur"]) auto
      next
        case far: False
        let ?off = "(b - ?cur - 1) mod 10 + 1"
        have "?cur + ?off = b - 10 * ((b - ?cur - 1) div 10)"
          using minus_mult_div_eq_mod [of "b - ?cur - 1" 10] by simp
        then have "slot (?cur + ?off) = slot b" by (simp only: slot_period)
        moreover have "min (bucket - ?cur) 10 = 10" using far b by simp
        moreover have "0 \<le> (b - ?cur - 1) mod 10" "(b - ?cur - 1) mod 10 < 10" by simp_all
        then have "?off \<in> {1..10}" by (simp del: pos_mod_sign pos_mod_bound)
        ultimately show ?thesis by (metis set_upto)
      qed
      moreover have "sentIn entries b = 0" using assms late by (intro sentIn_future [of _ ?cur]) (auto simp: ringOK_def)
      ultimately show ?thesis using assms by (auto simp: e ringOK_def fold_zero_nth)
    qed
    then show ?thesis using assms False
      by (auto simp: ringOK_def e fold_zero_length) (auto simp: advanceSentBucketsLocked_def Let_def)
  qed (use assms in \<open>simp add: advanceSentBucketsLocked_def\<close>)
qed

lemma recordSent_ring:
  assumes "ringOK entries e" "beSentBucket e - 10 < bucketOf now"
  shows "ringOK ((bucketOf now, sz) # entries) (recordSent now sz e)"
    and "beSentBucket (recordSent now sz e) = max (bucketOf now) (beSentBucket e)"
proof -
  let ?b = "bucketOf now"
  let ?e = "advanceSentBucketsLocked ?b e"
  have ok: "ringOK entries ?e" and cur: "beSentBucket ?e = max ?b (beSentBucket e)"
    using advance_ring [OF assms(1)] by auto
  show "beSentBucket (recordSent now sz e) = max ?b (beSentBucket e)" by (simp add: recordSent_def Let_def cur)
  have "slot ?b \<noteq> slot a" if "?b \<noteq> a" "beSentBucket ?e - 10 < a" "a \<le> beSentBucket ?e" for a
  proof -
    have "\<bar>?b - a\<bar> < 10" using that(2,3) assms(2) cur by linarith
    then show ?thesis using that(1) slot_inj by blast
  qed
  then show "ringOK ((?b, sz) # entries) (recordSent now sz e)"
    using ok cur assms(2)
    by (auto simp: ringOK_def recordSent_def Let_def sentIn_Cons nth_list_update) 
qed

lemma slot_window: "bij_betw slot {cur - 9..cur} {..<10}"
proof -
  have inj: "inj_on slot {cur - 9..cur}" by (rule inj_onI, rule slot_inj) auto
  then have "card (slot ` {cur - 9..cur}) = 10" by (simp add: card_image)
  then have "slot ` {cur - 9..cur} = {..<10}"
    by (intro card_subset_eq) auto
  then show ?thesis using inj by (simp add: bij_betw_def)
qed

lemma ring_sum:
  assumes "ringOK entries e"
  shows "sum_list (beSentBuckets e) = windowSum entries (beSentBucket e)"
proof -
  have "sum_list (beSentBuckets e) = (\<Sum>i<10. beSentBuckets e ! i)"
    using assms by (simp add: ringOK_def sum_list_sum_nth atLeast0LessThan)
  also have "\<dots> = (\<Sum>b\<in>{beSentBucket e - 9..beSentBucket e}. beSentBuckets e ! slot b)"
    by (rule sum.reindex_bij_betw [OF slot_window, symmetric])
  also have "\<dots> = windowSum entries (beSentBucket e)"
    unfolding windowSum_def using assms by (intro sum.cong) (auto simp: ringOK_def)
  finally show ?thesis .
qed

section \<open>The target\<close>

definition inRangeTarget :: "bandwidthEstimator \<Rightarrow> bool" where
  "inRangeTarget e = (bandwidthMinBitrate \<le> beTarget e \<and> beTarget e \<le> bandwidthMaxBitrate)"

lemma clampBitrate_range: "bandwidthMinBitrate \<le> clampBitrate b" "clampBitrate b \<le> bandwidthMaxBitrate"
  by (auto simp: clampBitrate_def bw_consts)

lemma clampBitrate_le: "b \<le> t \<Longrightarrow> bandwidthMinBitrate \<le> t \<Longrightarrow> clampBitrate b \<le> t"
  by (auto simp: clampBitrate_def)

lemma advance_frame [simp, frame]:
  "beTarget (advanceSentBucketsLocked b e) = beTarget e"
  "beApplicationLimited (advanceSentBucketsLocked b e) = beApplicationLimited e"
  "beLastDelayStats (advanceSentBucketsLocked b e) = beLastDelayStats e"
  "beLastIncrease (advanceSentBucketsLocked b e) = beLastIncrease e"
  "beLastLossDecrease (advanceSentBucketsLocked b e) = beLastLossDecrease e"
  "beOnChange (advanceSentBucketsLocked b e) = beOnChange e"
  by (simp_all add: advanceSentBucketsLocked_def Let_def)

lemma applyDelay_range: "inRangeTarget e \<Longrightarrow> inRangeTarget (applyDelay pow now d sent e)"
  using clampBitrate_range by (auto simp: applyDelay_def inRangeTarget_def increasedTarget_def Let_def)

lemma applyLoss_range: "inRangeTarget e \<Longrightarrow> inRangeTarget (applyLoss now l e)"
  using clampBitrate_range by (auto simp: applyLoss_def inRangeTarget_def lossTarget_def)

text \<open>Above the threshold the loss factor is at most one, whatever the detector reports.\<close>

lemma lossFactor_fle:
  assumes "flt lossDecreaseThreshold l"
  shows "fle (fsub (Fin 1) (fmul (Fin (1 / 2)) l)) 1"
proof -
  have thr: "round64 (1 / 10) = Inf False \<or> (\<exists>v. round64 (1 / 10) = Fin v \<and> 0 \<le> v)"
    by (rule round64_nonneg) simp
  show ?thesis
  proof (cases l)
    case (Fin r)
    then have "0 \<le> r" using thr assms by (auto simp: lossDecreaseThreshold_def)
    then have "round64 (r / 2) = Inf False \<or> (\<exists>v. round64 (r / 2) = Fin v \<and> 0 \<le> v)"
      by (intro round64_nonneg) simp
    moreover have "representable 1" using representable_nat [of 1] by simp
    ultimately show ?thesis using Fin round64_fle [of 1] by (auto simp: fsub_def fle_def)
  next
    case (Inf s)
    then have "\<not> s" using thr assms by (auto simp: lossDecreaseThreshold_def)
    then show ?thesis using Inf by (simp add: fsub_def fle_def)
  qed (use thr assms in \<open>auto simp: lossDecreaseThreshold_def\<close>)
qed

lemma lossTarget_le:
  assumes "flt lossDecreaseThreshold l" "bandwidthMinBitrate \<le> t" "t \<le> bandwidthMaxBitrate"
  shows "lossTarget l t \<le> t"
proof -
  have "fle (fmul (fofInt t) (fsub (Fin 1) (fmul (Fin (1 / 2)) l))) (of_int t)"
    using assms by (intro fmul_fle lossFactor_fle) (auto simp: bw_consts)
  then have "ftoInt (fmul (fofInt t) (fsub (Fin 1) (fmul (Fin (1 / 2)) l))) \<le> t"
    using assms by (intro ftoInt_fle) (auto simp: bw_consts)
  then show ?thesis using assms(2) by (simp add: lossTarget_def clampBitrate_le)
qed

lemma applyLoss_le: "inRangeTarget e \<Longrightarrow> beTarget (applyLoss now l e) \<le> beTarget e"
  by (simp add: applyLoss_def inRangeTarget_def lossTarget_le)

lemma applyDelay_le:
  "inRangeTarget e \<Longrightarrow>
    beTarget (applyDelay pow now d sent e) \<le> max (beTarget e) (ftoInt (fmul delayIncreaseCap (fofInt sent)))"
  by (auto simp: applyDelay_def inRangeTarget_def increasedTarget_def Let_def intro: clampBitrate_le)

text \<open>The state of the estimator after its steps, in the order \<open>update\<close> performs them.\<close>

definition limited :: "int \<Rightarrow> int \<Rightarrow> bandwidthEstimator \<Rightarrow> bandwidthEstimator" where
  "limited now enc e = (snd (sentBitrate now e))\<lparr>beApplicationLimited :=
     limitState (fst (sentBitrate now e)) (min (beTarget e) enc) (beApplicationLimited e)\<rparr>"

lemma update_steps:
  "snd (update pow now m enc e) = applyLoss now (statFloat m ''averageLoss'')
     (let e3 = (limited now enc e)\<lparr>beLastDelayStats := readDelayStats m\<rparr>
      in if \<not> delayStatsEq (readDelayStats m) (beLastDelayStats e) \<and> \<not> beApplicationLimited e3
         then applyDelay pow now (readDelayStats m) (fst (sentBitrate now e)) e3 else e3)"
  by (simp add: update_def limited_def sentBitrate_def Let_def)

lemma limited_frame [simp]: "beTarget (limited now enc e) = beTarget e"
  by (simp add: limited_def sentBitrate_def Let_def)

subsection \<open>Runs of the estimator\<close>

datatype bwEvent = BwFeedback int stats int "goerror option" "rtcpKind list" | BwSent int int | BwQuery int | BwListen bool

fun bwStep :: "(float64 \<Rightarrow> float64 \<Rightarrow> float64) \<Rightarrow> bwEvent \<Rightarrow> bandwidthEstimator \<Rightarrow> bandwidthEstimator" where
  "bwStep pow (BwFeedback now m enc err packets) e = snd (snd (WriteRTCP pow now m enc err packets e))"
| "bwStep pow (BwSent now sz) e = recordSent now sz e"
| "bwStep pow (BwQuery now) e = snd (sentBitrate now e)"
| "bwStep pow (BwListen f) e = OnTargetBitrateChange f e"

lemma update_range: "inRangeTarget e \<Longrightarrow> inRangeTarget (snd (update pow now m enc e))"
  unfolding update_steps by (intro applyLoss_range) (auto simp: Let_def intro!: applyDelay_range, auto simp: inRangeTarget_def)

lemma bwStep_range: "inRangeTarget e \<Longrightarrow> inRangeTarget (bwStep pow ev e)"
  by (cases ev) (auto simp: WriteRTCP_def update_range recordSent_def sentBitrate_def OnTargetBitrateChange_def
      Let_def inRangeTarget_def update_range [unfolded inRangeTarget_def])

definition sendAll :: "(int \<times> int) list \<Rightarrow> bandwidthEstimator \<Rightarrow> bandwidthEstimator" where
  "sendAll sends e = fold (\<lambda>(now, sz). recordSent now sz) sends e"

lemma bucketOf_mono: "a \<le> b \<Longrightarrow> bucketOf a \<le> bucketOf b"
  by (simp add: bucketOf_def sentRateBucketPeriod_def zdiv_mono1)

lemma sendAll_ring:
  assumes "sorted (map fst sends)" "ringOK entries e" "\<forall>p\<in>set sends. beSentBucket e \<le> bucketOf (fst p)"
  shows "ringOK (rev (map (\<lambda>(now, sz). (bucketOf now, sz)) sends) @ entries) (sendAll sends e)
    \<and> (\<forall>now. beSentBucket e \<le> bucketOf now \<and> (\<forall>p\<in>set sends. fst p \<le> now) \<longrightarrow> beSentBucket (sendAll sends e) \<le> bucketOf now)"
  using assms
proof (induction sends arbitrary: entries e)
  case (Cons a sends)
  obtain t n where a: "a = (t, n)" by fastforce
  let ?e = "recordSent t n e"
  have cur: "beSentBucket ?e = bucketOf t" and ok: "ringOK ((bucketOf t, n) # entries) ?e"
    using recordSent_ring [OF Cons.prems(2), of t n] Cons.prems(3) a by auto
  have le: "\<forall>p\<in>set sends. bucketOf t \<le> bucketOf (fst p)" using Cons.prems(1) a by (auto intro: bucketOf_mono)
  have "sorted (map fst sends)" using Cons.prems(1) by simp
  from Cons.IH [OF this ok] show ?case using cur le a
    by (auto simp: sendAll_def intro: bucketOf_mono)
qed (auto simp: sendAll_def)

lemma windowSum_filter:
  "windowSum entries cur = sum_list (map snd (filter (\<lambda>p. cur - 9 \<le> fst p \<and> fst p \<le> cur) entries))"
proof (induction entries)
  case (Cons p entries)
  have "windowSum (p # entries) cur = (\<Sum>b\<in>{cur - 9..cur}. if fst p = b then snd p else 0) + windowSum entries cur"
    by (cases p) (simp add: windowSum_def sentIn_Cons sum.distrib)
  then show ?case using Cons by simp
qed (simp add: windowSum_def sentIn_def)

lemma bits_exact:
  assumes "0 \<le> x" "2 * x \<le> 2 ^ 53"
  shows "ftoInt (fdivPos (fofInt x) (1 / 2)) = 2 * x"
proof -
  have "fofInt x = Fin (of_int x)" "fofInt (2 * x) = Fin (of_int (2 * x))"
    using assms fofInt_exact [of x] fofInt_exact [of "2 * x"] by auto
  then have "fdivPos (fofInt x) (1 / 2) = Fin (of_int (2 * x))" by (simp add: fofInt_def mult.commute)
  moreover have "truncRat (of_int (2 * x)) = 2 * x" using assms(1) unfolding truncRat_def floor_of_int by simp
  ultimately show ?thesis using assms by (simp add: ftoInt_def)
qed

section \<open>Properties\<close>

text \<open>
  C8.  Whatever feedback arrives, whatever is sent and at whatever times, and whatever \<open>math.Pow\<close>
  returns: the target bitrate stays between 100 kbit/s and 50 Mbit/s.
\<close>

theorem bandwidth_target_range:
  "GetTargetBitrate (fold (bwStep pow) events (newBandwidthEstimator initial)) \<in> {100000..50000000}"
proof -
  have "inRangeTarget (newBandwidthEstimator initial)"
    using clampBitrate_range by (simp add: newBandwidthEstimator_def inRangeTarget_def)
  then have "inRangeTarget (fold (bwStep pow) events (newBandwidthEstimator initial))"
    by (induction events rule: rev_induct) (simp_all add: bwStep_range)
  then show ?thesis by (simp add: inRangeTarget_def GetTargetBitrate_def bw_consts)
qed

text \<open>
  One feedback round.  The target never grows beyond one and a half times the measured sent
  rate; while the sender is application-limited it does not grow at all, and does not change unless
  the reported loss exceeds the threshold; the callback is called exactly with a changed target.
\<close>

theorem bandwidth_update_bounds:
  assumes "inRangeTarget e" "update pow now m enc e = (changed, e')"
  shows "beTarget e' \<le> max (beTarget e) (ftoInt (fmul delayIncreaseCap (fofInt (fst (sentBitrate now e)))))
    \<and> (beApplicationLimited e' \<longrightarrow> beTarget e' \<le> beTarget e)
    \<and> (beApplicationLimited e' \<and> \<not> flt lossDecreaseThreshold (statFloat m ''averageLoss'') \<longrightarrow> beTarget e' = beTarget e)
    \<and> changed = (if beTarget e' \<noteq> beTarget e \<and> beOnChange e' then Some (beTarget e') else None)"
proof -
  define e4 where "e4 = (let e3 = (limited now enc e)\<lparr>beLastDelayStats := readDelayStats m\<rparr>
      in if \<not> delayStatsEq (readDelayStats m) (beLastDelayStats e) \<and> \<not> beApplicationLimited e3
         then applyDelay pow now (readDelayStats m) (fst (sentBitrate now e)) e3 else e3)"
  have e': "e' = applyLoss now (statFloat m ''averageLoss'') e4"
    using assms(2) update_steps [of pow now m enc e] by (simp add: e4_def)
  let ?e3 = "(limited now enc e)\<lparr>beLastDelayStats := readDelayStats m\<rparr>"
  have r3: "inRangeTarget ?e3" "beTarget ?e3 = beTarget e" using assms(1) by (simp_all add: inRangeTarget_def)
  have r4: "inRangeTarget e4" and le4: "beTarget e4 \<le> max (beTarget e) (ftoInt (fmul delayIncreaseCap (fofInt (fst (sentBitrate now e)))))"
    using applyDelay_range [OF r3(1)] applyDelay_le [OF r3(1)] r3 by (auto simp: e4_def Let_def)
  have "beApplicationLimited e' = beApplicationLimited (limited now enc e)"
    by (simp add: e' e4_def applyLoss_def applyDelay_def Let_def)
  then have lim: "beApplicationLimited e' \<Longrightarrow> beTarget e4 = beTarget e" by (simp add: e4_def)
  have "beTarget e' \<le> beTarget e4" using applyLoss_le [OF r4] by (simp add: e')
  moreover have "\<not> flt lossDecreaseThreshold (statFloat m ''averageLoss'') \<Longrightarrow> beTarget e' = beTarget e4"
    by (simp add: e' applyLoss_def)
  moreover have "changed = (if beTarget e' \<noteq> beTarget e \<and> beOnChange e' then Some (beTarget e') else None)"
    using assms(2) by (auto simp: update_def Let_def sentBitrate_def)
  ultimately show ?thesis using le4 lim by auto
qed

text \<open>
  C10.  The measured rate is the bytes of the last ten 50 ms buckets: after any sends at
  non-decreasing times, the bitrate reported at a later time is sixteen times (eight bits, half a
  second) the bytes whose bucket lies in the window, for totals a \<open>float64\<close> holds exactly.
\<close>

theorem sent_bitrate_window:
  assumes "sorted (map fst sends)" "\<forall>p\<in>set sends. 0 \<le> fst p \<and> fst p \<le> now" "0 \<le> now"
    "bytes = sum_list (map snd (filter (\<lambda>p. bucketOf now - 9 \<le> bucketOf (fst p)) sends))"
    "0 \<le> bytes" "16 * bytes \<le> 2 ^ 53"
  shows "fst (sentBitrate now (sendAll sends (newBandwidthEstimator initial))) = 16 * bytes"
proof -
  let ?init = "newBandwidthEstimator initial" and ?f = "\<lambda>(now, sz). (bucketOf now, sz :: int)"
  let ?e = "sendAll sends ?init"
  have ring0: "ringOK [] ?init" by (auto simp: ringOK_def newBandwidthEstimator_def sentIn_def)
  have b0: "beSentBucket ?init \<le> bucketOf t" if "0 \<le> t" for t
    using that by (simp add: newBandwidthEstimator_def bucketOf_def sentRateBucketPeriod_def)
  have ring: "ringOK (rev (map ?f sends)) ?e" and le: "beSentBucket ?e \<le> bucketOf now"
    using sendAll_ring [OF assms(1) ring0] b0 assms(2,3) by auto
  have "sum_list (beSentBuckets (advanceSentBucketsLocked (bucketOf now) ?e)) = windowSum (rev (map ?f sends)) (bucketOf now)"
    using ring_sum [OF advance_ring(1) [OF ring]] advance_ring(2) [OF ring] le by (simp add: max_def)
  also have "\<dots> = sum_list (map snd (filter (\<lambda>p. bucketOf now - 9 \<le> fst p \<and> fst p \<le> bucketOf now) (map ?f sends)))"
    by (simp add: windowSum_filter rev_filter [symmetric] rev_map [symmetric])
  also have "\<dots> = bytes"
    unfolding assms(4) filter_map comp_def map_map
    using assms(2) by (intro arg_cong [where f = sum_list] map_cong filter_cong)
      (fastforce intro: bucketOf_mono)+
  finally show ?thesis
    using assms(5,6) bits_exact [of "bytes * 8"] by (simp add: sentBitrate_def Let_def)
qed

subsection \<open>Concrete inputs\<close>

definition demoStats :: stats where
  "demoStats = fmap_of_list [(''state'', StatString ''decrease''), (''averageLoss'', StatFloat (Fin 0)),
     (''delayTargetBitrate'', StatInt 2000000)]"

theorem bandwidth_update_bounds_witness:
  "beTarget (snd (update (\<lambda>_ x. x) 1000000000 demoStats 4000000 (newBandwidthEstimator 4000000))) = 4000000
   \<and> beApplicationLimited (snd (update (\<lambda>_ x. x) 1000000000 demoStats 4000000 (newBandwidthEstimator 4000000)))"
proof -
  let ?e = "newBandwidthEstimator 4000000" and ?u = "update (\<lambda>_ x. x) 1000000000 demoStats 4000000"
  have ev: "inRangeTarget ?e" "beApplicationLimited (snd (?u ?e))" "\<not> flt lossDecreaseThreshold (statFloat demoStats ''averageLoss'')"
    "beTarget ?e = 4000000" by code_simp+
  show ?thesis
    using bandwidth_update_bounds [OF ev(1), of "\<lambda>_ x. x" 1000000000 demoStats 4000000 "fst (?u ?e)" "snd (?u ?e)"] ev by simp
qed

theorem sent_bitrate_window_witness:
  "fst (sentBitrate 700000000 (sendAll [(100000000, 1000), (400000000, 500), (690000000, 20)] (newBandwidthEstimator 0)))
     = 16 * 520"
proof -
  let ?s = "[(100000000, 1000), (400000000, 500), (690000000, 20)] :: (int \<times> int) list"
  have "sum_list (map snd (filter (\<lambda>p. bucketOf 700000000 - 9 \<le> bucketOf (fst p)) ?s)) = 520" by code_simp
  then show ?thesis using sent_bitrate_window [of ?s 700000000 520 0] by simp
qed

end
