(* ===== verification/Track.thy ===== *)
theory Track
  imports Prelude
begin

text \<open>
  The RTP sample track (\<open>src/webrtc/track.go\<close>): binding a negotiated codec, converting durations to
  RTP clock ticks with a carried remainder, and writing a sample to every binding.  The packetizer
  and the writer of a binding belong to the WebRTC library: their joint state is a type parameter and
  their operations are a record argument.
\<close>

subsection \<open>Data\<close>

record codecParameters =
  cpMimeType :: string
  cpClockRate :: uint32
  cpChannels :: uint16
  cpPayloadType :: uint8

record ('p, 'w) writerOps =
  woSkipSamples :: "uint32 \<Rightarrow> 'w \<Rightarrow> 'w"
  woPacketize :: "uint8 list \<Rightarrow> 'w \<Rightarrow> 'p list \<times> 'w"
  woWriteRTP :: "'p \<Rightarrow> 'w \<Rightarrow> goerror option \<times> 'w"

record 'w trackBinding =
  tbWriter :: 'w
  tbRemainder :: uint64

record 'w sampleTrack =
  stMimeType :: string
  stClockRate :: uint32
  stChannels :: uint16
  stPayloader :: string
  stId :: string
  stStreamID :: string
  stBindings :: "(string, 'w trackBinding) fmap"

definition newSampleTrack :: "string \<Rightarrow> uint32 \<Rightarrow> uint16 \<Rightarrow> string \<Rightarrow> string \<Rightarrow> string \<Rightarrow> 'w sampleTrack" where
  "newSampleTrack mime clockRate channels payloader ident streamID =
    \<lparr>stMimeType = mime, stClockRate = clockRate, stChannels = channels, stPayloader = payloader,
     stId = ident, stStreamID = streamID, stBindings = fmempty\<rparr>"

subsection \<open>Binding\<close>

text \<open>\<open>strings.EqualFold\<close> on ASCII strings, which MIME types are.\<close>

definition asciiLower :: "char \<Rightarrow> nat" where
  "asciiLower c = (let b = byte_of c in if 65 \<le> b \<and> b \<le> 90 then b + 32 else b)"

definition equalFold :: "string \<Rightarrow> string \<Rightarrow> bool" where
  "equalFold a b = (map asciiLower a = map asciiLower b)"

definition ErrUnsupportedCodec :: goerror where "ErrUnsupportedCodec = Sentinel ''pion.ErrUnsupportedCodec''"
definition ErrUnbindFailed :: goerror where "ErrUnbindFailed = Sentinel ''pion.ErrUnbindFailed''"

text \<open>
  \<open>mk\<close> makes the writer of a new binding from the negotiated payload type and the payloader
  (\<open>rtp.NewPacketizer\<close> and \<open>context.WriteStream\<close>); \<open>ctxId\<close> and \<open>ctxCodecs\<close> are the context's
  identity and codec parameters.
\<close>

definition Bind :: "(uint8 \<Rightarrow> string \<Rightarrow> 'w) \<Rightarrow> string \<Rightarrow> codecParameters list \<Rightarrow> 'w sampleTrack
    \<Rightarrow> (goerror + codecParameters) \<times> 'w sampleTrack" where
  "Bind mk ctxId ctxCodecs t =
    (case find (\<lambda>c. equalFold (cpMimeType c) (stMimeType t) \<and> cpClockRate c = stClockRate t
         \<and> cpChannels c = stChannels t) ctxCodecs of
       None \<Rightarrow> (Inl ErrUnsupportedCodec, t)
     | Some negotiated \<Rightarrow>
         if stPayloader t \<in> {''vp8'', ''h264'', ''opus''}
         then (Inr negotiated, t\<lparr>stBindings := fmupd ctxId
                 \<lparr>tbWriter = mk (cpPayloadType negotiated) (stPayloader t), tbRemainder = 0\<rparr> (stBindings t)\<rparr>)
         else (Inl (Errorf ''unsupported RTP payloader %q'' [FStr (stPayloader t)]), t))"

definition Unbind :: "string \<Rightarrow> 'w sampleTrack \<Rightarrow> goerror option \<times> 'w sampleTrack" where
  "Unbind ctxId t =
    (if fmlookup (stBindings t) ctxId = None then (Some ErrUnbindFailed, t)
     else (None, t\<lparr>stBindings := fmdrop ctxId (stBindings t)\<rparr>))"

subsection \<open>Ticks\<close>

definition nanosPerSecond :: uint64 where "nanosPerSecond = 1000000000"
definition maxTicks :: uint64 where "maxTicks = 4294967295"

text \<open>
  \<open>durationToTicks\<close>: the ticks and the new remainder.  The duration is not negative
  (\<open>WriteSample\<close> checks it), all arithmetic is on 64-bit words.
\<close>

definition durationToTicks :: "uint32 \<Rightarrow> uint64 \<Rightarrow> int \<Rightarrow> uint32 \<times> uint64" where
  "durationToTicks clockRate remainder duration =
    (let seconds = word_of_int (go_div duration 1000000000) :: uint64;
         nanoseconds = word_of_int (go_mod duration 1000000000) :: uint64;
         wholeTicks = seconds * ucast clockRate
     in if maxTicks \<le> wholeTicks then (ucast maxTicks, 0)
        else let fractional = nanoseconds * ucast clockRate + remainder;
                 ticks = wholeTicks + fractional div nanosPerSecond
             in if maxTicks < ticks then (ucast maxTicks, 0)
                else (ucast ticks, fractional mod nanosPerSecond))"

subsection \<open>Writing\<close>

fun writePackets :: "('p, 'w) writerOps \<Rightarrow> 'p list \<Rightarrow> goerror option \<Rightarrow> 'w \<Rightarrow> goerror option \<times> 'w" where
  "writePackets ops [] firstErr w = (firstErr, w)"
| "writePackets ops (p # ps) firstErr w =
    (let (err, w') = woWriteRTP ops p w
     in writePackets ops ps (if firstErr = None then err else firstErr) w')"

definition writeBinding :: "('p, 'w) writerOps \<Rightarrow> uint32 \<Rightarrow> uint8 list \<Rightarrow> int \<Rightarrow> goerror option \<Rightarrow> 'w trackBinding
    \<Rightarrow> uint32 \<times> goerror option \<times> 'w trackBinding" where
  "writeBinding ops clockRate samples advance firstErr b =
    (let (ticks, remainder) = durationToTicks clockRate (tbRemainder b) advance;
         w1 = (if 0 < ticks then woSkipSamples ops ticks (tbWriter b) else tbWriter b);
         (packets, w2) = woPacketize ops samples w1;
         (err, w3) = writePackets ops packets firstErr w2
     in (ticks, err, b\<lparr>tbWriter := w3, tbRemainder := remainder\<rparr>))"

text \<open>
  The loop over the bindings, in the order \<open>ids\<close> in which Go's map iteration yields them; the ticks
  of the first one are returned.
\<close>

fun writeBindings :: "('p, 'w) writerOps \<Rightarrow> string list \<Rightarrow> uint8 list \<Rightarrow> int \<Rightarrow> uint32 option \<Rightarrow> goerror option
    \<Rightarrow> 'w sampleTrack \<Rightarrow> uint32 option \<times> goerror option \<times> 'w sampleTrack" where
  "writeBindings ops [] samples advance first err t = (first, err, t)"
| "writeBindings ops (i # ids) samples advance first err t =
    (case fmlookup (stBindings t) i of
       None \<Rightarrow> writeBindings ops ids samples advance first err t
     | Some b \<Rightarrow>
         (let (ticks, err', b') = writeBinding ops (stClockRate t) samples advance err b
          in writeBindings ops ids samples advance (if first = None then Some ticks else first) err'
               (t\<lparr>stBindings := fmupd i b' (stBindings t)\<rparr>)))"

definition WriteSample :: "('p, 'w) writerOps \<Rightarrow> string list \<Rightarrow> uint8 list \<Rightarrow> int \<Rightarrow> 'w sampleTrack
    \<Rightarrow> uint32 \<times> goerror option \<times> 'w sampleTrack" where
  "WriteSample ops ids samples advance t =
    (if advance < 0 then (0, Some (errorsNew ''RTP timestamp advance must not be negative''), t)
     else let (first, err, t') = writeBindings ops ids samples advance None None t
          in ((case first of None \<Rightarrow> 0 | Some n \<Rightarrow> n), err, t'))"

section \<open>Tick accounting\<close>

lemma uint_word_of_int_64: "0 \<le> x \<Longrightarrow> x < 2 ^ 64 \<Longrightarrow> uint (word_of_int x :: uint64) = x"
  by (simp add: uint_word_of_int)

lemma uint_mult_64: "uint (a :: uint64) * uint b < 2 ^ 64 \<Longrightarrow> uint (a * b) = uint a * uint b"
  by (simp add: uint_word_arith_bintrs take_bit_int_eq_self)

lemma uint_add_64: "uint (a :: uint64) + uint b < 2 ^ 64 \<Longrightarrow> uint (a + b) = uint a + uint b"
  by (simp add: uint_word_arith_bintrs take_bit_int_eq_self)

text \<open>
  One conversion without saturation is exact: ticks and remainder together carry the whole duration.
\<close>

lemma durationToTicks_exact:
  assumes "0 \<le> d" "d < 2 ^ 63" "uint r < 1000000000"
    "d * uint c + uint r < 4294967295 * 1000000000" "durationToTicks c r d = (ticks, r')"
  shows "uint ticks * 1000000000 + uint r' = d * uint c + uint r" "uint r' < 1000000000"
proof -
  define s n where "s = d div 1000000000" and "n = d mod 1000000000"
  have d: "d = s * 1000000000 + n" and n: "0 \<le> n" "n < 1000000000" and s0: "0 \<le> s"
    using assms(1) by (auto simp: s_def n_def)
  have c: "0 \<le> uint c" "uint c < 2 ^ 32" using uint_range_size [of c] by (auto simp: word_size)
  have sc0: "0 \<le> s * uint c" and nc: "0 \<le> n * uint c" "n * uint c \<le> 1000000000 * 2 ^ 32"
    using s0 n c mult_mono [of n 1000000000 "uint c" "2 ^ 32"] by auto
  have prod: "d * uint c = s * uint c * 1000000000 + n * uint c" by (simp add: d algebra_simps)
  have small: "s * uint c * 1000000000 + (n * uint c + uint r) < 4294967295 * 1000000000"
    using assms(4) prod by simp
  then have "s * uint c * 1000000000 < 4294967295 * 1000000000" using nc(1) uint_ge_0 [of r] by linarith
  then have sc: "s * uint c < 4294967295" by simp
  have uc: "uint (ucast c :: uint64) = uint c" using c by (simp add: uint_up_ucast is_up)
  have us: "uint (word_of_int s :: uint64) = s" using s0 assms(2) by (intro uint_word_of_int_64) (auto simp: s_def)
  have un: "uint (word_of_int n :: uint64) = n" using n by (intro uint_word_of_int_64) auto
  define w f :: uint64 where "w = word_of_int s * ucast c" and "f = word_of_int n * ucast c + r"
  have w: "uint w = s * uint c" using sc unfolding w_def by (subst uint_mult_64) (simp_all add: us uc)
  have "uint (word_of_int n * ucast c :: uint64) = n * uint c"
    using nc(2) by (subst uint_mult_64) (simp_all add: un uc)
  then have f: "uint f = n * uint c + uint r"
    using nc(2) assms(3) unfolding f_def by (subst uint_add_64) simp_all
  have nps: "uint nanosPerSecond = 1000000000" "uint maxTicks = 4294967295"
    by (simp_all add: nanosPerSecond_def maxTicks_def)
  define t where "t = w + f div nanosPerSecond"
  let ?q = "(n * uint c + uint r) div 1000000000"
  have q: "s * uint c + ?q < 4294967295" using small by simp
  have fd: "uint (f div nanosPerSecond) = ?q" by (simp add: uint_div f nps)
  then have t: "uint t = s * uint c + ?q"
    using q w unfolding t_def by (subst uint_add_64) simp_all
  have le: "\<not> maxTicks \<le> w" "\<not> maxTicks < t" using w t sc q by (auto simp: word_le_def word_less_def nps)
  have "go_div d 1000000000 = s" "go_mod d 1000000000 = n"
    using go_div_mod_nonneg [OF assms(1)] by (simp_all add: s_def n_def)
  then have res: "ticks = ucast t" "r' = f mod nanosPerSecond"
    using assms(5) le by (auto simp: durationToTicks_def Let_def w_def f_def t_def)
  have "uint t < 2 ^ 32" using q t by simp
  then have "take_bit 32 (uint t) = uint t" by (intro take_bit_int_eq_self) (rule uint_ge_0)
  then have "uint ticks = uint t" unfolding res(1) by (simp add: unsigned_ucast_eq)
  moreover have "uint r' = (n * uint c + uint r) mod 1000000000" unfolding res(2) by (simp add: uint_mod f nps)
  ultimately show "uint ticks * 1000000000 + uint r' = d * uint c + uint r" "uint r' < 1000000000"
    using t prod by (simp_all add: algebra_simps)
qed

text \<open>A sequence of samples, each with its timestamp advance, and the ticks each one returned.\<close>

fun writeRun :: "('p, 'w) writerOps \<Rightarrow> string list \<Rightarrow> (uint8 list \<times> int) list \<Rightarrow> 'w sampleTrack
    \<Rightarrow> uint32 list \<times> 'w sampleTrack" where
  "writeRun ops ids [] t = ([], t)"
| "writeRun ops ids ((samples, advance) # xs) t =
    (let (ticks, err, t') = WriteSample ops ids samples advance t;
         (rest, t'') = writeRun ops ids xs t'
     in (ticks # rest, t''))"

lemma WriteSample_single:
  assumes "fmlookup (stBindings t) i = Some b" "0 \<le> advance" "durationToTicks (stClockRate t) (tbRemainder b) advance = (ticks, r)"
  shows "\<exists>err t' b'. WriteSample ops [i] samples advance t = (ticks, err, t') \<and> stClockRate t' = stClockRate t
    \<and> fmlookup (stBindings t') i = Some b' \<and> tbRemainder b' = r"
  using assms by (auto simp: WriteSample_def writeBinding_def Let_def split: prod.splits)

lemma writeRun_exact:
  assumes "fmlookup (stBindings t) i = Some b" "uint (tbRemainder b) < 1000000000"
    "\<forall>(samples, d)\<in>set xs. 0 \<le> d \<and> d < 2 ^ 63 \<and> d * uint (stClockRate t) + 1000000000 \<le> 4294967295 * 1000000000"
  shows "\<exists>r. sum_list (map uint (fst (writeRun ops [i] xs t))) * 1000000000 + r
      = sum_list (map snd xs) * uint (stClockRate t) + uint (tbRemainder b) \<and> 0 \<le> r \<and> r < 1000000000"
  using assms
proof (induction xs arbitrary: t b)
  case (Cons x xs)
  obtain samples d where x: "x = (samples, d)" by fastforce
  obtain ticks r where dt: "durationToTicks (stClockRate t) (tbRemainder b) d = (ticks, r)" by fastforce
  have pre: "0 \<le> d" "d < 2 ^ 63" "d * uint (stClockRate t) + uint (tbRemainder b) < 4294967295 * 1000000000"
    using Cons.prems(2,3) x by auto
  note exact = durationToTicks_exact [OF pre(1,2) Cons.prems(2) pre(3) dt]
  obtain err t' b' where ws: "WriteSample ops [i] samples d t = (ticks, err, t')" "stClockRate t' = stClockRate t"
    "fmlookup (stBindings t') i = Some b'" "tbRemainder b' = r"
    using WriteSample_single [OF Cons.prems(1) pre(1) dt] by blast
  have "\<exists>r'. sum_list (map uint (fst (writeRun ops [i] xs t'))) * 1000000000 + r'
      = sum_list (map snd xs) * uint (stClockRate t') + uint (tbRemainder b') \<and> 0 \<le> r' \<and> r' < 1000000000"
    using Cons.prems(3) exact(2) ws by (intro Cons.IH) auto
  then obtain r' where r': "sum_list (map uint (fst (writeRun ops [i] xs t'))) * 1000000000 + r'
      = sum_list (map snd xs) * uint (stClockRate t) + uint r" "0 \<le> r'" "r' < 1000000000"
    using ws(2,4) by auto
  have "sum_list (map uint (fst (writeRun ops [i] (x # xs) t))) * 1000000000 + r'
      = sum_list (map snd (x # xs)) * uint (stClockRate t) + uint (tbRemainder b)"
    using ws(1) exact(1) r'(1) by (simp add: x case_prod_beta distrib_right)
  then show ?case using r'(2,3) by blast
qed simp

lemma writeRun_total:
  assumes "fmlookup (stBindings t) i = Some b" "tbRemainder b = 0"
    "\<forall>(samples, d)\<in>set xs. 0 \<le> d \<and> d < 2 ^ 63 \<and> d * uint (stClockRate t) + 1000000000 \<le> 4294967295 * 1000000000"
  shows "sum_list (map uint (fst (writeRun ops [i] xs t)))
    = sum_list (map snd xs) * uint (stClockRate t) div 1000000000"
proof -
  obtain r where r: "sum_list (map uint (fst (writeRun ops [i] xs t))) * 1000000000 + r
      = sum_list (map snd xs) * uint (stClockRate t)" "0 \<le> r" "r < 1000000000"
    using writeRun_exact [OF assms(1) _ assms(3), of ops] assms(2) by auto
  have "(sum_list (map uint (fst (writeRun ops [i] xs t))) * 1000000000 + r) div 1000000000
      = sum_list (map uint (fst (writeRun ops [i] xs t)))" using r(2,3) by simp
  then show ?thesis unfolding r(1) by simp
qed

section \<open>Properties\<close>

text \<open>
  C11.  RTP time does not drift: over any sequence of samples written to a bound track, the returned
  ticks add up to the total of the timestamp advances at the clock rate, rounded down once, not
  once per sample (as long as a single advance stays below the saturation limit of 32-bit ticks).
\<close>

theorem rtp_ticks_exact:
  assumes "fmlookup (stBindings t) i = Some b" "tbRemainder b = 0"
    "\<forall>(samples, d)\<in>set xs. 0 \<le> d \<and> d < 2 ^ 63 \<and> d * uint (stClockRate t) + 1000000000 \<le> 4294967295 * 1000000000"
  shows "sum_list (map uint (fst (writeRun ops [i] xs t)))
    = sum_list (map snd xs) * uint (stClockRate t) div 1000000000"
  using assms by (rule writeRun_total)

definition demoTrack :: "unit sampleTrack" where
  "demoTrack = snd (Bind (\<lambda>_ _. ()) ''peer'' [\<lparr>cpMimeType = ''video/H264'', cpClockRate = 90000, cpChannels = 0, cpPayloadType = 102\<rparr>]
     (newSampleTrack ''video/h264'' 90000 0 ''h264'' ''video'' ''webdesktop''))"

definition demoWriter :: "(unit, unit) writerOps" where
  "demoWriter = \<lparr>woSkipSamples = (\<lambda>_ w. w), woPacketize = (\<lambda>_ w. ([()], w)), woWriteRTP = (\<lambda>_ w. (None, w))\<rparr>"

theorem rtp_ticks_exact_witness:
  "sum_list (map uint (fst (writeRun demoWriter [''peer''] [([1], 16666666), ([2], 16666666), ([3], 16666668)] demoTrack))) = 4500"
proof -
  have ev: "fmlookup (stBindings demoTrack) ''peer'' = Some \<lparr>tbWriter = (), tbRemainder = 0\<rparr>" "stClockRate demoTrack = 90000"
    by code_simp+
  show ?thesis
    using rtp_ticks_exact [OF ev(1), of "[([1], 16666666), ([2], 16666666), ([3], 16666668)]" demoWriter]
    by (simp add: ev(2))
qed

end
