(* ===== verification/Mailbox.thy ===== *)
theory Mailbox
  imports Prelude "HOL-Library.Sublist"
begin

text \<open>
  The interface of the program's bounded buffers (the two media mailboxes and a clipboard
  subscriber's channel): a bounded buffer that may drop items but never reorders or
  invents them, and reports how many it dropped.  A run of puts and takes by one producer and one
  consumer is analysed once here.
\<close>

datatype 'x boxOp = BoxPut 'x | BoxTake

fun boxPuts :: "'x boxOp list \<Rightarrow> 'x list" where
  "boxPuts [] = []"
| "boxPuts (BoxPut x # os) = x # boxPuts os"
| "boxPuts (BoxTake # os) = boxPuts os"

fun boxRun :: "('x \<Rightarrow> 'm \<Rightarrow> nat \<times> 'm) \<Rightarrow> ('m \<Rightarrow> ('x \<times> 'm) option) \<Rightarrow> 'x boxOp list \<Rightarrow> 'm \<Rightarrow> 'x list \<times> nat \<times> 'm" where
  "boxRun put get [] m = ([], 0, m)"
| "boxRun put get (BoxPut x # os) m =
    (let (d, m') = put x m; (taken, dropped, m'') = boxRun put get os m' in (taken, d + dropped, m''))"
| "boxRun put get (BoxTake # os) m =
    (case get m of
       None \<Rightarrow> boxRun put get os m
     | Some (x, m') \<Rightarrow> (let (taken, dropped, m'') = boxRun put get os m' in (x # taken, dropped, m'')))"

locale mailbox =
  fixes put :: "'x \<Rightarrow> 'm \<Rightarrow> nat \<times> 'm"
    and get :: "'m \<Rightarrow> ('x \<times> 'm) option"
    and items :: "'m \<Rightarrow> 'x list"
    and cap :: nat
    and wf :: "'m \<Rightarrow> bool"
  assumes bound: "wf m \<Longrightarrow> length (items m) \<le> cap"
    and put_wf: "wf m \<Longrightarrow> wf (snd (put x m))"
    and put_order: "wf m \<Longrightarrow> subseq (items (snd (put x m))) (items m @ [x])"
    and put_count: "wf m \<Longrightarrow> length (items (snd (put x m))) + fst (put x m) = length (items m) + 1"
    and get_none: "get m = None \<longleftrightarrow> items m = []"
    and get_some: "get m = Some (x, m') \<Longrightarrow> items m = x # items m'"
    and get_wf: "wf m \<Longrightarrow> get m = Some (x, m') \<Longrightarrow> wf m'"
begin

lemma run_correct:
  assumes "wf m" "boxRun put get os m = (taken, dropped, m')"
  shows "wf m' \<and> subseq (taken @ items m') (items m @ boxPuts os)
    \<and> length taken + dropped + length (items m') = length (items m) + length (boxPuts os)"
  using assms
proof (induction os arbitrary: m taken dropped)
  case (Cons op os)
  show ?case
  proof (cases op)
    case (BoxPut x)
    obtain d m1 where p: "put x m = (d, m1)" by fastforce
    obtain tk dr where r: "boxRun put get os m1 = (tk, dr, m')" "taken = tk" "dropped = d + dr"
      using Cons.prems(2) BoxPut p by (auto split: prod.splits)
    have wf1: "wf m1" and ord: "subseq (items m1) (items m @ [x])" and cnt: "length (items m1) + d = length (items m) + 1"
      using put_wf [OF Cons.prems(1)] put_order [OF Cons.prems(1)] put_count [OF Cons.prems(1)] p
      by (metis snd_conv, metis snd_conv, metis fst_conv snd_conv)
    note ih = Cons.IH [OF wf1 r(1)]
    have "subseq (items m1 @ boxPuts os) ((items m @ [x]) @ boxPuts os)"
      using ord by (rule list_emb_append_mono) simp
    then have "subseq (tk @ items m') ((items m @ [x]) @ boxPuts os)" using ih subseq_order.trans by blast
    then show ?thesis using ih cnt r(2,3) BoxPut by simp
  next
    case BoxTake
    show ?thesis
    proof (cases "get m")
      case None
      then show ?thesis using Cons BoxTake by simp
    next
      case (Some y)
      obtain x m1 where y: "y = (x, m1)" by fastforce
      obtain tk where r: "boxRun put get os m1 = (tk, dropped, m')" "taken = x # tk"
        using Cons.prems(2) BoxTake Some y by (auto split: prod.splits)
      have "wf m1" "items m = x # items m1"
        using get_wf [OF Cons.prems(1)] get_some Some y by auto
      then show ?thesis using Cons.IH [OF _ r(1)] r(2) BoxTake by simp
    qed
  qed
qed simp

end

end
