(* ===== verification/Media_Transport.thy ===== *)
theory Media_Transport
  imports Track Mailbox
begin

text \<open>
  Encoded media on its way to one peer (\<open>src/webrtc/media_transport.go\<close>): the one-frame video mailbox
  that prefers keyframes, the four-frame audio mailbox that drops the oldest, the enqueue operations
  with their counters, and the writer loops that turn production times into RTP timestamps.
  The part of the peer these functions touch is the record \<open>mediaPeer\<close>; counters are 64-bit words.
\<close>

subsection \<open>Samples\<close>

text \<open>\<open>ProducedAt\<close> is a time in nanoseconds; producers always set it.\<close>

record videoSample =
  vsData :: "uint8 list"
  vsCodec :: string
  vsTargetID :: string
  vsProducedAt :: int
  vsPTS :: int
  vsPTSValid :: bool
  vsDuration :: int
  vsKeyFrame :: bool

record audioSample =
  asData :: "uint8 list"
  asPTS :: int
  asDuration :: int

subsection \<open>Mailboxes\<close>

text \<open>\<open>vmWake\<close> and \<open>amWake\<close> are the one-element buffers of the wake channels.\<close>

record videoMailbox =
  vmPending :: "videoSample option"
  vmWake :: bool

record videoPutResult =
  vpAccepted :: bool
  vpReplaced :: bool

definition newVideoMailbox :: videoMailbox where
  "newVideoMailbox = \<lparr>vmPending = None, vmWake = False\<rparr>"

definition videoPut :: "videoSample \<Rightarrow> videoMailbox \<Rightarrow> videoPutResult \<times> videoMailbox" where
  "videoPut sample m =
    (case vmPending m of
       Some p \<Rightarrow>
         if vsKeyFrame p \<and> \<not> vsKeyFrame sample then (\<lparr>vpAccepted = False, vpReplaced = False\<rparr>, m)
         else (\<lparr>vpAccepted = True, vpReplaced = True\<rparr>, m\<lparr>vmPending := Some sample, vmWake := True\<rparr>)
     | None \<Rightarrow> (\<lparr>vpAccepted = True, vpReplaced = False\<rparr>, m\<lparr>vmPending := Some sample, vmWake := True\<rparr>))"

text \<open>
  The locked part of \<open>take\<close> (\<open>None\<close>: nothing pending, the caller waits), the receive from the wake
  channel, and \<open>clear\<close>.
\<close>

definition videoTake :: "videoMailbox \<Rightarrow> (videoSample \<times> videoMailbox) option" where
  "videoTake m = (case vmPending m of None \<Rightarrow> None | Some s \<Rightarrow> Some (s, m\<lparr>vmPending := None\<rparr>))"

definition videoWait :: "videoMailbox \<Rightarrow> videoMailbox option" where
  "videoWait m = (if vmWake m then Some (m\<lparr>vmWake := False\<rparr>) else None)"

definition videoClear :: "videoMailbox \<Rightarrow> videoMailbox" where
  "videoClear m = m\<lparr>vmPending := None\<rparr>"

definition videoLen :: "videoMailbox \<Rightarrow> nat" where
  "videoLen m = (if vmPending m = None then 0 else 1)"

definition audioMailboxCapacity :: nat where "audioMailboxCapacity = 4"

record audioMailbox =
  amQueue :: "audioSample list"
  amWake :: bool

definition newAudioMailbox :: audioMailbox where
  "newAudioMailbox = \<lparr>amQueue = [], amWake = False\<rparr>"

definition audioPut :: "audioSample \<Rightarrow> audioMailbox \<Rightarrow> nat \<times> audioMailbox" where
  "audioPut sample m =
    (if length (amQueue m) = audioMailboxCapacity
     then (1, m\<lparr>amQueue := (tl (amQueue m)) @ [sample], amWake := True\<rparr>)
     else (0, m\<lparr>amQueue := amQueue m @ [sample], amWake := True\<rparr>))"

definition audioWait :: "audioMailbox \<Rightarrow> audioMailbox option" where
  "audioWait m = (if amWake m then Some (m\<lparr>amWake := False\<rparr>) else None)"

definition audioTake :: "audioMailbox \<Rightarrow> (audioSample \<times> audioMailbox) option" where
  "audioTake m =
    (case amQueue m of
       [] \<Rightarrow> None
     | s # rest \<Rightarrow> Some (s, m\<lparr>amQueue := rest, amWake := amWake m \<or> rest \<noteq> []\<rparr>))"

subsection \<open>Enqueueing\<close>

record mediaPeer =
  mpClosing :: bool
  mpConnected :: bool
  mpCtxErr :: bool
  mpNeedsKeyframe :: bool
  mpVideo :: videoMailbox
  mpAudio :: audioMailbox
  mpVideoSeen :: uint64
  mpVideoEnqueued :: uint64
  mpVideoDropped :: uint64
  mpAudioSeen :: uint64
  mpAudioEnqueued :: uint64
  mpAudioDropped :: uint64

definition enqueueVideo :: "videoSample \<Rightarrow> mediaPeer \<Rightarrow> bool \<times> mediaPeer" where
  "enqueueVideo sample p =
    (if mpClosing p \<or> \<not> mpConnected p \<or> mpCtxErr p then (False, p)
     else let p1 = p\<lparr>mpVideoSeen := mpVideoSeen p + 1\<rparr>
          in if mpNeedsKeyframe p1 \<and> \<not> vsKeyFrame sample
             then (False, p1\<lparr>mpVideoDropped := mpVideoDropped p1 + 1\<rparr>)
             else let (result, box) = videoPut sample (mpVideo p1); p2 = p1\<lparr>mpVideo := box\<rparr>
                  in if vpAccepted result
                     then (True, p2\<lparr>mpVideoEnqueued := mpVideoEnqueued p2 + 1,
                            mpVideoDropped := mpVideoDropped p2 + (if vpReplaced result then 1 else 0),
                            mpNeedsKeyframe := mpNeedsKeyframe p2 \<and> \<not> vsKeyFrame sample\<rparr>)
                     else (False, p2\<lparr>mpVideoDropped := mpVideoDropped p2 + 1\<rparr>))"

definition enqueueAudio :: "audioSample \<Rightarrow> mediaPeer \<Rightarrow> mediaPeer" where
  "enqueueAudio sample p =
    (if mpClosing p \<or> \<not> mpConnected p \<or> mpCtxErr p then p
     else let (dropped, box) = audioPut sample (mpAudio p)
          in p\<lparr>mpAudioSeen := mpAudioSeen p + 1, mpAudio := box, mpAudioEnqueued := mpAudioEnqueued p + 1,
               mpAudioDropped := mpAudioDropped p + of_nat dropped\<rparr>)"

text \<open>What \<open>Service.Run\<close> and \<open>selectTarget\<close> do when the target of a peer changes.\<close>

definition restartVideo :: "mediaPeer \<Rightarrow> mediaPeer" where
  "restartVideo p = p\<lparr>mpNeedsKeyframe := True, mpVideo := videoClear (mpVideo p)\<rparr>"

subsection \<open>Writing\<close>

definition positiveDiscontinuityDuration :: "int \<Rightarrow> uint32 \<Rightarrow> int" where
  "positiveDiscontinuityDuration duration clockRate =
    (if 0 < duration then duration else (1000000000 + uint clockRate - 1) div uint clockRate)"

text \<open>The local variables of \<open>writeVideoSamples\<close> and the peer's statistics it stores.\<close>

record videoWriter =
  vwOrigin :: "int option"
  vwPreviousProducedAt :: "int option"
  vwPreviousPTS :: int
  vwHavePreviousPTS :: bool
  vwTicksTotal :: uint64

record videoWriteStats =
  vtPTSRegressions :: uint64
  vtSampleAge :: int
  vtMaxSampleAge :: int
  vtWriteDuration :: int
  vtMaxWrite :: int
  vtSamplesWritten :: uint64
  vtBytesWritten :: uint64
  vtProducedElapsed :: int
  vtRTPElapsed :: int
  vtProductionGap :: int
  vtSampleDuration :: int
  vtTimingDrift :: int
  vtRTPTicks :: uint64
  vtLastRTPTicks :: uint64

definition maximumGap :: "uint32 \<Rightarrow> int" where
  "maximumGap clockRate = 2147483647 * 1000000000 div uint clockRate"

definition videoAdvance :: "uint32 \<Rightarrow> int option \<Rightarrow> videoSample \<Rightarrow> int" where
  "videoAdvance clockRate previous sample =
    (case previous of
       None \<Rightarrow> 0
     | Some prev \<Rightarrow>
         (let advance = vsProducedAt sample - prev; minimumTick = positiveDiscontinuityDuration 0 clockRate
          in if advance \<le> 0 \<or> advance > maximumGap clockRate
             then positiveDiscontinuityDuration (vsDuration sample) clockRate
             else if advance < minimumTick then minimumTick else advance))"

definition rtpElapsed :: "uint32 \<Rightarrow> uint64 \<Rightarrow> int" where
  "rtpElapsed clockRate ticksTotal =
    uint (ticksTotal div ucast clockRate) * 1000000000 + uint ((ticksTotal mod ucast clockRate) * 1000000000 div ucast clockRate)"

text \<open>
  One iteration of \<open>writeVideoSamples\<close> on a sample taken from the mailbox.  \<open>age\<close> and \<open>took\<close> are the
  clock readings \<open>time.Since(sample.ProducedAt)\<close> and \<open>time.Since(writeStarted)\<close>.  \<open>Inl (close, _)\<close>: the
  write failed and the loop ends, closing the peer unless its context is already done.
\<close>

definition writeVideoSample :: "('p, 'w) writerOps \<Rightarrow> string list \<Rightarrow> bool \<Rightarrow> int \<Rightarrow> int \<Rightarrow> videoSample
    \<Rightarrow> videoWriter \<times> videoWriteStats \<times> 'w sampleTrack \<Rightarrow> (bool \<times> videoWriteStats) + (videoWriter \<times> videoWriteStats \<times> 'w sampleTrack)" where
  "writeVideoSample ops ids ctxErr age took sample = (\<lambda>(w, st, track).
    let origin = (case vwOrigin w of None \<Rightarrow> vsProducedAt sample | Some t \<Rightarrow> t);
        producedElapsed = vsProducedAt sample - origin;
        productionGap = (case vwPreviousProducedAt w of None \<Rightarrow> 0 | Some t \<Rightarrow> vsProducedAt sample - t);
        regressed = (vwHavePreviousPTS w \<and> vsPTSValid sample \<and> vsPTS sample \<le> vwPreviousPTS w);
        st1 = st\<lparr>vtPTSRegressions := vtPTSRegressions st + (if regressed then 1 else 0), vtSampleAge := age,
          vtMaxSampleAge := max (vtMaxSampleAge st) age\<rparr>;
        advance = videoAdvance (stClockRate track) (vwPreviousProducedAt w) sample;
        (ticks, err, track') = WriteSample ops ids (vsData sample) advance track
    in if err \<noteq> None then Inl (\<not> ctxErr, st1)
       else let ticksTotal = vwTicksTotal w + ucast ticks;
                elapsed = rtpElapsed (stClockRate track) ticksTotal
            in Inr (\<lparr>vwOrigin = Some origin, vwPreviousProducedAt = Some (vsProducedAt sample),
                     vwPreviousPTS = (if vsPTSValid sample then vsPTS sample else vwPreviousPTS w),
                     vwHavePreviousPTS = (vwHavePreviousPTS w \<or> vsPTSValid sample), vwTicksTotal = ticksTotal\<rparr>,
                    st1\<lparr>vtWriteDuration := took,
                     vtMaxWrite := max (vtMaxWrite st) took, vtSamplesWritten := vtSamplesWritten st + 1,
                     vtBytesWritten := vtBytesWritten st + of_nat (length (vsData sample)),
                     vtProducedElapsed := producedElapsed, vtRTPElapsed := elapsed, vtProductionGap := productionGap,
                     vtSampleDuration := vsDuration sample, vtTimingDrift := elapsed - producedElapsed,
                     vtRTPTicks := ticksTotal, vtLastRTPTicks := ucast ticks\<rparr>, track'))"

definition audioAdvance :: "uint32 \<Rightarrow> int option \<Rightarrow> audioSample \<Rightarrow> int" where
  "audioAdvance clockRate previousPTS sample =
    (case previousPTS of
       None \<Rightarrow> 0
     | Some prev \<Rightarrow>
         if asPTS sample \<le> prev then positiveDiscontinuityDuration (asDuration sample) clockRate
         else asPTS sample - prev)"

definition writeAudioSample :: "('p, 'w) writerOps \<Rightarrow> string list \<Rightarrow> bool \<Rightarrow> audioSample
    \<Rightarrow> int option \<times> uint64 \<times> 'w sampleTrack \<Rightarrow> bool + (int option \<times> uint64 \<times> 'w sampleTrack)" where
  "writeAudioSample ops ids ctxErr sample = (\<lambda>(previousPTS, written, track).
    let (ticks, err, track') = WriteSample ops ids (asData sample) (audioAdvance (stClockRate track) previousPTS sample) track
    in if err \<noteq> None then Inl (\<not> ctxErr) else Inr (Some (asPTS sample), written + 1, track'))"

section \<open>The mailboxes implement the interface\<close>

definition videoPutDrops :: "videoSample \<Rightarrow> videoMailbox \<Rightarrow> nat \<times> videoMailbox" where
  "videoPutDrops s m = (let (r, m') = videoPut s m in (if vpAccepted r \<and> \<not> vpReplaced r then 0 else 1, m'))"

definition videoItems :: "videoMailbox \<Rightarrow> videoSample list" where
  "videoItems m = (case vmPending m of None \<Rightarrow> [] | Some s \<Rightarrow> [s])"

interpretation videobox: mailbox videoPutDrops videoTake videoItems 1 "\<lambda>_. True"
  by unfold_locales (auto simp: videoPutDrops_def videoPut_def videoTake_def videoItems_def Let_def split: option.splits)

interpretation audiobox: mailbox audioPut audioTake amQueue audioMailboxCapacity "\<lambda>m. length (amQueue m) \<le> audioMailboxCapacity"
proof unfold_locales
  fix m :: audioMailbox and x
  assume le: "length (amQueue m) \<le> audioMailboxCapacity"
  show "length (amQueue (snd (audioPut x m))) \<le> audioMailboxCapacity"
    using le by (auto simp: audioPut_def audioMailboxCapacity_def)
  have "subseq (tl (amQueue m)) (amQueue m)" by (cases "amQueue m") auto
  then show "subseq (amQueue (snd (audioPut x m))) (amQueue m @ [x])"
    by (auto simp: audioPut_def)
  show "length (amQueue (snd (audioPut x m))) + fst (audioPut x m) = length (amQueue m) + 1"
    using le by (auto simp: audioPut_def audioMailboxCapacity_def)
qed (auto simp: audioTake_def split: list.splits)

section \<open>The consumers are woken\<close>

text \<open>
  The consumer of the video mailbox checks before it waits, the consumer of the audio mailbox waits
  before it checks; \<open>Checking\<close> and \<open>Waiting\<close> say where it is.
\<close>

datatype taker = Checking | Waiting

inductive videoBoxStep :: "videoMailbox \<times> taker \<Rightarrow> videoMailbox \<times> taker \<Rightarrow> bool" where
  put: "videoBoxStep (m, tk) (snd (videoPut s m), tk)"
| clear: "videoBoxStep (m, tk) (videoClear m, tk)"
| deliver: "videoTake m = Some (s, m') \<Longrightarrow> videoBoxStep (m, Checking) (m', Checking)"
| sleep: "videoTake m = None \<Longrightarrow> videoBoxStep (m, Checking) (m, Waiting)"
| wake: "videoWait m = Some m' \<Longrightarrow> videoBoxStep (m, Waiting) (m', Checking)"

inductive audioBoxStep :: "audioMailbox \<times> taker \<Rightarrow> audioMailbox \<times> taker \<Rightarrow> bool" where
  put: "audioBoxStep (m, tk) (snd (audioPut s m), tk)"
| wake: "audioWait m = Some m' \<Longrightarrow> audioBoxStep (m, Waiting) (m', Checking)"
| deliver: "audioTake m = Some (s, m') \<Longrightarrow> audioBoxStep (m, Checking) (m', Waiting)"
| empty: "audioTake m = None \<Longrightarrow> audioBoxStep (m, Checking) (m, Waiting)"

definition videoBoxReach :: "videoMailbox \<times> taker \<Rightarrow> bool" where
  "videoBoxReach st = videoBoxStep\<^sup>*\<^sup>* (newVideoMailbox, Checking) st"

definition audioBoxReach :: "audioMailbox \<times> taker \<Rightarrow> bool" where
  "audioBoxReach st = audioBoxStep\<^sup>*\<^sup>* (newAudioMailbox, Waiting) st"

lemma videoBox_awake: "videoBoxReach (m, tk) \<Longrightarrow> tk = Waiting \<Longrightarrow> vmPending m \<noteq> None \<Longrightarrow> vmWake m"
proof -
  have "videoBoxStep\<^sup>*\<^sup>* (newVideoMailbox, Checking) st \<Longrightarrow> snd st = Waiting \<longrightarrow> vmPending (fst st) \<noteq> None \<longrightarrow> vmWake (fst st)" for st
  proof (induction rule: rtranclp_induct)
    case (step y z)
    from step.hyps(2) step.IH show ?case
      by cases (auto simp: videoPut_def videoClear_def videoTake_def split: option.splits)
  qed simp
  then show "videoBoxReach (m, tk) \<Longrightarrow> tk = Waiting \<Longrightarrow> vmPending m \<noteq> None \<Longrightarrow> vmWake m"
    by (auto simp: videoBoxReach_def)
qed

lemma audioBox_awake: "audioBoxReach (m, tk) \<Longrightarrow> tk = Waiting \<Longrightarrow> amQueue m \<noteq> [] \<Longrightarrow> amWake m"
proof -
  have "audioBoxStep\<^sup>*\<^sup>* (newAudioMailbox, Waiting) st \<Longrightarrow> snd st = Waiting \<longrightarrow> amQueue (fst st) \<noteq> [] \<longrightarrow> amWake (fst st)" for st
  proof (induction rule: rtranclp_induct)
    case (step y z)
    from step.hyps(2) step.IH show ?case
      by cases (auto simp: audioPut_def audioTake_def split: list.splits)
  qed (simp add: newAudioMailbox_def)
  then show "audioBoxReach (m, tk) \<Longrightarrow> tk = Waiting \<Longrightarrow> amQueue m \<noteq> [] \<Longrightarrow> amWake m"
    by (auto simp: audioBoxReach_def)
qed

section \<open>Runs of one peer's video path\<close>

datatype videoEvent = Offer videoSample | TakeVideo | Restart

fun videoRun :: "videoEvent list \<Rightarrow> mediaPeer \<Rightarrow> videoSample list \<times> nat \<times> mediaPeer" where
  "videoRun [] p = ([], 0, p)"
| "videoRun (Offer s # es) p = videoRun es (snd (enqueueVideo s p))"
| "videoRun (TakeVideo # es) p =
    (case videoTake (mpVideo p) of
       None \<Rightarrow> videoRun es p
     | Some (s, box) \<Rightarrow> (let (taken, cleared, p') = videoRun es (p\<lparr>mpVideo := box\<rparr>) in (s # taken, cleared, p')))"
| "videoRun (Restart # es) p =
    (let (taken, cleared, p') = videoRun es (restartVideo p) in (taken, videoLen (mpVideo p) + cleared, p'))"

text \<open>Frames seen, less the dropped and the pending ones.\<close>

definition videoAccount :: "mediaPeer \<Rightarrow> uint64" where
  "videoAccount p = mpVideoSeen p - mpVideoDropped p - of_nat (videoLen (mpVideo p))"

lemma enqueueVideo_account: "videoAccount (snd (enqueueVideo s p)) = videoAccount p"
  by (auto simp: enqueueVideo_def videoPut_def videoAccount_def videoLen_def Let_def split: option.splits)

lemma videoTake_account:
  "videoTake (mpVideo p) = Some (s, box) \<Longrightarrow> videoAccount (p\<lparr>mpVideo := box\<rparr>) = videoAccount p + 1"
  by (auto simp: videoTake_def videoAccount_def videoLen_def split: option.splits)

lemma restartVideo_account: "videoAccount (restartVideo p) = videoAccount p + of_nat (videoLen (mpVideo p))"
  by (simp add: restartVideo_def videoClear_def videoAccount_def videoLen_def)

definition keyframeFirst :: "mediaPeer \<Rightarrow> bool" where
  "keyframeFirst p = (case vmPending (mpVideo p) of None \<Rightarrow> mpNeedsKeyframe p | Some s \<Rightarrow> vsKeyFrame s)"

lemma enqueueVideo_keyframeFirst: "keyframeFirst p \<Longrightarrow> keyframeFirst (snd (enqueueVideo s p))"
  by (cases "vmPending (mpVideo p)") (simp_all add: keyframeFirst_def enqueueVideo_def videoPut_def Let_def)

lemma videoRun_keyframeFirst:
  "keyframeFirst p \<Longrightarrow> Restart \<notin> set es \<Longrightarrow> videoRun es p = (s # taken, cleared, p') \<Longrightarrow> vsKeyFrame s"
proof (induction es arbitrary: p)
  case (Cons e es)
  show ?case
  proof (cases e)
    case (Offer x)
    then show ?thesis using Cons.prems Cons.IH [of "snd (enqueueVideo x p)"] by (simp add: enqueueVideo_keyframeFirst)
  next
    case TakeVideo
    then show ?thesis using Cons.prems Cons.IH [of p]
      by (cases "vmPending (mpVideo p)") (simp_all add: videoTake_def keyframeFirst_def split: prod.splits)
  next
    case Restart
    then show ?thesis using Cons.prems(2) by simp
  qed
qed simp

section \<open>RTP time of a video stream\<close>

text \<open>The timestamp advances the writer uses for consecutive samples.\<close>

fun videoAdvances :: "uint32 \<Rightarrow> int option \<Rightarrow> videoSample list \<Rightarrow> (uint8 list \<times> int) list" where
  "videoAdvances clockRate prev [] = []"
| "videoAdvances clockRate prev (s # ss) =
    (vsData s, videoAdvance clockRate prev s) # videoAdvances clockRate (Some (vsProducedAt s)) ss"

text \<open>Consecutive production times at least a tick and at most the maximum gap apart.\<close>

fun steadyFrom :: "uint32 \<Rightarrow> int \<Rightarrow> videoSample list \<Rightarrow> bool" where
  "steadyFrom clockRate t [] = True"
| "steadyFrom clockRate t (s # ss) =
    (positiveDiscontinuityDuration 0 clockRate \<le> vsProducedAt s - t \<and> vsProducedAt s - t \<le> maximumGap clockRate
     \<and> steadyFrom clockRate (vsProducedAt s) ss)"

lemma minimumTick_pos: "0 < uint c \<Longrightarrow> 0 < positiveDiscontinuityDuration 0 c"
  by (simp add: positiveDiscontinuityDuration_def pos_imp_zdiv_pos_iff pos_imp_zdiv_nonneg_iff)

lemma steady_advances:
  assumes "0 < uint c" "steadyFrom c t ss"
  shows "(ss \<noteq> [] \<longrightarrow> sum_list (map snd (videoAdvances c (Some t) ss)) = vsProducedAt (last ss) - t)
    \<and> (\<forall>(samples, d)\<in>set (videoAdvances c (Some t) ss). 0 \<le> d \<and> d \<le> maximumGap c)"
  using assms(2)
proof (induction ss arbitrary: t)
  case (Cons s ss)
  have adv: "videoAdvance c (Some t) s = vsProducedAt s - t" "0 \<le> vsProducedAt s - t"
    using Cons.prems minimumTick_pos [OF assms(1)] by (auto simp: videoAdvance_def Let_def)
  then show ?case using Cons.IH [of "vsProducedAt s"] Cons.prems by (cases "ss = []") auto
qed simp

lemma maximumGap_bounds:
  assumes "0 < uint c" "0 \<le> d" "d \<le> maximumGap c"
  shows "d < 2 ^ 63" "d * uint c + 1000000000 \<le> 4294967295 * 1000000000"
proof -
  have "maximumGap c * uint c \<le> 2147483647 * 1000000000"
    using assms(1) by (simp add: maximumGap_def minus_mod_eq_div_mult [symmetric])
  moreover have "d * uint c \<le> maximumGap c * uint c" using assms by (intro mult_right_mono) auto
  ultimately have le: "d * uint c \<le> 2147483647 * 1000000000" by linarith
  then show "d * uint c + 1000000000 \<le> 4294967295 * 1000000000" by linarith
  have "d * 1 \<le> d * uint c" using assms by (intro mult_left_mono) auto
  then show "d < 2 ^ 63" using le by simp
qed

section \<open>Properties\<close>





text \<open>
  No lost wake-up: in every reachable state of a mailbox and its consumer, if a frame is pending
  then the consumer is not asleep without a wake token; it can step.
\<close>

theorem mailbox_consumer_progress:
  "(\<forall>m tk. videoBoxReach (m, tk) \<and> vmPending m \<noteq> None \<longrightarrow>
      (\<exists>m' tk'. (tk = Checking \<and> (\<exists>s. videoTake m = Some (s, m')) \<or> tk = Waiting \<and> videoWait m = Some m') \<and> videoBoxStep (m, tk) (m', tk')))
   \<and> (\<forall>m tk. audioBoxReach (m, tk) \<and> amQueue m \<noteq> [] \<longrightarrow>
      (\<exists>m' tk'. (tk = Checking \<and> (\<exists>s. audioTake m = Some (s, m')) \<or> tk = Waiting \<and> audioWait m = Some m') \<and> audioBoxStep (m, tk) (m', tk')))"
proof (intro conjI allI impI)
  fix m tk assume a: "videoBoxReach (m, tk) \<and> vmPending m \<noteq> None"
  show "\<exists>m' tk'. (tk = Checking \<and> (\<exists>s. videoTake m = Some (s, m')) \<or> tk = Waiting \<and> videoWait m = Some m') \<and> videoBoxStep (m, tk) (m', tk')"
  proof (cases tk)
    case Checking
    obtain s m' where "videoTake m = Some (s, m')" using a by (auto simp: videoTake_def)
    then show ?thesis using Checking videoBoxStep.deliver by blast
  next
    case Waiting
    then have "videoWait m = Some (m\<lparr>vmWake := False\<rparr>)" using a videoBox_awake by (auto simp: videoWait_def)
    then show ?thesis using Waiting videoBoxStep.wake by blast
  qed
next
  fix m tk assume a: "audioBoxReach (m, tk) \<and> amQueue m \<noteq> []"
  show "\<exists>m' tk'. (tk = Checking \<and> (\<exists>s. audioTake m = Some (s, m')) \<or> tk = Waiting \<and> audioWait m = Some m') \<and> audioBoxStep (m, tk) (m', tk')"
  proof (cases tk)
    case Checking
    obtain s m' where "audioTake m = Some (s, m')" using a by (cases "amQueue m") (auto simp: audioTake_def)
    then show ?thesis using Checking audioBoxStep.deliver by blast
  next
    case Waiting
    then have "audioWait m = Some (m\<lparr>amWake := False\<rparr>)" using a audioBox_awake by (auto simp: audioWait_def)
    then show ?thesis using Waiting audioBoxStep.wake by blast
  qed
qed

text \<open>
  A video stream's RTP clock follows its production clock: when consecutive samples are between
  one tick and the maximum gap apart, the ticks written from the second sample on are the elapsed
  production time at the clock rate, rounded down once.
\<close>

theorem video_rtp_time:
  assumes "0 < stClockRate t" "fmlookup (stBindings t) i = Some b" "tbRemainder b = 0"
    "steadyFrom (stClockRate t) (vsProducedAt s) (ss @ [l])"
  shows "sum_list (map uint (fst (writeRun ops [i] (videoAdvances (stClockRate t) None (s # ss @ [l])) t)))
    = (vsProducedAt l - vsProducedAt s) * uint (stClockRate t) div 1000000000"
proof -
  let ?c = "stClockRate t"
  have c: "0 < uint ?c" using assms(1) by (simp add: word_less_def)
  let ?xs = "videoAdvances ?c None (s # ss @ [l])"
  have first: "videoAdvance ?c None s = 0" by (simp add: videoAdvance_def)
  have gap: "0 \<le> maximumGap ?c" using c by (simp add: maximumGap_def pos_imp_zdiv_nonneg_iff)
  note steady = steady_advances [OF c assms(4)]
  have total: "sum_list (map snd ?xs) = vsProducedAt l - vsProducedAt s" using steady by (simp add: first)
  have "\<forall>(samples, d)\<in>set ?xs. 0 \<le> d \<and> d \<le> maximumGap ?c" using steady gap by (simp add: first)
  then have "\<forall>(samples, d)\<in>set ?xs. 0 \<le> d \<and> d < 2 ^ 63 \<and> d * uint ?c + 1000000000 \<le> 4294967295 * 1000000000"
    using maximumGap_bounds [OF c] by blast
  from writeRun_total [OF assms(2,3) this] show ?thesis by (simp only: total)
qed

subsection \<open>Concrete inputs\<close>

definition demoFrame :: "int \<Rightarrow> bool \<Rightarrow> videoSample" where
  "demoFrame t key = \<lparr>vsData = [1], vsCodec = ''h264'', vsTargetID = [], vsProducedAt = t, vsPTS = t, vsPTSValid = True,
     vsDuration = 16666667, vsKeyFrame = key\<rparr>"

definition demoPeer :: mediaPeer where
  "demoPeer = \<lparr>mpClosing = False, mpConnected = True, mpCtxErr = False, mpNeedsKeyframe = False, mpVideo = newVideoMailbox,
     mpAudio = newAudioMailbox, mpVideoSeen = 0, mpVideoEnqueued = 0, mpVideoDropped = 0, mpAudioSeen = 0,
     mpAudioEnqueued = 0, mpAudioDropped = 0\<rparr>"



theorem mailbox_consumer_progress_witness:
  "\<exists>m' tk'. videoBoxStep (snd (videoPut (demoFrame 1 True) newVideoMailbox), Waiting) (m', tk')"
proof -
  let ?m = "snd (videoPut (demoFrame 1 True) newVideoMailbox)"
  have "videoBoxStep (newVideoMailbox, Checking) (newVideoMailbox, Waiting)"
    by (rule videoBoxStep.sleep) (simp add: newVideoMailbox_def videoTake_def)
  then have "videoBoxReach (?m, Waiting)"
    unfolding videoBoxReach_def using videoBoxStep.put by (meson r_into_rtranclp rtranclp.rtrancl_into_rtrancl)
  moreover have "vmPending ?m \<noteq> None" by (simp add: videoPut_def newVideoMailbox_def)
  ultimately show ?thesis using mailbox_consumer_progress by blast
qed

theorem video_rtp_time_witness:
  "sum_list (map uint (fst (writeRun demoWriter [''peer'']
     (videoAdvances 90000 None [demoFrame 0 True, demoFrame 16666666 False, demoFrame 33333332 False, demoFrame 50000000 False]) demoTrack))) = 4500"
proof -
  have ev: "fmlookup (stBindings demoTrack) ''peer'' = Some \<lparr>tbWriter = (), tbRemainder = 0\<rparr>" "stClockRate demoTrack = 90000"
    by code_simp+
  have c: "0 < stClockRate demoTrack" by (simp add: ev(2))
  have steady: "steadyFrom (stClockRate demoTrack) (vsProducedAt (demoFrame 0 True))
      ([demoFrame 16666666 False, demoFrame 33333332 False] @ [demoFrame 50000000 False])"
    by code_simp
  have "(vsProducedAt (demoFrame 50000000 False) - vsProducedAt (demoFrame 0 True)) * uint (90000 :: uint32) div 1000000000 = 4500"
    by (simp add: demoFrame_def)
  then show ?thesis
    using video_rtp_time [OF c ev(1) _ steady, of demoWriter] by (simp only: ev(2) append.simps trackBinding.simps)
qed

text \<open>
  A dropped reference: three frames arrive while the writer is busy, and the delta frame that arrives
  next is written directly after the keyframe although the two delta frames between them were
  dropped; the peer does not ask for a new keyframe.
\<close>

lemma dropped_reference_chain:
  "case videoRun [Offer (demoFrame 1 True), Offer (demoFrame 2 False), Offer (demoFrame 3 False), TakeVideo,
      Offer (demoFrame 4 False), TakeVideo] demoPeer of
     (taken, _, p) \<Rightarrow> map vsProducedAt taken = [1, 4] \<and> \<not> mpNeedsKeyframe p \<and> mpVideoDropped p = 2"
  by code_simp

end
