(* ===== verification/Clipboard_Controller.thy ===== *)
theory Clipboard_Controller
  imports Mailbox
begin

text \<open>
  The clipboard controller (\<open>src/clipboard/controller.go\<close>): it bridges one portal backend to all
  connected peers.  The backend is code of the desktop portal: a backend is named by a number (its
  identity), and what its \<open>Read\<close> and \<open>Write\<close> calls answer is an argument.  A subscriber's channel
  has capacity one, so its content is an option.
\<close>

subsection \<open>Data\<close>

definition maxContentBytes :: int where "maxContentBytes = 33554432"

definition ErrClipboardDisabled :: goerror where
  "ErrClipboardDisabled = Sentinel ''clipboard synchronization is disabled''"
definition ErrClipboardNotReady :: goerror where
  "ErrClipboardNotReady = Sentinel ''clipboard portal is not ready''"

record clipFormat =
  cfMIME :: string
  cfData :: "uint8 list"

type_synonym clipContent = "clipFormat list"

record selection =
  selGeneration :: uint64
  selMIMETypes :: "string list"

record clipController =
  ccEnabled :: bool
  ccBackend :: "nat option"
  ccSubscribers :: "(uint64, clipContent option) fmap"
  ccNextID :: uint64
  ccLatest :: "clipContent option"

subsection \<open>MIME types\<close>

text \<open>
  \<open>unicode.ToLower\<close> as far as it can yield an ASCII character: the capital letters, the dotted capital I (U+0130) and the Kelvin sign (U+212A).
\<close>

definition toLower :: "int \<Rightarrow> int" where
  "toLower r = (if 65 \<le> r \<and> r \<le> 90 then r + 32 else if r = 304 then 105 else if r = 8490 then 107 else r)"

definition clipMIMETypes :: "string list" where
  "clipMIMETypes = [''text/plain'', ''text/html'', ''image/png'', ''image/jpeg'', ''image/webp'', ''image/gif'', ''image/svg+xml'']"

definition NormalizeMIME :: "string \<Rightarrow> string" where
  "NormalizeMIME value =
    (let lower = map toLower (trimSpace (map int (runes (takeWhile (\<lambda>c. c \<noteq> CHR '';'') value))))
     in case find (\<lambda>m. map (\<lambda>ch. int (byte_of ch)) m = lower) clipMIMETypes of None \<Rightarrow> [] | Some m \<Rightarrow> m)"

subsection \<open>Operations\<close>

definition NewClipboard :: "bool \<Rightarrow> clipController" where
  "NewClipboard enabled = \<lparr>ccEnabled = enabled, ccBackend = None, ccSubscribers = fmempty, ccNextID = 0, ccLatest = None\<rparr>"

definition AttachBackend :: "nat option \<Rightarrow> clipController \<Rightarrow> goerror option \<times> clipController" where
  "AttachBackend backend c =
    (if \<not> ccEnabled c then (Some ErrClipboardDisabled, c)
     else case backend of
       None \<Rightarrow> (Some (errorsNew ''clipboard backend is required''), c)
     | Some b \<Rightarrow>
         if ccBackend c \<noteq> None then (Some (errorsNew ''clipboard controller already has a backend''), c)
         else (None, c\<lparr>ccBackend := Some b, ccLatest := None\<rparr>))"

text \<open>
  \<open>Set\<close> up to the call of the backend's \<open>Write\<close> (the backend it will call), and the part after that
  call returned: another goroutine may have detached the backend in between.
\<close>

definition setCheck :: "clipContent \<Rightarrow> clipController \<Rightarrow> goerror + nat" where
  "setCheck content c =
    (if \<not> ccEnabled c then Inl ErrClipboardDisabled
     else if content = [] then Inl (errorsNew ''clipboard content has no formats'')
     else case find (\<lambda>f. NormalizeMIME (cfMIME f) \<noteq> cfMIME f) content of
       Some f \<Rightarrow> Inl (Errorf ''unsupported clipboard MIME type %q'' [FStr (cfMIME f)])
     | None \<Rightarrow> (case ccBackend c of None \<Rightarrow> Inl ErrClipboardNotReady | Some b \<Rightarrow> Inr b))"

definition setCommit :: "nat \<Rightarrow> goerror option \<Rightarrow> clipContent \<Rightarrow> clipController \<Rightarrow> goerror option \<times> clipController" where
  "setCommit backend writeErr content c =
    (if writeErr \<noteq> None then (writeErr, c)
     else if ccBackend c \<noteq> Some backend then (Some ErrClipboardNotReady, c)
     else (None, c\<lparr>ccLatest := Some content\<rparr>))"

definition SetClipboard :: "(nat \<Rightarrow> clipContent \<Rightarrow> goerror option) \<Rightarrow> clipContent \<Rightarrow> clipController
    \<Rightarrow> goerror option \<times> clipController" where
  "SetClipboard write content c =
    (case setCheck content c of
       Inl e \<Rightarrow> (Some e, c)
     | Inr b \<Rightarrow> setCommit b (write b content) content c)"

definition Latest :: "clipController \<Rightarrow> clipContent option" where
  "Latest c = ccLatest c"

text \<open>\<open>None\<close> is the closed channel a disabled controller returns.\<close>

definition Subscribe :: "clipController \<Rightarrow> uint64 option \<times> clipController" where
  "Subscribe c =
    (if \<not> ccEnabled c then (None, c)
     else let i = ccNextID c + 1
          in (Some i, c\<lparr>ccNextID := i, ccSubscribers := fmupd i (ccLatest c) (ccSubscribers c)\<rparr>))"

definition Unsubscribe :: "uint64 \<Rightarrow> clipController \<Rightarrow> clipController" where
  "Unsubscribe i c = c\<lparr>ccSubscribers := fmdrop i (ccSubscribers c)\<rparr>"

text \<open>A subscriber receives from its channel.\<close>

definition receiveUpdate :: "uint64 \<Rightarrow> clipController \<Rightarrow> (clipContent \<times> clipController) option" where
  "receiveUpdate i c =
    (case fmlookup (ccSubscribers c) i of
       Some (Some content) \<Rightarrow> Some (content, c\<lparr>ccSubscribers := fmupd i None (ccSubscribers c)\<rparr>)
     | _ \<Rightarrow> None)"

text \<open>
  The loop of \<open>run\<close> over the offered types, each paired with what \<open>Read\<close> would answer.
\<close>

fun gatherFormats :: "(string \<times> (goerror + uint8 list)) list \<Rightarrow> string list \<Rightarrow> int \<Rightarrow> clipContent \<Rightarrow> clipContent" where
  "gatherFormats [] seen bytes formats = formats"
| "gatherFormats ((offered, answer) # rest) seen bytes formats =
    (let mime = NormalizeMIME offered
     in if mime = [] \<or> mime \<in> set seen then gatherFormats rest seen bytes formats
        else case answer of
          Inl _ \<Rightarrow> gatherFormats rest seen bytes formats
        | Inr content \<Rightarrow>
            if bytes + int (length content) > maxContentBytes then gatherFormats rest seen bytes formats
            else gatherFormats rest (mime # seen) (bytes + int (length content))
              (formats @ [\<lparr>cfMIME = mime, cfData = content\<rparr>]))"

text \<open>
  Publishing replaces a subscriber's unread update: the select sends, or drains and sends, under the
  controller's lock.
\<close>

definition publish :: "clipContent \<Rightarrow> clipController \<Rightarrow> clipController" where
  "publish content c = c\<lparr>ccLatest := Some content, ccSubscribers := fmmap (\<lambda>_. Some content) (ccSubscribers c)\<rparr>"

text \<open>\<open>read i\<close> is the backend's answer to reading the \<open>i\<close>-th offered type.\<close>

definition handleSelection :: "uint64 \<Rightarrow> (nat \<Rightarrow> goerror + uint8 list) \<Rightarrow> selection \<Rightarrow> clipController \<Rightarrow> clipController" where
  "handleSelection currentGeneration read sel c =
    (let formats = gatherFormats (map (\<lambda>i. (selMIMETypes sel ! i, read i)) [0..<length (selMIMETypes sel)]) [] 0 []
     in if currentGeneration \<noteq> selGeneration sel \<or> formats = [] then c else publish formats c)"

definition runExit :: "nat \<Rightarrow> clipController \<Rightarrow> clipController" where
  "runExit backend c = (if ccBackend c = Some backend then c\<lparr>ccBackend := None, ccLatest := None\<rparr> else c)"

section \<open>MIME types and gathering\<close>

lemma NormalizeMIME_cases: "NormalizeMIME v = [] \<or> NormalizeMIME v \<in> set clipMIMETypes"
  by (auto simp: NormalizeMIME_def Let_def find_Some_iff split: option.splits)

lemma NormalizeMIME_fixed: "list_all (\<lambda>m. NormalizeMIME m = m) ([] # clipMIMETypes)"
  by code_simp

lemma NormalizeMIME_eq: "NormalizeMIME v = v \<longleftrightarrow> v \<in> set ([] # clipMIMETypes)"
  using NormalizeMIME_fixed NormalizeMIME_cases [of v] by (auto simp: list_all_iff)

definition contentBytes :: "clipContent \<Rightarrow> int" where
  "contentBytes fs = sum_list (map (\<lambda>f. int (length (cfData f))) fs)"

definition gatherOK :: "(string \<times> (goerror + uint8 list)) list \<Rightarrow> clipContent \<Rightarrow> bool" where
  "gatherOK offers fs = (distinct (map cfMIME fs) \<and> contentBytes fs \<le> maxContentBytes
     \<and> (\<forall>f\<in>set fs. cfMIME f \<in> set clipMIMETypes
          \<and> (\<exists>offered. (offered, Inr (cfData f)) \<in> set offers \<and> NormalizeMIME offered = cfMIME f)))"

lemma gatherFormats_ok:
  assumes "gatherOK offers fs" "set seen = cfMIME ` set fs" "bytes = contentBytes fs" "set rest \<subseteq> set offers"
  shows "gatherOK offers (gatherFormats rest seen bytes fs)"
  using assms
proof (induction rest arbitrary: seen bytes fs)
  case (Cons x rest)
  obtain offered answer where x: "x = (offered, answer)" by fastforce
  let ?m = "NormalizeMIME offered"
  show ?case
  proof (cases "?m = [] \<or> ?m \<in> set seen \<or> (\<exists>e. answer = Inl e)")
    case True
    then show ?thesis using Cons x by (auto simp: Let_def split: sum.splits)
  next
    case False
    then obtain content where a: "answer = Inr content" by (cases answer) auto
    show ?thesis
    proof (cases "bytes + int (length content) > maxContentBytes")
      case True
      then show ?thesis using False Cons x a by (simp add: Let_def)
    next
      case small: False
      let ?fs = "fs @ [\<lparr>cfMIME = ?m, cfData = content\<rparr>]"
      have "gatherOK offers ?fs"
        using Cons.prems False small x a NormalizeMIME_cases [of offered]
        by (auto simp: gatherOK_def contentBytes_def)
      then have "gatherOK offers (gatherFormats rest (?m # seen) (bytes + int (length content)) ?fs)"
        using Cons.prems by (intro Cons.IH) (auto simp: contentBytes_def)
      then show ?thesis using False small x a by (simp add: Let_def)
    qed
  qed
qed simp

lemma gatherFormats_mono: "set fs \<subseteq> set (gatherFormats rest seen bytes fs)"
proof (induction rest seen bytes fs rule: gatherFormats.induct)
  case (2 offered answer rest seen bytes formats)
  then show ?case by (cases answer) (auto simp: Let_def)
qed simp

definition offerBytes :: "(string \<times> (goerror + uint8 list)) list \<Rightarrow> int" where
  "offerBytes offers = sum_list (map (\<lambda>p. case snd p of Inl _ \<Rightarrow> 0 | Inr d \<Rightarrow> int (length d)) offers)"

lemma offerBytes_nonneg: "0 \<le> offerBytes offers"
  unfolding offerBytes_def by (rule sum_list_nonneg) (auto split: sum.splits)

lemma gatherFormats_complete:
  assumes "bytes + offerBytes rest \<le> maxContentBytes" "set seen \<subseteq> cfMIME ` set fs"
    "(offered, Inr d) \<in> set rest" "NormalizeMIME offered \<noteq> []"
  shows "NormalizeMIME offered \<in> cfMIME ` set (gatherFormats rest seen bytes fs)"
  using assms
proof (induction rest arbitrary: seen bytes fs)
  case (Cons x rest)
  obtain o' answer where x: "x = (o', answer)" by fastforce
  let ?m = "NormalizeMIME o'"
  have rest: "offerBytes (x # rest) = (case answer of Inl _ \<Rightarrow> 0 | Inr d \<Rightarrow> int (length d)) + offerBytes rest"
    by (simp add: offerBytes_def x)
  show ?case
  proof (cases "?m = [] \<or> ?m \<in> set seen \<or> (\<exists>e. answer = Inl e)")
    case True
    have ih: "gatherFormats (x # rest) seen bytes fs = gatherFormats rest seen bytes fs"
      using True x by (auto simp: Let_def split: sum.splits)
    have le: "bytes + offerBytes rest \<le> maxContentBytes" using Cons.prems(1) rest by (auto split: sum.splits)
    consider "(offered, Inr d) \<in> set rest" | "x = (offered, Inr d)" using Cons.prems(3) by auto
    then show ?thesis
    proof cases
      case 1
      then show ?thesis using Cons.IH [OF le Cons.prems(2)] Cons.prems(4) ih by simp
    next
      case 2
      then have "NormalizeMIME offered \<in> cfMIME ` set fs" using True x Cons.prems(2,4) by auto
      then show ?thesis using gatherFormats_mono [of fs rest seen bytes] ih by auto
    qed
  next
    case False
    then obtain content where a: "answer = Inr content" by (cases answer) auto
    let ?fs = "fs @ [\<lparr>cfMIME = ?m, cfData = content\<rparr>]"
    have le: "bytes + int (length content) + offerBytes rest \<le> maxContentBytes" using Cons.prems(1) rest a by simp
    have g: "gatherFormats (x # rest) seen bytes fs = gatherFormats rest (?m # seen) (bytes + int (length content)) ?fs"
      using False a x le offerBytes_nonneg [of rest] by (auto simp: Let_def)
    consider "(offered, Inr d) \<in> set rest" | "x = (offered, Inr d)" using Cons.prems(3) by auto
    then show ?thesis
    proof cases
      case 1
      have "set (?m # seen) \<subseteq> cfMIME ` set ?fs" using Cons.prems(2) by auto
      from Cons.IH [OF le this 1 Cons.prems(4)] show ?thesis by (simp only: g)
    next
      case 2
      then have "NormalizeMIME offered \<in> cfMIME ` set ?fs" using x by auto
      then show ?thesis using gatherFormats_mono [of ?fs] unfolding g by blast
    qed
  qed
qed simp

section \<open>Subscribers\<close>

text \<open>A subscriber's channel is a mailbox of capacity one in which the newest update wins.\<close>

definition subPut :: "clipContent \<Rightarrow> clipContent option \<Rightarrow> nat \<times> clipContent option" where
  "subPut content buf = (if buf = None then 0 else 1, Some content)"

definition subTake :: "clipContent option \<Rightarrow> (clipContent \<times> clipContent option) option" where
  "subTake buf = map_option (\<lambda>content. (content, None)) buf"

definition subItems :: "clipContent option \<Rightarrow> clipContent list" where
  "subItems buf = (case buf of None \<Rightarrow> [] | Some content \<Rightarrow> [content])"

lemma sub_simps [simp]:
  "subTake None = None" "subTake (Some content) = Some (content, None)" "subItems None = []" "subItems (Some content) = [content]"
  by (simp_all add: subTake_def subItems_def)

lemma subPut_eq: "subPut content buf = (d, buf') \<longleftrightarrow> d = (if buf = None then 0 else 1) \<and> buf' = Some content"
  by (auto simp: subPut_def)

interpretation subscriberbox: mailbox subPut subTake subItems 1 "\<lambda>_. True"
  by unfold_locales (auto simp: subPut_def subTake_def subItems_def split: option.splits)

text \<open>Publications of the desktop interleaved with receives by subscriber \<open>i\<close>.\<close>

fun subRun :: "uint64 \<Rightarrow> clipContent boxOp list \<Rightarrow> clipController \<Rightarrow> clipContent list \<times> clipController" where
  "subRun i [] c = ([], c)"
| "subRun i (BoxPut content # os) c = subRun i os (publish content c)"
| "subRun i (BoxTake # os) c =
    (case receiveUpdate i c of
       None \<Rightarrow> subRun i os c
     | Some (content, c') \<Rightarrow> (let (received, c'') = subRun i os c' in (content # received, c'')))"

lemma subRun_box:
  assumes "fmlookup (ccSubscribers c) i = Some buf" "subRun i os c = (received, c')"
  shows "\<exists>dropped buf'. boxRun subPut subTake os buf = (received, dropped, buf') \<and> fmlookup (ccSubscribers c') i = Some buf'"
  using assms
proof (induction i os c arbitrary: buf received rule: subRun.induct)
  case (2 i content os c)
  have "fmlookup (ccSubscribers (publish content c)) i = Some (Some content)"
    using "2.prems"(1) by (simp add: publish_def)
  from "2.IH" [OF this] "2.prems"(2) show ?case by (auto simp: subPut_def)
next
  case (3 i os c)
  show ?case
  proof (cases buf)
    case None
    then have "receiveUpdate i c = None" "subTake buf = None"
      using "3.prems"(1) by (simp_all add: receiveUpdate_def subTake_def)
    then show ?thesis using "3.IH"(1) "3.prems" by simp
  next
    case (Some content)
    let ?c = "c\<lparr>ccSubscribers := fmupd i None (ccSubscribers c)\<rparr>"
    have r: "receiveUpdate i c = Some (content, ?c)" "subTake buf = Some (content, None)"
      using "3.prems"(1) Some by (simp_all add: receiveUpdate_def subTake_def)
    obtain rest where rest: "subRun i os ?c = (rest, c')" "received = content # rest"
      using "3.prems"(2) r(1) by (auto split: prod.splits)
    have "fmlookup (ccSubscribers ?c) i = Some None" by simp
    from "3.IH"(2) [OF r(1) refl this rest(1)] show ?thesis using r(2) rest(2) by auto
  qed
qed auto

lemma box_newest:
  assumes "boxRun subPut subTake os buf = (received, dropped, buf')"
  shows "received @ subItems buf' \<noteq> [] \<or> boxPuts os = [] \<and> buf = None"
    and "received @ subItems buf' \<noteq> [] \<Longrightarrow> last (received @ subItems buf') = last (subItems buf @ boxPuts os)"
proof -
  have *: "subItems buf @ boxPuts os = [] \<and> received @ subItems buf' = [] \<or>
      received @ subItems buf' \<noteq> [] \<and> subItems buf @ boxPuts os \<noteq> [] \<and> last (received @ subItems buf') = last (subItems buf @ boxPuts os)"
    using assms
  proof (induction os arbitrary: buf received dropped)
    case (Cons op os)
    show ?case
    proof (cases op)
      case (BoxPut content)
      then obtain d where "boxRun subPut subTake os (Some content) = (received, d, buf')"
        using Cons.prems by (auto simp: subPut_eq split: prod.splits)
      from Cons.IH [OF this] show ?thesis using BoxPut by auto
    next
      case BoxTake
      show ?thesis
      proof (cases buf)
        case None
        then have "boxRun subPut subTake os None = (received, dropped, buf')" using Cons.prems BoxTake by simp
        from Cons.IH [OF this] show ?thesis using None BoxTake by simp
      next
        case (Some content)
        then obtain tk where tk: "boxRun subPut subTake os None = (tk, dropped, buf')" "received = content # tk"
          using Cons.prems BoxTake by (auto split: prod.splits)
        from Cons.IH [OF tk(1)] show ?thesis using tk(2) BoxTake Some by auto
      qed
    qed
  qed (auto simp: subItems_def split: option.splits)
  then show "received @ subItems buf' \<noteq> [] \<or> boxPuts os = [] \<and> buf = None"
    "received @ subItems buf' \<noteq> [] \<Longrightarrow> last (received @ subItems buf') = last (subItems buf @ boxPuts os)"
    by (auto simp: subItems_def split: option.splits)
qed

section \<open>Sessions\<close>

text \<open>
  All interleavings of the controller's critical sections.  Only the goroutine of the attached
  backend publishes and exits; a \<open>Set\<close> may commit for any backend it saw earlier.
\<close>

inductive clipStep :: "clipController \<Rightarrow> clipController \<Rightarrow> bool" where
  attach: "clipStep c (snd (AttachBackend b c))"
| commit: "clipStep c (snd (setCommit b err content c))"
| selection: "ccBackend c = Some b \<Longrightarrow> clipStep c (handleSelection gen read sel c)"
| exit: "clipStep c (runExit b c)"
| subscribe: "clipStep c (snd (Subscribe c))"
| unsubscribe: "clipStep c (Unsubscribe i c)"
| receive: "receiveUpdate i c = Some (content, c') \<Longrightarrow> clipStep c c'"

definition clipReach :: "bool \<Rightarrow> clipController \<Rightarrow> bool" where
  "clipReach enabled c = clipStep\<^sup>*\<^sup>* (NewClipboard enabled) c"

definition sessionOK :: "bool \<Rightarrow> clipController \<Rightarrow> bool" where
  "sessionOK enabled c = (ccEnabled c = enabled \<and> (ccBackend c = None \<longrightarrow> ccLatest c = None)
     \<and> (\<not> enabled \<longrightarrow> ccBackend c = None \<and> ccSubscribers c = fmempty))"

lemma clipStep_sessionOK: "clipStep c c' \<Longrightarrow> sessionOK enabled c \<Longrightarrow> sessionOK enabled c'"
proof (induction rule: clipStep.induct)
  case (selection c b gen read sel)
  then show ?case by (auto simp: handleSelection_def publish_def sessionOK_def Let_def)
next
  case (unsubscribe c i)
  then show ?case by (auto simp: Unsubscribe_def sessionOK_def intro: fmap_ext)
qed (auto simp: sessionOK_def AttachBackend_def setCommit_def runExit_def Subscribe_def receiveUpdate_def Let_def
      split: option.splits)

lemma clipReach_sessionOK: "clipReach enabled c \<Longrightarrow> sessionOK enabled c"
  unfolding clipReach_def
proof (induction rule: rtranclp_induct)
  case base
  show ?case by (simp add: NewClipboard_def sessionOK_def)
next
  case (step y z)
  then show ?case using clipStep_sessionOK by blast
qed

section \<open>Properties\<close>

text \<open>
  \<open>NormalizeMIME\<close> yields one of the seven synchronised types or nothing, and is idempotent; so
  the check \<open>NormalizeMIME(x) != x\<close> of \<open>Set\<close> and of the transfer header accepts exactly those types
  (and the empty string).
\<close>

theorem normalize_mime:
  "NormalizeMIME v \<in> set ([] # clipMIMETypes) \<and> NormalizeMIME (NormalizeMIME v) = NormalizeMIME v
   \<and> (NormalizeMIME v = v \<longleftrightarrow> v \<in> set ([] # clipMIMETypes))"
  using NormalizeMIME_cases [of v] NormalizeMIME_eq [of v] NormalizeMIME_eq [of "NormalizeMIME v"] by auto

text \<open>
  C19.  What a desktop selection becomes: every format is one of the synchronised types, appears once,
  carries the bytes the backend returned for an offered type that normalises to it, and all formats
  together stay within 32 MiB.  If everything readable fits, no readable synchronised type is lost.
\<close>

theorem gather_formats_correct:
  assumes "fs = gatherFormats offers [] 0 []"
  shows "gatherOK offers fs
    \<and> (offerBytes offers \<le> maxContentBytes \<longrightarrow>
        (\<forall>offered d. (offered, Inr d) \<in> set offers \<and> NormalizeMIME offered \<noteq> [] \<longrightarrow> NormalizeMIME offered \<in> cfMIME ` set fs))"
proof -
  have "gatherOK offers fs" unfolding assms
    by (rule gatherFormats_ok) (auto simp: gatherOK_def contentBytes_def maxContentBytes_def)
  then show ?thesis using gatherFormats_complete [of 0 offers "[]" "[]"] by (auto simp: assms)
qed

text \<open>
  C20.  A subscriber that reads slowly misses updates but never sees them out of order, and the newest
  publication always reaches it: it is the last one received, or the one waiting in its channel.
\<close>

theorem subscriber_sees_newest:
  assumes "fmlookup (ccSubscribers c) i = Some buf" "subRun i os c = (received, c')"
  shows "\<exists>buf'. fmlookup (ccSubscribers c') i = Some buf'
    \<and> subseq (received @ subItems buf') (subItems buf @ boxPuts os)
    \<and> (boxPuts os \<noteq> [] \<longrightarrow> received @ subItems buf' \<noteq> [] \<and> last (received @ subItems buf') = last (boxPuts os))"
proof -
  obtain dropped buf' where r: "boxRun subPut subTake os buf = (received, dropped, buf')" "fmlookup (ccSubscribers c') i = Some buf'"
    using subRun_box [OF assms] by blast
  then show ?thesis
    using subscriberbox.run_correct [OF TrueI r(1)] box_newest [OF r(1)] by auto
qed

text \<open>
  Clipboard content never outlives its portal session: in every reachable state of the controller,
  without an attached backend there is no latest content (a \<open>Set\<close> whose backend was detached while
  it wrote changes nothing), and a disabled controller has neither backend nor subscribers.
\<close>

theorem clipboard_sessions:
  assumes "clipReach enabled c"
  shows "(ccBackend c = None \<longrightarrow> Latest c = None)
    \<and> (\<not> enabled \<longrightarrow> ccBackend c = None \<and> fst (Subscribe c) = None \<and> ccSubscribers c = fmempty)
    \<and> (\<forall>b content. ccBackend c \<noteq> Some b \<longrightarrow> setCommit b None content c = (Some ErrClipboardNotReady, c))"
  using clipReach_sessionOK [OF assms] by (auto simp: sessionOK_def Latest_def Subscribe_def setCommit_def)

subsection \<open>Concrete inputs\<close>

definition demoOffers :: "(string \<times> (goerror + uint8 list)) list" where
  "demoOffers = [(''text/plain;charset=utf-8'', Inr [104, 105]), (''TEXT/PLAIN'', Inr [0]), (''application/x-color'', Inr [1]),
     (''image/png'', Inl ErrClipboardNotReady), ('' text/html '', Inr [60])]"

theorem gather_formats_correct_witness:
  "map cfMIME (gatherFormats demoOffers [] 0 []) = [''text/plain'', ''text/html''] \<and> gatherOK demoOffers (gatherFormats demoOffers [] 0 [])"
proof -
  have "map cfMIME (gatherFormats demoOffers [] 0 []) = [''text/plain'', ''text/html'']" by code_simp
  then show ?thesis using gather_formats_correct [OF refl, of demoOffers] by simp
qed

definition demoClip :: clipController where
  "demoClip = snd (Subscribe (snd (AttachBackend (Some 1) (NewClipboard True))))"

definition demoText :: "uint8 \<Rightarrow> clipContent" where
  "demoText b = [\<lparr>cfMIME = ''text/plain'', cfData = [b]\<rparr>]"

theorem subscriber_sees_newest_witness:
  "\<exists>buf'. fmlookup (ccSubscribers (snd (subRun 1 [BoxPut (demoText 1), BoxPut (demoText 2), BoxTake] demoClip))) 1 = Some buf'
    \<and> last (fst (subRun 1 [BoxPut (demoText 1), BoxPut (demoText 2), BoxTake] demoClip) @ subItems buf') = demoText 2"
proof -
  let ?os = "[BoxPut (demoText 1), BoxPut (demoText 2), BoxTake]"
  have "fmlookup (ccSubscribers demoClip) 1 = Some None" by code_simp
  from subscriber_sees_newest [OF this, of ?os "fst (subRun 1 ?os demoClip)" "snd (subRun 1 ?os demoClip)"]
  show ?thesis by (auto simp del: subRun.simps)
qed

theorem clipboard_sessions_witness:
  "clipReach True (runExit 1 demoClip) \<and> Latest (runExit 1 demoClip) = None"
proof -
  have "clipStep\<^sup>*\<^sup>* (NewClipboard True) demoClip" unfolding demoClip_def
    by (rule rtranclp.rtrancl_into_rtrancl [OF r_into_rtranclp]) (rule clipStep.attach clipStep.subscribe)+
  then have reach: "clipReach True (runExit 1 demoClip)" unfolding clipReach_def
    by (rule rtranclp.rtrancl_into_rtrancl) (rule clipStep.exit)
  have "ccBackend (runExit 1 demoClip) = None" by code_simp
  then show ?thesis using clipboard_sessions [OF reach] reach by simp
qed

end
