(* ===== verification/Clipboard_Transfer.thy ===== *)
theory Clipboard_Transfer
  imports Clipboard_Controller
begin

text \<open>
  The clipboard data channel of a peer (\<open>src/webrtc/clipboard.go\<close>): a JSON header announces the
  formats and their sizes, binary messages carry their bytes in order.  The JSON decoder is a
  parameter (\<open>encoding/json\<close> applied to the header type); messages the peer sends are returned as a
  list (an error by the transfer's id and the error code, without its explanatory text); the answers of the rest of the peer (is this channel still current, does the peer own input,
  what does the clipboard controller answer) are the fields of \<open>clipEnv\<close>.
\<close>

subsection \<open>Data\<close>

definition clipboardVersion :: int where "clipboardVersion = 1"
definition maxClipboardHeaderBytes :: int where "maxClipboardHeaderBytes = 16384"
definition maxClipboardFormats :: int where "maxClipboardFormats = 8"
definition maxClipboardBytes :: int where "maxClipboardBytes = 33554432"
definition clipboardChunkBytes :: int where "clipboardChunkBytes = 65536"

record clipboardMessage =
  cmVersion :: int
  cmType :: string
  cmID :: string
  cmFormats :: "(string \<times> int) list"

datatype dataMessage = TextMessage string | BinaryMessage "uint8 list"

record clipboardReceive =
  crID :: string
  crFormats :: clipContent
  crSizes :: "nat list"
  crIndex :: nat
  crWritten :: nat
  crActivity :: uint64

record clipboardChannelState =
  csReceive :: "clipboardReceive option"
  csReserved :: bool
  csGeneration :: uint64

datatype clipOutput = ClipError string string | ClipResult string

text \<open>
  \<open>ceCurrent n\<close>: the answer of the \<open>n\<close>-th check that this channel is still the peer's current one
  while a message is handled (0 on entry, 1 before a transfer is installed, 2 and 3 before and after
  the controller's \<open>Set\<close>).  \<open>ceDecode\<close>: the decoded header and whether the input ends after it.
\<close>

record clipEnv =
  ceClosing :: bool
  ceCurrent :: "nat \<Rightarrow> bool"
  ceOwns :: "nat \<Rightarrow> bool"
  ceSet :: "clipContent \<Rightarrow> goerror option"
  ceDecode :: "string \<Rightarrow> goerror + clipboardMessage \<times> bool"

subsection \<open>The header\<close>

fun checkFormats :: "(string \<times> int) list \<Rightarrow> string list \<Rightarrow> int \<Rightarrow> goerror option" where
  "checkFormats [] seen bytes = None"
| "checkFormats ((mime, sz) # rest) seen bytes =
    (if NormalizeMIME mime \<noteq> mime then Some (Errorf ''unsupported clipboard MIME type %q'' [FStr mime])
     else if mime \<in> set seen then Some (Errorf ''duplicate clipboard MIME type %q'' [FStr mime])
     else if sz < 0 \<or> sz > maxClipboardBytes then Some (Errorf ''clipboard format %q has invalid size'' [FStr mime])
     else if bytes + sz > maxClipboardBytes then Some (Errorf ''clipboard content exceeds %d bytes'' [FInt maxClipboardBytes])
     else checkFormats rest (mime # seen) (bytes + sz))"

definition validateClipboardHeader :: "clipboardMessage \<Rightarrow> goerror option" where
  "validateClipboardHeader header =
    (if cmVersion header \<noteq> clipboardVersion then Some (Errorf ''clipboard version must be %d'' [FInt clipboardVersion])
     else if cmType header \<noteq> ''clipboard.content''
       then Some (errorsNew ''clipboard message type must be clipboard.content'')
     else if cmID header = [] \<or> int (length (cmID header)) > 128
       then Some (errorsNew ''clipboard id must contain between 1 and 128 bytes'')
     else if cmFormats header = [] \<or> int (length (cmFormats header)) > maxClipboardFormats
       then Some (Errorf ''clipboard content must contain between 1 and %d formats'' [FInt maxClipboardFormats])
     else checkFormats (cmFormats header) [] 0)"

subsection \<open>Receiving\<close>

definition skipEmpty :: "nat list \<Rightarrow> nat \<Rightarrow> nat" where
  "skipEmpty sizes i = i + length (takeWhile (\<lambda>n. n = 0) (drop i sizes))"

definition newReceive :: "clipboardMessage \<Rightarrow> clipboardReceive" where
  "newReceive header =
    (let sizes = map (nat \<circ> snd) (cmFormats header)
     in \<lparr>crID = cmID header,
         crFormats = map (\<lambda>(mime, sz). \<lparr>cfMIME = mime, cfData = replicate (nat sz) 0\<rparr>) (cmFormats header),
         crSizes = sizes, crIndex = skipEmpty sizes 0, crWritten = 0, crActivity = 0\<rparr>)"

text \<open>Go's \<open>copy\<close> of the bytes \<open>bs\<close> to position \<open>pos\<close> of a slice.\<close>

definition copyAt :: "'a list \<Rightarrow> nat \<Rightarrow> 'a list \<Rightarrow> 'a list" where
  "copyAt dst pos bs = take pos dst @ take (length dst - pos) bs @ drop (pos + length bs) dst"

text \<open>
  The copy loop of \<open>handleClipboardMessage\<close>: the bytes left over and the new state; \<open>None\<close> is the
  panic of a negative slice bound, when more was written than the format holds.
\<close>

function copyLoop :: "uint8 list \<Rightarrow> clipboardReceive \<Rightarrow> (uint8 list \<times> clipboardReceive) option" where
  "copyLoop remaining r =
    (if remaining = [] \<or> crIndex r \<ge> length (crFormats r) then Some (remaining, r)
     else if crSizes r ! crIndex r < crWritten r then None
     else let available = crSizes r ! crIndex r - crWritten r;
              copied = min available (length remaining);
              f = crFormats r ! crIndex r;
              written = crWritten r + copied;
              r1 = r\<lparr>crFormats := (crFormats r)[crIndex r := f\<lparr>cfData := copyAt (cfData f) (crWritten r) (take copied remaining)\<rparr>],
                     crWritten := written\<rparr>;
              r2 = (if written = crSizes r ! crIndex r
                    then r1\<lparr>crIndex := skipEmpty (crSizes r) (crIndex r + 1), crWritten := 0\<rparr> else r1)
          in copyLoop (drop copied remaining) r2)"
  by pat_completeness auto
termination
proof (relation "measure (\<lambda>(remaining, r). length remaining + (length (crFormats r) - crIndex r))")
  show "wf (measure (\<lambda>(remaining :: uint8 list, r). length remaining + (length (crFormats r) - crIndex r)))" by simp
next
  fix remaining :: "uint8 list" and r :: clipboardReceive and available copied f written r1 r2
  assume a: "\<not> (remaining = [] \<or> length (crFormats r) \<le> crIndex r)" "\<not> crSizes r ! crIndex r < crWritten r"
    "available = crSizes r ! crIndex r - crWritten r" "copied = min available (length remaining)"
    "f = crFormats r ! crIndex r" "written = crWritten r + copied"
    "r1 = r\<lparr>crFormats := (crFormats r)[crIndex r := f\<lparr>cfData := copyAt (cfData f) (crWritten r) (take copied remaining)\<rparr>],
            crWritten := written\<rparr>"
    "r2 = (if written = crSizes r ! crIndex r
           then r1\<lparr>crIndex := skipEmpty (crSizes r) (crIndex r + 1), crWritten := 0\<rparr> else r1)"
  show "((drop copied remaining, r2), (remaining, r)) \<in> measure (\<lambda>(remaining, r). length remaining + (length (crFormats r) - crIndex r))"
  proof (cases "written = crSizes r ! crIndex r")
    case True
    then have "crIndex r < crIndex r2" "length (crFormats r2) = length (crFormats r)"
      using a by (simp_all add: skipEmpty_def)
    then show ?thesis using a(1) by auto
  next
    case False
    then have "copied = length remaining" "0 < length remaining" using a(1-4,6) by auto
    moreover have "crIndex r2 = crIndex r" "length (crFormats r2) = length (crFormats r)"
      using False by (simp_all add: a(7,8))
    ultimately show ?thesis by simp
  qed
qed

declare copyLoop.simps [simp del]

text \<open>\<open>finishClipboardReceive\<close>: the messages sent and the content handed to the controller.\<close>

definition finishClipboardReceive :: "clipEnv \<Rightarrow> clipboardReceive \<Rightarrow> clipOutput list \<times> clipContent option" where
  "finishClipboardReceive env r =
    (if \<not> ceCurrent env 2 then ([], None)
     else if \<not> ceOwns env 1 then ([ClipError (crID r) ''input_not_owned''], None)
     else case ceSet env (crFormats r) of
       Some err \<Rightarrow> ((if ceCurrent env 3 then [ClipError (crID r) ''clipboard_write_failed''] else []), Some (crFormats r))
     | None \<Rightarrow> ((if ceCurrent env 3 then [ClipResult (crID r)] else []), Some (crFormats r)))"

text \<open>\<open>armClipboardReceiveTimer\<close>, and the function the timer runs for one arming of one transfer.\<close>

definition armTimer :: "clipboardReceive \<Rightarrow> clipboardReceive" where
  "armTimer r = r\<lparr>crActivity := crActivity r + 1\<rparr>"

definition timerFires :: "bool \<Rightarrow> uint64 \<Rightarrow> clipboardChannelState \<Rightarrow> clipOutput list \<times> clipboardChannelState" where
  "timerFires sameReceive activity st =
    (case csReceive st of
       Some r \<Rightarrow>
         if sameReceive \<and> crActivity r = activity
         then ([ClipError (crID r) ''transfer_timeout''], st\<lparr>csReceive := None\<rparr>) else ([], st)
     | None \<Rightarrow> ([], st))"

text \<open>The header branch: checks, reservation, and the second critical section that installs the transfer.\<close>

definition handleHeader :: "clipEnv \<Rightarrow> string \<Rightarrow> clipboardChannelState
    \<Rightarrow> clipOutput list \<times> clipContent option \<times> clipboardChannelState" where
  "handleHeader env msg st =
    (if int (length msg) > maxClipboardHeaderBytes \<or> \<not> utf8Valid msg then ([ClipError [] ''invalid_message''], None, st)
     else case ceDecode env msg of
       Inl _ \<Rightarrow> ([ClipError [] ''invalid_message''], None, st)
     | Inr (header, eof) \<Rightarrow>
         if \<not> eof then ([ClipError (cmID header) ''invalid_message''], None, st)
         else if validateClipboardHeader header \<noteq> None then ([ClipError (cmID header) ''invalid_message''], None, st)
         else if \<not> ceOwns env 0 then ([ClipError (cmID header) ''input_not_owned''], None, st)
         else if csReceive st \<noteq> None \<or> csReserved st
           then ([ClipError (cmID header) ''transfer_in_progress''], None, st)
         else let st1 = st\<lparr>csReserved := True, csGeneration := csGeneration st + 1\<rparr>; r = newReceive header
              in if \<not> ceCurrent env 1 then ([], None, st1\<lparr>csReserved := False\<rparr>)
                 else if crIndex r = length (crFormats r)
                   then (let (out, c) = finishClipboardReceive env r in (out, c, st1\<lparr>csReserved := False\<rparr>))
                 else ([], None, st1\<lparr>csReserved := False, csReceive := Some (armTimer r)\<rparr>))"

definition handleChunk :: "clipEnv \<Rightarrow> uint8 list \<Rightarrow> clipboardChannelState
    \<Rightarrow> (clipOutput list \<times> clipContent option \<times> clipboardChannelState) option" where
  "handleChunk env bs st =
    (case csReceive st of
       None \<Rightarrow> Some ([ClipError [] ''unexpected_binary''], None, st)
     | Some r \<Rightarrow>
         (case copyLoop bs (armTimer r) of
            None \<Rightarrow> None
          | Some (remaining, r') \<Rightarrow>
              if remaining \<noteq> [] then Some ([ClipError (crID r') ''invalid_transfer''], None, st\<lparr>csReceive := None\<rparr>)
              else if crIndex r' = length (crFormats r')
                then (let (out, c) = finishClipboardReceive env r' in Some (out, c, st\<lparr>csReceive := None\<rparr>))
              else Some ([], None, st\<lparr>csReceive := Some r'\<rparr>)))"

definition handleClipboardMessage :: "clipEnv \<Rightarrow> dataMessage \<Rightarrow> clipboardChannelState
    \<Rightarrow> (clipOutput list \<times> clipContent option \<times> clipboardChannelState) option" where
  "handleClipboardMessage env msg st =
    (if ceClosing env \<or> \<not> ceCurrent env 0 then Some ([], None, st)
     else case msg of
       BinaryMessage bs \<Rightarrow>
         if int (length bs) > clipboardChunkBytes
         then Some ([ClipError [] ''invalid_transfer''], None,
                st\<lparr>csReceive := None, csReserved := False, csGeneration := csGeneration st + 1\<rparr>)
         else handleChunk env bs st
     | TextMessage txt \<Rightarrow> Some (handleHeader env txt st))"

subsection \<open>Sending\<close>

fun chunksFrom :: "nat \<Rightarrow> nat \<Rightarrow> uint8 list \<Rightarrow> uint8 list list" where
  "chunksFrom 0 chunk bs = []"
| "chunksFrom (Suc fuel) chunk bs = (if bs = [] then [] else take chunk bs # chunksFrom fuel chunk (drop chunk bs))"

definition contentHeader :: "uint64 \<Rightarrow> clipContent \<Rightarrow> clipboardMessage" where
  "contentHeader sq content =
    \<lparr>cmVersion = clipboardVersion, cmType = ''clipboard.content'', cmID = ''server-'' @ decimal (unat sq),
     cmFormats = map (\<lambda>f. (cfMIME f, int (length (cfData f)))) content\<rparr>"

definition contentChunks :: "nat \<Rightarrow> clipContent \<Rightarrow> uint8 list list" where
  "contentChunks chunk content = concat (map (\<lambda>f. chunksFrom (length (cfData f)) chunk (cfData f)) content)"

text \<open>
  \<open>answer n\<close> is the outcome of the \<open>n\<close>-th chunk: the error of the check that the channel is current,
  of waiting for its buffer to drain, or of \<open>Send\<close>, if any.
\<close>

fun sendChunks :: "(nat \<Rightarrow> goerror option) \<Rightarrow> nat \<Rightarrow> uint8 list list \<Rightarrow> goerror option \<times> uint8 list list" where
  "sendChunks answer n [] = (None, [])"
| "sendChunks answer n (c # cs) =
    (case answer n of
       Some e \<Rightarrow> (Some e, [])
     | None \<Rightarrow> (let (err, sent) = sendChunks answer (n + 1) cs in (err, c # sent)))"

text \<open>
  \<open>writeClipboardContent\<close>: the error, the header and chunks sent, and the new sequence number.
  \<open>current\<close> are the two checks before the header, \<open>headerErr\<close> the outcome of sending it.
\<close>

definition writeClipboardContent :: "bool \<times> bool \<Rightarrow> goerror option \<Rightarrow> (nat \<Rightarrow> goerror option) \<Rightarrow> clipContent \<Rightarrow> uint64
    \<Rightarrow> goerror option \<times> clipboardMessage option \<times> uint8 list list \<times> uint64" where
  "writeClipboardContent current headerErr answer content sq =
    (if \<not> fst current \<or> \<not> snd current
     then (Some (errorsNew ''clipboard data channel is no longer current''), None, [], sq)
     else if headerErr \<noteq> None then (headerErr, None, [], sq + 1)
     else let (err, sent) = sendChunks answer 0 (contentChunks (nat clipboardChunkBytes) content)
          in (err, Some (contentHeader (sq + 1) content), sent, sq + 1))"

section \<open>Reassembly\<close>

lemma copyAt_in: "pos + length bs \<le> length dst \<Longrightarrow> copyAt dst pos bs = take pos dst @ bs @ drop (pos + length bs) dst"
  by (simp add: copyAt_def)

lemma length_copyAt: "pos + length bs \<le> length dst \<Longrightarrow> length (copyAt dst pos bs) = length dst"
  by (simp add: copyAt_in)

lemma copyAt_middle:
  assumes "w + length b \<le> length x"
  shows "copyAt (A @ x @ B) (length A + w) b = A @ copyAt x w b @ B"
  using assms by (simp add: copyAt_in)

lemma copyAt_copyAt:
  assumes "pos + length a + length b \<le> length dst"
  shows "copyAt (copyAt dst pos a) (pos + length a) b = copyAt dst pos (a @ b)"
proof -
  let ?A = "take pos dst @ a" and ?x = "drop (pos + length a) dst"
  have A: "length ?A = pos + length a" and x: "copyAt dst pos a = ?A @ ?x" using assms by (simp_all add: copyAt_in)
  have "copyAt (?A @ ?x @ []) (length ?A + 0) b = ?A @ copyAt ?x 0 b @ []"
    using assms by (intro copyAt_middle) simp
  moreover have "copyAt ?x 0 b = b @ drop (pos + length a + length b) dst" using assms by (simp add: copyAt_def add.commute)
  ultimately have "copyAt (?A @ ?x) (pos + length a) b = ?A @ b @ drop (pos + length a + length b) dst"
    by (simp only: A append_Nil2 add_0_right)
  then show ?thesis using assms by (simp add: x copyAt_in [of pos "a @ b"] add.assoc)
qed

lemma concat_copyAt:
  assumes "i < length xs" "w + length b \<le> length (xs ! i)"
  shows "concat (xs[i := copyAt (xs ! i) w b]) = copyAt (concat xs) (length (concat (take i xs)) + w) b"
proof -
  have "xs = take i xs @ xs ! i # drop (Suc i) xs" using assms(1) by (rule id_take_nth_drop)
  then have "concat xs = concat (take i xs) @ xs ! i @ concat (drop (Suc i) xs)" by (metis concat.simps(2) concat_append)
  moreover have "concat (xs[i := copyAt (xs ! i) w b]) = concat (take i xs) @ copyAt (xs ! i) w b @ concat (drop (Suc i) xs)"
    using assms(1) by (simp add: upd_conv_take_nth_drop)
  ultimately show ?thesis using copyAt_middle [OF assms(2)] by simp
qed

definition flat :: "clipboardReceive \<Rightarrow> uint8 list" where
  "flat r = concat (map cfData (crFormats r))"

text \<open>The position in the concatenated payload, and how much the header announced.\<close>

definition position :: "clipboardReceive \<Rightarrow> nat" where
  "position r = sum_list (take (crIndex r) (crSizes r)) + crWritten r"

definition announced :: "clipboardReceive \<Rightarrow> nat" where
  "announced r = sum_list (crSizes r)"

definition receiveOK :: "clipboardReceive \<Rightarrow> bool" where
  "receiveOK r = (map (length \<circ> cfData) (crFormats r) = crSizes r
     \<and> (crIndex r = length (crSizes r) \<and> crWritten r = 0 \<or> crIndex r < length (crSizes r) \<and> crWritten r < crSizes r ! crIndex r))"

lemma skipEmpty_props:
  assumes "i \<le> length sizes"
  shows "skipEmpty sizes i \<le> length sizes"
    and "skipEmpty sizes i < length sizes \<Longrightarrow> 0 < sizes ! skipEmpty sizes i"
    and "sum_list (take (skipEmpty sizes i) sizes) = sum_list (take i sizes)"
proof -
  let ?z = "takeWhile (\<lambda>n. n = 0) (drop i sizes)"
  have len: "length ?z \<le> length sizes - i" using length_takeWhile_le [of _ "drop i sizes"] by simp
  then show "skipEmpty sizes i \<le> length sizes" using assms by (simp add: skipEmpty_def)
  show "skipEmpty sizes i < length sizes \<Longrightarrow> 0 < sizes ! skipEmpty sizes i"
    using nth_length_takeWhile [of "\<lambda>n. n = 0" "drop i sizes"] assms by (simp add: skipEmpty_def)
  have "take (skipEmpty sizes i) sizes = take i sizes @ ?z"
    by (simp add: skipEmpty_def take_add takeWhile_eq_take [symmetric])
  moreover have "sum_list ?z = 0" by (auto dest: set_takeWhileD)
  ultimately show "sum_list (take (skipEmpty sizes i) sizes) = sum_list (take i sizes)" by simp
qed

lemma receiveOK_flat:
  assumes "receiveOK r"
  shows "length (flat r) = announced r" "length (crFormats r) = length (crSizes r)"
    "length (concat (take i (map cfData (crFormats r)))) = sum_list (take i (crSizes r))"
proof -
  have sizes: "crSizes r = map (length \<circ> cfData) (crFormats r)" using assms by (simp add: receiveOK_def)
  show "length (flat r) = announced r" by (simp add: flat_def announced_def sizes length_concat comp_def)
  show "length (crFormats r) = length (crSizes r)" by (simp add: sizes)
  show "length (concat (take i (map cfData (crFormats r)))) = sum_list (take i (crSizes r))"
    by (simp add: sizes length_concat take_map comp_def)
qed

lemma sum_list_take_Suc: "i < length xs \<Longrightarrow> sum_list (take (Suc i) xs) = sum_list (take i xs) + (xs ! i :: nat)"
  by (simp add: take_Suc_conv_app_nth)

lemma sum_list_take_le: "sum_list (take i xs) \<le> sum_list (xs :: nat list)"
  by (metis append_take_drop_id le_add1 sum_list_append)

lemma position_le: "receiveOK r \<Longrightarrow> position r \<le> announced r"
proof -
  assume ok: "receiveOK r"
  show ?thesis
  proof (cases "crIndex r < length (crSizes r)")
    case True
    then have "sum_list (take (Suc (crIndex r)) (crSizes r)) \<le> announced r" by (simp only: announced_def sum_list_take_le)
    then show ?thesis using ok True by (auto simp: position_def receiveOK_def sum_list_take_Suc)
  qed (use ok in \<open>auto simp: position_def receiveOK_def announced_def\<close>)
qed

lemma position_end: "receiveOK r \<Longrightarrow> position r = announced r \<longleftrightarrow> crIndex r = length (crSizes r)"
proof -
  assume ok: "receiveOK r"
  show ?thesis
  proof (cases "crIndex r < length (crSizes r)")
    case True
    then have "sum_list (take (Suc (crIndex r)) (crSizes r)) \<le> announced r" by (simp only: announced_def sum_list_take_le)
    then show ?thesis using ok True by (auto simp: position_def receiveOK_def sum_list_take_Suc)
  qed (use ok in \<open>auto simp: position_def receiveOK_def announced_def\<close>)
qed

text \<open>One iteration of the copy loop, as a function of its own.\<close>

definition copyStep :: "uint8 list \<Rightarrow> clipboardReceive \<Rightarrow> uint8 list \<times> clipboardReceive" where
  "copyStep bs r =
    (let copied = min (crSizes r ! crIndex r - crWritten r) (length bs);
         f = crFormats r ! crIndex r;
         r1 = r\<lparr>crFormats := (crFormats r)[crIndex r := f\<lparr>cfData := copyAt (cfData f) (crWritten r) (take copied bs)\<rparr>],
                crWritten := crWritten r + copied\<rparr>
     in (drop copied bs, if crWritten r + copied = crSizes r ! crIndex r
           then r1\<lparr>crIndex := skipEmpty (crSizes r) (crIndex r + 1), crWritten := 0\<rparr> else r1))"

lemma copyLoop_step:
  assumes "receiveOK r" "bs \<noteq> []" "crIndex r < length (crSizes r)"
  shows "copyLoop bs r = (case copyStep bs r of (bs', r') \<Rightarrow> copyLoop bs' r')"
  using assms receiveOK_flat(2) [OF assms(1)]
  by (subst copyLoop.simps) (auto simp: copyStep_def Let_def receiveOK_def)

lemma copyLoop_stop:
  assumes "receiveOK r" "bs = [] \<or> crIndex r = length (crSizes r)"
  shows "copyLoop bs r = Some (bs, r)"
  using assms receiveOK_flat(2) [OF assms(1)] by (subst copyLoop.simps) auto

text \<open>What stays the same while bytes arrive.\<close>

definition sameTransfer :: "clipboardReceive \<Rightarrow> clipboardReceive \<Rightarrow> bool" where
  "sameTransfer r r' = (crID r' = crID r \<and> crSizes r' = crSizes r \<and> map cfMIME (crFormats r') = map cfMIME (crFormats r)
     \<and> crActivity r' = crActivity r)"

lemma map_cfMIME_update: "i < length fs \<Longrightarrow> map cfMIME (fs[i := (fs ! i)\<lparr>cfData := d\<rparr>]) = map cfMIME fs"
  by (simp add: map_update list_update_same_conv)

lemma copyStep_correct:
  assumes ok: "receiveOK r" and bs: "bs \<noteq> []" and i: "crIndex r < length (crSizes r)" and step: "copyStep bs r = (bs', r')"
  obtains n where "0 < n" "n \<le> length bs" "n \<le> announced r - position r" "bs' = drop n bs" "receiveOK r'" "sameTransfer r r'"
    "position r' = position r + n" "flat r' = copyAt (flat r) (position r) (take n bs)"
proof -
  let ?i = "crIndex r" and ?s = "crSizes r ! crIndex r"
  define n where "n = min (?s - crWritten r) (length bs)"
  let ?f = "crFormats r ! ?i"
  let ?d = "copyAt (cfData ?f) (crWritten r) (take n bs)"
  let ?fs = "(crFormats r)[?i := ?f\<lparr>cfData := ?d\<rparr>]"
  have len: "length (crFormats r) = length (crSizes r)" by (rule receiveOK_flat(2) [OF ok])
  have w: "crWritten r < ?s" and sizes: "crSizes r = map (length \<circ> cfData) (crFormats r)"
    using ok i by (auto simp: receiveOK_def)
  have i': "?i < length (crFormats r)" using i len by simp
  then have fl: "length (cfData ?f) = ?s" by (simp add: sizes)
  have n: "0 < n" "n \<le> length bs" "crWritten r + n \<le> ?s" "length (take n bs) = n" using w bs by (auto simp: n_def)
  have dl: "length ?d = ?s" using n fl by (simp add: length_copyAt)
  have "map (length \<circ> cfData) ?fs = (map (length \<circ> cfData) (crFormats r))[?i := length ?d]" by (simp add: map_update)
  also have "\<dots> = crSizes r" by (simp only: sizes [symmetric] dl list_update_id)
  finally have sizes': "map (length \<circ> cfData) ?fs = crSizes r" .
  have mimes: "map cfMIME ?fs = map cfMIME (crFormats r)" using i len by (simp add: map_cfMIME_update)
  have "concat (map cfData ?fs) = copyAt (flat r) (length (concat (take ?i (map cfData (crFormats r)))) + crWritten r) (take n bs)"
    using concat_copyAt [of ?i "map cfData (crFormats r)" "crWritten r" "take n bs"] i len fl n by (simp add: flat_def map_update)
  then have flat': "concat (map cfData ?fs) = copyAt (flat r) (position r) (take n bs)"
    using receiveOK_flat(3) [OF ok] by (simp add: position_def)
  have le: "sum_list (take ?i (crSizes r)) + ?s \<le> announced r"
    using sum_list_take_le [of "Suc ?i" "crSizes r"] i by (simp add: announced_def sum_list_take_Suc)
  have bs': "bs' = drop n bs" using step by (simp add: copyStep_def Let_def n_def)
  have r': "r' = (if crWritten r + n = ?s then r\<lparr>crFormats := ?fs, crIndex := skipEmpty (crSizes r) (?i + 1), crWritten := 0\<rparr>
      else r\<lparr>crFormats := ?fs, crWritten := crWritten r + n\<rparr>)"
    using step by (simp add: copyStep_def Let_def n_def split: if_splits)
  have skip: "skipEmpty (crSizes r) (?i + 1) \<le> length (crSizes r)"
    "skipEmpty (crSizes r) (?i + 1) < length (crSizes r) \<Longrightarrow> 0 < crSizes r ! skipEmpty (crSizes r) (?i + 1)"
    "sum_list (take (skipEmpty (crSizes r) (?i + 1)) (crSizes r)) = sum_list (take ?i (crSizes r)) + ?s"
    using skipEmpty_props [of "?i + 1" "crSizes r"] i sum_list_take_Suc [OF i] by simp_all
  have "receiveOK r'" using sizes' skip(1,2) n(3) i by (auto simp: r' receiveOK_def)
  moreover have "sameTransfer r r'" using mimes by (simp add: r' sameTransfer_def)
  moreover have "position r' = position r + n" using skip(3) by (auto simp: r' position_def)
  moreover have "flat r' = copyAt (flat r) (position r) (take n bs)" using flat' by (simp add: r' flat_def)
  moreover have "n \<le> announced r - position r" using le n(3) by (simp add: position_def)
  ultimately show ?thesis using that n(1,2) bs' by blast
qed

definition loopResult :: "clipboardReceive \<Rightarrow> uint8 list \<Rightarrow> clipboardReceive \<Rightarrow> bool" where
  "loopResult r bs r' = (receiveOK r' \<and> sameTransfer r r'
     \<and> position r' = position r + min (announced r - position r) (length bs)
     \<and> flat r' = copyAt (flat r) (position r) (take (announced r - position r) bs))"

lemma sameTransfer_announced: "sameTransfer r r' \<Longrightarrow> announced r' = announced r"
  by (simp add: sameTransfer_def announced_def)

lemma copyLoop_correct:
  assumes "receiveOK r"
  shows "\<exists>r'. copyLoop bs r = Some (drop (announced r - position r) bs, r') \<and> loopResult r bs r'"
  using assms
proof (induction "length bs" arbitrary: bs r rule: less_induct)
  case less
  show ?case
  proof (cases "bs = [] \<or> crIndex r = length (crSizes r)")
    case True
    have "copyLoop bs r = Some (bs, r)" using copyLoop_stop [OF less.prems True] .
    moreover have "bs = [] \<or> announced r = position r" using True position_end [OF less.prems] by auto
    ultimately show ?thesis using less.prems position_le [OF less.prems] receiveOK_flat(1) [OF less.prems]
      by (auto simp: loopResult_def sameTransfer_def copyAt_def)
  next
    case False
    then have i: "crIndex r < length (crSizes r)" using less.prems by (auto simp: receiveOK_def)
    obtain bs' r1 where step: "copyStep bs r = (bs', r1)" by fastforce
    obtain n where n: "0 < n" "n \<le> length bs" "n \<le> announced r - position r" "bs' = drop n bs" "receiveOK r1" "sameTransfer r r1"
      "position r1 = position r + n" "flat r1 = copyAt (flat r) (position r) (take n bs)"
      using copyStep_correct [OF less.prems _ i step] False by blast
    have "length bs' < length bs" using n(1,2,4) by simp
    then obtain r' where r': "copyLoop bs' r1 = Some (drop (announced r1 - position r1) bs', r')" "loopResult r1 bs' r'"
      using less.hyps n(5) by blast
    have ann: "announced r1 = announced r" by (rule sameTransfer_announced [OF n(6)])
    have "announced r - (position r + n) + n = announced r - position r" using n(3) by simp
    then have loop: "copyLoop bs r = Some (drop (announced r - position r) bs, r')"
      using copyLoop_step [OF less.prems _ i] False step r'(1) n(3,4,7) ann by simp
    let ?rest = "take (announced r - position r - n) bs'"
    have "copyAt (flat r1) (position r + n) ?rest = copyAt (flat r) (position r) (take n bs @ ?rest)"
    proof -
      have len: "length (take n bs) = n" using n(2) by simp
      have "position r + length (take n bs) + length ?rest \<le> length (flat r)"
        using n(1,3) len receiveOK_flat(1) [OF less.prems] by simp
      from copyAt_copyAt [OF this] show ?thesis by (simp only: n(8) len)
    qed
    moreover have "take n bs @ ?rest = take (announced r - position r) bs"
      using n(3,4) take_add [of n "announced r - position r - n" bs] by (simp only: le_add_diff_inverse)
    ultimately have "loopResult r bs r'"
      using r'(2) n(2,3,4,6,7) ann by (auto simp: loopResult_def sameTransfer_def)
    then show ?thesis using loop by blast
  qed
qed

text \<open>The state after \<open>bs\<close> has arrived for a header announcing the formats of \<open>content\<close>.\<close>

definition receivedPrefix :: "clipContent \<Rightarrow> uint8 list \<Rightarrow> clipboardReceive \<Rightarrow> bool" where
  "receivedPrefix content bs r = (receiveOK r \<and> map cfMIME (crFormats r) = map cfMIME content
     \<and> crSizes r = map (length \<circ> cfData) content \<and> position r = length bs \<and> take (length bs) (flat r) = bs)"

definition payload :: "clipContent \<Rightarrow> uint8 list" where
  "payload content = concat (map cfData content)"

lemma announced_payload: "crSizes r = map (length \<circ> cfData) content \<Longrightarrow> announced r = length (payload content)"
  by (simp add: announced_def payload_def length_concat comp_def)

lemma receivedPrefix_step:
  assumes "receivedPrefix content done' r" "length (done' @ bs) \<le> length (payload content)"
  shows "\<exists>r'. copyLoop bs r = Some ([], r') \<and> receivedPrefix content (done' @ bs) r' \<and> crID r' = crID r"
proof -
  have r: "receiveOK r" "position r = length done'" "take (length done') (flat r) = done'" and ann: "announced r = length (payload content)"
    using assms(1) announced_payload by (auto simp: receivedPrefix_def)
  obtain r' where r': "copyLoop bs r = Some (drop (announced r - position r) bs, r')" "loopResult r bs r'"
    using copyLoop_correct [OF r(1)] by blast
  have le: "length bs \<le> announced r - position r" using assms(2) ann r(2) by simp
  have fl: "flat r' = done' @ bs @ drop (length done' + length bs) (flat r)"
    using r'(2) le r assms(2) ann receiveOK_flat(1) [OF r(1)] by (simp add: loopResult_def copyAt_in)
  have "receivedPrefix content (done' @ bs) r'"
  proof -
    have "take (length (done' @ bs)) (flat r') = done' @ bs" by (simp add: fl)
    then show ?thesis using assms(1) r'(2) le r(2) by (simp add: receivedPrefix_def loopResult_def sameTransfer_def)
  qed
  then show ?thesis using r' le by (auto simp: loopResult_def sameTransfer_def)
qed

lemma formats_eqI:
  assumes "map cfMIME a = map cfMIME b" "map (length \<circ> cfData) a = map (length \<circ> cfData) b" "payload a = payload b"
  shows "a = b"
  using assms
proof (induction a arbitrary: b)
  case (Cons x a)
  then obtain y b' where b: "b = y # b'" by (cases b) auto
  have "cfData x = cfData y" "payload a = payload b'" using Cons.prems b by (auto simp: payload_def)
  then show ?case using Cons.IH [of b'] Cons.prems b by (auto intro: clipFormat.equality)
qed simp

lemma receivedPrefix_complete:
  assumes "receivedPrefix content (payload content) r"
  shows "crFormats r = content" "crIndex r = length (crFormats r)"
proof -
  have r: "receiveOK r" "position r = announced r" "crSizes r = map (length \<circ> cfData) content"
    using assms announced_payload by (auto simp: receivedPrefix_def)
  then show "crIndex r = length (crFormats r)" using position_end receiveOK_flat(2) by simp
  have "payload (crFormats r) = payload content"
    using assms receiveOK_flat(1) [OF r(1)] announced_payload [OF r(3)] by (auto simp: receivedPrefix_def flat_def payload_def)
  then show "crFormats r = content" using assms r by (intro formats_eqI) (auto simp: receivedPrefix_def receiveOK_def)
qed

lemma receivedPrefix_incomplete:
  assumes "receivedPrefix content bs r" "length bs < length (payload content)"
  shows "crIndex r \<noteq> length (crFormats r)"
  using assms position_end [of r] receiveOK_flat(2) [of r] announced_payload [of r content] by (auto simp: receivedPrefix_def)

section \<open>Whole transfers\<close>

text \<open>The messages sent and contents handed to the controller over a sequence of received messages.\<close>

fun runMessages :: "clipEnv \<Rightarrow> dataMessage list \<Rightarrow> clipboardChannelState
    \<Rightarrow> (clipOutput list \<times> clipContent list \<times> clipboardChannelState) option" where
  "runMessages env [] st = Some ([], [], st)"
| "runMessages env (m # ms) st =
    (case handleClipboardMessage env m st of
       None \<Rightarrow> None
     | Some (out, c, st') \<Rightarrow>
         (case runMessages env ms st' of
            None \<Rightarrow> None
          | Some (outs, cs, st'') \<Rightarrow> Some (out @ outs, (case c of None \<Rightarrow> [] | Some x \<Rightarrow> [x]) @ cs, st'')))"

text \<open>An environment that lets a transfer through: the channel stays current, the peer owns input.\<close>

definition openEnv :: "clipEnv \<Rightarrow> bool" where
  "openEnv env = (\<not> ceClosing env \<and> (\<forall>n. ceCurrent env n) \<and> (\<forall>n. ceOwns env n))"

definition resultOf :: "clipEnv \<Rightarrow> string \<Rightarrow> clipContent \<Rightarrow> clipOutput" where
  "resultOf env ident content = (if ceSet env content = None then ClipResult ident else ClipError ident ''clipboard_write_failed'')"

lemma finish_open:
  assumes "openEnv env"
  shows "finishClipboardReceive env r = ([resultOf env (crID r) (crFormats r)], Some (crFormats r))"
  using assms by (auto simp: openEnv_def finishClipboardReceive_def resultOf_def split: option.splits)

lemma armTimer_prefix: "receivedPrefix content bs (armTimer r) = receivedPrefix content bs r" "crID (armTimer r) = crID r"
  by (simp_all add: armTimer_def receivedPrefix_def receiveOK_def position_def flat_def)

lemma chunk_step:
  assumes "openEnv env" "csReceive st = Some r" "receivedPrefix content done' r" "bs \<noteq> []"
    "int (length bs) \<le> clipboardChunkBytes" "length (done' @ bs) \<le> length (payload content)"
  shows "\<exists>r'. receivedPrefix content (done' @ bs) r' \<and> crID r' = crID r
    \<and> (done' @ bs = payload content \<longrightarrow> handleClipboardMessage env (BinaryMessage bs) st
         = Some ([resultOf env (crID r) content], Some content, st\<lparr>csReceive := None\<rparr>))
    \<and> (length (done' @ bs) < length (payload content) \<longrightarrow>
         handleClipboardMessage env (BinaryMessage bs) st = Some ([], None, st\<lparr>csReceive := Some r'\<rparr>))"
proof -
  obtain r' where r': "copyLoop bs (armTimer r) = Some ([], r')" "receivedPrefix content (done' @ bs) r'" "crID r' = crID r"
    using receivedPrefix_step [of content done' "armTimer r" bs] assms(3,6) armTimer_prefix by auto
  have h: "handleClipboardMessage env (BinaryMessage bs) st = handleChunk env bs st"
    using assms(1,5) by (simp add: handleClipboardMessage_def openEnv_def)
  have "done' @ bs = payload content \<Longrightarrow> crFormats r' = content \<and> crIndex r' = length (crFormats r')"
    using r'(2) receivedPrefix_complete by metis
  moreover have "length (done' @ bs) < length (payload content) \<Longrightarrow> crIndex r' \<noteq> length (crFormats r')"
    using receivedPrefix_incomplete [OF r'(2)] by blast
  ultimately show ?thesis using r' h assms(2) finish_open [OF assms(1), of r']
    by (intro exI [of _ r']) (auto simp: handleChunk_def)
qed

lemma chunks_run:
  assumes "openEnv env" "csReceive st = Some r" "receivedPrefix content done' r" "done' @ concat chunks = payload content"
    "done' \<noteq> payload content" "\<forall>bs\<in>set chunks. bs \<noteq> [] \<and> int (length bs) \<le> clipboardChunkBytes"
  shows "runMessages env (map BinaryMessage chunks) st = Some ([resultOf env (crID r) content], [content], st\<lparr>csReceive := None\<rparr>)"
  using assms(2-)
proof (induction chunks arbitrary: st r done')
  case (Cons bs chunks)
  have le: "length (done' @ bs) \<le> length (payload content)"
    using arg_cong [OF Cons.prems(3), of length] by simp
  have bs: "bs \<noteq> []" "int (length bs) \<le> clipboardChunkBytes" using Cons.prems(5) by auto
  obtain r' where r': "receivedPrefix content (done' @ bs) r'" "crID r' = crID r"
    "done' @ bs = payload content \<Longrightarrow> handleClipboardMessage env (BinaryMessage bs) st
       = Some ([resultOf env (crID r) content], Some content, st\<lparr>csReceive := None\<rparr>)"
    "length (done' @ bs) < length (payload content) \<Longrightarrow>
       handleClipboardMessage env (BinaryMessage bs) st = Some ([], None, st\<lparr>csReceive := Some r'\<rparr>)"
    using chunk_step [OF assms(1) Cons.prems(1,2) bs le] by blast
  have split: "payload content = (done' @ bs) @ concat chunks" using Cons.prems(3) by simp
  show ?case
  proof (cases "done' @ bs = payload content")
    case True
    then have "concat chunks = []" using split by simp
    then have "chunks = []" using Cons.prems(5) by (cases chunks) auto
    then show ?thesis using r'(3) [OF True] by simp
  next
    case False
    then have "concat chunks \<noteq> []" using split by auto
    then have lt: "length (done' @ bs) < length (payload content)" by (simp add: split)
    have "runMessages env (map BinaryMessage chunks) (st\<lparr>csReceive := Some r'\<rparr>)
        = Some ([resultOf env (crID r') content], [content], (st\<lparr>csReceive := Some r'\<rparr>)\<lparr>csReceive := None\<rparr>)"
      using split Cons.prems(5) r'(1) False by (intro Cons.IH) auto
    then show ?thesis using r'(2) r'(4) [OF lt] by simp
  qed
qed (use assms in simp)

lemma newReceive_ok: "receiveOK (newReceive header)"
proof -
  let ?sizes = "map (nat \<circ> snd) (cmFormats header)"
  have "map (length \<circ> cfData) (crFormats (newReceive header)) = ?sizes" by (simp add: newReceive_def Let_def comp_def case_prod_beta)
  then show ?thesis using skipEmpty_props(1,2) [of 0 ?sizes]
    by (auto simp: receiveOK_def newReceive_def Let_def)
qed

lemma newReceive_prefix:
  assumes "cmFormats header = map (\<lambda>f. (cfMIME f, int (length (cfData f)))) content"
  shows "receivedPrefix content [] (newReceive header)"
proof -
  have "position (newReceive header) = 0"
    using skipEmpty_props(3) [of 0 "map (nat \<circ> snd) (cmFormats header)"] by (simp add: position_def newReceive_def Let_def)
  then show ?thesis using newReceive_ok [of header] assms
    by (simp add: receivedPrefix_def newReceive_def Let_def comp_def case_prod_beta)
qed

lemma transfer_run:
  assumes env: "openEnv env" and st: "csReceive st = None" "\<not> csReserved st"
    and msg: "utf8Valid msg" "int (length msg) \<le> maxClipboardHeaderBytes" "ceDecode env msg = Inr (header, True)"
    and header: "validateClipboardHeader header = None" "cmFormats header = map (\<lambda>f. (cfMIME f, int (length (cfData f)))) content"
    and chunks: "concat chunks = payload content" "\<forall>bs\<in>set chunks. bs \<noteq> [] \<and> int (length bs) \<le> clipboardChunkBytes"
  shows "runMessages env (TextMessage msg # map BinaryMessage chunks) st
    = Some ([resultOf env (cmID header) content], [content], st\<lparr>csReserved := False, csGeneration := csGeneration st + 1\<rparr>)"
proof -
  let ?r = "newReceive header" and ?st = "st\<lparr>csReserved := False, csGeneration := csGeneration st + 1\<rparr>"
  have pre: "receivedPrefix content [] ?r" by (rule newReceive_prefix [OF header(2)])
  have id: "crID ?r = cmID header" by (simp add: newReceive_def Let_def)
  have h: "handleClipboardMessage env (TextMessage msg) st =
      Some (if crIndex ?r = length (crFormats ?r) then ([resultOf env (cmID header) (crFormats ?r)], Some (crFormats ?r), ?st)
            else ([], None, ?st\<lparr>csReceive := Some (armTimer ?r)\<rparr>))"
    using env st msg header(1) finish_open [OF env, of ?r] id
    by (auto simp: handleClipboardMessage_def handleHeader_def openEnv_def Let_def)
  show ?thesis
  proof (cases "payload content = []")
    case True
    then have "chunks = []" using chunks by (cases chunks) auto
    moreover have "crFormats ?r = content" "crIndex ?r = length (crFormats ?r)"
      using receivedPrefix_complete [of content ?r] pre True by auto
    ultimately show ?thesis using h by simp
  next
    case False
    then have "crIndex ?r \<noteq> length (crFormats ?r)" using receivedPrefix_incomplete [OF pre] by simp
    moreover have "runMessages env (map BinaryMessage chunks) (?st\<lparr>csReceive := Some (armTimer ?r)\<rparr>)
        = Some ([resultOf env (crID (armTimer ?r)) content], [content], (?st\<lparr>csReceive := Some (armTimer ?r)\<rparr>)\<lparr>csReceive := None\<rparr>)"
      using chunks False pre armTimer_prefix by (intro chunks_run [OF env, where done' = "[]"]) auto
    ultimately show ?thesis using h id st armTimer_prefix(2) [of ?r] by (cases st) simp
  qed
qed

lemma chunksFrom_props:
  assumes "length bs \<le> fuel" "0 < chunk"
  shows "concat (chunksFrom fuel chunk bs) = bs \<and> (\<forall>c\<in>set (chunksFrom fuel chunk bs). c \<noteq> [] \<and> length c \<le> chunk)"
  using assms
proof (induction fuel chunk bs rule: chunksFrom.induct)
  case (2 fuel chunk bs)
  show ?case
  proof (cases "bs = []")
    case False
    have "length (drop chunk bs) \<le> fuel" using "2.prems" False by (cases bs) auto
    from "2.IH" [OF False this "2.prems"(2)] show ?thesis using False "2.prems"(2) by simp
  qed simp
qed simp

lemma contentChunks_props:
  assumes "0 < chunk"
  shows "concat (contentChunks chunk content) = payload content"
    "\<forall>c\<in>set (contentChunks chunk content). c \<noteq> [] \<and> length c \<le> chunk"
proof -
  have p: "concat (chunksFrom (length bs) chunk bs) = bs"
    "c \<in> set (chunksFrom (length bs) chunk bs) \<Longrightarrow> c \<noteq> [] \<and> length c \<le> chunk" for bs c
    using chunksFrom_props [OF order_refl assms, of bs] by auto
  show "concat (contentChunks chunk content) = payload content"
    by (induction content) (simp_all add: contentChunks_def payload_def p(1))
  show "\<forall>c\<in>set (contentChunks chunk content). c \<noteq> [] \<and> length c \<le> chunk"
    using p(2) by (auto simp: contentChunks_def simp del: chunksFrom.simps)
qed

lemma sendChunks_all: "(\<And>n. answer n = None) \<Longrightarrow> sendChunks answer n cs = (None, cs)"
  by (induction cs arbitrary: n) simp_all

section \<open>Any sequence of messages\<close>

datatype clipEvent = ClipMessage clipEnv dataMessage | ClipTimer bool uint64

fun clipEvents :: "clipEvent list \<Rightarrow> clipboardChannelState \<Rightarrow> (clipContent list \<times> clipboardChannelState) option" where
  "clipEvents [] st = Some ([], st)"
| "clipEvents (ClipMessage env m # es) st =
    (case handleClipboardMessage env m st of
       None \<Rightarrow> None
     | Some (out, c, st') \<Rightarrow> map_option (\<lambda>(cs, st''). ((case c of None \<Rightarrow> [] | Some x \<Rightarrow> [x]) @ cs, st'')) (clipEvents es st'))"
| "clipEvents (ClipTimer same activity # es) st = clipEvents es (snd (timerFires same activity st))"

text \<open>What the validated header guarantees of the content under construction.\<close>

definition contentOK :: "clipContent \<Rightarrow> bool" where
  "contentOK content = (content \<noteq> [] \<and> length content \<le> 8 \<and> distinct (map cfMIME content)
     \<and> (\<forall>f\<in>set content. NormalizeMIME (cfMIME f) = cfMIME f) \<and> contentBytes content \<le> maxClipboardBytes)"

definition channelOK :: "clipboardChannelState \<Rightarrow> bool" where
  "channelOK st = (case csReceive st of None \<Rightarrow> True | Some r \<Rightarrow> receiveOK r \<and> contentOK (crFormats r))"

lemma checkFormats_None:
  "checkFormats fs seen bytes = None \<Longrightarrow> bytes \<le> maxClipboardBytes \<Longrightarrow>
    (\<forall>(m, n)\<in>set fs. NormalizeMIME m = m \<and> m \<notin> set seen \<and> 0 \<le> n) \<and> distinct (map fst fs)
    \<and> bytes + sum_list (map snd fs) \<le> maxClipboardBytes"
proof (induction fs seen bytes rule: checkFormats.induct)
  case (2 mime sz rest seen bytes)
  then show ?case by (fastforce split: if_splits)
qed simp

lemma checkFormats_Some:
  "(\<forall>(m, n)\<in>set fs. NormalizeMIME m = m \<and> m \<notin> set seen \<and> 0 \<le> n) \<Longrightarrow> distinct (map fst fs) \<Longrightarrow> 0 \<le> bytes \<Longrightarrow>
    bytes + sum_list (map snd fs) \<le> maxClipboardBytes \<Longrightarrow> checkFormats fs seen bytes = None"
proof (induction fs seen bytes rule: checkFormats.induct)
  case (2 mime sz rest seen bytes)
  have rest: "0 \<le> sum_list (map snd rest)" using 2(2) by (intro sum_list_nonneg) auto
  then show ?case using 2 by (fastforce simp: image_iff)
qed simp

lemma newReceive_content:
  assumes "validateClipboardHeader header = None"
  shows "contentOK (crFormats (newReceive header))"
proof -
  have ne: "cmFormats header \<noteq> []" "int (length (cmFormats header)) \<le> 8" and chk: "checkFormats (cmFormats header) [] 0 = None"
    using assms by (auto simp: validateClipboardHeader_def maxClipboardFormats_def split: if_splits)
  have c: "\<forall>(m, n)\<in>set (cmFormats header). NormalizeMIME m = m \<and> 0 \<le> n" "distinct (map fst (cmFormats header))"
    "sum_list (map snd (cmFormats header)) \<le> maxClipboardBytes"
    using checkFormats_None [OF chk] by (auto simp: maxClipboardBytes_def)
  have fs: "crFormats (newReceive header) = map (\<lambda>(mime, sz). \<lparr>cfMIME = mime, cfData = replicate (nat sz) 0\<rparr>) (cmFormats header)"
    by (simp add: newReceive_def Let_def)
  have "contentBytes (crFormats (newReceive header)) = sum_list (map snd (cmFormats header))"
    unfolding fs contentBytes_def map_map using c(1) by (intro arg_cong [where f = sum_list] map_cong) (auto simp: comp_def)
  moreover have "map cfMIME (crFormats (newReceive header)) = map fst (cmFormats header)"
    unfolding fs by (simp add: comp_def case_prod_beta)
  then have "distinct (map cfMIME (crFormats (newReceive header)))" using c(2) by simp
  moreover have "\<forall>f\<in>set (crFormats (newReceive header)). NormalizeMIME (cfMIME f) = cfMIME f" using c(1) by (auto simp: fs)
  ultimately show ?thesis using ne c(3) by (simp add: contentOK_def) (simp add: fs)
qed

lemma contentOK_same: "map cfMIME a = map cfMIME b \<Longrightarrow> map (length \<circ> cfData) a = map (length \<circ> cfData) b \<Longrightarrow> contentOK a = contentOK b"
proof -
  assume m: "map cfMIME a = map cfMIME b" and l: "map (length \<circ> cfData) a = map (length \<circ> cfData) b"
  have "contentBytes a = contentBytes b" using arg_cong [OF l, of "\<lambda>ns. sum_list (map int ns)"] by (simp add: contentBytes_def comp_def)
  moreover have "cfMIME ` set a = cfMIME ` set b" using arg_cong [OF m, of set] by simp
  then have "(\<forall>f\<in>set a. NormalizeMIME (cfMIME f) = cfMIME f) = (\<forall>f\<in>set b. NormalizeMIME (cfMIME f) = cfMIME f)"
    by (metis (no_types, lifting) image_iff)
  ultimately show ?thesis using m map_eq_imp_length_eq [OF m] by (auto simp: contentOK_def)
qed

lemma copyLoop_content:
  assumes "receiveOK r" "contentOK (crFormats r)" "copyLoop bs r = Some (rest, r')"
  shows "receiveOK r'" "contentOK (crFormats r')"
proof -
  have l: "loopResult r bs r'" using copyLoop_correct [OF assms(1), of bs] assms(3) by auto
  then show ok: "receiveOK r'" by (simp add: loopResult_def)
  have "map (length \<circ> cfData) (crFormats r') = map (length \<circ> cfData) (crFormats r)"
  proof -
    have "map (length \<circ> cfData) (crFormats r') = crSizes r'" using ok by (simp only: receiveOK_def)
    also have "\<dots> = crSizes r" using l by (simp only: loopResult_def sameTransfer_def)
    also have "\<dots> = map (length \<circ> cfData) (crFormats r)" using assms(1) by (simp only: receiveOK_def)
    finally show ?thesis .
  qed
  moreover have "map cfMIME (crFormats r') = map cfMIME (crFormats r)" using l by (simp only: loopResult_def sameTransfer_def)
  ultimately show "contentOK (crFormats r')" using contentOK_same assms(2) by blast
qed

lemma finish_content: "finishClipboardReceive env r = (out, Some c) \<Longrightarrow> c = crFormats r"
  by (auto simp: finishClipboardReceive_def split: if_splits option.splits)

lemma handleMessage_ok:
  assumes "channelOK st"
  shows "\<exists>out c st'. handleClipboardMessage env m st = Some (out, c, st') \<and> channelOK st' \<and> (\<forall>x. c = Some x \<longrightarrow> contentOK x)"
proof (cases m)
  case (TextMessage body)
  have new: "contentOK (crFormats (newReceive h)) \<and> receiveOK (armTimer (newReceive h)) \<and> contentOK (crFormats (armTimer (newReceive h)))"
    if "validateClipboardHeader h = None" for h
    using newReceive_ok [of h] newReceive_content [OF that] by (simp add: armTimer_def receiveOK_def)
  obtain out c st' where h: "handleHeader env body st = (out, c, st')" by (rule prod_cases3)
  have "channelOK st' \<and> (\<forall>x. c = Some x \<longrightarrow> contentOK x)"
    using h assms new unfolding handleHeader_def
    by (auto simp: Let_def channelOK_def split: if_splits sum.splits prod.splits dest: finish_content)
  then show ?thesis using TextMessage assms h by (auto simp: handleClipboardMessage_def)
next
  case (BinaryMessage bs)
  have "\<exists>out c st'. handleChunk env bs st = Some (out, c, st') \<and> channelOK st' \<and> (\<forall>x. c = Some x \<longrightarrow> contentOK x)"
  proof (cases "csReceive st")
    case None
    then show ?thesis using assms by (simp add: handleChunk_def)
  next
    case (Some r)
    then have ok: "receiveOK (armTimer r)" "contentOK (crFormats (armTimer r))"
      using assms by (auto simp: channelOK_def armTimer_def receiveOK_def)
    obtain rest r' where l: "copyLoop bs (armTimer r) = Some (rest, r')" using copyLoop_correct [OF ok(1), of bs] by blast
    obtain out c where f: "finishClipboardReceive env r' = (out, c)" by fastforce
    show ?thesis using Some l f copyLoop_content [OF ok l] finish_content [of env r' out]
      by (cases c) (auto simp: handleChunk_def channelOK_def)
  qed
  then show ?thesis using BinaryMessage assms by (auto simp: handleClipboardMessage_def channelOK_def)
qed

lemma timerFires_ok: "channelOK st \<Longrightarrow> channelOK (snd (timerFires same activity st))"
  by (auto simp: timerFires_def channelOK_def split: option.splits)

lemma clipEvents_ok:
  "channelOK st \<Longrightarrow> \<exists>cs st'. clipEvents es st = Some (cs, st') \<and> channelOK st' \<and> (\<forall>x\<in>set cs. contentOK x)"
proof (induction es arbitrary: st)
  case (Cons e es)
  show ?case
  proof (cases e)
    case (ClipMessage env m)
    obtain out c st1 where h: "handleClipboardMessage env m st = Some (out, c, st1)" "channelOK st1" "\<forall>x. c = Some x \<longrightarrow> contentOK x"
      using handleMessage_ok [OF Cons.prems] by blast
    from Cons.IH [OF h(2)] show ?thesis using h ClipMessage by (auto split: option.splits)
  next
    case (ClipTimer same activity)
    then show ?thesis using Cons.IH [OF timerFires_ok [OF Cons.prems]] by simp
  qed
qed simp

definition newChannelState :: clipboardChannelState where
  "newChannelState = \<lparr>csReceive = None, csReserved = False, csGeneration = 0\<rparr>"

section \<open>Properties\<close>

text \<open>
  C22.  Reassembly does not depend on how the payload is cut: after a valid header, any sequence of
  non-empty binary messages of at most 64 KiB whose concatenation is the announced payload hands
  exactly the announced content to the clipboard controller, once, answers with its result, and
  leaves the channel ready for the next transfer.
\<close>

theorem clipboard_reassembly:
  assumes "openEnv env" "csReceive st = None" "\<not> csReserved st" "utf8Valid msg"
    "int (length msg) \<le> maxClipboardHeaderBytes" "ceDecode env msg = Inr (header, True)"
    "validateClipboardHeader header = None" "cmFormats header = map (\<lambda>f. (cfMIME f, int (length (cfData f)))) content"
    "concat chunks = payload content" "\<forall>bs\<in>set chunks. bs \<noteq> [] \<and> int (length bs) \<le> clipboardChunkBytes"
  shows "runMessages env (TextMessage msg # map BinaryMessage chunks) st
    = Some ([resultOf env (cmID header) content], [content], st\<lparr>csReserved := False, csGeneration := csGeneration st + 1\<rparr>)"
  using assms by (rule transfer_run)

text \<open>
  C23.  Round trip of the wire format: a receiver that gets what \<open>writeClipboardContent\<close> sends for a
  content with a valid header obtains exactly that content.
\<close>

theorem clipboard_roundtrip:
  assumes "writeClipboardContent (True, True) None (\<lambda>_. None) content sq = (None, Some header, chunks, sq')"
    "openEnv env" "csReceive st = None" "\<not> csReserved st" "utf8Valid msg"
    "int (length msg) \<le> maxClipboardHeaderBytes" "ceDecode env msg = Inr (header, True)" "validateClipboardHeader header = None"
  shows "\<exists>st'. runMessages env (TextMessage msg # map BinaryMessage chunks) st
      = Some ([resultOf env (cmID header) content], [content], st') \<and> csReceive st' = None \<and> sq' = sq + 1"
proof -
  have w: "header = contentHeader (sq + 1) content" "chunks = contentChunks (nat clipboardChunkBytes) content" "sq' = sq + 1"
    using assms(1) by (auto simp: writeClipboardContent_def sendChunks_all)
  have "0 < nat clipboardChunkBytes" by (simp add: clipboardChunkBytes_def)
  note props = contentChunks_props [OF this, of content]
  have "runMessages env (TextMessage msg # map BinaryMessage chunks) st
    = Some ([resultOf env (cmID header) content], [content], st\<lparr>csReserved := False, csGeneration := csGeneration st + 1\<rparr>)"
    using assms(2-8) props by (intro transfer_run) (auto simp: w contentHeader_def clipboardChunkBytes_def)
  then show ?thesis using w(3) assms(3) by simp
qed

text \<open>
  No sequence of messages and timer expirations, in whatever order and with whatever answers from
  the rest of the peer, makes the copy loop index out of range, and every content handed to the
  controller has between one and eight formats with distinct accepted MIME types and at most 32 MiB.
\<close>

theorem clipboard_channel_safe:
  "\<exists>contents st'. clipEvents es newChannelState = Some (contents, st') \<and> list_all contentOK contents"
  using clipEvents_ok [of newChannelState es] by (auto simp: channelOK_def newChannelState_def list_all_iff)

text \<open>
  The header check accepts exactly the headers of version 1 and type \<open>clipboard.content\<close> whose id
  has 1 to 128 bytes, with 1 to 8 formats of distinct MIME types among the seven synchronised ones
  or the empty string, and non-negative sizes that add up to at most 32 MiB.
\<close>

theorem validate_clipboard_header:
  "validateClipboardHeader h = None \<longleftrightarrow>
    cmVersion h = 1 \<and> cmType h = ''clipboard.content'' \<and> 1 \<le> length (cmID h) \<and> length (cmID h) \<le> 128
    \<and> 1 \<le> length (cmFormats h) \<and> length (cmFormats h) \<le> 8 \<and> distinct (map fst (cmFormats h))
    \<and> set (map fst (cmFormats h)) \<subseteq> set ([] # clipMIMETypes) \<and> (\<forall>n\<in>set (map snd (cmFormats h)). 0 \<le> n)
    \<and> sum_list (map snd (cmFormats h)) \<le> maxClipboardBytes"
proof -
  have "checkFormats (cmFormats h) [] 0 = None \<longleftrightarrow>
      (\<forall>(m, n)\<in>set (cmFormats h). NormalizeMIME m = m \<and> 0 \<le> n) \<and> distinct (map fst (cmFormats h))
      \<and> sum_list (map snd (cmFormats h)) \<le> maxClipboardBytes"
    using checkFormats_None [of "cmFormats h" "[]" 0] checkFormats_Some [of "cmFormats h" "[]" 0]
    by (auto simp: maxClipboardBytes_def)
  moreover have "(\<forall>(m, n)\<in>set (cmFormats h). NormalizeMIME m = m \<and> 0 \<le> n) \<longleftrightarrow>
      set (map fst (cmFormats h)) \<subseteq> set ([] # clipMIMETypes) \<and> (\<forall>n\<in>set (map snd (cmFormats h)). 0 \<le> n)"
    unfolding NormalizeMIME_eq by (auto simp del: list.set(2))
  ultimately show ?thesis
    by (cases "cmID h"; cases "cmFormats h")
      (auto simp: validateClipboardHeader_def clipboardVersion_def maxClipboardFormats_def)
qed

subsection \<open>Concrete inputs\<close>

definition demoContent :: clipContent where
  "demoContent = [\<lparr>cfMIME = ''text/plain'', cfData = [104, 105]\<rparr>, \<lparr>cfMIME = ''text/html'', cfData = []\<rparr>,
     \<lparr>cfMIME = ''image/png'', cfData = [137, 80, 78]\<rparr>]"

definition demoEnv :: clipEnv where
  "demoEnv = \<lparr>ceClosing = False, ceCurrent = (\<lambda>_. True), ceOwns = (\<lambda>_. True), ceSet = (\<lambda>_. None),
     ceDecode = (\<lambda>_. Inr (contentHeader 1 demoContent, True))\<rparr>"

lemma demoEnv_open: "openEnv demoEnv" "ceDecode demoEnv ''{}'' = Inr (contentHeader 1 demoContent, True)"
  by (simp_all add: openEnv_def demoEnv_def)

lemma demo_id: "cmID (contentHeader 1 demoContent) = ''server-1''"
  by (simp add: contentHeader_def decimal.simps) code_simp

lemma demo_checks: "utf8Valid ''{}''" "validateClipboardHeader (contentHeader 1 demoContent) = None"
  "int (length ''{}'') \<le> maxClipboardHeaderBytes"
proof -
  show "utf8Valid ''{}''" by (simp add: utf8Valid_def runesW_code runeError_def)
  have "checkFormats [(''text/plain'', 2), (''text/html'', 0), (''image/png'', 3)] [] 0 = None" by code_simp
  then show "validateClipboardHeader (contentHeader 1 demoContent) = None"
    by (simp add: validateClipboardHeader_def demo_id) (simp add: contentHeader_def demoContent_def maxClipboardFormats_def)
  show "int (length ''{}'') \<le> maxClipboardHeaderBytes" by (simp add: maxClipboardHeaderBytes_def)
qed

theorem clipboard_reassembly_witness:
  "runMessages demoEnv (TextMessage ''{}'' # map BinaryMessage [[104], [105, 137, 80], [78]]) newChannelState
    = Some ([ClipResult ''server-1''], [demoContent], newChannelState\<lparr>csGeneration := 1\<rparr>)"
proof -
  have c: "concat [[104], [105, 137, 80], [78]] = payload demoContent" by code_simp
  have r: "resultOf demoEnv (cmID (contentHeader 1 demoContent)) demoContent = ClipResult ''server-1''"
    by (simp add: resultOf_def demoEnv_def demo_id)
  have "\<forall>bs\<in>set [[104], [105, 137, 80], [78]]. bs \<noteq> [] \<and> int (length (bs :: uint8 list)) \<le> clipboardChunkBytes"
    by (simp add: clipboardChunkBytes_def)
  moreover have "cmFormats (contentHeader 1 demoContent) = map (\<lambda>f. (cfMIME f, int (length (cfData f)))) demoContent"
    by (simp add: contentHeader_def)
  moreover have "csReceive newChannelState = None" "\<not> csReserved newChannelState" "csGeneration newChannelState + 1 = 1"
    "newChannelState\<lparr>csReserved := False\<rparr> = newChannelState" by (simp_all add: newChannelState_def)
  ultimately show ?thesis
    using clipboard_reassembly [OF demoEnv_open(1) _ _ demo_checks(1,3) demoEnv_open(2) demo_checks(2) _ c, of newChannelState]
    by (simp only: r simp_thms)
qed

theorem clipboard_roundtrip_witness:
  "\<exists>chunks st'. writeClipboardContent (True, True) None (\<lambda>_. None) demoContent 0 = (None, Some (contentHeader 1 demoContent), chunks, 1)
    \<and> runMessages demoEnv (TextMessage ''{}'' # map BinaryMessage chunks) newChannelState
        = Some ([resultOf demoEnv (cmID (contentHeader 1 demoContent)) demoContent], [demoContent], st')"
proof -
  let ?chunks = "contentChunks (nat clipboardChunkBytes) demoContent"
  have w: "writeClipboardContent (True, True) None (\<lambda>_. None) demoContent 0 = (None, Some (contentHeader 1 demoContent), ?chunks, 1)"
    by (simp add: writeClipboardContent_def sendChunks_all)
  from clipboard_roundtrip [OF w demoEnv_open(1) _ _ demo_checks(1,3) demoEnv_open(2) demo_checks(2), of newChannelState]
  show ?thesis using w by (auto simp: newChannelState_def)
qed

theorem validate_clipboard_header_witness:
  "validateClipboardHeader \<lparr>cmVersion = 1, cmType = ''clipboard.content'', cmID = ''a'', cmFormats = [([], 0)]\<rparr> = None"
  using validate_clipboard_header [of "\<lparr>cmVersion = 1, cmType = ''clipboard.content'', cmID = ''a'', cmFormats = [([], 0)]\<rparr>"]
  by (simp add: maxClipboardBytes_def)

end
