(* ===== verification/Protocol.thy ===== *)
theory Protocol
  imports Input_Controller
begin

text \<open>
  The message validators of the signaling, control and input protocols (\<open>src/webrtc/protocol.go\<close>).  A
  request is what the JSON decoder left in the request struct: an optional field is \<open>None\<close> when its
  \<open>Set\<close> flag is false.  \<open>Json_Messages\<close> models the decoding.
\<close>

subsection \<open>Requests\<close>

definition controlVersion :: int where "controlVersion = 4"
definition inputVersion :: int where "inputVersion = 1"
definition maxInputMessageBytes :: int where "maxInputMessageBytes = 4096"
definition maxClientLogEventBytes :: int where "maxClientLogEventBytes = 128"
definition maxClientLogDetails :: int where "maxClientLogDetails = 32"
definition maxClientLogDetailKeyBytes :: int where "maxClientLogDetailKeyBytes = 64"
definition maxClientLogDetailValueBytes :: int where "maxClientLogDetailValueBytes = 512"

text \<open>An error by its code and its message (a format string with its arguments).\<close>

record protocolError =
  peCode :: string
  peMessage :: goerror

definition perr :: "string \<Rightarrow> string \<Rightarrow> protocolError" where
  "perr code message = \<lparr>peCode = code, peMessage = errorsNew message\<rparr>"

record qualityPatch =
  qpProfile :: "string option"
  qpOption :: "string option"
  qpWidth :: "int option"
  qpHeight :: "int option"
  qpFramerate :: "int option"
  qpBitrateKbps :: "int option"

record controlRequest =
  crqVersion :: "int option"
  crqID :: "string option"
  crqType :: "string option"
  crqQuality :: "qualityPatch option"
  crqTargetID :: "string option"

record 'cand signalRequest =
  srqVersion :: "int option"
  srqType :: "string option"
  srqSDP :: "string option"
  srqCandidate :: "'cand option"
  srqLevel :: "string option"
  srqEvent :: "string option"
  srqDetails :: "(string, string) fmap option"

record inputRequest =
  irVersion :: "int option"
  irSequence :: "uint64 option"
  irType :: "string option"
  irX :: "float64 option"
  irY :: "float64 option"
  irDX :: "float64 option"
  irDY :: "float64 option"
  irButton :: "string option"
  irPressed :: "bool option"
  irHorizontal :: "float64 option"
  irVertical :: "float64 option"
  irStopHorizontal :: "bool option"
  irStopVertical :: "bool option"
  irKeycode :: "uint32 option"
  irText :: "string option"

subsection \<open>Client log messages\<close>

definition hasControl :: "string \<Rightarrow> bool" where
  "hasControl s = list_ex isControl (runes s)"

definition badDetailKey :: "string \<Rightarrow> bool" where
  "badDetailKey k = (k = [] \<or> int (length k) > maxClientLogDetailKeyBytes \<or> hasControl k)"

text \<open>
  The loop over the details visits the map in an arbitrary order; \<open>order\<close> is that order, the error
  is that of the first bad entry.
\<close>

fun checkDetails :: "string list \<Rightarrow> (string, string) fmap \<Rightarrow> protocolError option" where
  "checkDetails [] m = None"
| "checkDetails (k # ks) m =
    (if badDetailKey k
     then Some (perr ''invalid_client_log'' ''detail keys must contain between 1 and 64 bytes without control characters'')
     else if (case fmlookup m k of None \<Rightarrow> False | Some v \<Rightarrow> int (length v) > maxClientLogDetailValueBytes)
     then Some (perr ''invalid_client_log'' ''detail values must contain at most 512 bytes'')
     else checkDetails ks m)"

definition validateClientLogRequest :: "string list \<Rightarrow> 'cand signalRequest \<Rightarrow> protocolError option" where
  "validateClientLogRequest order r =
    (if srqSDP r \<noteq> None \<or> srqCandidate r \<noteq> None
     then Some (perr ''unexpected_field'' ''client-log does not allow sdp or candidate'')
     else case (srqLevel r, srqEvent r, srqDetails r) of
       (None, _, _) \<Rightarrow> Some (perr ''missing_field'' ''level is required'')
     | (_, None, _) \<Rightarrow> Some (perr ''missing_field'' ''event is required'')
     | (_, _, None) \<Rightarrow> Some (perr ''missing_field'' ''details is required'')
     | (Some level, Some event, Some details) \<Rightarrow>
         if level \<notin> {''debug'', ''info'', ''warn'', ''error''}
         then Some (perr ''invalid_client_log'' ''level must be debug, info, warn, or error'')
         else if event = [] \<or> int (length event) > maxClientLogEventBytes \<or> hasControl event
         then Some (perr ''invalid_client_log'' ''event must contain between 1 and 128 bytes without control characters'')
         else if int (fcard (fmdom details)) > maxClientLogDetails
         then Some (perr ''invalid_client_log'' ''details must contain at most 32 entries'')
         else checkDetails order details)"

definition hasClientLogFields :: "'cand signalRequest \<Rightarrow> bool" where
  "hasClientLogFields r = (srqLevel r \<noteq> None \<or> srqEvent r \<noteq> None \<or> srqDetails r \<noteq> None)"

subsection \<open>Control messages\<close>

definition emptyPatch :: "qualityPatch \<Rightarrow> bool" where
  "emptyPatch q = (qpProfile q = None \<and> qpOption q = None \<and> qpWidth q = None \<and> qpHeight q = None
     \<and> qpFramerate q = None \<and> qpBitrateKbps q = None)"

definition validateControlRequest :: "controlRequest \<Rightarrow> protocolError option" where
  "validateControlRequest r =
    (case (crqVersion r, crqID r, crqType r) of
       (None, _, _) \<Rightarrow> Some (perr ''missing_field'' ''version is required'')
     | (_, None, _) \<Rightarrow> Some (perr ''missing_field'' ''id is required'')
     | (_, _, None) \<Rightarrow> Some (perr ''missing_field'' ''type is required'')
     | (Some version, Some ident, Some kind) \<Rightarrow>
         if version \<noteq> controlVersion
         then Some \<lparr>peCode = ''unsupported_version'',
                peMessage = Errorf ''control protocol version %d is not supported'' [FInt version]\<rparr>
         else if ident = [] \<or> int (length ident) > 128
         then Some (perr ''invalid_request_id'' ''id must contain between 1 and 128 bytes'')
         else if kind = ''input.acquire'' \<or> kind = ''input.release'' then
           (if crqQuality r \<noteq> None \<or> crqTargetID r \<noteq> None
            then Some (perr ''unexpected_field'' ''input lease requests do not allow quality or target_id'') else None)
         else if kind = ''target.select'' then
           (if crqQuality r \<noteq> None
            then Some (perr ''unexpected_field'' ''quality is not allowed for target selection'')
            else (case crqTargetID r of
              None \<Rightarrow> Some (perr ''missing_field'' ''target_id is required'')
            | Some t \<Rightarrow>
                if t = [] \<or> int (length t) > 256
                then Some (perr ''invalid_target'' ''target_id must contain between 1 and 256 bytes'') else None))
         else if kind \<noteq> ''video.quality.set''
         then Some \<lparr>peCode = ''unsupported_type'',
                peMessage = Errorf ''control message type %q is not supported'' [FStr kind]\<rparr>
         else if crqTargetID r \<noteq> None
         then Some (perr ''unexpected_field'' ''target_id is not allowed for quality updates'')
         else (case crqQuality r of
           None \<Rightarrow> Some (perr ''missing_field'' ''quality is required'')
         | Some q \<Rightarrow>
             if qpProfile q = Some [] then Some (perr ''invalid_quality'' ''quality profile must not be empty'')
             else if qpOption q = Some [] then Some (perr ''invalid_quality'' ''quality option must not be empty'')
             else if emptyPatch q
             then Some (perr ''invalid_quality'' ''quality must include at least one mutable field'') else None))"

subsection \<open>Input messages\<close>

definition inputFields :: "inputRequest \<Rightarrow> (string \<times> bool) list" where
  "inputFields r =
    [(''x'', irX r \<noteq> None), (''y'', irY r \<noteq> None), (''dx'', irDX r \<noteq> None), (''dy'', irDY r \<noteq> None),
     (''button'', irButton r \<noteq> None), (''pressed'', irPressed r \<noteq> None), (''horizontal'', irHorizontal r \<noteq> None),
     (''vertical'', irVertical r \<noteq> None), (''stop_horizontal'', irStopHorizontal r \<noteq> None),
     (''stop_vertical'', irStopVertical r \<noteq> None), (''keycode'', irKeycode r \<noteq> None), (''text'', irText r \<noteq> None)]"

definition hasInputFields :: "inputRequest \<Rightarrow> string list \<Rightarrow> bool" where
  "hasInputFields r allowed = list_ex snd (filter (\<lambda>p. fst p \<notin> set allowed) (inputFields r))"

definition finiteFloat :: "float64 \<Rightarrow> bool" where
  "finiteFloat v = (\<not> isNaN v \<and> \<not> isInf v)"

definition buttonCode :: "string \<Rightarrow> uint32 option" where
  "buttonCode = map_of [(''primary'', 272), (''secondary'', 273), (''middle'', 274), (''forward'', 277), (''back'', 278)]"

text \<open>The zero \<open>InputEvent\<close> with a sequence number; the zero event type has no name.\<close>

definition zeroEvent :: "uint64 \<Rightarrow> event" where
  "zeroEvent sq = \<lparr>evSequence = sq, evType = EventOther 0, evX = Fin 0, evY = Fin 0, evDX = Fin 0, evDY = Fin 0,
     evButtonCode = 0, evKeycode = 0, evText = [], evPressed = False, evHorizontal = Fin 0, evVertical = Fin 0,
     evStopHorizontal = False, evStopVertical = False\<rparr>"

text \<open>The cases of the \<open>switch\<close>, one function each.\<close>

definition validateAbsolute :: "inputRequest \<Rightarrow> event \<Rightarrow> protocolError + event" where
  "validateAbsolute r ev =
    (case (irX r, irY r) of
       (Some x, Some y) \<Rightarrow>
         if hasInputFields r [''x'', ''y'']
         then Inl (perr ''unexpected_field'' ''absolute pointer motion contains unrelated fields'')
         else if \<not> finiteFloat x \<or> \<not> finiteFloat y \<or> flt x (Fin 0) \<or> flt (Fin 1) x \<or> flt y (Fin 0) \<or> flt (Fin 1) y
         then Inl (perr ''invalid_pointer'' ''x and y must be finite numbers between 0 and 1'')
         else Inr (ev\<lparr>evType := EventPointerAbsolute, evX := x, evY := y\<rparr>)
     | _ \<Rightarrow> Inl (perr ''missing_field'' ''x and y are required''))"

definition validateRelative :: "inputRequest \<Rightarrow> event \<Rightarrow> protocolError + event" where
  "validateRelative r ev =
    (case (irDX r, irDY r) of
       (Some dx, Some dy) \<Rightarrow>
         if hasInputFields r [''dx'', ''dy'']
         then Inl (perr ''unexpected_field'' ''relative pointer motion contains unrelated fields'')
         else if \<not> finiteFloat dx \<or> \<not> finiteFloat dy
         then Inl (perr ''invalid_pointer'' ''dx and dy must be finite numbers'')
         else Inr (ev\<lparr>evType := EventPointerRelative, evDX := dx, evDY := dy\<rparr>)
     | _ \<Rightarrow> Inl (perr ''missing_field'' ''dx and dy are required''))"

definition validateButton :: "inputRequest \<Rightarrow> event \<Rightarrow> protocolError + event" where
  "validateButton r ev =
    (case (irButton r, irPressed r) of
       (Some button, Some pressed) \<Rightarrow>
         if hasInputFields r [''button'', ''pressed'']
         then Inl (perr ''unexpected_field'' ''pointer button contains unrelated fields'')
         else (case buttonCode button of
                 None \<Rightarrow> Inl (perr ''invalid_button'' ''button must be primary, middle, secondary, back, or forward'')
               | Some code \<Rightarrow> Inr (ev\<lparr>evType := EventPointerButton, evButtonCode := code, evPressed := pressed\<rparr>))
     | _ \<Rightarrow> Inl (perr ''missing_field'' ''button and pressed are required''))"

definition validateScroll :: "inputRequest \<Rightarrow> event \<Rightarrow> protocolError + event" where
  "validateScroll r ev =
    (case (irHorizontal r, irVertical r, irStopHorizontal r, irStopVertical r) of
       (Some h, Some v, Some sh, Some sv) \<Rightarrow>
         if hasInputFields r [''horizontal'', ''vertical'', ''stop_horizontal'', ''stop_vertical'']
         then Inl (perr ''unexpected_field'' ''pointer scroll contains unrelated fields'')
         else if \<not> finiteFloat h \<or> \<not> finiteFloat v
         then Inl (perr ''invalid_scroll'' ''horizontal and vertical must be finite numbers'')
         else if feq h (Fin 0) \<and> feq v (Fin 0) \<and> \<not> sh \<and> \<not> sv
         then Inl (perr ''invalid_scroll'' ''scroll requires a delta or an axis stop'')
         else Inr (ev\<lparr>evType := EventPointerScroll, evHorizontal := h, evVertical := v, evStopHorizontal := sh, evStopVertical := sv\<rparr>)
     | _ \<Rightarrow> Inl (perr ''missing_field'' ''horizontal, vertical, stop_horizontal, and stop_vertical are required''))"

definition validateKey :: "inputRequest \<Rightarrow> event \<Rightarrow> protocolError + event" where
  "validateKey r ev =
    (case (irKeycode r, irPressed r) of
       (Some keycode, Some pressed) \<Rightarrow>
         if hasInputFields r [''keycode'', ''pressed'']
         then Inl (perr ''unexpected_field'' ''keyboard key contains unrelated fields'')
         else if keycode < 1 \<or> keycode > 767
         then Inl (perr ''invalid_keycode'' ''keycode must be a Linux evdev code between 1 and 767'')
         else Inr (ev\<lparr>evType := EventKeyboardKey, evKeycode := keycode, evPressed := pressed\<rparr>)
     | _ \<Rightarrow> Inl (perr ''missing_field'' ''keycode and pressed are required''))"

definition validateText :: "inputRequest \<Rightarrow> event \<Rightarrow> protocolError + event" where
  "validateText r ev =
    (case irText r of
       Some t \<Rightarrow>
         if hasInputFields r [''text'']
         then Inl (perr ''unexpected_field'' ''keyboard text contains unrelated fields'')
         else if t = [] \<or> \<not> utf8Valid t \<or> 0 \<in> set (runes t) \<or> int (length t) > maxInputMessageBytes
         then Inl (perr ''invalid_text'' ''text must contain between 1 and 4096 UTF-8 bytes without NUL characters'')
         else Inr (ev\<lparr>evType := EventKeyboardText, evText := t\<rparr>)
     | None \<Rightarrow> Inl (perr ''missing_field'' ''text is required''))"

text \<open>The \<open>switch\<close> on the message type.\<close>

definition validateKind :: "string \<Rightarrow> inputRequest \<Rightarrow> event \<Rightarrow> protocolError + event" where
  "validateKind kind r ev =
    (if kind = ''input.pointer.motion.absolute'' then validateAbsolute r ev
     else if kind = ''input.pointer.motion.relative'' then validateRelative r ev
     else if kind = ''input.pointer.button'' then validateButton r ev
     else if kind = ''input.pointer.scroll'' then validateScroll r ev
     else if kind = ''input.keyboard.key'' then validateKey r ev
     else if kind = ''input.keyboard.text'' then validateText r ev
     else Inl \<lparr>peCode = ''unsupported_type'', peMessage = Errorf ''input message type %q is not supported'' [FStr kind]\<rparr>)"

definition validateInputRequest :: "inputRequest \<Rightarrow> protocolError + event" where
  "validateInputRequest r =
    (case (irVersion r, irSequence r, irType r) of
       (None, _, _) \<Rightarrow> Inl (perr ''missing_field'' ''version is required'')
     | (_, None, _) \<Rightarrow> Inl (perr ''missing_field'' ''sequence is required'')
     | (_, _, None) \<Rightarrow> Inl (perr ''missing_field'' ''type is required'')
     | (Some version, Some sq, Some kind) \<Rightarrow>
         if version \<noteq> inputVersion
         then Inl \<lparr>peCode = ''unsupported_version'',
                peMessage = Errorf ''input protocol version %d is not supported'' [FInt version]\<rparr>
         else if sq = 0 then Inl (perr ''invalid_sequence'' ''sequence must be greater than zero'')
         else validateKind kind r (zeroEvent sq))"

section \<open>What the validator accepts\<close>

text \<open>The request that carries an event, and the events it can carry.\<close>

definition emptyRequest :: "uint64 \<Rightarrow> string \<Rightarrow> inputRequest" where
  "emptyRequest sq kind = \<lparr>irVersion = Some 1, irSequence = Some sq, irType = Some kind, irX = None, irY = None,
     irDX = None, irDY = None, irButton = None, irPressed = None, irHorizontal = None, irVertical = None,
     irStopHorizontal = None, irStopVertical = None, irKeycode = None, irText = None\<rparr>"

definition buttonName :: "uint32 \<Rightarrow> string" where
  "buttonName code = (if code = 272 then ''primary'' else if code = 273 then ''secondary'' else if code = 274 then ''middle''
     else if code = 277 then ''forward'' else ''back'')"

definition encodeEvent :: "event \<Rightarrow> inputRequest" where
  "encodeEvent ev =
    (case evType ev of
       EventPointerAbsolute \<Rightarrow> (emptyRequest (evSequence ev) ''input.pointer.motion.absolute'')\<lparr>irX := Some (evX ev), irY := Some (evY ev)\<rparr>
     | EventPointerRelative \<Rightarrow> (emptyRequest (evSequence ev) ''input.pointer.motion.relative'')\<lparr>irDX := Some (evDX ev), irDY := Some (evDY ev)\<rparr>
     | EventPointerButton \<Rightarrow> (emptyRequest (evSequence ev) ''input.pointer.button'')
         \<lparr>irButton := Some (buttonName (evButtonCode ev)), irPressed := Some (evPressed ev)\<rparr>
     | EventPointerScroll \<Rightarrow> (emptyRequest (evSequence ev) ''input.pointer.scroll'')
         \<lparr>irHorizontal := Some (evHorizontal ev), irVertical := Some (evVertical ev),
          irStopHorizontal := Some (evStopHorizontal ev), irStopVertical := Some (evStopVertical ev)\<rparr>
     | EventKeyboardKey \<Rightarrow> (emptyRequest (evSequence ev) ''input.keyboard.key'')
         \<lparr>irKeycode := Some (evKeycode ev), irPressed := Some (evPressed ev)\<rparr>
     | EventKeyboardText \<Rightarrow> (emptyRequest (evSequence ev) ''input.keyboard.text'')\<lparr>irText := Some (evText ev)\<rparr>
     | EventOther _ \<Rightarrow> emptyRequest (evSequence ev) [])"

definition unitInterval :: "float64 \<Rightarrow> bool" where
  "unitInterval v = (\<exists>q. v = Fin q \<and> 0 \<le> q \<and> q \<le> 1)"

definition finiteValue :: "float64 \<Rightarrow> bool" where
  "finiteValue v = (\<exists>q. v = Fin q)"

definition eventWF :: "event \<Rightarrow> bool" where
  "eventWF ev = (evSequence ev \<noteq> 0 \<and>
    (case evType ev of
       EventPointerAbsolute \<Rightarrow> unitInterval (evX ev) \<and> unitInterval (evY ev)
         \<and> ev = (zeroEvent (evSequence ev))\<lparr>evType := EventPointerAbsolute, evX := evX ev, evY := evY ev\<rparr>
     | EventPointerRelative \<Rightarrow> finiteValue (evDX ev) \<and> finiteValue (evDY ev)
         \<and> ev = (zeroEvent (evSequence ev))\<lparr>evType := EventPointerRelative, evDX := evDX ev, evDY := evDY ev\<rparr>
     | EventPointerButton \<Rightarrow> evButtonCode ev \<in> {272, 273, 274, 277, 278}
         \<and> ev = (zeroEvent (evSequence ev))\<lparr>evType := EventPointerButton, evButtonCode := evButtonCode ev, evPressed := evPressed ev\<rparr>
     | EventPointerScroll \<Rightarrow> finiteValue (evHorizontal ev) \<and> finiteValue (evVertical ev)
         \<and> (evHorizontal ev \<noteq> Fin 0 \<or> evVertical ev \<noteq> Fin 0 \<or> evStopHorizontal ev \<or> evStopVertical ev)
         \<and> ev = (zeroEvent (evSequence ev))\<lparr>evType := EventPointerScroll, evHorizontal := evHorizontal ev,
              evVertical := evVertical ev, evStopHorizontal := evStopHorizontal ev, evStopVertical := evStopVertical ev\<rparr>
     | EventKeyboardKey \<Rightarrow> 1 \<le> evKeycode ev \<and> evKeycode ev \<le> 767
         \<and> ev = (zeroEvent (evSequence ev))\<lparr>evType := EventKeyboardKey, evKeycode := evKeycode ev, evPressed := evPressed ev\<rparr>
     | EventKeyboardText \<Rightarrow> evText ev \<noteq> [] \<and> utf8Valid (evText ev) \<and> 0 \<notin> set (runes (evText ev)) \<and> length (evText ev) \<le> 4096
         \<and> ev = (zeroEvent (evSequence ev))\<lparr>evType := EventKeyboardText, evText := evText ev\<rparr>
     | EventOther _ \<Rightarrow> False))"

section \<open>Lemmas\<close>

lemma finiteFloat_iff: "finiteFloat v \<longleftrightarrow> finiteValue v"
  by (cases v) (auto simp: finiteFloat_def finiteValue_def isNaN_def isInf_def)

lemma unitInterval_iff: "unitInterval v \<longleftrightarrow> finiteFloat v \<and> \<not> flt v (Fin 0) \<and> \<not> flt (Fin 1) v"
  by (cases v) (auto simp: unitInterval_def finiteFloat_def isNaN_def isInf_def)

lemma no_extra_fields:
  "hasInputFields r [''x'', ''y''] \<longleftrightarrow> \<not> (irDX r = None \<and> irDY r = None \<and> irButton r = None \<and> irPressed r = None
     \<and> irHorizontal r = None \<and> irVertical r = None \<and> irStopHorizontal r = None \<and> irStopVertical r = None
     \<and> irKeycode r = None \<and> irText r = None)"
  "hasInputFields r [''dx'', ''dy''] \<longleftrightarrow> \<not> (irX r = None \<and> irY r = None \<and> irButton r = None \<and> irPressed r = None
     \<and> irHorizontal r = None \<and> irVertical r = None \<and> irStopHorizontal r = None \<and> irStopVertical r = None
     \<and> irKeycode r = None \<and> irText r = None)"
  "hasInputFields r [''button'', ''pressed''] \<longleftrightarrow> \<not> (irX r = None \<and> irY r = None \<and> irDX r = None \<and> irDY r = None
     \<and> irHorizontal r = None \<and> irVertical r = None \<and> irStopHorizontal r = None \<and> irStopVertical r = None
     \<and> irKeycode r = None \<and> irText r = None)"
  "hasInputFields r [''horizontal'', ''vertical'', ''stop_horizontal'', ''stop_vertical''] \<longleftrightarrow> \<not> (irX r = None \<and> irY r = None
     \<and> irDX r = None \<and> irDY r = None \<and> irButton r = None \<and> irPressed r = None \<and> irKeycode r = None \<and> irText r = None)"
  "hasInputFields r [''keycode'', ''pressed''] \<longleftrightarrow> \<not> (irX r = None \<and> irY r = None \<and> irDX r = None \<and> irDY r = None
     \<and> irButton r = None \<and> irHorizontal r = None \<and> irVertical r = None \<and> irStopHorizontal r = None
     \<and> irStopVertical r = None \<and> irText r = None)"
  "hasInputFields r [''text''] \<longleftrightarrow> \<not> (irX r = None \<and> irY r = None \<and> irDX r = None \<and> irDY r = None \<and> irButton r = None
     \<and> irPressed r = None \<and> irHorizontal r = None \<and> irVertical r = None \<and> irStopHorizontal r = None
     \<and> irStopVertical r = None \<and> irKeycode r = None)"
  by (simp_all add: hasInputFields_def inputFields_def)

lemma button_roundtrip:
  "buttonCode b = Some c \<longleftrightarrow> c \<in> {272, 273, 274, 277, 278} \<and> b = buttonName c"
  by (auto simp: buttonCode_def buttonName_def split: if_splits)

text \<open>The header fields of an accepted request.\<close>

definition requestHeader :: "inputRequest \<Rightarrow> uint64 \<Rightarrow> string \<Rightarrow> bool" where
  "requestHeader r sq kind \<longleftrightarrow> irVersion r = Some inputVersion \<and> irSequence r = Some sq \<and> irType r = Some kind"

lemma validateInputRequest_Inr:
  "validateInputRequest r = Inr ev \<longleftrightarrow>
    (\<exists>sq kind. requestHeader r sq kind \<and> sq \<noteq> 0 \<and> validateKind kind r (zeroEvent sq) = Inr ev)"
  by (cases "irVersion r"; cases "irSequence r"; cases "irType r")
     (simp_all add: validateInputRequest_def requestHeader_def validateKind_def Let_def)

lemma validateAbsolute_Inr:
  "requestHeader r sq ''input.pointer.motion.absolute'' \<and> validateAbsolute r (zeroEvent sq) = Inr ev \<longleftrightarrow>
   (\<exists>x y. unitInterval x \<and> unitInterval y
     \<and> r = (emptyRequest sq ''input.pointer.motion.absolute'')\<lparr>irX := Some x, irY := Some y\<rparr>
     \<and> ev = (zeroEvent sq)\<lparr>evType := EventPointerAbsolute, evX := x, evY := y\<rparr>)"
  by (cases r) (auto simp: validateAbsolute_def requestHeader_def emptyRequest_def inputVersion_def unitInterval_iff
      no_extra_fields split: option.splits if_splits)

lemma validateRelative_Inr:
  "requestHeader r sq ''input.pointer.motion.relative'' \<and> validateRelative r (zeroEvent sq) = Inr ev \<longleftrightarrow>
   (\<exists>x y. finiteValue x \<and> finiteValue y
     \<and> r = (emptyRequest sq ''input.pointer.motion.relative'')\<lparr>irDX := Some x, irDY := Some y\<rparr>
     \<and> ev = (zeroEvent sq)\<lparr>evType := EventPointerRelative, evDX := x, evDY := y\<rparr>)"
  by (cases r) (auto simp: validateRelative_def requestHeader_def emptyRequest_def inputVersion_def finiteFloat_iff
      no_extra_fields split: option.splits if_splits)

lemma validateButton_Inr:
  "requestHeader r sq ''input.pointer.button'' \<and> validateButton r (zeroEvent sq) = Inr ev \<longleftrightarrow>
   (\<exists>c p. c \<in> {272, 273, 274, 277, 278}
     \<and> r = (emptyRequest sq ''input.pointer.button'')\<lparr>irButton := Some (buttonName c), irPressed := Some p\<rparr>
     \<and> ev = (zeroEvent sq)\<lparr>evType := EventPointerButton, evButtonCode := c, evPressed := p\<rparr>)"
  (is "?L \<longleftrightarrow> ?R")
proof
  assume ?L
  then obtain b p c where "irButton r = Some b" "irPressed r = Some p" "buttonCode b = Some c"
    "\<not> hasInputFields r [''button'', ''pressed'']" "ev = (zeroEvent sq)\<lparr>evType := EventPointerButton, evButtonCode := c, evPressed := p\<rparr>"
    "requestHeader r sq ''input.pointer.button''"
    by (auto simp: validateButton_def split: option.splits if_splits)
  then show ?R unfolding button_roundtrip no_extra_fields
    by (cases r) (auto simp: requestHeader_def emptyRequest_def inputVersion_def)
next
  assume ?R
  then show ?L
    by (auto simp only: validateButton_def) 
       (simp_all add: requestHeader_def emptyRequest_def inputVersion_def no_extra_fields button_roundtrip buttonName_def buttonCode_def hasInputFields_def inputFields_def)
qed

lemma validateScroll_Inr:
  "requestHeader r sq ''input.pointer.scroll'' \<and> validateScroll r (zeroEvent sq) = Inr ev \<longleftrightarrow>
   (\<exists>h v sh sv. finiteValue h \<and> finiteValue v \<and> (h \<noteq> Fin 0 \<or> v \<noteq> Fin 0 \<or> sh \<or> sv)
     \<and> r = (emptyRequest sq ''input.pointer.scroll'')\<lparr>irHorizontal := Some h, irVertical := Some v,
          irStopHorizontal := Some sh, irStopVertical := Some sv\<rparr>
     \<and> ev = (zeroEvent sq)\<lparr>evType := EventPointerScroll, evHorizontal := h, evVertical := v,
          evStopHorizontal := sh, evStopVertical := sv\<rparr>)"
  by (cases r) (auto simp: validateScroll_def requestHeader_def emptyRequest_def inputVersion_def finiteFloat_iff feq_def
      no_extra_fields split: option.splits if_splits)

lemma word_one_le: "(1 :: uint32) \<le> k \<longleftrightarrow> k \<noteq> 0"
  by (metis not_less word_less_1)

lemma validateKey_Inr:
  "requestHeader r sq ''input.keyboard.key'' \<and> validateKey r (zeroEvent sq) = Inr ev \<longleftrightarrow>
   (\<exists>k p. 1 \<le> k \<and> k \<le> 767
     \<and> r = (emptyRequest sq ''input.keyboard.key'')\<lparr>irKeycode := Some k, irPressed := Some p\<rparr>
     \<and> ev = (zeroEvent sq)\<lparr>evType := EventKeyboardKey, evKeycode := k, evPressed := p\<rparr>)"
  by (cases r) (auto simp: validateKey_def requestHeader_def emptyRequest_def inputVersion_def not_less word_one_le
      no_extra_fields split: option.splits if_splits)

lemma validateText_Inr:
  "requestHeader r sq ''input.keyboard.text'' \<and> validateText r (zeroEvent sq) = Inr ev \<longleftrightarrow>
   (\<exists>t. t \<noteq> [] \<and> utf8Valid t \<and> 0 \<notin> set (runes t) \<and> length t \<le> 4096
     \<and> r = (emptyRequest sq ''input.keyboard.text'')\<lparr>irText := Some t\<rparr>
     \<and> ev = (zeroEvent sq)\<lparr>evType := EventKeyboardText, evText := t\<rparr>)"
  by (cases r) (auto simp: validateText_def requestHeader_def emptyRequest_def inputVersion_def maxInputMessageBytes_def
      no_extra_fields split: option.splits if_splits)

lemmas validate_Inr = validateAbsolute_Inr validateRelative_Inr validateButton_Inr validateScroll_Inr validateKey_Inr validateText_Inr

lemma validateKind_Inr:
  "requestHeader r sq kind \<and> sq \<noteq> 0 \<and> validateKind kind r (zeroEvent sq) = Inr ev \<longrightarrow> r = encodeEvent ev \<and> eventWF ev"
proof (intro impI, elim conjE)
  assume h: "requestHeader r sq kind" "sq \<noteq> 0" "validateKind kind r (zeroEvent sq) = Inr ev"
  consider (abs) "kind = ''input.pointer.motion.absolute''" | (rel) "kind = ''input.pointer.motion.relative''"
    | (btn) "kind = ''input.pointer.button''" | (scr) "kind = ''input.pointer.scroll''" | (key) "kind = ''input.keyboard.key''"
    | (tx) "kind = ''input.keyboard.text''"
    using h(3) by (auto simp: validateKind_def split: if_splits)
  then show "r = encodeEvent ev \<and> eventWF ev"
  proof cases
    case abs
    with h have "requestHeader r sq ''input.pointer.motion.absolute'' \<and> validateAbsolute r (zeroEvent sq) = Inr ev" by (simp add: validateKind_def)
    then show ?thesis unfolding validateAbsolute_Inr using h(2) by (auto simp: encodeEvent_def eventWF_def zeroEvent_def)
  next
    case rel
    with h have "requestHeader r sq ''input.pointer.motion.relative'' \<and> validateRelative r (zeroEvent sq) = Inr ev" by (simp add: validateKind_def)
    then show ?thesis unfolding validateRelative_Inr using h(2) by (auto simp: encodeEvent_def eventWF_def zeroEvent_def)
  next
    case btn
    with h have "requestHeader r sq ''input.pointer.button'' \<and> validateButton r (zeroEvent sq) = Inr ev" by (simp add: validateKind_def)
    then show ?thesis unfolding validateButton_Inr using h(2)
      by (elim exE conjE, hypsubst) (simp add: encodeEvent_def eventWF_def zeroEvent_def)
  next
    case scr
    with h have "requestHeader r sq ''input.pointer.scroll'' \<and> validateScroll r (zeroEvent sq) = Inr ev" by (simp add: validateKind_def)
    then show ?thesis unfolding validateScroll_Inr using h(2)
      by (elim exE conjE) (simp add: encodeEvent_def eventWF_def zeroEvent_def)
  next
    case key
    with h have "requestHeader r sq ''input.keyboard.key'' \<and> validateKey r (zeroEvent sq) = Inr ev" by (simp add: validateKind_def)
    then show ?thesis unfolding validateKey_Inr using h(2) by (auto simp: encodeEvent_def eventWF_def zeroEvent_def)
  next
    case tx
    with h have "requestHeader r sq ''input.keyboard.text'' \<and> validateText r (zeroEvent sq) = Inr ev" by (simp add: validateKind_def)
    then show ?thesis unfolding validateText_Inr using h(2) by (auto simp: encodeEvent_def eventWF_def zeroEvent_def)
  qed
qed

text \<open>An accepted request decodes to the event that encodes to it, and conversely.\<close>

lemma validate_by_kind:
  assumes "requestHeader r sq kind \<and> v r (zeroEvent sq) = Inr ev" and "sq \<noteq> 0"
    and "validateKind kind r (zeroEvent sq) = v r (zeroEvent sq)"
  shows "validateInputRequest r = Inr ev"
  unfolding validateInputRequest_Inr using assms by metis

lemma encodeEvent_accepted:
  assumes "eventWF ev"
  shows "validateInputRequest (encodeEvent ev) = Inr ev"
proof -
  have sq: "evSequence ev \<noteq> 0" using assms by (simp add: eventWF_def)
  show ?thesis
  proof (cases "evType ev")
    case EventPointerAbsolute
    let ?r = "(emptyRequest (evSequence ev) ''input.pointer.motion.absolute'')\<lparr>irX := Some (evX ev), irY := Some (evY ev)\<rparr>"
    have e: "encodeEvent ev = ?r" by (simp only: encodeEvent_def EventPointerAbsolute eventType.case)
    have "unitInterval (evX ev)" "unitInterval (evY ev)"
      "ev = (zeroEvent (evSequence ev))\<lparr>evType := EventPointerAbsolute, evX := evX ev, evY := evY ev\<rparr>"
      using assms unfolding eventWF_def EventPointerAbsolute eventType.case by - (elim conjE, assumption)+
    then have "requestHeader ?r (evSequence ev) ''input.pointer.motion.absolute'' \<and> validateAbsolute ?r (zeroEvent (evSequence ev)) = Inr ev"
      unfolding validateAbsolute_Inr by (intro exI [of _ "evX ev"] exI [of _ "evY ev"] conjI refl)
    then show ?thesis unfolding e by (rule validate_by_kind [OF _ sq]) (simp add: validateKind_def)
  next
    case EventPointerRelative
    let ?r = "(emptyRequest (evSequence ev) ''input.pointer.motion.relative'')\<lparr>irDX := Some (evDX ev), irDY := Some (evDY ev)\<rparr>"
    have e: "encodeEvent ev = ?r" by (simp only: encodeEvent_def EventPointerRelative eventType.case)
    have "finiteValue (evDX ev)" "finiteValue (evDY ev)"
      "ev = (zeroEvent (evSequence ev))\<lparr>evType := EventPointerRelative, evDX := evDX ev, evDY := evDY ev\<rparr>"
      using assms unfolding eventWF_def EventPointerRelative eventType.case by - (elim conjE, assumption)+
    then have "requestHeader ?r (evSequence ev) ''input.pointer.motion.relative'' \<and> validateRelative ?r (zeroEvent (evSequence ev)) = Inr ev"
      unfolding validateRelative_Inr by (intro exI [of _ "evDX ev"] exI [of _ "evDY ev"] conjI refl)
    then show ?thesis unfolding e by (rule validate_by_kind [OF _ sq]) (simp add: validateKind_def)
  next
    case EventPointerButton
    let ?r = "(emptyRequest (evSequence ev) ''input.pointer.button'')\<lparr>irButton := Some (buttonName (evButtonCode ev)), irPressed := Some (evPressed ev)\<rparr>"
    have e: "encodeEvent ev = ?r" by (simp only: encodeEvent_def EventPointerButton eventType.case)
    have "evButtonCode ev \<in> {272, 273, 274, 277, 278}"
      "ev = (zeroEvent (evSequence ev))\<lparr>evType := EventPointerButton, evButtonCode := evButtonCode ev, evPressed := evPressed ev\<rparr>"
      using assms unfolding eventWF_def EventPointerButton eventType.case by - (elim conjE, assumption)+
    then have "requestHeader ?r (evSequence ev) ''input.pointer.button'' \<and> validateButton ?r (zeroEvent (evSequence ev)) = Inr ev"
      unfolding validateButton_Inr by (intro exI [of _ "evButtonCode ev"] exI [of _ "evPressed ev"] conjI refl)
    then show ?thesis unfolding e by (rule validate_by_kind [OF _ sq]) (simp add: validateKind_def)
  next
    case EventPointerScroll
    let ?r = "(emptyRequest (evSequence ev) ''input.pointer.scroll'')\<lparr>irHorizontal := Some (evHorizontal ev), irVertical := Some (evVertical ev),
       irStopHorizontal := Some (evStopHorizontal ev), irStopVertical := Some (evStopVertical ev)\<rparr>"
    have e: "encodeEvent ev = ?r" by (simp only: encodeEvent_def EventPointerScroll eventType.case)
    have "finiteValue (evHorizontal ev)" "finiteValue (evVertical ev)"
      "evHorizontal ev \<noteq> Fin 0 \<or> evVertical ev \<noteq> Fin 0 \<or> evStopHorizontal ev \<or> evStopVertical ev"
      "ev = (zeroEvent (evSequence ev))\<lparr>evType := EventPointerScroll, evHorizontal := evHorizontal ev,
         evVertical := evVertical ev, evStopHorizontal := evStopHorizontal ev, evStopVertical := evStopVertical ev\<rparr>"
      using assms unfolding eventWF_def EventPointerScroll eventType.case by - (elim conjE, assumption)+
    then have "requestHeader ?r (evSequence ev) ''input.pointer.scroll'' \<and> validateScroll ?r (zeroEvent (evSequence ev)) = Inr ev"
      unfolding validateScroll_Inr by (intro exI [of _ "evHorizontal ev"] exI [of _ "evVertical ev"] exI [of _ "evStopHorizontal ev"] exI [of _ "evStopVertical ev"] conjI refl)
    then show ?thesis unfolding e by (rule validate_by_kind [OF _ sq]) (simp add: validateKind_def)
  next
    case EventKeyboardKey
    let ?r = "(emptyRequest (evSequence ev) ''input.keyboard.key'')\<lparr>irKeycode := Some (evKeycode ev), irPressed := Some (evPressed ev)\<rparr>"
    have e: "encodeEvent ev = ?r" by (simp only: encodeEvent_def EventKeyboardKey eventType.case)
    have "1 \<le> evKeycode ev" "evKeycode ev \<le> 767"
      "ev = (zeroEvent (evSequence ev))\<lparr>evType := EventKeyboardKey, evKeycode := evKeycode ev, evPressed := evPressed ev\<rparr>"
      using assms unfolding eventWF_def EventKeyboardKey eventType.case by - (elim conjE, assumption)+
    then have "requestHeader ?r (evSequence ev) ''input.keyboard.key'' \<and> validateKey ?r (zeroEvent (evSequence ev)) = Inr ev"
      unfolding validateKey_Inr by (intro exI [of _ "evKeycode ev"] exI [of _ "evPressed ev"] conjI refl)
    then show ?thesis unfolding e by (rule validate_by_kind [OF _ sq]) (simp add: validateKind_def)
  next
    case EventKeyboardText
    let ?r = "(emptyRequest (evSequence ev) ''input.keyboard.text'')\<lparr>irText := Some (evText ev)\<rparr>"
    have e: "encodeEvent ev = ?r" by (simp only: encodeEvent_def EventKeyboardText eventType.case)
    have "evText ev \<noteq> []" "utf8Valid (evText ev)" "0 \<notin> set (runes (evText ev))" "length (evText ev) \<le> 4096"
      "ev = (zeroEvent (evSequence ev))\<lparr>evType := EventKeyboardText, evText := evText ev\<rparr>"
      using assms unfolding eventWF_def EventKeyboardText eventType.case by - (elim conjE, assumption)+
    then have "requestHeader ?r (evSequence ev) ''input.keyboard.text'' \<and> validateText ?r (zeroEvent (evSequence ev)) = Inr ev"
      unfolding validateText_Inr by (intro exI [of _ "evText ev"] conjI refl)
    then show ?thesis unfolding e by (rule validate_by_kind [OF _ sq]) (simp add: validateKind_def)
  next
    case (EventOther x)
    then show ?thesis using assms by (simp add: eventWF_def)
  qed
qed

lemma checkDetails_None:
  "checkDetails ks m = None \<longleftrightarrow>
    (\<forall>k \<in> set ks. \<not> badDetailKey k \<and> (case fmlookup m k of None \<Rightarrow> True | Some v \<Rightarrow> length v \<le> 512))"
  by (induction ks) (auto simp: maxClientLogDetailValueBytes_def split: option.splits)

section \<open>Properties\<close>

text \<open>C26: the input validator accepts exactly the well-formed requests and loses nothing.  It returns an
  event precisely when the request is the encoding of that event and the event is well formed: protocol
  version 1, a positive sequence number, only the fields of its type, coordinates in the unit interval,
  finite deltas, one of the five buttons, an evdev keycode between 1 and 767, or valid UTF-8 text of 1 to
  4096 bytes without NUL.\<close>

theorem input_request_roundtrip:
  "validateInputRequest r = Inr ev \<longleftrightarrow> eventWF ev \<and> r = encodeEvent ev"
  using encodeEvent_accepted validateKind_Inr [of r _ _ ev] unfolding validateInputRequest_Inr by metis

text \<open>The control validator accepts exactly version 4 requests with an identifier of 1 to 128 bytes
  that are an input lease request without further fields, a target selection with an identifier of 1 to
  256 bytes, or a quality patch that sets at least one field and no empty name.\<close>

theorem control_request_accepted:
  "validateControlRequest r = None \<longleftrightarrow>
    (\<exists>ident kind. crqVersion r = Some 4 \<and> crqID r = Some ident \<and> crqType r = Some kind
      \<and> 1 \<le> length ident \<and> length ident \<le> 128
      \<and> (kind \<in> {''input.acquire'', ''input.release''} \<and> crqQuality r = None \<and> crqTargetID r = None
         \<or> kind = ''target.select'' \<and> crqQuality r = None
             \<and> (\<exists>t. crqTargetID r = Some t \<and> 1 \<le> length t \<and> length t \<le> 256)
         \<or> kind = ''video.quality.set'' \<and> crqTargetID r = None
             \<and> (\<exists>q. crqQuality r = Some q \<and> qpProfile q \<noteq> Some [] \<and> qpOption q \<noteq> Some []
                  \<and> q \<noteq> \<lparr>qpProfile = None, qpOption = None, qpWidth = None, qpHeight = None,
                         qpFramerate = None, qpBitrateKbps = None\<rparr>)))"
  (is "_ \<longleftrightarrow> (\<exists>ident kind. ?P ident kind)")
proof (cases "crqVersion r = None \<or> crqID r = None \<or> crqType r = None")
  case True
  then show ?thesis by (cases "crqVersion r"; cases "crqID r"; cases "crqType r") (simp_all add: validateControlRequest_def)
next
  case False
  then obtain v i k where r: "crqVersion r = Some v" "crqID r = Some i" "crqType r = Some k" by auto
  have e: "emptyPatch q \<longleftrightarrow> q = \<lparr>qpProfile = None, qpOption = None, qpWidth = None, qpHeight = None,
      qpFramerate = None, qpBitrateKbps = None\<rparr>" for q
    by (cases q) (simp add: emptyPatch_def)
  have "validateControlRequest r = None \<longleftrightarrow> ?P i k"
    by (cases "crqQuality r"; cases "crqTargetID r"; cases i)
       (auto simp: validateControlRequest_def r e controlVersion_def Suc_le_eq)
  then show ?thesis using r by auto
qed

text \<open>The client log validator accepts exactly the messages with a known level, an event name of 1 to
  128 bytes, at most 32 details, keys of 1 to 64 bytes, values of at most 512 bytes and no control
  character in a name, whatever order the loop visits the details in.\<close>

theorem client_log_accepted:
  assumes "srqDetails r = Some details" and "set order = fset (fmdom details)"
  shows "validateClientLogRequest order r = None \<longleftrightarrow>
    srqSDP r = None \<and> srqCandidate r = None \<and>
    (\<exists>level event. srqLevel r = Some level \<and> srqEvent r = Some event
      \<and> level \<in> {''debug'', ''info'', ''warn'', ''error''}
      \<and> 1 \<le> length event \<and> length event \<le> 128 \<and> \<not> hasControl event
      \<and> fcard (fmdom details) \<le> 32
      \<and> (\<forall>k v. fmlookup details k = Some v \<longrightarrow>
            1 \<le> length k \<and> length k \<le> 64 \<and> \<not> hasControl k \<and> length v \<le> 512))"
proof -
  have d: "checkDetails order details = None \<longleftrightarrow>
      (\<forall>k v. fmlookup details k = Some v \<longrightarrow> 1 \<le> length k \<and> length k \<le> 64 \<and> \<not> hasControl k \<and> length v \<le> 512)"
    unfolding checkDetails_None assms(2) badDetailKey_def maxClientLogDetailKeyBytes_def
    by (fastforce simp: Suc_le_eq fmlookup_dom_iff split: option.splits)
  show ?thesis
    by (cases "srqLevel r"; cases "srqEvent r")
       (auto simp: validateClientLogRequest_def assms(1) d maxClientLogEventBytes_def maxClientLogDetails_def Suc_le_eq
          split: if_splits)
qed

section \<open>Witnesses\<close>

definition demoLog :: "unit signalRequest" where
  "demoLog = \<lparr>srqVersion = Some 1, srqType = Some ''client-log'', srqSDP = None, srqCandidate = None, srqLevel = Some ''info'',
     srqEvent = Some ''ice'', srqDetails = Some (fmupd ''state'' ''connected'' fmempty)\<rparr>"

theorem client_log_accepted_witness:
  "validateClientLogRequest [''state''] demoLog = None"
proof -
  have "\<not> hasControl ''ice''" "\<not> hasControl ''state''"
    by (simp_all add: hasControl_def runes_def runesW_code isControl_def)
  moreover have "srqDetails demoLog = Some (fmupd ''state'' ''connected'' fmempty)" by (simp add: demoLog_def)
  moreover have "fcard (fmdom (fmupd ''state'' ''connected'' fmempty)) \<le> 32" by (simp add: fcard.rep_eq)
  ultimately show ?thesis
    using client_log_accepted [of demoLog "fmupd ''state'' ''connected'' fmempty" "[''state'']"]
    by (simp add: demoLog_def)
qed

end
