(* ===== verification/Media_Quality.thy ===== *)
theory Media_Quality
  imports Prelude "HOL-Library.Char_ord" "HOL-Library.List_Lexorder"
begin

text \<open>
  Encoder profiles and video quality (\<open>src/media/profile.go\<close> and the validation part of
  \<open>src/media/media.go\<close>), with the codec compatibility test of \<open>src/webrtc/contracts.go\<close>.  The template
  engine (\<open>text/template\<close>) and the regular expression compiler are arguments, \<open>tmpl\<close> and \<open>regex\<close>; the
  functions that the templates call are modelled.  Loops over maps take their order from \<open>keys\<close>, which
  lists the keys of a map.
\<close>

subsection \<open>Data\<close>

record quality =
  qProfile :: string
  qOption :: string
  qWidth :: int
  qHeight :: int
  qFramerate :: int
  qBitrateKbps :: int

record tuning =
  tnThreads :: int
  tnKeyframeInterval :: int
  tnVP8CPUUsed :: int

record qualityOption =
  qoLabel :: string
  qoWidth :: int
  qoHeight :: int
  qoFramerate :: int
  qoBitrateKbps :: int

record encoderProperty =
  epElement :: string
  epProperty :: string
  epType :: string
  epValue :: string

record rtcpFeedback =
  rfType :: string
  rfParameter :: string

record sdpRequirements =
  sdpOfferFmtp :: "(string, string) fmap"
  sdpAnswerFmtp :: "(string, string) fmap"

record rtpCodec =
  rcID :: string
  rcMimeType :: string
  rcClockRate :: uint32
  rcChannels :: uint16
  rcPayloadType :: uint8
  rcPayloader :: string
  rcSDPFmtpLine :: string
  rcRTCPFeedback :: "rtcpFeedback list"
  rcSDP :: sdpRequirements

record qualityLimits =
  qlMaxBitrateKbps :: int
  qlMaxMacroblocksPerDimension :: int
  qlMaxMacroblocksPerFrame :: int
  qlMaxMacroblocksPerSecond :: int

record encoderProfile =
  pfLabel :: string
  pfDefaultOption :: string
  pfOptions :: "(string, qualityOption) fmap"
  pfFrontendTransform :: string
  pfPipeline :: string
  pfEncoderElement :: string
  pfBitrate :: "encoderProperty list"
  pfCodec :: rtpCodec
  pfLimits :: qualityLimits

record profileTemplateData =
  ptWidth :: int
  ptHeight :: int
  ptFramerate :: int
  ptBitrateKbps :: int
  ptThreads :: int
  ptKeyframeInterval :: int
  ptVP8CPUUsed :: int
  ptPrefix :: string

type_synonym profiles = "(string, encoderProfile) fmap"

text \<open>The loop order over a map: any enumeration of its keys.\<close>

definition keyOrder :: "(string fset \<Rightarrow> string list) \<Rightarrow> bool" where
  "keyOrder keys \<longleftrightarrow> (\<forall>s. set (keys s) = fset s)"

text \<open>64-bit \<open>int\<close> arithmetic wraps.\<close>

definition wrap64 :: "int \<Rightarrow> int" where
  "wrap64 x = (x + 2 ^ 63) mod 2 ^ 64 - 2 ^ 63"

lemma wrap64_id [simp]: "- (2 ^ 63) \<le> x \<Longrightarrow> x < 2 ^ 63 \<Longrightarrow> wrap64 x = x"
  by (simp add: wrap64_def)

subsection \<open>Quality\<close>

definition MinBitrateKbps :: int where "MinBitrateKbps = 100"

definition optionQuality :: "qualityOption \<Rightarrow> string \<Rightarrow> string \<Rightarrow> quality" where
  "optionQuality option profileName optionName = \<lparr>qProfile = profileName, qOption = optionName, qWidth = qoWidth option,
     qHeight = qoHeight option, qFramerate = qoFramerate option, qBitrateKbps = qoBitrateKbps option\<rparr>"

definition check :: "bool \<Rightarrow> goerror \<Rightarrow> goerror option" where
  "check bad e = (if bad then Some e else None)"

definition validateQualityValues :: "quality \<Rightarrow> goerror option" where
  "validateQualityValues q = errorsJoin
    [check (qWidth q < 320 \<or> qWidth q > 7680 \<or> go_mod (qWidth q) 2 \<noteq> 0)
       (errorsNew ''video width must be an even number between 320 and 7680''),
     check (qHeight q < 240 \<or> qHeight q > 4320 \<or> go_mod (qHeight q) 2 \<noteq> 0)
       (errorsNew ''video height must be an even number between 240 and 4320''),
     check (qFramerate q < 1 \<or> qFramerate q > 120) (errorsNew ''video framerate must be between 1 and 120''),
     check (qBitrateKbps q < MinBitrateKbps) (Errorf ''video bitrate must be at least %d Kbit/s'' [FInt MinBitrateKbps])]"

definition macroblocksOf :: "int \<Rightarrow> int" where
  "macroblocksOf n = go_div (wrap64 (n + 15)) 16"

definition limitsValidate :: "qualityLimits \<Rightarrow> string \<Rightarrow> quality \<Rightarrow> goerror option" where
  "limitsValidate limits profileName q =
    (let widthMacroblocks = macroblocksOf (qWidth q);
         heightMacroblocks = macroblocksOf (qHeight q);
         macroblocks = wrap64 (widthMacroblocks * heightMacroblocks);
         perSecond = wrap64 (macroblocks * qFramerate q)
     in errorsJoin
      [check (qlMaxMacroblocksPerDimension limits > 0 \<and> widthMacroblocks > qlMaxMacroblocksPerDimension limits)
         (Errorf ''video profile %q width must not exceed %d macroblocks; width %d requires %d''
            [FStr profileName, FInt (qlMaxMacroblocksPerDimension limits), FInt (qWidth q), FInt widthMacroblocks]),
       check (qlMaxMacroblocksPerDimension limits > 0 \<and> heightMacroblocks > qlMaxMacroblocksPerDimension limits)
         (Errorf ''video profile %q height must not exceed %d macroblocks; height %d requires %d''
            [FStr profileName, FInt (qlMaxMacroblocksPerDimension limits), FInt (qHeight q), FInt heightMacroblocks]),
       check (qlMaxMacroblocksPerFrame limits > 0 \<and> macroblocks > qlMaxMacroblocksPerFrame limits)
         (Errorf ''video profile %q supports at most %d macroblocks per frame; %dx%d requires %d''
            [FStr profileName, FInt (qlMaxMacroblocksPerFrame limits), FInt (qWidth q), FInt (qHeight q), FInt macroblocks]),
       check (qlMaxMacroblocksPerSecond limits > 0 \<and> perSecond > qlMaxMacroblocksPerSecond limits)
         (Errorf ''video profile %q supports at most %d macroblocks per second; %dx%d at %d fps requires %d''
            [FStr profileName, FInt (qlMaxMacroblocksPerSecond limits), FInt (qWidth q), FInt (qHeight q),
             FInt (qFramerate q), FInt perSecond]),
       check (qlMaxBitrateKbps limits > 0 \<and> qBitrateKbps q > qlMaxBitrateKbps limits)
         (Errorf ''video profile %q bitrate must not exceed %d Kbit/s'' [FStr profileName, FInt (qlMaxBitrateKbps limits)])])"

definition qualityValidate :: "profiles \<Rightarrow> quality \<Rightarrow> goerror option" where
  "qualityValidate profiles q =
    (case fmlookup profiles (qProfile q) of
       None \<Rightarrow> Some (Errorf ''video profile %q is not configured'' [FStr (qProfile q)])
     | Some profile \<Rightarrow>
         if fmlookup (pfOptions profile) (qOption q) = None
         then Some (Errorf ''video option %q is not configured for profile %q'' [FStr (qOption q), FStr (qProfile q)])
         else (case validateQualityValues q of
                 Some err \<Rightarrow> Some err
               | None \<Rightarrow> limitsValidate (pfLimits profile) (qProfile q) q))"

subsection \<open>Templates\<close>

text \<open>The functions of the template map; \<open>int\<close> arithmetic wraps and the division truncates.\<close>

definition ceilDiv :: "int \<Rightarrow> int \<Rightarrow> goerror + int" where
  "ceilDiv v divisor =
    (if divisor = 0 then Inl (errorsNew ''ceilDiv divisor must not be zero'')
     else Inr (wrap64 (go_div (wrap64 (v + divisor - 1)) divisor)))"

definition elementName :: "string \<Rightarrow> string \<Rightarrow> string" where
  "elementName prefix element = prefix @ ''-'' @ element"

definition mulInt :: "int \<Rightarrow> int \<Rightarrow> int" where
  "mulInt l r = wrap64 (l * r)"

text \<open>
  The engine: parsing a source yields an error or a template, executing a template with the function map
  and the data yields an error or the text.
\<close>

record 't templateEngine =
  teParse :: "string \<Rightarrow> string \<Rightarrow> goerror + 't"
  teExecute :: "(int \<Rightarrow> int \<Rightarrow> goerror + int) \<Rightarrow> (string \<Rightarrow> string) \<Rightarrow> (int \<Rightarrow> int \<Rightarrow> int)
      \<Rightarrow> 't \<Rightarrow> profileTemplateData \<Rightarrow> goerror + string"

definition renderProfileTemplate :: "'t templateEngine \<Rightarrow> string \<Rightarrow> string \<Rightarrow> profileTemplateData \<Rightarrow> goerror + string" where
  "renderProfileTemplate tmpl name source data =
    (case teParse tmpl name source of
       Inl err \<Rightarrow> Inl (Wrap ''parse %s: %w'' err [FStr name])
     | Inr t \<Rightarrow> (case teExecute tmpl ceilDiv (elementName (ptPrefix data)) mulInt t data of
                  Inl err \<Rightarrow> Inl (Wrap ''execute %s: %w'' err [FStr name])
                | Inr s \<Rightarrow> Inr s))"

subsection \<open>Live encoder properties\<close>

definition isDigit :: "char \<Rightarrow> bool" where
  "isDigit c = (48 \<le> byte_of c \<and> byte_of c \<le> 57)"

definition digitVal :: "char \<Rightarrow> int" where
  "digitVal c = int (byte_of c) - 48"

definition digitsVal :: "string \<Rightarrow> int" where
  "digitsVal s = fold (\<lambda>c n. 10 * n + digitVal c) s 0"

definition numError :: "string \<Rightarrow> string \<Rightarrow> string \<Rightarrow> goerror" where
  "numError fn s reason = Errorf ''strconv.%s: parsing %q: %s'' [FStr fn, FStr s, FStr reason]"

text \<open>\<open>strconv.ParseUint(s, 10, 0)\<close> and \<open>strconv.ParseInt(s, 10, 0)\<close> on a 64-bit platform.\<close>

definition parseUint :: "string \<Rightarrow> goerror + int" where
  "parseUint s =
    (if s = [] \<or> \<not> list_all isDigit s then Inl (numError ''ParseUint'' s ''invalid syntax'')
     else if digitsVal s \<ge> 2 ^ 64 then Inl (numError ''ParseUint'' s ''value out of range'')
     else Inr (digitsVal s))"

definition parseInt :: "string \<Rightarrow> goerror + int" where
  "parseInt s =
    (let neg = (s \<noteq> [] \<and> hd s = CHR ''-'');
         digits = (if s \<noteq> [] \<and> (hd s = CHR ''-'' \<or> hd s = CHR ''+'') then tl s else s)
     in if digits = [] \<or> \<not> list_all isDigit digits then Inl (numError ''ParseInt'' s ''invalid syntax'')
        else if neg \<and> digitsVal digits > 2 ^ 63 \<or> \<not> neg \<and> digitsVal digits \<ge> 2 ^ 63
        then Inl (numError ''ParseInt'' s ''value out of range'')
        else Inr (if neg then - digitsVal digits else digitsVal digits))"

datatype propertyValue = PropInt int | PropUint int


definition propertyRender :: "'t templateEngine \<Rightarrow> encoderProperty \<Rightarrow> string \<Rightarrow> profileTemplateData \<Rightarrow> goerror + propertyValue" where
  "propertyRender tmpl property profileName data =
    (case renderProfileTemplate tmpl (profileName @ '' bitrate property'') (epValue property) data of
       Inl err \<Rightarrow> Inl err
     | Inr rendered \<Rightarrow>
         let v = TrimSpace rendered in
         if epType property = ''int'' then
           (case parseInt v of Inl err \<Rightarrow> Inl (Wrap ''parse int value %q: %w'' err [FStr v]) | Inr n \<Rightarrow> Inr (PropInt n))
         else if epType property = ''uint'' then
           (case parseUint v of Inl err \<Rightarrow> Inl (Wrap ''parse uint value %q: %w'' err [FStr v]) | Inr n \<Rightarrow> Inr (PropUint n))
         else Inl (Errorf ''unsupported property type %q'' [FStr (epType property)]))"

definition templateData :: "string \<Rightarrow> quality \<Rightarrow> tuning \<Rightarrow> profileTemplateData" where
  "templateData prefix q t = \<lparr>ptWidth = qWidth q, ptHeight = qHeight q, ptFramerate = qFramerate q, ptBitrateKbps = qBitrateKbps q,
     ptThreads = tnThreads t, ptKeyframeInterval = tnKeyframeInterval t, ptVP8CPUUsed = tnVP8CPUUsed t, ptPrefix = prefix\<rparr>"

definition RenderPipeline :: "'t templateEngine \<Rightarrow> encoderProfile \<Rightarrow> string \<Rightarrow> string \<Rightarrow> quality \<Rightarrow> tuning \<Rightarrow> goerror + string" where
  "RenderPipeline tmpl profile name prefix q t =
    renderProfileTemplate tmpl (name @ '' pipeline'') (pfPipeline profile) (templateData prefix q t)"

text \<open>The loop over the properties stops at the first error.\<close>

fun renderProperties :: "'t templateEngine \<Rightarrow> string \<Rightarrow> profileTemplateData \<Rightarrow> int \<Rightarrow> encoderProperty list \<Rightarrow> goerror + propertyValue list" where
  "renderProperties tmpl name data index [] = Inr []"
| "renderProperties tmpl name data index (p # ps) =
    (case propertyRender tmpl p name data of
       Inl err \<Rightarrow> Inl (Wrap ''render video profile %q bitrate[%d]: %w'' err [FStr name, FInt index])
     | Inr v \<Rightarrow> (case renderProperties tmpl name data (index + 1) ps of Inl err \<Rightarrow> Inl err | Inr vs \<Rightarrow> Inr (v # vs)))"

definition RenderBitrate :: "'t templateEngine \<Rightarrow> encoderProfile \<Rightarrow> string \<Rightarrow> string \<Rightarrow> quality \<Rightarrow> tuning \<Rightarrow> goerror + propertyValue list" where
  "RenderBitrate tmpl profile name prefix q t = renderProperties tmpl name (templateData prefix q t) 0 (pfBitrate profile)"

subsection \<open>Codecs\<close>

definition fmapAgrees :: "(string fset \<Rightarrow> string list) \<Rightarrow> (string, string) fmap \<Rightarrow> (string, string) fmap \<Rightarrow> bool" where
  "fmapAgrees keys m m' = list_all (\<lambda>k. fmlookup m' k \<noteq> None \<and> fmlookup m' k = fmlookup m k) (keys (fmdom m))"

definition sameCodecFields :: "rtpCodec \<Rightarrow> rtpCodec \<Rightarrow> bool" where
  "sameCodecFields codec other =
    (rcID codec = rcID other \<and> rcMimeType codec = rcMimeType other \<and> rcClockRate codec = rcClockRate other
     \<and> rcChannels codec = rcChannels other \<and> rcPayloadType codec = rcPayloadType other
     \<and> rcPayloader codec = rcPayloader other \<and> rcSDPFmtpLine codec = rcSDPFmtpLine other
     \<and> length (rcRTCPFeedback codec) = length (rcRTCPFeedback other)
     \<and> fcard (fmdom (sdpOfferFmtp (rcSDP codec))) = fcard (fmdom (sdpOfferFmtp (rcSDP other)))
     \<and> fcard (fmdom (sdpAnswerFmtp (rcSDP codec))) = fcard (fmdom (sdpAnswerFmtp (rcSDP other))))"

definition sameFeedback :: "rtpCodec \<Rightarrow> rtpCodec \<Rightarrow> bool" where
  "sameFeedback codec other =
    list_all (\<lambda>i. rcRTCPFeedback codec ! i = rcRTCPFeedback other ! i) [0..<length (rcRTCPFeedback codec)]"

definition Compatible :: "(string fset \<Rightarrow> string list) \<Rightarrow> rtpCodec \<Rightarrow> rtpCodec \<Rightarrow> bool" where
  "Compatible keys codec other =
    (sameCodecFields codec other \<and> sameFeedback codec other
     \<and> fmapAgrees keys (sdpOfferFmtp (rcSDP codec)) (sdpOfferFmtp (rcSDP other))
     \<and> fmapAgrees keys (sdpAnswerFmtp (rcSDP codec)) (sdpAnswerFmtp (rcSDP other)))"

text \<open>The copy of the test in \<open>src/webrtc/contracts.go\<close>: a missing key reads as the empty string.\<close>

definition mapIndex :: "(string, string) fmap \<Rightarrow> string \<Rightarrow> string" where
  "mapIndex m k = (case fmlookup m k of None \<Rightarrow> [] | Some v \<Rightarrow> v)"

definition transportCompatible :: "(string fset \<Rightarrow> string list) \<Rightarrow> rtpCodec \<Rightarrow> rtpCodec \<Rightarrow> bool" where
  "transportCompatible keys codec other =
    (sameCodecFields codec other \<and> sameFeedback codec other
     \<and> list_all (\<lambda>k. mapIndex (sdpOfferFmtp (rcSDP other)) k = mapIndex (sdpOfferFmtp (rcSDP codec)) k)
         (keys (fmdom (sdpOfferFmtp (rcSDP codec))))
     \<and> list_all (\<lambda>k. mapIndex (sdpAnswerFmtp (rcSDP other)) k = mapIndex (sdpAnswerFmtp (rcSDP codec)) k)
         (keys (fmdom (sdpAnswerFmtp (rcSDP codec)))))"

text \<open>\<open>^[a-z0-9][a-z0-9_-]*$\<close>\<close>

definition identStart :: "char \<Rightarrow> bool" where
  "identStart c = (97 \<le> byte_of c \<and> byte_of c \<le> 122 \<or> isDigit c)"

definition profileIdentifier :: "string \<Rightarrow> bool" where
  "profileIdentifier s =
    (s \<noteq> [] \<and> identStart (hd s) \<and> list_all (\<lambda>c. identStart c \<or> c = CHR ''_'' \<or> c = CHR ''-'') (tl s))"

definition offerFmtpError :: "(string \<Rightarrow> goerror option) \<Rightarrow> string \<Rightarrow> string \<Rightarrow> string \<Rightarrow> goerror option" where
  "offerFmtpError regex profileName key pattern =
    (if key = [] then Some (Errorf ''video profile %q codec.sdp.offer_fmtp contains an empty parameter'' [FStr profileName])
     else (case regex pattern of None \<Rightarrow> None
           | Some err \<Rightarrow> Some (Wrap ''video profile %q codec.sdp.offer_fmtp[%q]: %w'' err [FStr profileName, FStr key])))"

definition codecValidate :: "(string fset \<Rightarrow> string list) \<Rightarrow> (string \<Rightarrow> goerror option) \<Rightarrow> string \<Rightarrow> rtpCodec \<Rightarrow> goerror option" where
  "codecValidate keys regex profileName codec = errorsJoin
    ([check (\<not> profileIdentifier (rcID codec)) (Errorf ''video profile %q codec.id is invalid'' [FStr profileName]),
      check (take 6 (rcMimeType codec) \<noteq> ''video/'' \<or> length (rcMimeType codec) = 6)
        (Errorf ''video profile %q codec.mime_type must start with video/'' [FStr profileName]),
      check (rcClockRate codec = 0) (Errorf ''video profile %q codec.clock_rate must be positive'' [FStr profileName]),
      check (rcPayloadType codec < 96 \<or> rcPayloadType codec > 127)
        (Errorf ''video profile %q codec.payload_type must be between 96 and 127'' [FStr profileName]),
      check (rcPayloader codec \<noteq> ''vp8'' \<and> rcPayloader codec \<noteq> ''h264'')
        (Errorf ''video profile %q codec.payloader must be vp8 or h264'' [FStr profileName])]
     @ map (\<lambda>(index, feedback). check (rfType feedback = [])
         (Errorf ''video profile %q codec.rtcp_feedback[%d].type is required'' [FStr profileName, FInt (int index)]))
         (enumerate 0 (rcRTCPFeedback codec))
     @ map (\<lambda>key. offerFmtpError regex profileName key (mapIndex (sdpOfferFmtp (rcSDP codec)) key))
         (keys (fmdom (sdpOfferFmtp (rcSDP codec))))
     @ map (\<lambda>key. check (key = [] \<or> mapIndex (sdpAnswerFmtp (rcSDP codec)) key = [])
         (Errorf ''video profile %q codec.sdp.answer_fmtp keys and values must not be empty'' [FStr profileName]))
         (keys (fmdom (sdpAnswerFmtp (rcSDP codec)))))"

subsection \<open>Profiles\<close>

definition renderError :: "goerror + 'a \<Rightarrow> goerror option" where
  "renderError r = (case r of Inl err \<Rightarrow> Some err | Inr _ \<Rightarrow> None)"

definition wrapError :: "string \<Rightarrow> farg list \<Rightarrow> goerror option \<Rightarrow> goerror option" where
  "wrapError format args e = map_option (\<lambda>err. Wrap format err args) e"

text \<open>The body of the loop over the options of a profile.\<close>

definition optionErrors :: "'t templateEngine \<Rightarrow> encoderProfile \<Rightarrow> string \<Rightarrow> tuning \<Rightarrow> string \<Rightarrow> qualityOption \<Rightarrow> goerror option list" where
  "optionErrors tmpl profile name t optionName option =
    (let q = optionQuality option name optionName; data = templateData ''profile-validation'' q t
     in [check (\<not> profileIdentifier optionName)
           (Errorf ''video profile %q option name %q must contain lowercase letters, numbers, underscores, or hyphens'' [FStr name, FStr optionName]),
         check (qoLabel option = []) (Errorf ''video profile %q option %q label is required'' [FStr name, FStr optionName]),
         wrapError ''video profile %q option %q: %w'' [FStr name, FStr optionName] (validateQualityValues q),
         wrapError ''video profile %q option %q: %w'' [FStr name, FStr optionName] (limitsValidate (pfLimits profile) name q),
         renderError (renderProfileTemplate tmpl (name @ '' option '' @ optionName @ '' pipeline'') (pfPipeline profile) data)]
        @ map (\<lambda>(index, property).
             wrapError ''video profile %q option %q bitrate[%d]: %w'' [FStr name, FStr optionName, FInt (int index)]
               (renderError (propertyRender tmpl property name data))) (enumerate 0 (pfBitrate profile)))"

definition profileValidate :: "'t templateEngine \<Rightarrow> (string fset \<Rightarrow> string list) \<Rightarrow> (string \<Rightarrow> goerror option)
    \<Rightarrow> encoderProfile \<Rightarrow> string \<Rightarrow> tuning \<Rightarrow> goerror option" where
  "profileValidate tmpl keys regex profile name t = errorsJoin
    ([check (\<not> profileIdentifier name)
        (Errorf ''video profile name %q must contain lowercase letters, numbers, underscores, or hyphens'' [FStr name]),
      check (pfLabel profile = []) (Errorf ''video profile %q label is required'' [FStr name]),
      check (\<not> profileIdentifier (pfDefaultOption profile)) (Errorf ''video profile %q default_option is invalid'' [FStr name]),
      (if fcard (fmdom (pfOptions profile)) = 0
       then Some (Errorf ''video profile %q requires at least one quality option'' [FStr name])
       else check (fmlookup (pfOptions profile) (pfDefaultOption profile) = None)
         (Errorf ''video profile %q default_option %q is not configured'' [FStr name, FStr (pfDefaultOption profile)])),
      check (pfFrontendTransform profile \<notin> {''none'', ''flip-horizontal'', ''flip-vertical'', ''rotate-180''})
        (Errorf ''video profile %q frontend_transform must be none, flip-horizontal, flip-vertical, or rotate-180'' [FStr name]),
      check (pfPipeline profile = []) (Errorf ''video profile %q pipeline is required'' [FStr name]),
      check (\<not> profileIdentifier (pfEncoderElement profile)) (Errorf ''video profile %q encoder_element is invalid'' [FStr name]),
      check (pfBitrate profile = []) (Errorf ''video profile %q requires at least one live bitrate property'' [FStr name])]
     @ concat (map (\<lambda>optionName. case fmlookup (pfOptions profile) optionName of None \<Rightarrow> []
           | Some option \<Rightarrow> optionErrors tmpl profile name t optionName option) (keys (fmdom (pfOptions profile))))
     @ concat (map (\<lambda>(index, property).
         [check (\<not> profileIdentifier (epElement property))
            (Errorf ''video profile %q bitrate[%d] element is invalid'' [FStr name, FInt (int index)]),
          check (epProperty property = [])
            (Errorf ''video profile %q bitrate[%d] property is required'' [FStr name, FInt (int index)])]) (enumerate 0 (pfBitrate profile)))
     @ [codecValidate keys regex name (pfCodec profile)]
     @ map (\<lambda>(limit, v). check (v < 0) (Errorf ''video profile %q limits.%s must not be negative'' [FStr name, FStr limit]))
         [(''max_bitrate_kbps'', qlMaxBitrateKbps (pfLimits profile)),
          (''max_macroblocks_per_dimension'', qlMaxMacroblocksPerDimension (pfLimits profile)),
          (''max_macroblocks_per_frame'', qlMaxMacroblocksPerFrame (pfLimits profile)),
          (''max_macroblocks_per_second'', qlMaxMacroblocksPerSecond (pfLimits profile))])"

text \<open>Go compares strings byte by byte.\<close>

fun strLess :: "string \<Rightarrow> string \<Rightarrow> bool" where
  "strLess _ [] = False"
| "strLess [] (_ # _) = True"
| "strLess (a # as) (b # bs) = (byte_of a < byte_of b \<or> a = b \<and> strLess as bs)"

text \<open>The body of the loop over the profiles: the profile's own errors, then its codec against every other one.\<close>

definition profileErrors :: "'t templateEngine \<Rightarrow> (string fset \<Rightarrow> string list) \<Rightarrow> (string \<Rightarrow> goerror option)
    \<Rightarrow> profiles \<Rightarrow> tuning \<Rightarrow> string \<Rightarrow> encoderProfile \<Rightarrow> goerror option list" where
  "profileErrors tmpl keys regex profiles t name profile =
    profileValidate tmpl keys regex profile name t
    # concat (map (\<lambda>otherName. case fmlookup profiles otherName of None \<Rightarrow> []
        | Some otherProfile \<Rightarrow>
            [check (strLess name otherName \<and> rcID (pfCodec profile) = rcID (pfCodec otherProfile)
                \<and> \<not> Compatible keys (pfCodec profile) (pfCodec otherProfile))
               (Errorf ''video profiles %q and %q use codec id %q with different WebRTC metadata''
                 [FStr name, FStr otherName, FStr (rcID (pfCodec profile))])]) (keys (fmdom profiles)))"

definition ValidateProfiles :: "'t templateEngine \<Rightarrow> (string fset \<Rightarrow> string list) \<Rightarrow> (string \<Rightarrow> goerror option)
    \<Rightarrow> profiles \<Rightarrow> quality \<Rightarrow> tuning \<Rightarrow> goerror option" where
  "ValidateProfiles tmpl keys regex profiles q t = errorsJoin
    ([check (fcard (fmdom profiles) = 0) (errorsNew ''at least one video profile is required'')]
     @ concat (map (\<lambda>name. case fmlookup profiles name of None \<Rightarrow> []
         | Some profile \<Rightarrow> profileErrors tmpl keys regex profiles t name profile) (keys (fmdom profiles)))
     @ [qualityValidate profiles q])"

record mediaConfig =
  mcProfiles :: profiles
  mcQuality :: quality
  mcTuning :: tuning

definition mediaConfigValidate :: "'t templateEngine \<Rightarrow> (string fset \<Rightarrow> string list) \<Rightarrow> (string \<Rightarrow> goerror option)
    \<Rightarrow> mediaConfig \<Rightarrow> goerror option" where
  "mediaConfigValidate tmpl keys regex cfg = errorsJoin
    [ValidateProfiles tmpl keys regex (mcProfiles cfg) (mcQuality cfg) (mcTuning cfg),
     check (tnThreads (mcTuning cfg) < 1 \<or> tnThreads (mcTuning cfg) > 64)
       (errorsNew ''video tuning threads must be between 1 and 64''),
     check (tnKeyframeInterval (mcTuning cfg) < 1 \<or> tnKeyframeInterval (mcTuning cfg) > 600)
       (errorsNew ''video tuning keyframe interval must be between 1 and 600''),
     check (tnVP8CPUUsed (mcTuning cfg) < 0 \<or> tnVP8CPUUsed (mcTuning cfg) > 16)
       (errorsNew ''video tuning VP8 CPU used must be between 0 and 16'')]"

section \<open>Lemmas\<close>

lemma check_None [simp]: "check bad e = None \<longleftrightarrow> \<not> bad"
  by (simp add: check_def)

lemma wrapError_None [simp]: "wrapError f args e = None \<longleftrightarrow> e = None"
  by (simp add: wrapError_def)

text \<open>A map that agrees with another of the same size is that map.\<close>

lemma fmapAgrees_eq:
  assumes "keyOrder keys" "fcard (fmdom m) = fcard (fmdom m')"
  shows "fmapAgrees keys m m' \<longleftrightarrow> m = m'"
proof
  assume "fmapAgrees keys m m'"
  then have agree: "fmlookup m' k = fmlookup m k \<and> k |\<in>| fmdom m'" if "k |\<in>| fmdom m" for k
    using that assms(1) by (auto simp: fmapAgrees_def keyOrder_def list_all_iff fmlookup_dom_iff)
  then have "fmdom m |\<subseteq>| fmdom m'" by auto
  then have "fmdom m = fmdom m'" using assms(2) by (metis fcard_seteq order_refl)
  then show "m = m'" using agree by (metis fmap_ext fmdom_notD)
qed (use assms in \<open>auto simp: fmapAgrees_def keyOrder_def list_all_iff\<close>)

lemma sameFeedback_eq:
  "length (rcRTCPFeedback a) = length (rcRTCPFeedback b) \<Longrightarrow> sameFeedback a b \<longleftrightarrow> rcRTCPFeedback a = rcRTCPFeedback b"
  by (auto simp: sameFeedback_def list_all_iff intro: nth_equalityI)

lemma Compatible_eq: "keyOrder keys \<Longrightarrow> Compatible keys a b \<longleftrightarrow> a = b"
  by (cases a; cases b; cases "rcSDP a"; cases "rcSDP b")
     (auto simp: Compatible_def sameCodecFields_def sameFeedback_eq fmapAgrees_eq)

lemma strLess_linear: "a \<noteq> b \<Longrightarrow> strLess a b \<or> strLess b a"
proof (induction a b rule: strLess.induct)
  case (1 a)
  then show ?case by (cases a) auto
next
  case (3 a as b bs)
  have "byte_of a < byte_of b \<or> byte_of b < byte_of a" if "a \<noteq> b"
    using that by (metis linorder_cases of_char_eq_iff)
  then show ?case using 3 by auto
qed auto

lemma sameCompat_transport:
  assumes "keyOrder keys" "Compatible keys a b" shows "transportCompatible keys a b"
  using assms Compatible_eq [of keys a b] by (auto simp: transportCompatible_def Compatible_def list_all_iff)

text \<open>Without empty patterns and values the two tests agree.\<close>

lemma mapIndex_agrees:
  assumes "keyOrder keys" "\<forall>k v. fmlookup m k = Some v \<longrightarrow> v \<noteq> []"
  shows "list_all (\<lambda>k. mapIndex m' k = mapIndex m k) (keys (fmdom m)) \<longleftrightarrow> fmapAgrees keys m m'"
proof -
  have "mapIndex m' k = mapIndex m k \<longleftrightarrow> fmlookup m' k \<noteq> None \<and> fmlookup m' k = fmlookup m k" if "k |\<in>| fmdom m" for k
    using that assms(2) by (auto simp: mapIndex_def fmlookup_dom_iff split: option.splits)
  then show ?thesis using assms(1) by (auto simp: fmapAgrees_def list_all_iff keyOrder_def)
qed

lemma transportCompatible_eq:
  assumes "keyOrder keys" "\<forall>k v. fmlookup (sdpOfferFmtp (rcSDP a)) k = Some v \<longrightarrow> v \<noteq> []"
    "\<forall>k v. fmlookup (sdpAnswerFmtp (rcSDP a)) k = Some v \<longrightarrow> v \<noteq> []"
  shows "transportCompatible keys a b \<longleftrightarrow> a = b"
  using mapIndex_agrees [OF assms(1,2), of "sdpOfferFmtp (rcSDP b)"] mapIndex_agrees [OF assms(1,3), of "sdpAnswerFmtp (rcSDP b)"]
    Compatible_eq [OF assms(1), of a b]
  by (simp add: transportCompatible_def Compatible_def)

text \<open>What the validators check, without the error values.\<close>

lemma fmdom_empty_iff: "fmdom m = {||} \<longleftrightarrow> m = fmempty"
  by (metis fmap_ext fmdom_empty fmdom_notD fmempty_lookup fempty_iff)

lemma loop_None:
  assumes "keyOrder keys"
  shows "(\<forall>e \<in> set (concat (map (\<lambda>k. case fmlookup m k of None \<Rightarrow> [] | Some v \<Rightarrow> f k v) (keys (fmdom m)))). e = None)
    \<longleftrightarrow> (\<forall>k v. fmlookup m k = Some v \<longrightarrow> (\<forall>e \<in> set (f k v). e = None))"
proof -
  have "set (keys (fmdom m)) = {k. \<exists>v. fmlookup m k = Some v}"
    using assms by (auto simp: keyOrder_def fmlookup_dom_iff)
  then show ?thesis by (auto split: option.splits)
qed

lemma ValidateProfiles_None:
  assumes "keyOrder keys"
  shows "ValidateProfiles tmpl keys regex profiles q t = None \<longleftrightarrow>
    profiles \<noteq> fmempty \<and> qualityValidate profiles q = None
    \<and> (\<forall>name p. fmlookup profiles name = Some p \<longrightarrow> profileValidate tmpl keys regex p name t = None)
    \<and> (\<forall>n n' p p'. fmlookup profiles n = Some p \<and> fmlookup profiles n' = Some p' \<and> rcID (pfCodec p) = rcID (pfCodec p')
          \<longrightarrow> pfCodec p = pfCodec p')"
proof -
  have inner: "(\<forall>e \<in> set (profileErrors tmpl keys regex profiles t name p). e = None) \<longleftrightarrow>
      profileValidate tmpl keys regex p name t = None
      \<and> (\<forall>n' p'. fmlookup profiles n' = Some p' \<longrightarrow> strLess name n' \<longrightarrow> rcID (pfCodec p) = rcID (pfCodec p') \<longrightarrow> pfCodec p = pfCodec p')"
    for name p
    by (auto simp: profileErrors_def loop_None [OF assms] Compatible_eq [OF assms] simp del: set_concat)
  have sym: "(\<forall>n p. fmlookup profiles n = Some p \<longrightarrow> (\<forall>n' p'. fmlookup profiles n' = Some p' \<longrightarrow> strLess n n'
        \<longrightarrow> rcID (pfCodec p) = rcID (pfCodec p') \<longrightarrow> pfCodec p = pfCodec p'))
    \<longleftrightarrow> (\<forall>n n' p p'. fmlookup profiles n = Some p \<and> fmlookup profiles n' = Some p' \<and> rcID (pfCodec p) = rcID (pfCodec p')
          \<longrightarrow> pfCodec p = pfCodec p')"
    using strLess_linear by (smt (verit) option.inject)
  show ?thesis
    unfolding ValidateProfiles_def errorsJoin_None_iff set_append ball_Un loop_None [OF assms] inner sym [symmetric]
    by (auto simp: fmdom_empty_iff)
qed

lemma profileValidate_option:
  assumes "keyOrder keys" "profileValidate tmpl keys regex p name t = None" "fmlookup (pfOptions p) opt = Some op"
  shows "validateQualityValues (optionQuality op name opt) = None \<and> limitsValidate (pfLimits p) name (optionQuality op name opt) = None"
proof -
  have "\<forall>k v. fmlookup (pfOptions p) k = Some v \<longrightarrow> (\<forall>e \<in> set (optionErrors tmpl p name t k v). e = None)"
    using assms(2) unfolding profileValidate_def errorsJoin_None_iff set_append ball_Un loop_None [OF assms(1)] by blast
  then show ?thesis using assms(3) by (auto simp: optionErrors_def Let_def)
qed

lemma profileValidate_default:
  assumes "profileValidate tmpl keys regex p name t = None"
  shows "\<exists>op. fmlookup (pfOptions p) (pfDefaultOption p) = Some op"
  using assms unfolding profileValidate_def errorsJoin_None_iff by (auto split: if_splits)

lemma even_go_mod: "0 \<le> n \<Longrightarrow> go_mod n 2 \<noteq> 0 \<longleftrightarrow> odd n"
  by (simp add: go_div_mod_nonneg odd_iff_mod_2_eq_one)

lemma validateQualityValues_None:
  "validateQualityValues q = None \<longleftrightarrow>
    320 \<le> qWidth q \<and> qWidth q \<le> 7680 \<and> even (qWidth q) \<and> 240 \<le> qHeight q \<and> qHeight q \<le> 4320 \<and> even (qHeight q)
    \<and> 1 \<le> qFramerate q \<and> qFramerate q \<le> 120 \<and> 100 \<le> qBitrateKbps q"
  using even_go_mod [of "qWidth q"] even_go_mod [of "qHeight q"]
  by (auto simp: validateQualityValues_def MinBitrateKbps_def)

text \<open>On validated values nothing wraps.\<close>

lemma limits_exact:
  assumes "validateQualityValues q = None"
  shows "limitsValidate l name q = None \<longleftrightarrow>
    (qlMaxMacroblocksPerDimension l \<le> 0 \<or> (qWidth q + 15) div 16 \<le> qlMaxMacroblocksPerDimension l \<and> (qHeight q + 15) div 16 \<le> qlMaxMacroblocksPerDimension l)
    \<and> (qlMaxMacroblocksPerFrame l \<le> 0 \<or> (qWidth q + 15) div 16 * ((qHeight q + 15) div 16) \<le> qlMaxMacroblocksPerFrame l)
    \<and> (qlMaxMacroblocksPerSecond l \<le> 0 \<or> (qWidth q + 15) div 16 * ((qHeight q + 15) div 16) * qFramerate q \<le> qlMaxMacroblocksPerSecond l)
    \<and> (qlMaxBitrateKbps l \<le> 0 \<or> qBitrateKbps q \<le> qlMaxBitrateKbps l)"
proof -
  define mw where "mw = (qWidth q + 15) div 16"
  define mh where "mh = (qHeight q + 15) div 16"
  have b: "320 \<le> qWidth q" "qWidth q \<le> 7680" "240 \<le> qHeight q" "qHeight q \<le> 4320" "1 \<le> qFramerate q" "qFramerate q \<le> 120"
    using assms by (simp_all add: validateQualityValues_None)
  have m: "macroblocksOf (qWidth q) = mw" "macroblocksOf (qHeight q) = mh"
    using b by (simp_all add: macroblocksOf_def mw_def mh_def go_div_mod_nonneg)
  have "0 \<le> mw" "mw \<le> 480" "0 \<le> mh" "mh \<le> 270" using b by (simp_all add: mw_def mh_def)
  then have "0 \<le> mw * mh" "mw * mh \<le> 480 * 270" using mult_mono [of mw 480 mh 270] by simp_all
  moreover from this have "0 \<le> mw * mh * qFramerate q" "mw * mh * qFramerate q \<le> 480 * 270 * 120"
    using b mult_mono [of "mw * mh" "480 * 270" "qFramerate q" 120] by simp_all
  ultimately have "wrap64 (mw * mh) = mw * mh" "wrap64 (mw * mh * qFramerate q) = mw * mh * qFramerate q" by simp_all
  then show ?thesis by (auto simp: limitsValidate_def m Let_def mw_def [symmetric] mh_def [symmetric])
qed

section \<open>Properties\<close>

text \<open>What a validated configuration guarantees, whatever order the maps are visited in.  The
  validation succeeds exactly when there is a profile, every profile is valid, the selected quality is
  valid, and profiles with the same codec id have identical WebRTC metadata; every option of such a
  configuration, the default ones included, is then a valid runtime quality, so that switching to it is
  never rejected.\<close>

theorem profiles_validated:
  assumes "keyOrder keys"
  shows "(ValidateProfiles tmpl keys regex profiles q t = None \<longleftrightarrow>
      profiles \<noteq> fmempty \<and> qualityValidate profiles q = None
      \<and> (\<forall>name p. fmlookup profiles name = Some p \<longrightarrow> profileValidate tmpl keys regex p name t = None)
      \<and> (\<forall>n n' p p'. fmlookup profiles n = Some p \<and> fmlookup profiles n' = Some p' \<and> rcID (pfCodec p) = rcID (pfCodec p')
            \<longrightarrow> pfCodec p = pfCodec p'))
    \<and> (ValidateProfiles tmpl keys regex profiles q t = None \<longrightarrow>
      (\<forall>name p. fmlookup profiles name = Some p \<longrightarrow>
        fmlookup (pfOptions p) (pfDefaultOption p) \<noteq> None
        \<and> (\<forall>opt op. fmlookup (pfOptions p) opt = Some op \<longrightarrow> qualityValidate profiles (optionQuality op name opt) = None)))"
proof (intro conjI impI allI)
  show "ValidateProfiles tmpl keys regex profiles q t = None \<longleftrightarrow>
      profiles \<noteq> fmempty \<and> qualityValidate profiles q = None
      \<and> (\<forall>name p. fmlookup profiles name = Some p \<longrightarrow> profileValidate tmpl keys regex p name t = None)
      \<and> (\<forall>n n' p p'. fmlookup profiles n = Some p \<and> fmlookup profiles n' = Some p' \<and> rcID (pfCodec p) = rcID (pfCodec p')
            \<longrightarrow> pfCodec p = pfCodec p')"
    by (rule ValidateProfiles_None [OF assms])
next
  fix name p assume v: "ValidateProfiles tmpl keys regex profiles q t = None" and p: "fmlookup profiles name = Some p"
  then have valid: "profileValidate tmpl keys regex p name t = None" by (simp add: ValidateProfiles_None [OF assms])
  then show "fmlookup (pfOptions p) (pfDefaultOption p) \<noteq> None" using profileValidate_default by fastforce
  show "qualityValidate profiles (optionQuality op name opt) = None" if "fmlookup (pfOptions p) opt = Some op" for opt op
    using profileValidate_option [OF assms valid that] p that by (simp add: qualityValidate_def optionQuality_def)
qed

text \<open>A runtime quality is accepted exactly when its profile and option are configured, its values are
  in range, and its frame size in 16 by 16 macroblocks (rounded up), its macroblock rate and its bitrate
  respect the limits of the profile; no intermediate product overflows.\<close>

theorem quality_validated:
  "qualityValidate profiles q = None \<longleftrightarrow>
    (\<exists>p. fmlookup profiles (qProfile q) = Some p \<and> (\<exists>op. fmlookup (pfOptions p) (qOption q) = Some op)
      \<and> 320 \<le> qWidth q \<and> qWidth q \<le> 7680 \<and> even (qWidth q) \<and> 240 \<le> qHeight q \<and> qHeight q \<le> 4320 \<and> even (qHeight q)
      \<and> 1 \<le> qFramerate q \<and> qFramerate q \<le> 120 \<and> 100 \<le> qBitrateKbps q
      \<and> (let l = pfLimits p; w = (qWidth q + 15) div 16; h = (qHeight q + 15) div 16
         in (qlMaxMacroblocksPerDimension l \<le> 0 \<or> w \<le> qlMaxMacroblocksPerDimension l \<and> h \<le> qlMaxMacroblocksPerDimension l)
          \<and> (qlMaxMacroblocksPerFrame l \<le> 0 \<or> w * h \<le> qlMaxMacroblocksPerFrame l)
          \<and> (qlMaxMacroblocksPerSecond l \<le> 0 \<or> w * h * qFramerate q \<le> qlMaxMacroblocksPerSecond l)
          \<and> (qlMaxBitrateKbps l \<le> 0 \<or> qBitrateKbps q \<le> qlMaxBitrateKbps l)))"
proof (cases "validateQualityValues q = None")
  case True
  show ?thesis
    by (auto simp: qualityValidate_def True limits_exact [OF True] Let_def True [unfolded validateQualityValues_None] split: option.splits)
next
  case False
  then show ?thesis by (auto simp: qualityValidate_def validateQualityValues_None split: option.splits)
qed

section \<open>Witnesses\<close>

text \<open>A sorted list of the keys is an admissible loop order.\<close>

definition demoOption :: qualityOption where
  "demoOption = \<lparr>qoLabel = ''HD'', qoWidth = 1280, qoHeight = 720, qoFramerate = 30, qoBitrateKbps = 2500\<rparr>"

definition demoCodec :: rtpCodec where
  "demoCodec = \<lparr>rcID = ''vp8'', rcMimeType = ''video/VP8'', rcClockRate = 90000, rcChannels = 0, rcPayloadType = 96,
     rcPayloader = ''vp8'', rcSDPFmtpLine = [], rcRTCPFeedback = [],
     rcSDP = \<lparr>sdpOfferFmtp = fmempty, sdpAnswerFmtp = fmempty\<rparr>\<rparr>"

definition demoProfile :: encoderProfile where
  "demoProfile = \<lparr>pfLabel = ''VP8'', pfDefaultOption = ''hd'', pfOptions = fmupd ''hd'' demoOption fmempty,
     pfFrontendTransform = ''none'', pfPipeline = ''vp8enc'', pfEncoderElement = ''encoder'',
     pfBitrate = [\<lparr>epElement = ''encoder'', epProperty = ''target-bitrate'', epType = ''int'', epValue = ''2500000''\<rparr>],
     pfCodec = demoCodec,
     pfLimits = \<lparr>qlMaxBitrateKbps = 5000, qlMaxMacroblocksPerDimension = 0, qlMaxMacroblocksPerFrame = 3600, qlMaxMacroblocksPerSecond = 0\<rparr>\<rparr>"

text \<open>An engine whose templates contain no action: the source is the text.\<close>

definition plainEngine :: "string templateEngine" where
  "plainEngine = \<lparr>teParse = (\<lambda>name source. Inr source), teExecute = (\<lambda>_ _ _ t data. Inr t)\<rparr>"

lemma demo_property: "propertyRender plainEngine (hd (pfBitrate demoProfile)) ''vp8'' data = Inr (PropInt 2500000)"
proof -
  have "TrimSpace ''2500000'' = ''2500000''" by (simp add: TrimSpace_def runesW_code isSpace_def)
  moreover have "parseInt ''2500000'' = Inr 2500000" by (simp add: parseInt_def isDigit_def digitsVal_def digitVal_def)
  ultimately show ?thesis
    by (simp add: propertyRender_def renderProfileTemplate_def plainEngine_def demoProfile_def)
qed

lemma demo_values:
  "validateQualityValues (optionQuality demoOption ''vp8'' ''hd'') = None"
  "limitsValidate (pfLimits demoProfile) ''vp8'' (optionQuality demoOption ''vp8'' ''hd'') = None"
proof -
  show v: "validateQualityValues (optionQuality demoOption ''vp8'' ''hd'') = None"
    by (simp add: validateQualityValues_None optionQuality_def demoOption_def)
  show "limitsValidate (pfLimits demoProfile) ''vp8'' (optionQuality demoOption ''vp8'' ''hd'') = None"
    unfolding limits_exact [OF v] by (simp add: optionQuality_def demoOption_def demoProfile_def)
qed

lemma demo_order: "keyOrder sorted_list_of_fset"
  by (simp add: keyOrder_def)

definition demoTuning :: tuning where
  "demoTuning = \<lparr>tnThreads = 4, tnKeyframeInterval = 60, tnVP8CPUUsed = 8\<rparr>"

definition demoProfiles :: profiles where
  "demoProfiles = fmupd ''vp8'' demoProfile fmempty"

lemma demo_identifiers: "profileIdentifier ''vp8''" "profileIdentifier ''hd''" "profileIdentifier ''encoder''"
  by (simp_all add: profileIdentifier_def identStart_def isDigit_def)

lemma demo_codec: "codecValidate sorted_list_of_fset (\<lambda>_. None) ''vp8'' demoCodec = None"
  by (simp add: codecValidate_def demoCodec_def demo_identifiers)

lemma demo_profile: "profileValidate plainEngine sorted_list_of_fset (\<lambda>_. None) demoProfile ''vp8'' demoTuning = None"
proof -
  have "\<forall>e \<in> set (optionErrors plainEngine demoProfile ''vp8'' demoTuning ''hd'' demoOption). e = None"
    using demo_property demo_values
    by (auto simp: optionErrors_def Let_def demo_identifiers demoOption_def renderError_def renderProfileTemplate_def plainEngine_def demoProfile_def enumerate_eq_zip)
  then show ?thesis
    unfolding profileValidate_def errorsJoin_None_iff set_append ball_Un loop_None [OF demo_order]
    using demo_codec by (auto simp: demoProfile_def demo_identifiers enumerate_eq_zip split: if_splits)
qed

lemma demo_quality: "qualityValidate demoProfiles (optionQuality demoOption ''vp8'' ''hd'') = None" "demoProfiles \<noteq> fmempty"
proof -
  show "qualityValidate demoProfiles (optionQuality demoOption ''vp8'' ''hd'') = None"
    using demo_values by (simp add: qualityValidate_def demoProfiles_def optionQuality_def demoProfile_def)
  show "demoProfiles \<noteq> fmempty" unfolding demoProfiles_def by (metis fmdom_empty fmdom_fmupd finsert_not_fempty)
qed

lemma demo_valid:
  "ValidateProfiles plainEngine sorted_list_of_fset (\<lambda>_. None) demoProfiles (optionQuality demoOption ''vp8'' ''hd'') demoTuning = None"
  unfolding ValidateProfiles_None [OF demo_order] using demo_quality demo_profile by (auto simp: demoProfiles_def split: if_splits)

theorem profiles_validated_witness:
  "qualityValidate demoProfiles (optionQuality demoOption ''vp8'' ''hd'') = None \<and> fmlookup (pfOptions demoProfile) (pfDefaultOption demoProfile) \<noteq> None"
proof -
  have "fmlookup demoProfiles ''vp8'' = Some demoProfile" "fmlookup (pfOptions demoProfile) ''hd'' = Some demoOption"
    by (simp_all add: demoProfiles_def demoProfile_def)
  then show ?thesis
    using profiles_validated [OF demo_order, of plainEngine "\<lambda>_. None" demoProfiles "optionQuality demoOption ''vp8'' ''hd''" demoTuning]
      demo_valid by metis
qed

text \<open>
  With an empty offer pattern the transport's copy of the compatibility test accepts codecs that differ.
\<close>

lemma transport_compatible_differs:
  "let c = (\<lambda>k. demoCodec\<lparr>rcSDP := \<lparr>sdpOfferFmtp = fmupd k [] fmempty, sdpAnswerFmtp = fmempty\<rparr>\<rparr>)
   in transportCompatible sorted_list_of_fset (c ''a'') (c ''b'') \<and> c ''a'' \<noteq> c ''b''"
proof -
  have "fmupd ''a'' [] fmempty \<noteq> (fmupd ''b'' [] fmempty :: (string, string) fmap)"
  proof
    assume eq: "fmupd ''a'' [] fmempty = (fmupd ''b'' [] fmempty :: (string, string) fmap)"
    have "fmlookup (fmupd ''a'' [] fmempty :: (string, string) fmap) ''a'' = fmlookup (fmupd ''b'' [] fmempty) ''a''"
      by (simp only: eq)
    then show False by simp
  qed
  then show ?thesis
    by (simp add: transportCompatible_def sameCodecFields_def sameFeedback_def mapIndex_def demoCodec_def list_all_iff fcard.rep_eq)
qed

end
