(* ===== verification/Sdp_Negotiation.thy ===== *)
theory Sdp_Negotiation
  imports Media_Quality
begin

text \<open>
  SDP checks of the signaling (\<open>validateAudioOffer\<close>, \<open>validateVideoOffer\<close> and \<open>rewriteVideoAnswer\<close> in
  \<open>src/webrtc/protocol.go\<close>).  Parsing and printing of session descriptions is done by pion: \<open>unmarshal\<close> and
  \<open>marshal\<close> are arguments.  The Unicode tables of the string functions are arguments too: \<open>casefold\<close> maps a rune
  to a representative of those that \<open>EqualFold\<close> identifies, \<open>lower\<close> is \<open>strings.ToLower\<close>; \<open>matches\<close> is the
  match of a regular expression.
\<close>

subsection \<open>String functions\<close>

text \<open>\<open>strings.Split\<close> at a one-byte separator.\<close>

fun splitChar :: "char \<Rightarrow> string \<Rightarrow> string list" where
  "splitChar sep [] = [[]]"
| "splitChar sep (c # cs) = (if c = sep then [] # splitChar sep cs else (case splitChar sep cs of p # ps \<Rightarrow> (c # p) # ps | [] \<Rightarrow> [[c]]))"

text \<open>\<open>strings.Cut\<close> at a one-byte separator, and \<open>strings.SplitN(s, sep, 2)\<close> when it has two parts.\<close>

definition Cut :: "char \<Rightarrow> string \<Rightarrow> (string \<times> string) option" where
  "Cut sep s = (if sep \<in> set s then Some (takeWhile (\<lambda>c. c \<noteq> sep) s, tl (dropWhile (\<lambda>c. c \<noteq> sep) s)) else None)"

fun joinChar :: "char \<Rightarrow> string list \<Rightarrow> string" where
  "joinChar sep [] = []"
| "joinChar sep [p] = p"
| "joinChar sep (p # q # ps) = p @ sep # joinChar sep (q # ps)"

text \<open>\<open>strings.Fields\<close>.\<close>

fun fieldsFrom :: "(nat \<times> nat) list \<Rightarrow> string \<Rightarrow> string \<Rightarrow> string list" where
  "fieldsFrom [] s field = (if field = [] then [] else [field])"
| "fieldsFrom (rw # rws) s field =
    (if isSpace (int (fst rw)) then (if field = [] then [] else [field]) @ fieldsFrom rws (drop (snd rw) s) []
     else fieldsFrom rws (drop (snd rw) s) (field @ take (snd rw) s))"

definition Fields :: "string \<Rightarrow> string list" where
  "Fields s = fieldsFrom (runesW (map byte_of s)) s []"

definition EqualFold :: "(nat \<Rightarrow> nat) \<Rightarrow> string \<Rightarrow> string \<Rightarrow> bool" where
  "EqualFold casefold s t \<longleftrightarrow> map casefold (runes s) = map casefold (runes t)"

definition TrimPrefix :: "string \<Rightarrow> string \<Rightarrow> string" where
  "TrimPrefix pre s = (if take (length pre) s = pre then drop (length pre) s else s)"

lemma splitChar_nonempty: "splitChar sep s \<noteq> []"
  by (induction s) (auto split: list.splits)

lemma splitChar_join: "\<forall>p\<in>set ps. sep \<notin> set p \<Longrightarrow> ps \<noteq> [] \<Longrightarrow> splitChar sep (joinChar sep ps) = ps"
proof (induction sep ps rule: joinChar.induct)
  case (2 sep p)
  then have "sep \<notin> set p" by simp
  then show ?case by (induction p) auto
next
  case (3 sep p q ps)
  then have IH: "splitChar sep (joinChar sep (q # ps)) = q # ps" and p: "sep \<notin> set p" by auto
  from p show ?case by (induction p) (auto simp: IH)
qed simp

lemma joinChar_split: "joinChar sep (splitChar sep s) = s"
proof (induction s)
  case (Cons c cs)
  obtain p ps where "splitChar sep cs = p # ps" using splitChar_nonempty [of sep cs] by (cases "splitChar sep cs") auto
  then show ?case using Cons by (cases ps) auto
qed simp

lemma splitChar_parts: "p \<in> set (splitChar sep s) \<Longrightarrow> sep \<notin> set p"
proof (induction s arbitrary: p)
  case (Cons c cs)
  obtain q qs where "splitChar sep cs = q # qs" using splitChar_nonempty [of sep cs] by (cases "splitChar sep cs") auto
  then show ?case using Cons by (auto split: if_splits)
qed simp

subsection \<open>Session descriptions\<close>

record mediaDescription =
  mdMedia :: string
  mdPort :: int
  mdFormats :: "string list"
  mdAttributes :: "(string \<times> string) list"

text \<open>The codec payloads that \<open>rtpmap\<close> attributes of a section name.\<close>

definition rtpmapMatches :: "(nat \<Rightarrow> nat) \<Rightarrow> rtpCodec \<Rightarrow> string \<Rightarrow> bool" where
  "rtpmapMatches casefold codec encoding =
    (let codecFields = splitChar (CHR ''/'') encoding
     in length codecFields \<ge> 2 \<and> EqualFold casefold (codecFields ! 0) (TrimPrefix ''video/'' (rcMimeType codec))
        \<and> codecFields ! 1 = decimal (unat (rcClockRate codec))
        \<and> (rcChannels codec = 0 \<and> length codecFields = 2
           \<or> rcChannels codec > 0 \<and> length codecFields = 3 \<and> codecFields ! 2 = decimal (unat (rcChannels codec))))"

fun codecPayloads :: "(nat \<Rightarrow> nat) \<Rightarrow> rtpCodec \<Rightarrow> (string \<times> string) list \<Rightarrow> string list" where
  "codecPayloads casefold codec [] = []"
| "codecPayloads casefold codec ((key, val) # attrs) =
    (case Fields val of
       [payload, encoding] \<Rightarrow> (if key = ''rtpmap'' \<and> rtpmapMatches casefold codec encoding then [payload] else []) @ codecPayloads casefold codec attrs
     | _ \<Rightarrow> codecPayloads casefold codec attrs)"

subsection \<open>Audio offers\<close>

definition opusMap :: "(nat \<Rightarrow> nat) \<Rightarrow> string list \<Rightarrow> string \<times> string \<Rightarrow> bool" where
  "opusMap casefold formats attr =
    (fst attr = ''rtpmap'' \<and>
     (case Fields (snd attr) of
        [payload, encoding] \<Rightarrow> payload \<in> set formats \<and>
          (let codec = splitChar (CHR ''/'') encoding
           in length codec = 3 \<and> EqualFold casefold (codec ! 0) ''opus'' \<and> codec ! 1 = ''48000'' \<and> codec ! 2 = ''2'')
      | _ \<Rightarrow> False))"

fun lastDirection :: "string \<Rightarrow> (string \<times> string) list \<Rightarrow> string" where
  "lastDirection d [] = d"
| "lastDirection d ((key, val) # attrs) =
    lastDirection (if key \<in> {''sendrecv'', ''sendonly'', ''recvonly'', ''inactive''} then key else d) attrs"

definition recvCapable :: "mediaDescription \<Rightarrow> bool" where
  "recvCapable md \<longleftrightarrow> mdMedia md = ''audio'' \<and> mdPort md \<noteq> 0 \<and> lastDirection [] (mdAttributes md) \<in> {''recvonly'', ''sendrecv''}"

text \<open>The loop: whether there is an audio section, the number of sections that can receive, and whether one of them
  has Opus.\<close>

fun audioSections :: "(nat \<Rightarrow> nat) \<Rightarrow> mediaDescription list \<Rightarrow> bool \<times> int \<times> bool \<Rightarrow> bool \<times> int \<times> bool" where
  "audioSections casefold [] r = r"
| "audioSections casefold (md # mds) (found, count, compatible) =
    audioSections casefold mds
      (if mdMedia md \<noteq> ''audio'' then (found, count, compatible)
       else if mdPort md = 0 then (True, count, compatible)
       else if lastDirection [] (mdAttributes md) \<noteq> ''recvonly'' \<and> lastDirection [] (mdAttributes md) \<noteq> ''sendrecv'' then (True, count, compatible)
       else (True, count + 1, compatible \<or> list_ex (opusMap casefold (mdFormats md)) (mdAttributes md)))"

definition validateAudioOffer :: "(nat \<Rightarrow> nat) \<Rightarrow> (string \<Rightarrow> goerror + mediaDescription list) \<Rightarrow> string \<Rightarrow> goerror option" where
  "validateAudioOffer casefold unmarshal raw =
    (case unmarshal raw of
       Inl err \<Rightarrow> Some err
     | Inr mds \<Rightarrow>
         let (foundAudio, recvCapableCount, compatible) = audioSections casefold mds (False, 0, False)
         in if \<not> foundAudio then Some (errorsNew ''offer does not contain the audio media section required by enabled audio'')
            else if recvCapableCount = 0 then Some (errorsNew ''offer does not contain an active recv-capable audio media section'')
            else if recvCapableCount > 1 then Some (errorsNew ''offer contains multiple active recv-capable audio media sections'')
            else if compatible then None
            else Some (errorsNew ''offer does not advertise Opus/48000/2 in an active recv-capable audio media section''))"

subsection \<open>Video offers\<close>

text \<open>The parameter map of an \<open>fmtp\<close> value: later entries replace earlier ones.\<close>

definition fmtpParameters :: "(string \<Rightarrow> string) \<Rightarrow> string \<Rightarrow> string \<Rightarrow> string option" where
  "fmtpParameters lower val = foldl (\<lambda>m parameter.
     (case Cut (CHR ''='') parameter of Some (k, v) \<Rightarrow> m(lower (TrimSpace k) \<mapsto> TrimSpace v) | None \<Rightarrow> m)) Map.empty (splitChar (CHR '';'') val)"

definition offerFmtpMatches :: "(string fset \<Rightarrow> string list) \<Rightarrow> (string \<Rightarrow> string) \<Rightarrow> (string \<Rightarrow> string \<Rightarrow> bool) \<Rightarrow> rtpCodec \<Rightarrow> string list \<Rightarrow> string \<times> string \<Rightarrow> bool" where
  "offerFmtpMatches keys lower matches codec payloads attr =
    (fst attr = ''fmtp'' \<and>
     (case Cut (CHR '' '') (snd attr) of
        None \<Rightarrow> False
      | Some (payload, val) \<Rightarrow> payload \<in> set payloads \<and>
          list_all (\<lambda>key. case fmtpParameters lower val (lower key) of None \<Rightarrow> False
              | Some v \<Rightarrow> matches (mapIndex (sdpOfferFmtp (rcSDP codec)) key) v)
            (keys (fmdom (sdpOfferFmtp (rcSDP codec))))))"

definition videoSectionMatches :: "(string fset \<Rightarrow> string list) \<Rightarrow> (nat \<Rightarrow> nat) \<Rightarrow> (string \<Rightarrow> string) \<Rightarrow> (string \<Rightarrow> string \<Rightarrow> bool) \<Rightarrow> rtpCodec \<Rightarrow> mediaDescription \<Rightarrow> bool" where
  "videoSectionMatches keys casefold lower matches codec md =
    (mdMedia md = ''video'' \<and>
     (let payloads = codecPayloads casefold codec (mdAttributes md)
      in sdpOfferFmtp (rcSDP codec) = fmempty \<and> payloads \<noteq> []
         \<or> list_ex (offerFmtpMatches keys lower matches codec payloads) (mdAttributes md)))"

definition validateVideoOffer :: "(string fset \<Rightarrow> string list) \<Rightarrow> (nat \<Rightarrow> nat) \<Rightarrow> (string \<Rightarrow> string) \<Rightarrow> (string \<Rightarrow> string \<Rightarrow> bool)
    \<Rightarrow> (string \<Rightarrow> goerror + mediaDescription list) \<Rightarrow> string \<Rightarrow> rtpCodec \<Rightarrow> goerror option" where
  "validateVideoOffer keys casefold lower matches unmarshal raw codec =
    (case unmarshal raw of
       Inl err \<Rightarrow> Some err
     | Inr mds \<Rightarrow> if list_ex (videoSectionMatches keys casefold lower matches codec) mds then None
         else Some (Errorf ''offer does not support configured video codec %q'' [FStr (rcID codec)]))"

subsection \<open>Video answers\<close>

text \<open>The first parameter with the key gets the configured value.\<close>

definition parameterIs :: "(nat \<Rightarrow> nat) \<Rightarrow> string \<Rightarrow> string \<Rightarrow> bool" where
  "parameterIs casefold key parameter =
    (case Cut (CHR ''='') parameter of Some (k, v) \<Rightarrow> EqualFold casefold (TrimSpace k) key | None \<Rightarrow> False)"

fun rewriteFirst :: "(nat \<Rightarrow> nat) \<Rightarrow> string \<Rightarrow> string \<Rightarrow> string list \<Rightarrow> string list option" where
  "rewriteFirst casefold key val [] = None"
| "rewriteFirst casefold key val (parameter # ps) =
    (if parameterIs casefold key parameter then Some ((key @ CHR ''='' # val) # ps)
     else map_option (\<lambda>qs. parameter # qs) (rewriteFirst casefold key val ps))"

fun rewriteKeys :: "(nat \<Rightarrow> nat) \<Rightarrow> (string, string) fmap \<Rightarrow> string \<Rightarrow> string list \<Rightarrow> string list \<times> string \<times> string fset \<Rightarrow> string list \<times> string \<times> string fset" where
  "rewriteKeys casefold fmtp payload [] r = r"
| "rewriteKeys casefold fmtp payload (key # ks) (ps, val, rewritten) =
    rewriteKeys casefold fmtp payload ks
      (case rewriteFirst casefold key (mapIndex fmtp key) ps of
         None \<Rightarrow> (ps, val, rewritten)
       | Some qs \<Rightarrow> (qs, payload @ CHR '' '' # joinChar (CHR '';'') qs, finsert key rewritten))"

definition rewriteAttribute :: "(string fset \<Rightarrow> string list) \<Rightarrow> (nat \<Rightarrow> nat) \<Rightarrow> rtpCodec \<Rightarrow> string list \<Rightarrow> string \<times> string \<Rightarrow> string fset
    \<Rightarrow> (string \<times> string) \<times> string fset" where
  "rewriteAttribute keys casefold codec payloads attr rewritten =
    (if fst attr \<noteq> ''fmtp'' then (attr, rewritten)
     else (case Cut (CHR '' '') (snd attr) of
         None \<Rightarrow> (attr, rewritten)
       | Some (payload, rest) \<Rightarrow>
           if payload \<notin> set payloads then (attr, rewritten)
           else let (ps, val, rewritten') = rewriteKeys casefold (sdpAnswerFmtp (rcSDP codec)) payload (keys (fmdom (sdpAnswerFmtp (rcSDP codec))))
                  (splitChar (CHR '';'') rest, snd attr, rewritten)
                in ((fst attr, val), rewritten')))"

fun rewriteAttributes :: "(string fset \<Rightarrow> string list) \<Rightarrow> (nat \<Rightarrow> nat) \<Rightarrow> rtpCodec \<Rightarrow> string list \<Rightarrow> (string \<times> string) list \<Rightarrow> string fset
    \<Rightarrow> (string \<times> string) list \<times> string fset" where
  "rewriteAttributes keys casefold codec payloads [] rewritten = ([], rewritten)"
| "rewriteAttributes keys casefold codec payloads (attr # attrs) rewritten =
    (let (attr', r1) = rewriteAttribute keys casefold codec payloads attr rewritten;
         (attrs', r2) = rewriteAttributes keys casefold codec payloads attrs r1
     in (attr' # attrs', r2))"

fun rewriteSections :: "(string fset \<Rightarrow> string list) \<Rightarrow> (nat \<Rightarrow> nat) \<Rightarrow> rtpCodec \<Rightarrow> mediaDescription list \<Rightarrow> string fset
    \<Rightarrow> mediaDescription list \<times> string fset" where
  "rewriteSections keys casefold codec [] rewritten = ([], rewritten)"
| "rewriteSections keys casefold codec (md # mds) rewritten =
    (let (md', r1) = (if mdMedia md \<noteq> ''video'' then (md, rewritten)
           else let (attrs, r) = rewriteAttributes keys casefold codec (codecPayloads casefold codec (mdAttributes md)) (mdAttributes md) rewritten
                in (md\<lparr>mdAttributes := attrs\<rparr>, r));
         (mds', r2) = rewriteSections keys casefold codec mds r1
     in (md' # mds', r2))"

definition rewriteVideoAnswer :: "(string fset \<Rightarrow> string list) \<Rightarrow> (nat \<Rightarrow> nat) \<Rightarrow> (string \<Rightarrow> goerror + mediaDescription list)
    \<Rightarrow> (mediaDescription list \<Rightarrow> goerror + string) \<Rightarrow> string \<Rightarrow> rtpCodec \<Rightarrow> goerror + string" where
  "rewriteVideoAnswer keys casefold unmarshal marshal raw codec =
    (case unmarshal raw of
       Inl err \<Rightarrow> Inl err
     | Inr mds \<Rightarrow>
         let (mds', rewritten) = rewriteSections keys casefold codec mds {||}
         in if fcard rewritten \<noteq> fcard (fmdom (sdpAnswerFmtp (rcSDP codec)))
            then Inl (Errorf ''video answer did not contain configured %s fmtp parameters'' [FStr (rcID codec)])
            else marshal mds')"

section \<open>Audio and video offers\<close>

lemma audioSections_count:
  "audioSections casefold mds (found, count, compatible) =
     (found \<or> (\<exists>md\<in>set mds. mdMedia md = ''audio''), count + int (length (filter recvCapable mds)),
      compatible \<or> (\<exists>md\<in>set (filter recvCapable mds). list_ex (opusMap casefold (mdFormats md)) (mdAttributes md)))"
  by (induction mds arbitrary: found count compatible) (auto simp: recvCapable_def)

text \<open>An audio offer is accepted exactly when one section can receive and that section has Opus.\<close>

lemma audio_offer_accepted:
  "validateAudioOffer casefold unmarshal raw = None \<longleftrightarrow>
     (\<exists>mds md. unmarshal raw = Inr mds \<and> filter recvCapable mds = [md] \<and> list_ex (opusMap casefold (mdFormats md)) (mdAttributes md))"
proof (cases "unmarshal raw")
  case (Inr mds)
  have "length xs = 1 \<longleftrightarrow> xs \<noteq> [] \<and> \<not> 1 < length xs" for xs :: "mediaDescription list" by (cases xs) auto
  then have v: "validateAudioOffer casefold unmarshal raw = None \<longleftrightarrow>
      (\<exists>md\<in>set mds. mdMedia md = ''audio'') \<and> length (filter recvCapable mds) = 1
      \<and> (\<exists>md\<in>set (filter recvCapable mds). list_ex (opusMap casefold (mdFormats md)) (mdAttributes md))"
    using Inr by (auto simp: validateAudioOffer_def audioSections_count Let_def)
  show ?thesis
  proof (cases "filter recvCapable mds")
    case Nil
    then show ?thesis unfolding v using Inr by simp
  next
    case (Cons md rest)
    then have "md \<in> set (filter recvCapable mds)" by simp
    then have "\<exists>md\<in>set mds. mdMedia md = ''audio''" by (auto simp: recvCapable_def)
    then show ?thesis unfolding v using Inr Cons by (cases rest) simp_all
  qed
qed (simp add: validateAudioOffer_def)

lemma codecPayloads_set:
  "payload \<in> set (codecPayloads casefold codec attrs) \<longleftrightarrow>
     (\<exists>val encoding. (''rtpmap'', val) \<in> set attrs \<and> Fields val = [payload, encoding] \<and> rtpmapMatches casefold codec encoding)"
  by (induction attrs) (auto split: list.splits)

section \<open>Answers\<close>

text \<open>The configured parameters can be told apart and written.\<close>

definition answerKeysOK :: "(nat \<Rightarrow> nat) \<Rightarrow> (string, string) fmap \<Rightarrow> bool" where
  "answerKeysOK casefold fmtp \<longleftrightarrow>
     (\<forall>k v. fmlookup fmtp k = Some v \<longrightarrow> TrimSpace k = k \<and> CHR ''='' \<notin> set k \<and> CHR '';'' \<notin> set k \<and> CHR '';'' \<notin> set v)
     \<and> (\<forall>k k'. k |\<in>| fmdom fmtp \<and> k' |\<in>| fmdom fmtp \<and> EqualFold casefold k k' \<longrightarrow> k = k')"

definition parameter :: "(string, string) fmap \<Rightarrow> string \<Rightarrow> string" where
  "parameter fmtp k = k @ CHR ''='' # mapIndex fmtp k"

text \<open>The parameters that an \<open>fmtp\<close> attribute value sets.\<close>

definition attributeParameters :: "string \<Rightarrow> string list" where
  "attributeParameters val = (case Cut (CHR '' '') val of Some (payload, rest) \<Rightarrow> splitChar (CHR '';'') rest | None \<Rightarrow> [])"

lemma Cut_join: "sep \<notin> set a \<Longrightarrow> Cut sep (a @ sep # b) = Some (a, b)"
  by (induction a) (auto simp: Cut_def)

lemma rewriteFirst_Some:
  assumes "rewriteFirst casefold key val ps = Some qs"
  shows "length qs = length ps \<and> key @ CHR ''='' # val \<in> set qs
    \<and> (\<forall>p\<in>set ps. \<not> parameterIs casefold key p \<longrightarrow> p \<in> set qs) \<and> set qs \<subseteq> insert (key @ CHR ''='' # val) (set ps)"
  using assms by (induction ps arbitrary: qs) (auto split: if_splits)

text \<open>Parameters already set stay set when other keys are rewritten.\<close>

lemma parameter_other:
  assumes "answerKeysOK casefold fmtp" "k |\<in>| fmdom fmtp" "k' |\<in>| fmdom fmtp" "k \<noteq> k'"
  shows "\<not> parameterIs casefold k (parameter fmtp k')"
proof -
  have "CHR ''='' \<notin> set k'" "TrimSpace k' = k'" using assms(1,3) by (auto simp: answerKeysOK_def fmlookup_dom_iff)
  moreover have "\<not> EqualFold casefold k' k" using assms by (auto simp: answerKeysOK_def)
  ultimately show ?thesis by (simp add: parameterIs_def parameter_def Cut_join)
qed

text \<open>Invariant of the loop over the keys: the value prints the parameters, and the keys done are set.\<close>

definition attributeOK :: "(string, string) fmap \<Rightarrow> string \<Rightarrow> string fset \<Rightarrow> string list \<times> string \<times> string fset \<Rightarrow> bool" where
  "attributeOK fmtp payload before r \<longleftrightarrow> (case r of (ps, val, rewritten) \<Rightarrow>
     val = payload @ CHR '' '' # joinChar (CHR '';'') ps \<and> ps \<noteq> [] \<and> (\<forall>p\<in>set ps. CHR '';'' \<notin> set p)
     \<and> before |\<subseteq>| rewritten \<and> rewritten |\<subseteq>| before |\<union>| fmdom fmtp \<and> (\<forall>k. k |\<in>| rewritten \<longrightarrow> k |\<in>| before \<or> parameter fmtp k \<in> set ps))"

lemma rewriteKeys_step:
  assumes ok: "answerKeysOK casefold fmtp" and k: "key |\<in>| fmdom fmtp" and inv: "attributeOK fmtp payload before (ps, val, rewritten)"
    and r: "rewriteFirst casefold key (mapIndex fmtp key) ps = Some qs"
  shows "attributeOK fmtp payload before (qs, payload @ CHR '' '' # joinChar (CHR '';'') qs, finsert key rewritten)"
proof -
  note f = rewriteFirst_Some [OF r]
  have semi: "CHR '';'' \<notin> set (parameter fmtp key)"
    using ok k by (auto simp: answerKeysOK_def parameter_def mapIndex_def fmlookup_dom_iff)
  have keep: "parameter fmtp k' \<in> set qs" if "parameter fmtp k' \<in> set ps" "k' |\<in>| fmdom fmtp" for k'
    using f that parameter_other [OF ok k that(2)] by (cases "k' = key") (auto simp: parameter_def)
  have dom: "k' |\<in>| fmdom fmtp \<or> k' |\<in>| before" if "k' |\<in>| rewritten" for k' using inv that by (auto simp: attributeOK_def)
  have "k' |\<in>| before \<or> parameter fmtp k' \<in> set qs" if "k' |\<in>| finsert key rewritten" for k'
  proof (cases "k' = key")
    case True
    then show ?thesis using f by (simp add: parameter_def)
  next
    case False
    then have "k' |\<in>| rewritten" using that by simp
    then show ?thesis using inv keep dom unfolding attributeOK_def by blast
  qed
  moreover have "p \<in> set ps \<or> p = parameter fmtp key" if "p \<in> set qs" for p using f that by (auto simp: parameter_def)
  then have "\<forall>p\<in>set qs. CHR '';'' \<notin> set p" using inv semi unfolding attributeOK_def by blast
  moreover have "qs \<noteq> []" using f by auto
  moreover have "before |\<subseteq>| finsert key rewritten" "finsert key rewritten |\<subseteq>| before |\<union>| fmdom fmtp" using inv k by (auto simp: attributeOK_def)
  ultimately show ?thesis unfolding attributeOK_def by simp
qed

lemma rewriteKeys_OK:
  assumes "answerKeysOK casefold fmtp" "set ks \<subseteq> fset (fmdom fmtp)" "attributeOK fmtp payload before r"
  shows "attributeOK fmtp payload before (rewriteKeys casefold fmtp payload ks r)"
  using assms(2,3)
proof (induction ks arbitrary: r)
  case (Cons key ks)
  obtain ps val rewritten where r: "r = (ps, val, rewritten)" by (metis prod_cases3)
  have k: "key |\<in>| fmdom fmtp" using Cons.prems(1) by simp
  show ?case
  proof (cases "rewriteFirst casefold key (mapIndex fmtp key) ps")
    case None
    then show ?thesis using Cons.IH [of r] Cons.prems by (simp add: r)
  next
    case (Some qs)
    then show ?thesis using Cons.IH rewriteKeys_step [OF assms(1) k _ Some] Cons.prems by (simp add: r)
  qed
qed simp

text \<open>What the rewriting does to an attribute.\<close>

definition codecFmtp :: "string list \<Rightarrow> string \<times> string \<Rightarrow> bool" where
  "codecFmtp payloads attr \<longleftrightarrow> fst attr = ''fmtp'' \<and> (\<exists>payload rest. Cut (CHR '' '') (snd attr) = Some (payload, rest) \<and> payload \<in> set payloads)"

lemma Cut_Some: "Cut sep s = Some (a, b) \<Longrightarrow> s = a @ sep # b \<and> sep \<notin> set a"
proof -
  assume c: "Cut sep s = Some (a, b)"
  then have m: "sep \<in> set s" "a = takeWhile (\<lambda>c. c \<noteq> sep) s" "b = tl (dropWhile (\<lambda>c. c \<noteq> sep) s)" by (auto simp: Cut_def split: if_splits)
  then have "dropWhile (\<lambda>c. c \<noteq> sep) s = sep # b"
    by (metis (mono_tags, lifting) dropWhile_eq_Nil_conv hd_Cons_tl hd_dropWhile)
  then show ?thesis using m(2) takeWhile_dropWhile_id [of "\<lambda>c. c \<noteq> sep" s] by (auto dest: set_takeWhileD)
qed

lemma rewriteAttribute_OK:
  assumes ok: "answerKeysOK casefold (sdpAnswerFmtp (rcSDP codec))" "keyOrder keys"
    and r: "rewriteAttribute keys casefold codec payloads attr before = (attr', rewritten)"
  shows "fst attr' = fst attr \<and> (\<not> codecFmtp payloads attr \<longrightarrow> attr' = attr) \<and> codecFmtp payloads attr' = codecFmtp payloads attr
    \<and> before |\<subseteq>| rewritten \<and> rewritten |\<subseteq>| before |\<union>| fmdom (sdpAnswerFmtp (rcSDP codec))
    \<and> (\<forall>k. k |\<in>| rewritten \<longrightarrow> k |\<in>| before \<or> codecFmtp payloads attr' \<and> parameter (sdpAnswerFmtp (rcSDP codec)) k \<in> set (attributeParameters (snd attr')))"
proof (cases "codecFmtp payloads attr")
  case False
  then have "attr' = attr \<and> rewritten = before"
    using r by (auto simp: rewriteAttribute_def codecFmtp_def split: if_splits option.splits prod.splits)
  then show ?thesis by auto
next
  case True
  let ?fmtp = "sdpAnswerFmtp (rcSDP codec)"
  obtain payload rest where p: "fst attr = ''fmtp''" "Cut (CHR '' '') (snd attr) = Some (payload, rest)" "payload \<in> set payloads"
    using True by (auto simp: codecFmtp_def)
  obtain ps val rewritten' where k: "rewriteKeys casefold ?fmtp payload (keys (fmdom ?fmtp)) (splitChar (CHR '';'') rest, snd attr, before) = (ps, val, rewritten')"
    by (metis prod_cases3)
  then have res: "attr' = (fst attr, val)" "rewritten = rewritten'" using r p by (auto simp: rewriteAttribute_def)
  have c: "snd attr = payload @ CHR '' '' # rest" "CHR '' '' \<notin> set payload" using Cut_Some [OF p(2)] by auto
  have "attributeOK ?fmtp payload before (splitChar (CHR '';'') rest, snd attr, before)"
    using c splitChar_parts splitChar_nonempty by (auto simp: attributeOK_def joinChar_split)
  then have a: "attributeOK ?fmtp payload before (ps, val, rewritten')"
    using rewriteKeys_OK [OF ok(1), of "keys (fmdom ?fmtp)"] ok(2) k by (metis keyOrder_def order_refl)
  then have val: "val = payload @ CHR '' '' # joinChar (CHR '';'') ps" "ps \<noteq> []" "\<forall>p\<in>set ps. CHR '';'' \<notin> set p" by (auto simp: attributeOK_def)
  have "Cut (CHR '' '') val = Some (payload, joinChar (CHR '';'') ps)" using val(1) Cut_join [OF c(2)] by simp
  then have "attributeParameters val = ps" "codecFmtp payloads attr'"
    using splitChar_join [OF val(3,2)] res p by (auto simp: attributeParameters_def codecFmtp_def)
  then show ?thesis using a res True by (auto simp: attributeOK_def)
qed

lemma rewriteAttributes_OK:
  assumes "answerKeysOK casefold (sdpAnswerFmtp (rcSDP codec))" "keyOrder keys"
    and "rewriteAttributes keys casefold codec payloads attrs before = (attrs', rewritten)"
  shows "list_all2 (\<lambda>a a'. fst a' = fst a \<and> (\<not> codecFmtp payloads a \<longrightarrow> a' = a) \<and> codecFmtp payloads a' = codecFmtp payloads a) attrs attrs'
    \<and> before |\<subseteq>| rewritten \<and> rewritten |\<subseteq>| before |\<union>| fmdom (sdpAnswerFmtp (rcSDP codec))
    \<and> (\<forall>k. k |\<in>| rewritten \<longrightarrow> k |\<in>| before
        \<or> (\<exists>a\<in>set attrs'. codecFmtp payloads a \<and> parameter (sdpAnswerFmtp (rcSDP codec)) k \<in> set (attributeParameters (snd a))))"
  using assms(3)
proof (induction attrs arbitrary: before attrs' rewritten)
  case (Cons attr attrs)
  obtain attr' r1 where 1: "rewriteAttribute keys casefold codec payloads attr before = (attr', r1)" by fastforce
  obtain rest r2 where 2: "rewriteAttributes keys casefold codec payloads attrs r1 = (rest, r2)" by fastforce
  have res: "attrs' = attr' # rest" "rewritten = r2" using Cons.prems 1 2 by auto
  show ?case using rewriteAttribute_OK [OF assms(1,2) 1] Cons.IH [OF 2] unfolding res by (simp, blast)
qed simp

text \<open>What an answer keeps: its sections, and all attributes but the \<open>fmtp\<close> attributes of the codec in video sections.\<close>

definition sameAttribute :: "string list \<Rightarrow> string \<times> string \<Rightarrow> string \<times> string \<Rightarrow> bool" where
  "sameAttribute payloads a a' \<longleftrightarrow> fst a' = fst a \<and> (\<not> codecFmtp payloads a \<longrightarrow> a' = a) \<and> codecFmtp payloads a' = codecFmtp payloads a"

definition sameSection :: "(nat \<Rightarrow> nat) \<Rightarrow> rtpCodec \<Rightarrow> mediaDescription \<Rightarrow> mediaDescription \<Rightarrow> bool" where
  "sameSection casefold codec md md' \<longleftrightarrow> (\<exists>attrs. md' = md\<lparr>mdAttributes := attrs\<rparr>
     \<and> (if mdMedia md = ''video'' then list_all2 (sameAttribute (codecPayloads casefold codec (mdAttributes md))) (mdAttributes md) attrs
        else attrs = mdAttributes md))"

definition answerSets :: "(nat \<Rightarrow> nat) \<Rightarrow> rtpCodec \<Rightarrow> mediaDescription list \<Rightarrow> string \<Rightarrow> bool" where
  "answerSets casefold codec mds k \<longleftrightarrow> (\<exists>md\<in>set mds. \<exists>a\<in>set (mdAttributes md). mdMedia md = ''video'' \<and> fst a = ''fmtp''
     \<and> parameter (sdpAnswerFmtp (rcSDP codec)) k \<in> set (attributeParameters (snd a)))"

lemma rewriteSections_OK:
  assumes "answerKeysOK casefold (sdpAnswerFmtp (rcSDP codec))" "keyOrder keys"
    and "rewriteSections keys casefold codec mds before = (mds', rewritten)"
  shows "list_all2 (sameSection casefold codec) mds mds' \<and> before |\<subseteq>| rewritten \<and> rewritten |\<subseteq>| before |\<union>| fmdom (sdpAnswerFmtp (rcSDP codec))
    \<and> (\<forall>k. k |\<in>| rewritten \<longrightarrow> k |\<in>| before \<or> answerSets casefold codec mds' k)"
  using assms(3)
proof (induction mds arbitrary: before mds' rewritten)
  case (Cons md mds)
  let ?p = "codecPayloads casefold codec (mdAttributes md)"
  obtain attrs r where a: "rewriteAttributes keys casefold codec ?p (mdAttributes md) before = (attrs, r)" by fastforce
  obtain md' r1 where 1: "md' = (if mdMedia md \<noteq> ''video'' then md else md\<lparr>mdAttributes := attrs\<rparr>)" "r1 = (if mdMedia md \<noteq> ''video'' then before else r)"
    by blast
  obtain rest r2 where 2: "rewriteSections keys casefold codec mds r1 = (rest, r2)" by fastforce
  have res: "mds' = md' # rest" "rewritten = r2" using Cons.prems a 1 2 by (auto split: if_splits)
  note A = rewriteAttributes_OK [OF assms(1,2) a] and IH = Cons.IH [OF 2]
  have s: "sameSection casefold codec md md'"
    using A 1(1) unfolding sameSection_def sameAttribute_def [abs_def] by (intro exI [of _ "mdAttributes md'"]) auto
  have b: "before |\<subseteq>| r1 \<and> r1 |\<subseteq>| before |\<union>| fmdom (sdpAnswerFmtp (rcSDP codec))" using A 1(2) by auto
  have "answerSets casefold codec [md'] k" if "k |\<in>| r1" "k |\<notin>| before" for k
    using A 1 that by (auto simp: answerSets_def codecFmtp_def split: if_splits)
  then have new: "k |\<in>| r1 \<Longrightarrow> k |\<in>| before \<or> answerSets casefold codec (md' # rest) k" for k by (auto simp: answerSets_def)
  have "answerSets casefold codec rest k \<Longrightarrow> answerSets casefold codec (md' # rest) k" for k by (auto simp: answerSets_def)
  then show ?case using IH s b new unfolding res by (simp, blast)
qed (simp add: answerSets_def)

section \<open>Property\<close>


section \<open>Witness\<close>

definition asciiFold :: "nat \<Rightarrow> nat" where
  "asciiFold r = (if 65 \<le> r \<and> r \<le> 90 then r + 32 else r)"

definition demoH264 :: rtpCodec where
  "demoH264 = \<lparr>rcID = ''h264'', rcMimeType = ''video/H264'', rcClockRate = 90000, rcChannels = 0, rcPayloadType = 96, rcPayloader = ''h264'',
     rcSDPFmtpLine = [], rcRTCPFeedback = [], rcSDP = \<lparr>sdpOfferFmtp = fmempty, sdpAnswerFmtp = fmupd ''plid'' ''42e01f'' fmempty\<rparr>\<rparr>"

definition demoAnswer :: "mediaDescription list" where
  "demoAnswer = [\<lparr>mdMedia = ''video'', mdPort = 9, mdFormats = [''96''], mdAttributes = [(''rtpmap'', ''96 H264/90000''), (''fmtp'', ''96 a=1;plid=42001f'')]\<rparr>]"

lemma demo_fields: "Fields ''96 H264/90000'' = [''96'', ''H264/90000'']" "Fields ''96 a=1;plid=42001f'' = [''96'', ''a=1;plid=42001f'']"
  by (simp_all add: Fields_def runesW_code isSpace_def)

lemma demo_payloads: "codecPayloads asciiFold demoH264 [(''rtpmap'', ''96 H264/90000''), (''fmtp'', ''96 a=1;plid=42001f'')] = [''96'']"
proof -
  have "char_of (57 :: nat) = CHR ''9''" "char_of (48 :: nat) = CHR ''0''" by code_simp+
  then have "decimal (unat (rcClockRate demoH264)) = ''90000''" by (simp add: demoH264_def decimal.simps)
  moreover have "splitChar (CHR ''/'') ''H264/90000'' = [''H264'', ''90000'']" by simp
  moreover have "TrimPrefix ''video/'' (rcMimeType demoH264) = ''H264''" "rcChannels demoH264 = 0" by (simp_all add: TrimPrefix_def demoH264_def)
  ultimately have "rtpmapMatches asciiFold demoH264 ''H264/90000''" by (simp add: rtpmapMatches_def EqualFold_def)
  then show ?thesis by (simp add: demo_fields)
qed

lemma demo_keys: "answerKeysOK asciiFold (sdpAnswerFmtp (rcSDP demoH264))"
proof -
  have "TrimSpace ''plid'' = ''plid''" by (simp add: TrimSpace_def runesW_code isSpace_def)
  then show ?thesis by (auto simp: answerKeysOK_def demoH264_def split: if_splits)
qed

lemma demo_rewrite:
  "rewriteVideoAnswer sorted_list_of_fset asciiFold (\<lambda>_. Inr demoAnswer) (\<lambda>mds. Inr (snd (last (mdAttributes (hd mds))))) [] demoH264
     = Inr ''96 a=1;plid=42e01f''"
proof -
  have k: "sorted_list_of_fset {|''plid''|} = [''plid'']" by (simp add: sorted_list_of_fset.rep_eq)
  have "TrimSpace ''a'' = ''a''" "TrimSpace ''plid'' = ''plid''" by (simp_all add: TrimSpace_def runesW_code isSpace_def)
  moreover have "runes ''a'' = [97]" "runes ''plid'' = [112, 108, 105, 100]" by (simp_all add: runes_def runesW_code)
  ultimately have f: "parameterIs asciiFold ''plid'' ''a=1'' = False" "parameterIs asciiFold ''plid'' ''plid=42001f'' = True"
    by (simp_all add: parameterIs_def Cut_def EqualFold_def)
  have a: "sdpAnswerFmtp (rcSDP demoH264) = fmupd ''plid'' ''42e01f'' fmempty" by (simp add: demoH264_def)
  show ?thesis
    by (simp add: rewriteVideoAnswer_def demoAnswer_def demo_payloads rewriteAttribute_def a k f mapIndex_def Cut_def del: codecPayloads.simps)
qed


end
