(* ===== verification/Video_Pipeline.thy ===== *)
theory Video_Pipeline
  imports Media_Quality
begin

text \<open>
  The encoder pipeline (\<open>src/media/persistent_pipeline.go\<close>): the sample slot between capture and encoders,
  the lifecycle of an encoder branch, and the replacement of the active branch by a candidate while both
  run.  Goroutines and GStreamer callbacks are interleaved step by step; a mutex is a guard on the steps it
  excludes.  GStreamer itself is an argument: the outcome of every call into it.
\<close>

subsection \<open>The sample slot\<close>

text \<open>
  \<open>changed\<close> is a channel that \<open>Store\<close> closes and replaces; it is identified by the number of channels
  created so far, so a channel is closed when its number is below the current one or the slot is closed.
\<close>

record 'f videoSampleSlot =
  slSample :: "'f option"
  slSequence :: uint64
  slChanged :: nat
  slClosed :: bool

definition newVideoSampleSlot :: "'f videoSampleSlot" where
  "newVideoSampleSlot = \<lparr>slSample = None, slSequence = 0, slChanged = 0, slClosed = False\<rparr>"

definition slotStore :: "'f \<Rightarrow> 'f videoSampleSlot \<Rightarrow> bool \<times> 'f videoSampleSlot" where
  "slotStore sample s =
    (if slClosed s then (False, s)
     else (True, s\<lparr>slSample := Some sample, slSequence := slSequence s + 1, slChanged := Suc (slChanged s)\<rparr>))"

datatype 'f slotNext = SlotClosed | SlotFrame 'f uint64 | SlotWait nat

definition slotNext :: "uint64 \<Rightarrow> 'f videoSampleSlot \<Rightarrow> 'f slotNext" where
  "slotNext after s =
    (if slClosed s then SlotClosed
     else case slSample s of
       Some f \<Rightarrow> if slSequence s \<noteq> after then SlotFrame f (slSequence s) else SlotWait (slChanged s)
     | None \<Rightarrow> SlotWait (slChanged s))"

definition slotClose :: "'f videoSampleSlot \<Rightarrow> 'f videoSampleSlot" where
  "slotClose s = (if slClosed s then s else s\<lparr>slClosed := True, slSample := None\<rparr>)"

definition changedClosed :: "nat \<Rightarrow> 'f videoSampleSlot \<Rightarrow> bool" where
  "changedClosed ch s \<longleftrightarrow> slClosed s \<or> ch < slChanged s"

subsection \<open>Encoder branches\<close>

record videoEncoderBranch =
  vbGeneration :: uint64
  vbNamePrefix :: string
  vbQuality :: quality
  vbProfile :: encoderProfile
  vbTuning :: tuning
  vbActive :: bool
  vbReady :: bool
  vbFailed :: "goerror option"
  vbStop :: bool
  vbDone :: bool
  vbClosed :: bool
  vbInputStarted :: bool
  vbErr :: "goerror option"
  vbTraceBitrate :: int

text \<open>What GStreamer answers: building a pipeline from its description, finding an element, adding a probe, setting a property.\<close>

record gstreamer =
  gsPipeline :: "string \<Rightarrow> goerror option"
  gsElement :: "string \<Rightarrow> goerror option"
  gsSource :: "string \<Rightarrow> bool"
  gsSink :: "string \<Rightarrow> bool"
  gsProbe :: "string \<Rightarrow> string \<Rightarrow> goerror option"
  gsSet :: "string \<Rightarrow> string \<Rightarrow> propertyValue \<Rightarrow> goerror option"

fun joinSpace :: "string list \<Rightarrow> string" where
  "joinSpace [] = []"
| "joinSpace [s] = s"
| "joinSpace (s # ss) = s @ '' '' @ joinSpace ss"

definition branchPrefix :: "uint64 \<Rightarrow> string" where
  "branchPrefix generation = ''video-branch-'' @ showInt (uint generation)"

definition branchDescription :: "string \<Rightarrow> quality \<Rightarrow> string \<Rightarrow> string" where
  "branchDescription namePrefix q profilePath = joinSpace
    [''appsrc'', ''name='' @ namePrefix @ ''-appsrc'', ''is-live=true'', ''format=time'', ''do-timestamp=true'', ''block=false'',
     ''max-buffers=1'', ''max-bytes=0'', ''max-time=0'', ''leaky-type=downstream'', ''emit-signals=false'', ''!'',
     joinSpace [''videorate'', ''name='' @ namePrefix @ ''-rate'', ''drop-only=true'', ''max-rate='' @ showInt (qFramerate q), ''skip-to-first=true''],
     ''!'', profilePath, ''!'', ''appsink'', ''name='' @ namePrefix @ ''-appsink'', ''max-buffers=1'', ''wait-on-eos=false'',
     ''enable-last-sample=false'', ''sync=false'', ''async=false'']"

definition newVideoEncoderBranch :: "'t templateEngine \<Rightarrow> gstreamer \<Rightarrow> uint64 \<Rightarrow> quality \<Rightarrow> encoderProfile \<Rightarrow> tuning
    \<Rightarrow> goerror + videoEncoderBranch" where
  "newVideoEncoderBranch tmpl gst generation q profile t =
    (let namePrefix = branchPrefix generation in
     case RenderPipeline tmpl profile (qProfile q) namePrefix q t of
       Inl err \<Rightarrow> Inl err
     | Inr profilePath \<Rightarrow>
       (case gsPipeline gst (branchDescription namePrefix q profilePath) of
          Some err \<Rightarrow> Inl (Wrap ''create %s encoder pipeline: %w'' err [FStr (qProfile q)])
        | None \<Rightarrow>
       (case gsElement gst (namePrefix @ ''-appsrc'') of
          Some err \<Rightarrow> Inl (Wrap ''get encoder branch appsrc: %w'' err [])
        | None \<Rightarrow>
          if \<not> gsSource gst (namePrefix @ ''-appsrc'') then Inl (errorsNew ''encoder branch source is not a GStreamer appsrc'')
          else
       (case gsElement gst (namePrefix @ ''-rate'') of
          Some err \<Rightarrow> Inl (Wrap ''get encoder branch videorate: %w'' err [])
        | None \<Rightarrow>
       (case gsElement gst (namePrefix @ ''-'' @ pfEncoderElement profile) of
          Some err \<Rightarrow> Inl (Wrap ''get encoder branch encoder: %w'' err [])
        | None \<Rightarrow>
       (case gsElement gst (namePrefix @ ''-appsink'') of
          Some err \<Rightarrow> Inl (Wrap ''get encoder branch appsink: %w'' err [])
        | None \<Rightarrow>
          if \<not> gsSink gst (namePrefix @ ''-appsink'') then Inl (errorsNew ''encoder branch sink is not a GStreamer appsink'')
          else
       (case somes [gsProbe gst (namePrefix @ ''-rate'') ''src'', gsProbe gst (namePrefix @ ''-'' @ pfEncoderElement profile) ''sink'',
                    gsProbe gst (namePrefix @ ''-'' @ pfEncoderElement profile) ''src''] of
          err # _ \<Rightarrow> Inl err
        | [] \<Rightarrow> Inr \<lparr>vbGeneration = generation, vbNamePrefix = namePrefix, vbQuality = q, vbProfile = profile, vbTuning = t,
             vbActive = False, vbReady = False, vbFailed = None, vbStop = False, vbDone = False, vbClosed = False,
             vbInputStarted = False, vbErr = None, vbTraceBitrate = qBitrateKbps q\<rparr>)))))))"

text \<open>The loop over the live properties: it stops at the first element or property that fails; what was set stays set.\<close>

fun setProperties :: "gstreamer \<Rightarrow> string \<Rightarrow> (encoderProperty \<times> propertyValue) list
    \<Rightarrow> goerror option \<times> (string \<times> string \<times> propertyValue) list" where
  "setProperties gst prefix [] = (None, [])"
| "setProperties gst prefix ((p, v) # ps) =
    (case gsElement gst (prefix @ ''-'' @ epElement p) of
       Some err \<Rightarrow> (Some (Wrap ''get live bitrate element %q: %w'' err [FStr (epElement p)]), [])
     | None \<Rightarrow> (case gsSet gst (prefix @ ''-'' @ epElement p) (epProperty p) v of
         Some err \<Rightarrow> (Some (Wrap ''set %s.%s live bitrate property: %w'' err [FStr (epElement p), FStr (epProperty p)]), [])
       | None \<Rightarrow> (let (e, done') = setProperties gst prefix ps in (e, (epElement p, epProperty p, v) # done'))))"

definition branchSetBitrate :: "'t templateEngine \<Rightarrow> gstreamer \<Rightarrow> int \<Rightarrow> videoEncoderBranch
    \<Rightarrow> goerror option \<times> (string \<times> string \<times> propertyValue) list \<times> videoEncoderBranch" where
  "branchSetBitrate tmpl gst bitrateKbps b =
    (let nxt = (vbQuality b)\<lparr>qBitrateKbps := bitrateKbps\<rparr> in
     case RenderBitrate tmpl (vbProfile b) (qProfile nxt) (vbNamePrefix b) nxt (vbTuning b) of
       Inl err \<Rightarrow> (Some err, [], b)
     | Inr values \<Rightarrow>
         (case setProperties gst (vbNamePrefix b) (zip (pfBitrate (vbProfile b)) values) of
            (Some err, applied) \<Rightarrow> (Some err, applied, b)
          | (None, applied) \<Rightarrow> (None, applied, b\<lparr>vbQuality := nxt, vbTraceBitrate := bitrateKbps\<rparr>)))"

definition branchSetErr :: "goerror \<Rightarrow> videoEncoderBranch \<Rightarrow> videoEncoderBranch" where
  "branchSetErr err b = b\<lparr>vbErr := errorsJoin [vbErr b, Some err]\<rparr>"

text \<open>\<open>Stop\<close> closes the channel and then waits until no emit is in flight: two steps.\<close>

definition stopClose :: "videoEncoderBranch \<Rightarrow> videoEncoderBranch" where
  "stopClose b = b\<lparr>vbStop := True\<rparr>"

definition failBegin :: "goerror \<Rightarrow> videoEncoderBranch \<Rightarrow> videoEncoderBranch" where
  "failBegin err b = stopClose (branchSetErr err b)"

definition failEnd :: "goerror \<Rightarrow> videoEncoderBranch \<Rightarrow> videoEncoderBranch" where
  "failEnd err b = b\<lparr>vbFailed := (if vbFailed b = None then Some err else vbFailed b), vbDone := True\<rparr>"

definition closeBegin :: "videoEncoderBranch \<Rightarrow> videoEncoderBranch" where
  "closeBegin b = stopClose (b\<lparr>vbClosed := True\<rparr>)"

definition closeEnd :: "goerror option \<Rightarrow> videoEncoderBranch \<Rightarrow> videoEncoderBranch" where
  "closeEnd stateErr b =
    (case stateErr of None \<Rightarrow> b | Some err \<Rightarrow> branchSetErr (Wrap ''stop GStreamer encoder pipeline: %w'' err []) b)\<lparr>vbDone := True\<rparr>"

text \<open>The guard of \<open>activateIfHealthy\<close>; the activation itself is part of the promotion below.\<close>

definition activationError :: "videoEncoderBranch \<Rightarrow> goerror option" where
  "activationError b =
    (case vbErr b of Some err \<Rightarrow> Some err
     | None \<Rightarrow> if vbStop b then Some (errorsNew ''video encoder branch stopped before activation'') else None)"


subsection \<open>The pipeline\<close>

text \<open>
  What the appsink callback of a branch is doing (\<open>handleSample\<close>), with the keyframe flag of its sample:
  before the gate, waiting at the gate with the first keyframe, past the gate, or inside \<open>emit\<close> with
  \<open>emitMu\<close> held.  After it has returned anything but \<open>FlowOK\<close> GStreamer stops the streaming task.
\<close>

datatype sinkPhase = SinkIdle | SinkGate bool | SinkWait | SinkPast bool | SinkEmit bool | SinkHalted

text \<open>
  Who holds \<open>replaceMu\<close>.  A call of \<open>ReplaceQuality\<close>, with the candidate and the old branch: the
  candidate built, started, registered, both running, ready, the keepalive set, in the middle of
  \<open>activateIfHealthy\<close>, rolling back, closing the candidate, returning.  A call of \<open>Close\<close>: capture
  stopped, the active branch detached.
\<close>

datatype replacer =
    RIdle
  | RBuilt nat nat
  | RStarted nat nat
  | RRegistered nat nat
  | RWaiting nat nat
  | RReady nat nat
  | RKept nat nat
  | RPromoting nat nat
  | RRollback goerror nat nat
  | RClosing goerror nat
  | RReturned "goerror option"
  | RShutdown
  | RDetached "nat option"

text \<open>
  Branches are objects in a heap, addressed by the order of their creation.  The last four fields are
  history: \<open>psWatched\<close> holds the branches whose \<open>watchBranch\<close> goroutine has ended, \<open>psEmitted\<close> the emitted
  samples (branch and keyframe flag), \<open>psRequested\<close> and \<open>psBefore\<close> the quality and the active branch of the
  last call of \<open>ReplaceQuality\<close>.
\<close>

record pipeState =
  psHeap :: "nat \<Rightarrow> videoEncoderBranch option"
  psAlloc :: nat
  psSink :: "nat \<Rightarrow> sinkPhase"
  psBranch :: "nat option"
  psCandidate :: "nat option"
  psNextGeneration :: uint64
  psReplace :: replacer
  psKeepalive :: int
  psStop :: bool
  psDone :: bool
  psErr :: "goerror option"
  psWatched :: "nat set"
  psEmitted :: "(nat \<times> bool) list"
  psRequested :: quality
  psBefore :: "nat option"

definition updBranch :: "nat \<Rightarrow> (videoEncoderBranch \<Rightarrow> videoEncoderBranch) \<Rightarrow> pipeState \<Rightarrow> pipeState" where
  "updBranch g f p = p\<lparr>psHeap := (psHeap p)(g := map_option f (psHeap p g))\<rparr>"

definition setSink :: "nat \<Rightarrow> sinkPhase \<Rightarrow> pipeState \<Rightarrow> pipeState" where
  "setSink g ph p = p\<lparr>psSink := (psSink p)(g := ph)\<rparr>"

definition notEmitting :: "nat \<Rightarrow> pipeState \<Rightarrow> bool" where
  "notEmitting g p \<longleftrightarrow> psSink p g \<noteq> SinkEmit False \<and> psSink p g \<noteq> SinkEmit True"

definition keepaliveOf :: "quality \<Rightarrow> int" where
  "keepaliveOf q = go_div 1000 (qFramerate q)"

text \<open>The pipeline after \<open>newPersistentVideoPipeline\<close> and \<open>Start\<close>: the initial branch is active and runs.\<close>

definition initialPipeline :: "videoEncoderBranch \<Rightarrow> pipeState" where
  "initialPipeline b = \<lparr>psHeap = (\<lambda>_. None)(0 := Some (b\<lparr>vbActive := True, vbInputStarted := True\<rparr>)), psAlloc = 1, psSink = (\<lambda>_. SinkIdle),
     psBranch = Some 0, psCandidate = None, psNextGeneration = 2, psReplace = RIdle, psKeepalive = keepaliveOf (vbQuality b),
     psStop = False, psDone = False, psErr = None, psWatched = {}, psEmitted = [], psRequested = vbQuality b, psBefore = None\<rparr>"

definition pipeFail :: "goerror \<Rightarrow> pipeState \<Rightarrow> pipeState" where
  "pipeFail err p = p\<lparr>psErr := errorsJoin [psErr p, Some err], psDone := True\<rparr>"

definition dropCandidate :: "nat \<Rightarrow> pipeState \<Rightarrow> pipeState" where
  "dropCandidate c p = (if psCandidate p = Some c then p\<lparr>psCandidate := None\<rparr> else p)"

text \<open>The streaming thread of a branch: \<open>handleSample\<close>.\<close>

inductive sinkStep :: "pipeState \<Rightarrow> pipeState \<Rightarrow> bool" where
  pull: "psSink p g = SinkIdle \<Longrightarrow> psHeap p g = Some b \<Longrightarrow> vbInputStarted b \<Longrightarrow> \<not> vbStop b \<Longrightarrow> sinkStep p (setSink g (SinkGate kf) p)"
| pullStop: "psSink p g = SinkIdle \<Longrightarrow> psHeap p g = Some b \<Longrightarrow> vbStop b \<Longrightarrow> sinkStep p (setSink g SinkHalted p)"
| gateOpen: "psSink p g = SinkGate kf \<Longrightarrow> psHeap p g = Some b \<Longrightarrow> vbActive b \<Longrightarrow> sinkStep p (setSink g (SinkPast kf) p)"
| gateDrop: "psSink p g = SinkGate False \<Longrightarrow> psHeap p g = Some b \<Longrightarrow> \<not> vbActive b \<Longrightarrow> sinkStep p (setSink g SinkIdle p)"
| gateReady: "psSink p g = SinkGate True \<Longrightarrow> psHeap p g = Some b \<Longrightarrow> \<not> vbActive b
    \<Longrightarrow> sinkStep p (setSink g SinkWait (updBranch g (\<lambda>b. b\<lparr>vbReady := True\<rparr>) p))"
| waitActive: "psSink p g = SinkWait \<Longrightarrow> psHeap p g = Some b \<Longrightarrow> vbActive b \<Longrightarrow> sinkStep p (setSink g (SinkPast True) p)"
| waitStop: "psSink p g = SinkWait \<Longrightarrow> psHeap p g = Some b \<Longrightarrow> vbStop b \<Longrightarrow> sinkStep p (setSink g SinkHalted p)"
| mapFailed: "psSink p g = SinkPast kf \<Longrightarrow> sinkStep p (setSink g SinkHalted p)"
| lockStop: "psSink p g = SinkPast kf \<Longrightarrow> psHeap p g = Some b \<Longrightarrow> vbStop b \<Longrightarrow> sinkStep p (setSink g SinkHalted p)"
| lock: "psSink p g = SinkPast kf \<Longrightarrow> psHeap p g = Some b \<Longrightarrow> \<not> vbStop b \<Longrightarrow> sinkStep p (setSink g (SinkEmit kf) p)"
| emit: "psSink p g = SinkEmit kf \<Longrightarrow> sinkStep p (setSink g SinkIdle (p\<lparr>psEmitted := psEmitted p @ [(g, kf)]\<rparr>))"
| emitStop: "psSink p g = SinkEmit kf \<Longrightarrow> sinkStep p (setSink g SinkHalted p)"

text \<open>
  The statements of \<open>ReplaceQuality\<close>, in order.  \<open>startFail\<close> and the \<open>keepFail\<close> steps carry the error of
  the GStreamer call; \<open>resetOk\<close> tells whether the rollback could restore the keepalive.
\<close>

inductive replaceStep :: "'t templateEngine \<Rightarrow> gstreamer \<Rightarrow> pipeState \<Rightarrow> pipeState \<Rightarrow> bool" for tmpl gst where
  noBranch: "psReplace p = RIdle \<Longrightarrow> psBranch p = None
    \<Longrightarrow> replaceStep tmpl gst p (p\<lparr>psReplace := RReturned (Some (errorsNew ''video encoder branch is unavailable'')), psRequested := q, psBefore := None\<rparr>)"
| buildFail: "psReplace p = RIdle \<Longrightarrow> psBranch p = Some old \<Longrightarrow> newVideoEncoderBranch tmpl gst (psNextGeneration p) q profile t = Inl err
    \<Longrightarrow> replaceStep tmpl gst p (p\<lparr>psReplace := RReturned (Some err), psRequested := q, psBefore := Some old\<rparr>)"
| build: "psReplace p = RIdle \<Longrightarrow> psBranch p = Some old \<Longrightarrow> newVideoEncoderBranch tmpl gst (psNextGeneration p) q profile t = Inr b
    \<Longrightarrow> replaceStep tmpl gst p (p\<lparr>psHeap := (psHeap p)(psAlloc p := Some b), psAlloc := Suc (psAlloc p),
          psNextGeneration := psNextGeneration p + 1, psReplace := RBuilt (psAlloc p) old, psRequested := q, psBefore := Some old\<rparr>)"
| startFail: "psReplace p = RBuilt c old
    \<Longrightarrow> replaceStep tmpl gst p (updBranch c closeBegin (p\<lparr>psReplace := RClosing err c\<rparr>))"
| start: "psReplace p = RBuilt c old \<Longrightarrow> psHeap p c = Some b \<Longrightarrow> \<not> vbStop b
    \<Longrightarrow> replaceStep tmpl gst p (updBranch c (\<lambda>b. b\<lparr>vbInputStarted := True\<rparr>) (p\<lparr>psReplace := RStarted c old\<rparr>))"
| registerErr: "psReplace p = RStarted c old \<Longrightarrow> psHeap p c = Some b \<Longrightarrow> vbErr b = Some e
    \<Longrightarrow> replaceStep tmpl gst p (updBranch c closeBegin
          (p\<lparr>psReplace := RClosing (Wrap ''candidate video encoder failed during startup: %w'' e []) c\<rparr>))"
| registerChanged: "psReplace p = RStarted c old \<Longrightarrow> psHeap p c = Some b \<Longrightarrow> vbErr b = None \<Longrightarrow> psBranch p \<noteq> Some old
    \<Longrightarrow> replaceStep tmpl gst p (updBranch c closeBegin
          (p\<lparr>psReplace := RClosing (errorsNew ''active video encoder changed during replacement'') c\<rparr>))"
| register: "psReplace p = RStarted c old \<Longrightarrow> psHeap p c = Some b \<Longrightarrow> vbErr b = None \<Longrightarrow> psBranch p = Some old
    \<Longrightarrow> replaceStep tmpl gst p (p\<lparr>psReplace := RRegistered c old, psCandidate := Some c\<rparr>)"
| keepFail: "psReplace p = RRegistered c old
    \<Longrightarrow> replaceStep tmpl gst p (updBranch c closeBegin (dropCandidate c
          (p\<lparr>psReplace := RClosing (Wrap ''update pipewiresrc frame keepalive: %w'' e []) c\<rparr>)))"
| keep: "psReplace p = RRegistered c old \<Longrightarrow> psHeap p c = Some b \<Longrightarrow> psHeap p old = Some b'
    \<Longrightarrow> replaceStep tmpl gst p (p\<lparr>psReplace := RWaiting c old,
          psKeepalive := go_div 1000 (max (qFramerate (vbQuality b')) (qFramerate (vbQuality b)))\<rparr>)"
| ready: "psReplace p = RWaiting c old \<Longrightarrow> psHeap p c = Some b \<Longrightarrow> vbReady b
    \<Longrightarrow> replaceStep tmpl gst p (p\<lparr>psReplace := RReady c old\<rparr>)"
| failed: "psReplace p = RWaiting c old \<Longrightarrow> psHeap p c = Some b \<Longrightarrow> vbFailed b = Some e
    \<Longrightarrow> replaceStep tmpl gst p (p\<lparr>psReplace := RRollback e c old\<rparr>)"
| stopped: "psReplace p = RWaiting c old \<Longrightarrow> psDone p
    \<Longrightarrow> replaceStep tmpl gst p (p\<lparr>psReplace := RRollback
          (Join (errorsNew ''video pipeline stopped during encoder replacement'' # somes [psErr p])) c old\<rparr>)"
| timeout: "psReplace p = RWaiting c old
    \<Longrightarrow> replaceStep tmpl gst p (p\<lparr>psReplace := RRollback
          (Errorf ''video encoder replacement did not produce an initial keyframe within %s'' [FStr ''5s'']) c old\<rparr>)"
| keepReadyFail: "psReplace p = RReady c old
    \<Longrightarrow> replaceStep tmpl gst p (p\<lparr>psReplace := RRollback (Wrap ''set replacement pipewiresrc frame keepalive: %w'' e []) c old\<rparr>)"
| keepReady: "psReplace p = RReady c old \<Longrightarrow> psHeap p c = Some b
    \<Longrightarrow> replaceStep tmpl gst p (p\<lparr>psReplace := RKept c old, psKeepalive := keepaliveOf (vbQuality b)\<rparr>)"
| promoteErr: "psReplace p = RKept c old \<Longrightarrow> psHeap p c = Some b \<Longrightarrow> vbErr b = Some e
    \<Longrightarrow> replaceStep tmpl gst p (p\<lparr>psReplace := RRollback (Wrap ''candidate video encoder failed before promotion: %w'' e []) c old\<rparr>)"
| promoteChanged: "psReplace p = RKept c old \<Longrightarrow> psHeap p c = Some b \<Longrightarrow> vbErr b = None
    \<Longrightarrow> psBranch p \<noteq> Some old \<or> psCandidate p \<noteq> Some c
    \<Longrightarrow> replaceStep tmpl gst p (p\<lparr>psReplace := RRollback (errorsNew ''video encoder replacement state changed unexpectedly'') c old\<rparr>)"
| activateErr: "psReplace p = RKept c old \<Longrightarrow> psBranch p = Some old \<Longrightarrow> psCandidate p = Some c \<Longrightarrow> psHeap p c = Some b
    \<Longrightarrow> activationError b = Some e
    \<Longrightarrow> replaceStep tmpl gst p (p\<lparr>psReplace := RRollback (Wrap ''activate replacement video encoder branch: %w'' e []) c old\<rparr>)"
| promote: "psReplace p = RKept c old \<Longrightarrow> psBranch p = Some old \<Longrightarrow> psCandidate p = Some c \<Longrightarrow> psHeap p c = Some b
    \<Longrightarrow> activationError b = None
    \<Longrightarrow> replaceStep tmpl gst p (updBranch old stopClose (p\<lparr>psReplace := RPromoting c old, psBranch := Some c, psCandidate := None\<rparr>))"
| promoted: "psReplace p = RPromoting c old \<Longrightarrow> notEmitting old p
    \<Longrightarrow> replaceStep tmpl gst p (updBranch old closeBegin (updBranch c (\<lambda>b. b\<lparr>vbActive := True\<rparr>) (p\<lparr>psReplace := RReturned None\<rparr>)))"
| rollback: "psReplace p = RRollback e c old \<Longrightarrow> psHeap p old = Some b
    \<Longrightarrow> replaceStep tmpl gst p (updBranch c closeBegin (dropCandidate c (p\<lparr>psReplace := RClosing e c,
          psKeepalive := (if resetOk then keepaliveOf (vbQuality b) else psKeepalive p)\<rparr>)))"
| closed: "psReplace p = RClosing e c \<Longrightarrow> notEmitting c p \<Longrightarrow> psHeap p c = Some b
    \<Longrightarrow> replaceStep tmpl gst p (updBranch c (closeEnd stateErr)
          (p\<lparr>psReplace := RReturned (errorsJoin [Some e, vbErr (closeEnd stateErr b)])\<rparr>))"
| finish: "psReplace p = RReturned r \<Longrightarrow> replaceStep tmpl gst p (p\<lparr>psReplace := RIdle\<rparr>)"

text \<open>
  The other goroutines: failures of a branch (its bus monitor or input pump), the end of a retired branch's
  \<open>Close\<close>, the watchers, a capture failure, live bitrate changes, and \<open>Close\<close> of the pipeline.  The
  promotion holds the candidate's \<open>errMu\<close> and \<open>branchMu\<close>.
\<close>

definition errFree :: "nat \<Rightarrow> pipeState \<Rightarrow> bool" where
  "errFree g p \<longleftrightarrow> (case psReplace p of RPromoting c old \<Rightarrow> g \<noteq> c | _ \<Rightarrow> True)"

definition branchFree :: "pipeState \<Rightarrow> bool" where
  "branchFree p \<longleftrightarrow> (case psReplace p of RPromoting c old \<Rightarrow> False | _ \<Rightarrow> True)"

definition watchBranch :: "nat \<Rightarrow> videoEncoderBranch \<Rightarrow> pipeState \<Rightarrow> pipeState" where
  "watchBranch g b p =
    (case vbErr b of
       Some err \<Rightarrow> if psBranch p = Some g
                  then pipeFail (Wrap ''active %s video encoder branch failed: %w'' err [FStr (qProfile (vbQuality b))]) p else p
     | None \<Rightarrow> p)"

inductive envStep :: "'t templateEngine \<Rightarrow> gstreamer \<Rightarrow> pipeState \<Rightarrow> pipeState \<Rightarrow> bool" for tmpl gst where
  fail: "psHeap p g = Some b \<Longrightarrow> errFree g p \<Longrightarrow> envStep tmpl gst p (updBranch g (failBegin err) p)"
| failedEnd: "psHeap p g = Some b \<Longrightarrow> vbStop b \<Longrightarrow> vbErr b \<noteq> None \<Longrightarrow> notEmitting g p \<Longrightarrow> envStep tmpl gst p (updBranch g (failEnd err) p)"
| retired: "psHeap p g = Some b \<Longrightarrow> vbClosed b \<Longrightarrow> notEmitting g p \<Longrightarrow> errFree g p
    \<Longrightarrow> envStep tmpl gst p (updBranch g (closeEnd stateErr) p)"
| watch: "psHeap p g = Some b \<Longrightarrow> vbDone b \<Longrightarrow> g \<notin> psWatched p \<Longrightarrow> branchFree p
    \<Longrightarrow> envStep tmpl gst p ((watchBranch g b p)\<lparr>psWatched := insert g (psWatched p)\<rparr>)"
| captureFail: "envStep tmpl gst p (pipeFail err p)"
| bitrate: "psReplace p = RIdle \<Longrightarrow> psBranch p = Some g \<Longrightarrow> psHeap p g = Some b \<Longrightarrow> branchSetBitrate tmpl gst kbps b = (e, applied, b')
    \<Longrightarrow> envStep tmpl gst p (p\<lparr>psHeap := (psHeap p)(g := Some b')\<rparr>)"
| closeStop: "psReplace p = RIdle \<Longrightarrow> \<not> psStop p \<Longrightarrow> envStep tmpl gst p (p\<lparr>psReplace := RShutdown, psStop := True\<rparr>)"
| closeDetach: "psReplace p = RShutdown \<Longrightarrow> psBranch p = Some g
    \<Longrightarrow> envStep tmpl gst p (updBranch g closeBegin (p\<lparr>psReplace := RDetached (Some g), psBranch := None, psCandidate := None\<rparr>))"
| closeNone: "psReplace p = RShutdown \<Longrightarrow> psBranch p = None
    \<Longrightarrow> envStep tmpl gst p (p\<lparr>psReplace := RDetached None, psCandidate := None\<rparr>)"
| closeDone: "psReplace p = RDetached r \<Longrightarrow> envStep tmpl gst p (p\<lparr>psReplace := RIdle, psDone := True\<rparr>)"

inductive pipeReach :: "'t templateEngine \<Rightarrow> gstreamer \<Rightarrow> pipeState \<Rightarrow> bool" for tmpl gst where
  init: "newVideoEncoderBranch tmpl gst 1 q profile t = Inr b \<Longrightarrow> pipeReach tmpl gst (initialPipeline b)"
| sink: "pipeReach tmpl gst p \<Longrightarrow> sinkStep p p' \<Longrightarrow> pipeReach tmpl gst p'"
| replace: "pipeReach tmpl gst p \<Longrightarrow> replaceStep tmpl gst p p' \<Longrightarrow> pipeReach tmpl gst p'"
| env: "pipeReach tmpl gst p \<Longrightarrow> envStep tmpl gst p p' \<Longrightarrow> pipeReach tmpl gst p'"

section \<open>Invariants\<close>

text \<open>The heap is exactly what was allocated; an inactive branch is not past the gate; of two active branches the older one has stopped.\<close>

definition heapOK :: "pipeState \<Rightarrow> bool" where
  "heapOK p \<longleftrightarrow> dom (psHeap p) = {..<psAlloc p}"

fun gateAt :: "videoEncoderBranch \<Rightarrow> sinkPhase \<Rightarrow> bool" where
  "gateAt b (SinkPast kf) = vbActive b"
| "gateAt b (SinkEmit kf) = vbActive b"
| "gateAt b SinkWait = True"
| "gateAt b _ = (vbReady b \<longrightarrow> vbActive b \<or> vbStop b)"

definition gateOK :: "pipeState \<Rightarrow> bool" where
  "gateOK p \<longleftrightarrow> (\<forall>g b. psHeap p g = Some b \<longrightarrow> gateAt b (psSink p g)) \<and> (\<forall>g. psHeap p g = None \<longrightarrow> psSink p g = SinkIdle)"

definition activeIn :: "pipeState \<Rightarrow> nat \<Rightarrow> bool" where
  "activeIn p g \<longleftrightarrow> (\<exists>b. psHeap p g = Some b \<and> vbActive b)"

definition stoppedIn :: "pipeState \<Rightarrow> nat \<Rightarrow> bool" where
  "stoppedIn p g \<longleftrightarrow> (\<exists>b. psHeap p g = Some b \<and> vbStop b)"

definition retiredOK :: "pipeState \<Rightarrow> bool" where
  "retiredOK p \<longleftrightarrow> (\<forall>g h. activeIn p g \<and> activeIn p h \<and> g < h \<longrightarrow> stoppedIn p g \<and> notEmitting g p)"

text \<open>The active branch, and the phases of a replacement.\<close>

definition leads :: "nat \<Rightarrow> pipeState \<Rightarrow> bool" where
  "leads g p \<longleftrightarrow> activeIn p g \<and> (\<forall>h. activeIn p h \<longrightarrow> h \<le> g)"

definition candidateOK :: "nat \<Rightarrow> nat \<Rightarrow> pipeState \<Rightarrow> bool" where
  "candidateOK c old p \<longleftrightarrow> psBranch p = Some old \<and> old \<noteq> c \<and> (\<exists>b. psHeap p c = Some b \<and> \<not> vbActive b \<and> vbQuality b = psRequested p)
     \<and> psBefore p = Some old \<and> Suc c = psAlloc p"

definition readyOK :: "nat \<Rightarrow> pipeState \<Rightarrow> bool" where
  "readyOK c p \<longleftrightarrow> (\<exists>b. psHeap p c = Some b \<and> vbReady b)"

fun phaseOK :: "replacer \<Rightarrow> pipeState \<Rightarrow> bool" where
  "phaseOK (RBuilt c old) p = (candidateOK c old p \<and> psCandidate p = None)"
| "phaseOK (RStarted c old) p = (candidateOK c old p \<and> psCandidate p = None)"
| "phaseOK (RRegistered c old) p = (candidateOK c old p \<and> psCandidate p = Some c)"
| "phaseOK (RWaiting c old) p = (candidateOK c old p \<and> psCandidate p = Some c)"
| "phaseOK (RReady c old) p = (candidateOK c old p \<and> psCandidate p = Some c \<and> readyOK c p)"
| "phaseOK (RKept c old) p = (candidateOK c old p \<and> psCandidate p = Some c \<and> readyOK c p \<and> psKeepalive p = keepaliveOf (psRequested p))"
| "phaseOK (RPromoting c old) p = (psBranch p = Some c \<and> psCandidate p = None \<and> old \<noteq> c \<and> leads old p
     \<and> (\<exists>b. psHeap p c = Some b \<and> \<not> vbActive b \<and> vbReady b \<and> \<not> vbStop b \<and> vbErr b = None \<and> vbQuality b = psRequested p)
     \<and> stoppedIn p old \<and> Suc c = psAlloc p \<and> psKeepalive p = keepaliveOf (psRequested p))"
| "phaseOK (RRollback e c old) p = (candidateOK c old p \<and> psCandidate p = Some c)"
| "phaseOK (RClosing e c) p = (psBranch p = psBefore p \<and> psCandidate p = None \<and> psBranch p \<noteq> Some c
     \<and> (\<exists>b. psHeap p c = Some b \<and> \<not> vbActive b \<and> vbStop b \<and> vbClosed b))"
| "phaseOK (RReturned (Some e)) p = (psBranch p = psBefore p \<and> psCandidate p = None)"
| "phaseOK (RReturned None) p = (psCandidate p = None \<and> psKeepalive p = keepaliveOf (psRequested p)
     \<and> (\<exists>g b. psBranch p = Some g \<and> psHeap p g = Some b \<and> vbQuality b = psRequested p))"
| "phaseOK (RDetached r) p = (psBranch p = None \<and> psCandidate p = None)"
| "phaseOK RIdle p = (psCandidate p = None)"
| "phaseOK RShutdown p = (psCandidate p = None)"

definition leaderOK :: "pipeState \<Rightarrow> bool" where
  "leaderOK p \<longleftrightarrow> (\<forall>g. psBranch p = Some g \<longrightarrow> branchFree p \<longrightarrow> leads g p)"

text \<open>The emitted history, and what an active branch that has emitted nothing is doing.\<close>

definition emittedOK :: "pipeState \<Rightarrow> bool" where
  "emittedOK p \<longleftrightarrow> sorted (map fst (psEmitted p)) \<and> (\<forall>e \<in> set (psEmitted p). activeIn p (fst e))"

definition emittedBy :: "nat \<Rightarrow> pipeState \<Rightarrow> bool list" where
  "emittedBy g p = map snd (filter (\<lambda>e. fst e = g) (psEmitted p))"

lemmas upd_defs = updBranch_def setSink_def dropCandidate_def stopClose_def closeBegin_def failBegin_def failEnd_def branchSetErr_def pipeFail_def

lemma closeEnd_frame [simp]:
  "vbActive (closeEnd e b) = vbActive b" "vbReady (closeEnd e b) = vbReady b" "vbStop (closeEnd e b) = vbStop b"
  "vbQuality (closeEnd e b) = vbQuality b" "vbDone (closeEnd e b)" "vbClosed (closeEnd e b) = vbClosed b"
  by (simp_all add: closeEnd_def branchSetErr_def split: option.splits)

lemma bitrate_frame:
  assumes "branchSetBitrate tmpl gst kbps b = (e, applied, b')"
  shows "vbActive b' = vbActive b \<and> vbReady b' = vbReady b \<and> vbStop b' = vbStop b \<and> vbErr b' = vbErr b \<and> vbDone b' = vbDone b
    \<and> vbClosed b' = vbClosed b \<and> vbQuality b' = (if e = None then (vbQuality b)\<lparr>qBitrateKbps := kbps\<rparr> else vbQuality b)"
  using assms by (auto simp: branchSetBitrate_def Let_def split: sum.splits option.splits prod.splits)

lemma new_branch:
  assumes "newVideoEncoderBranch tmpl gst n q profile t = Inr b"
  shows "\<not> vbActive b \<and> \<not> vbReady b \<and> \<not> vbStop b \<and> \<not> vbDone b \<and> \<not> vbClosed b \<and> vbErr b = None \<and> vbQuality b = q"
  using assms by (auto simp: newVideoEncoderBranch_def Let_def split: sum.splits option.splits list.splits if_splits)

text \<open>What every step keeps of a branch.\<close>

lemma watchBranch_frame [simp]:
  "psHeap (watchBranch g b p) = psHeap p" "psSink (watchBranch g b p) = psSink p" "psBranch (watchBranch g b p) = psBranch p"
  "psCandidate (watchBranch g b p) = psCandidate p" "psReplace (watchBranch g b p) = psReplace p" "psAlloc (watchBranch g b p) = psAlloc p"
  "psEmitted (watchBranch g b p) = psEmitted p" "psRequested (watchBranch g b p) = psRequested p" "psBefore (watchBranch g b p) = psBefore p"
  "psKeepalive (watchBranch g b p) = psKeepalive p" "psWatched (watchBranch g b p) = psWatched p"
  by (simp_all add: watchBranch_def pipeFail_def split: option.splits)

lemma heapOK_frame [simp]:
  "heapOK (updBranch g f p) = heapOK p" "heapOK (setSink g ph p) = heapOK p" "heapOK (dropCandidate c p) = heapOK p"
  "heapOK (pipeFail e p) = heapOK p" "heapOK (watchBranch g b p) = heapOK p"
  "heapOK (p\<lparr>psReplace := r\<rparr>) = heapOK p" "heapOK (p\<lparr>psKeepalive := k\<rparr>) = heapOK p" "heapOK (p\<lparr>psBranch := br\<rparr>) = heapOK p"
  "heapOK (p\<lparr>psCandidate := br\<rparr>) = heapOK p" "heapOK (p\<lparr>psRequested := q\<rparr>) = heapOK p" "heapOK (p\<lparr>psBefore := br\<rparr>) = heapOK p"
  "heapOK (p\<lparr>psStop := s\<rparr>) = heapOK p" "heapOK (p\<lparr>psDone := s\<rparr>) = heapOK p" "heapOK (p\<lparr>psWatched := w\<rparr>) = heapOK p"
  "heapOK (p\<lparr>psEmitted := es\<rparr>) = heapOK p"
  by (auto simp: heapOK_def upd_defs dom_def)

lemma heapOK_sink: "sinkStep p p' \<Longrightarrow> heapOK p \<Longrightarrow> heapOK p'"
  by (induction rule: sinkStep.induct) simp_all

lemma heapOK_replace: "replaceStep tmpl gst p p' \<Longrightarrow> heapOK p \<Longrightarrow> heapOK p'"
proof (induction rule: replaceStep.induct)
  case (build p old q profile t b)
  then show ?case by (auto simp: heapOK_def)
qed simp_all

lemma heapOK_env: "envStep tmpl gst p p' \<Longrightarrow> heapOK p \<Longrightarrow> heapOK p'"
proof (induction rule: envStep.induct)
  case (bitrate p g b kbps e applied b')
  then show ?case by (auto simp: heapOK_def)
qed simp_all

lemma heap_less: "heapOK p \<Longrightarrow> psHeap p g = Some b \<Longrightarrow> g < psAlloc p"
  by (auto simp: heapOK_def)

lemma heap_fresh: "heapOK p \<Longrightarrow> psHeap p (psAlloc p) = None"
  by (auto simp: heapOK_def)

lemma gateOK_D: "gateOK p \<Longrightarrow> psHeap p g = Some b \<Longrightarrow> gateAt b (psSink p g)" "gateOK p \<Longrightarrow> psHeap p g = None \<Longrightarrow> psSink p g = SinkIdle"
  by (auto simp: gateOK_def)

lemma gateAt_mono:
  "gateAt b ph \<Longrightarrow> vbActive b = vbActive b' \<Longrightarrow> vbReady b = vbReady b' \<Longrightarrow> (vbStop b \<longrightarrow> vbStop b') \<Longrightarrow> gateAt b' ph"
  by (cases ph) auto

lemma gateAt_activate: "gateAt b ph \<Longrightarrow> gateAt (b\<lparr>vbActive := True\<rparr>) ph"
  by (cases ph) auto

lemma gateOK_upd:
  assumes "gateOK p" and "\<And>b. psHeap p g = Some b \<Longrightarrow> gateAt b (psSink p g) \<Longrightarrow> gateAt (f b) (psSink p g)"
  shows "gateOK (updBranch g f p)"
  using assms by (auto simp: gateOK_def updBranch_def)

lemma gateOK_set: "gateOK p \<Longrightarrow> psHeap p g = Some b \<Longrightarrow> gateAt b ph \<Longrightarrow> gateOK (setSink g ph p)"
  by (auto simp: gateOK_def setSink_def)

lemma gateOK_heap: "gateOK p \<Longrightarrow> psSink p g \<noteq> SinkIdle \<Longrightarrow> \<exists>b. psHeap p g = Some b \<and> gateAt b (psSink p g)"
  by (cases "psHeap p g") (auto simp: gateOK_def)

lemma setSink_updBranch: "setSink g ph (updBranch h f p) = updBranch h f (setSink g ph p)"
  by (cases p) (simp add: setSink_def updBranch_def)

lemma gateOK_put: "gateOK p \<Longrightarrow> gateAt b (psSink p g) \<Longrightarrow> gateOK (p\<lparr>psHeap := (psHeap p)(g := Some b)\<rparr>)"
  by (auto simp: gateOK_def)

lemma gateOK_frame [simp]:
  "gateOK (dropCandidate c p) = gateOK p" "gateOK (pipeFail e p) = gateOK p" "gateOK (watchBranch g b p) = gateOK p"
  "gateOK (p\<lparr>psReplace := r\<rparr>) = gateOK p" "gateOK (p\<lparr>psKeepalive := k\<rparr>) = gateOK p" "gateOK (p\<lparr>psBranch := br\<rparr>) = gateOK p"
  "gateOK (p\<lparr>psCandidate := br\<rparr>) = gateOK p" "gateOK (p\<lparr>psRequested := q\<rparr>) = gateOK p" "gateOK (p\<lparr>psBefore := br\<rparr>) = gateOK p"
  "gateOK (p\<lparr>psStop := s\<rparr>) = gateOK p" "gateOK (p\<lparr>psDone := s\<rparr>) = gateOK p" "gateOK (p\<lparr>psWatched := w\<rparr>) = gateOK p"
  "gateOK (p\<lparr>psEmitted := es\<rparr>) = gateOK p"
  by (auto simp: gateOK_def upd_defs)

lemma gateOK_sink: "sinkStep p p' \<Longrightarrow> gateOK p \<Longrightarrow> gateOK p'"
proof (induction rule: sinkStep.induct)
  case (gateReady p g b)
  then have "gateOK (setSink g SinkWait p)" by (auto intro: gateOK_set)
  then have "gateOK (updBranch g (\<lambda>b. b\<lparr>vbReady := True\<rparr>) (setSink g SinkWait p))" by (rule gateOK_upd) (simp add: setSink_def)
  then show ?case by (simp add: setSink_updBranch)
next
  case (mapFailed p g kf)
  then show ?case using gateOK_heap [of p g] by (auto intro: gateOK_set)
next
  case (emit p g kf)
  then obtain b where "psHeap p g = Some b" "vbActive b" using gateOK_heap [of p g] by auto
  then show ?case using emit by (auto intro!: gateOK_set)
next
  case (emitStop p g kf)
  then show ?case using gateOK_heap [of p g] by (auto intro: gateOK_set)
qed (frule (1) gateOK_D(1), auto intro: gateOK_set)+

lemma gateOK_replace: "replaceStep tmpl gst p p' \<Longrightarrow> heapOK p \<Longrightarrow> gateOK p \<Longrightarrow> gateOK p'"
proof (induction rule: replaceStep.induct)
  case (build p old q profile t b)
  have "psSink p (psAlloc p) = SinkIdle" using gateOK_D(2) [OF build(5)] heap_fresh [OF build(4)] by simp
  then show ?case using new_branch [OF build(3)] build(5) by (auto simp: gateOK_def)
qed (auto intro!: gateOK_upd intro: gateAt_mono gateAt_activate simp: stopClose_def closeBegin_def)

lemma gateOK_env: "envStep tmpl gst p p' \<Longrightarrow> gateOK p \<Longrightarrow> gateOK p'"
proof (induction rule: envStep.induct)
  case (bitrate p g b kbps e applied b')
  have "gateAt b' (psSink p g)"
    using gateOK_D(1) [OF bitrate(5,3)] bitrate_frame [OF bitrate(4)] by (auto intro: gateAt_mono)
  then show ?case using bitrate(5) by (auto intro: gateOK_put)
qed (auto intro!: gateOK_upd intro: gateAt_mono simp: stopClose_def closeBegin_def failBegin_def failEnd_def branchSetErr_def)

text \<open>Only promotion activates a branch, and nothing restarts a stopped one.\<close>

lemmas in_defs = activeIn_def stoppedIn_def

lemma sink_frame:
  assumes "sinkStep p p'"
  shows "activeIn p' = activeIn p" "stoppedIn p' = stoppedIn p" "psBranch p' = psBranch p" "psCandidate p' = psCandidate p"
    "psReplace p' = psReplace p" "psAlloc p' = psAlloc p" "psKeepalive p' = psKeepalive p" "psRequested p' = psRequested p"
    "psBefore p' = psBefore p" "psDone p' = psDone p" "psWatched p' = psWatched p"
    "stoppedIn p g \<Longrightarrow> notEmitting g p \<Longrightarrow> notEmitting g p'"
  using assms by (induction rule: sinkStep.induct) (auto simp: in_defs upd_defs notEmitting_def fun_eq_iff)

lemma env_frame:
  assumes "envStep tmpl gst p p'"
  shows "activeIn p' = activeIn p" "stoppedIn p g \<Longrightarrow> stoppedIn p' g" "psSink p' = psSink p" "psEmitted p' = psEmitted p"
    "psAlloc p' = psAlloc p" "psRequested p' = psRequested p" "psBefore p' = psBefore p" "psKeepalive p' = psKeepalive p"
  using assms by (induction rule: envStep.induct) (auto simp: in_defs upd_defs fun_eq_iff dest: bitrate_frame)

lemma replace_frame: "replaceStep tmpl gst p p' \<Longrightarrow> psSink p' = psSink p \<and> psEmitted p' = psEmitted p"
  by (induction rule: replaceStep.induct) (auto simp: upd_defs)

lemma replace_stopped: "replaceStep tmpl gst p p' \<Longrightarrow> heapOK p \<Longrightarrow> stoppedIn p g \<Longrightarrow> stoppedIn p' g"
proof (induction rule: replaceStep.induct)
  case (build p old q profile t b)
  then show ?case using heap_fresh [OF build(4)] by (auto simp: in_defs)
qed (auto simp: in_defs upd_defs)

lemma replace_active:
  "replaceStep tmpl gst p p' \<Longrightarrow> heapOK p \<Longrightarrow> phaseOK (psReplace p) p \<Longrightarrow>
    activeIn p' = activeIn p \<or> (\<exists>c old. psReplace p = RPromoting c old \<and> notEmitting old p \<and> activeIn p' = (activeIn p)(c := True))"
proof (induction rule: replaceStep.induct)
  case (build p old q profile t b)
  then show ?case using heap_fresh [OF build(4)] new_branch [OF build(3)] by (auto simp: in_defs fun_eq_iff)
next
  case (promoted p c old)
  then show ?case by (auto simp: in_defs upd_defs fun_eq_iff)
qed (simp_all add: in_defs upd_defs fun_eq_iff split: option.splits, auto)

text \<open>What a step of another goroutine keeps of a branch during a replacement.\<close>

definition keptBranch :: "pipeState \<Rightarrow> nat \<Rightarrow> videoEncoderBranch \<Rightarrow> videoEncoderBranch \<Rightarrow> bool" where
  "keptBranch p g b b' \<longleftrightarrow> vbActive b' = vbActive b \<and> vbQuality b' = vbQuality b \<and> (vbReady b \<longrightarrow> vbReady b') \<and> (vbStop b \<longrightarrow> vbStop b') \<and> (vbClosed b \<longrightarrow> vbClosed b')
     \<and> (\<not> errFree g p \<longrightarrow> vbStop b' = vbStop b \<and> vbErr b' = vbErr b)"

definition keptHeap :: "pipeState \<Rightarrow> pipeState \<Rightarrow> bool" where
  "keptHeap p p' \<longleftrightarrow> (\<forall>g b. psHeap p g = Some b \<longrightarrow> (\<exists>b'. psHeap p' g = Some b' \<and> keptBranch p g b b'))"

lemma keptHeap_refl: "psHeap p' = psHeap p \<Longrightarrow> keptHeap p p'"
  by (simp add: keptHeap_def keptBranch_def)

lemma keptHeap_upd: "(\<And>b. psHeap p g = Some b \<Longrightarrow> keptBranch p g b (f b)) \<Longrightarrow> keptHeap p (updBranch g f p)"
  by (auto simp: keptHeap_def updBranch_def keptBranch_def)

lemma keptHeap_D: "keptHeap p p' \<Longrightarrow> psHeap p g = Some b \<Longrightarrow> \<exists>b'. psHeap p' g = Some b' \<and> keptBranch p g b b'"
  by (simp add: keptHeap_def)

lemma phaseOK_kept:
  assumes "keptHeap p p'" "activeIn p' = activeIn p" "\<And>g. stoppedIn p g \<Longrightarrow> stoppedIn p' g"
    and same: "psReplace p' = psReplace p" "psBranch p' = psBranch p" "psCandidate p' = psCandidate p" "psAlloc p' = psAlloc p"
      "psKeepalive p' = psKeepalive p" "psRequested p' = psRequested p" "psBefore p' = psBefore p"
    and "phaseOK (psReplace p) p"
  shows "phaseOK (psReplace p') p'"
proof -
  have has: "\<exists>b'. psHeap p' c = Some b' \<and> \<not> vbActive b' \<and> vbQuality b' = q" if "psHeap p c = Some b" "\<not> vbActive b" "vbQuality b = q" for c b q
    using keptHeap_D [OF assms(1) that(1)] that by (auto simp: keptBranch_def)
  have cand: "candidateOK c old p \<Longrightarrow> candidateOK c old p'" for c old
    using has by (fastforce simp: candidateOK_def same)
  have ready: "readyOK c p \<Longrightarrow> readyOK c p'" for c
    using keptHeap_D [OF assms(1)] by (fastforce simp: readyOK_def keptBranch_def)
  show ?thesis
  proof (cases "psReplace p")
    case (RPromoting c old)
    then obtain b where "psHeap p c = Some b" "\<not> vbActive b" "vbReady b" "\<not> vbStop b" "vbErr b = None" "vbQuality b = psRequested p"
      using assms by auto
    then obtain b' where "psHeap p' c = Some b'" "\<not> vbActive b'" "vbReady b'" "\<not> vbStop b'" "vbErr b' = None" "vbQuality b' = psRequested p"
      using keptHeap_D [OF assms(1)] RPromoting by (fastforce simp: keptBranch_def errFree_def)
    then show ?thesis using assms RPromoting by (auto simp: same leads_def)
  next
    case (RClosing e c)
    then obtain b where "psHeap p c = Some b" "\<not> vbActive b" "vbStop b" "vbClosed b" using assms by auto
    then obtain b' where "psHeap p' c = Some b'" "\<not> vbActive b'" "vbStop b'" "vbClosed b'"
      using keptHeap_D [OF assms(1)] by (fastforce simp: keptBranch_def)
    then show ?thesis using assms RClosing by (auto simp: same)
  next
    case (RReturned r)
    then show ?thesis using assms keptHeap_D [OF assms(1)] by (cases r) (fastforce simp: same keptBranch_def)+
  qed (use assms cand ready in \<open>auto simp: same\<close>)
qed

lemma keptHeap_sink: "sinkStep p p' \<Longrightarrow> keptHeap p p'"
proof (induction rule: sinkStep.induct)
  case (gateReady p g b)
  then show ?case by (auto simp: keptHeap_def keptBranch_def upd_defs)
qed (auto intro!: keptHeap_refl simp: setSink_def)

lemma phaseOK_sink: "sinkStep p p' \<Longrightarrow> phaseOK (psReplace p) p \<Longrightarrow> phaseOK (psReplace p') p'"
  by (rule phaseOK_kept [OF keptHeap_sink]) (simp_all add: sink_frame)

lemma phaseOK_frame [simp]: "phaseOK r (p\<lparr>psReplace := r'\<rparr>) = phaseOK r p" "phaseOK r (p\<lparr>psDone := d\<rparr>) = phaseOK r p"
  "phaseOK r (p\<lparr>psStop := d\<rparr>) = phaseOK r p" "phaseOK r (p\<lparr>psWatched := w\<rparr>) = phaseOK r p" "phaseOK r (p\<lparr>psErr := e\<rparr>) = phaseOK r p"
  by (cases "(r, p)" rule: phaseOK.cases; simp add: candidateOK_def readyOK_def leads_def in_defs)+

lemma phaseOK_env: "envStep tmpl gst p p' \<Longrightarrow> phaseOK (psReplace p) p \<Longrightarrow> phaseOK (psReplace p') p'"
proof (induction rule: envStep.induct)
  case (fail p g b err)
  note s = envStep.fail [OF fail(1,2), of tmpl gst err]
  show ?case
    by (rule phaseOK_kept [OF keptHeap_upd]) (use fail env_frame [OF s] in \<open>auto simp: keptBranch_def upd_defs\<close>)
next
  case (failedEnd p g b err)
  note s = envStep.failedEnd [OF failedEnd(1-4), of tmpl gst err]
  show ?case
    by (rule phaseOK_kept [OF keptHeap_upd]) (use failedEnd env_frame [OF s] in \<open>auto simp: keptBranch_def upd_defs\<close>)
next
  case (retired p g b stateErr)
  note s = envStep.retired [OF retired(1-4), of tmpl gst stateErr]
  show ?case
    by (rule phaseOK_kept [OF keptHeap_upd]) (use retired env_frame [OF s] in \<open>auto simp: keptBranch_def upd_defs\<close>)
next
  case (bitrate p g b kbps e applied b')
  then show ?case by simp
next
  case (watch p g b)
  then show ?case by (simp add: watchBranch_def pipeFail_def split: option.splits)
qed (auto simp: upd_defs)

lemma activationError_None: "activationError b = None \<longleftrightarrow> vbErr b = None \<and> \<not> vbStop b"
  by (simp add: activationError_def split: option.splits)

lemma errorsJoin_Some: "\<exists>e'. errorsJoin (Some e # es) = Some e'"
  by (simp add: errorsJoin_def)

lemma phaseOK_replace:
  "replaceStep tmpl gst p p' \<Longrightarrow> heapOK p \<Longrightarrow> leaderOK p \<Longrightarrow> phaseOK (psReplace p) p \<Longrightarrow> phaseOK (psReplace p') p'"
proof (induction rule: replaceStep.induct)
  case (build p old q profile t b)
  have "old < psAlloc p" using build heap_less [OF build(4)] by (auto simp: leaderOK_def branchFree_def leads_def in_defs)
  then show ?case using new_branch [OF build(3)] build by (auto simp: candidateOK_def)
next
  case (keep p c old b b')
  then show ?case by (auto simp: candidateOK_def)
next
  case (promote p c old b)
  have "leads old p" using promote by (auto simp: leaderOK_def branchFree_def)
  then have "leads old (updBranch old stopClose p)" "stoppedIn (updBranch old stopClose p) old"
    by (auto simp: leads_def in_defs upd_defs)
  then show ?case using promote
    by (auto simp: candidateOK_def readyOK_def activationError_None leads_def in_defs upd_defs)
next
  case (closed p e c b stateErr)
  then show ?case using errorsJoin_Some [of e "[vbErr (closeEnd stateErr b)]"] by (auto simp: upd_defs)
next
  case (finish p r)
  then show ?case by (cases r) auto
next
  case (promoted p c old)
  then show ?case by (auto simp: upd_defs)
qed (auto simp: candidateOK_def readyOK_def upd_defs in_defs)

lemma leaderOK_replace:
  "replaceStep tmpl gst p p' \<Longrightarrow> heapOK p \<Longrightarrow> phaseOK (psReplace p) p \<Longrightarrow> leaderOK p \<Longrightarrow> leaderOK p'"
proof (induction rule: replaceStep.induct)
  case (build p old q profile t b)
  then show ?case using heap_fresh [OF build(4)] new_branch [OF build(3)]
    by (auto simp: leaderOK_def branchFree_def leads_def in_defs split: if_splits)
next
  case (promoted p c old)
  then have "\<forall>h. activeIn p h \<longrightarrow> h \<le> old" "old < c"
    using heap_less [of p old] by (auto simp: leads_def in_defs)
  then show ?case using promoted by (fastforce simp: leaderOK_def leads_def in_defs upd_defs split: if_splits)
next
  case (promote p c old b)
  then show ?case by (simp add: leaderOK_def branchFree_def upd_defs)
qed (auto simp: leaderOK_def branchFree_def leads_def in_defs upd_defs split: if_splits replacer.splits)

lemma leaderOK_sink: "sinkStep p p' \<Longrightarrow> leaderOK p \<Longrightarrow> leaderOK p'"
  by (simp add: leaderOK_def branchFree_def leads_def sink_frame)

lemma env_branch: "envStep tmpl gst p p' \<Longrightarrow> psBranch p' = psBranch p \<or> psBranch p' = None"
  by (induction rule: envStep.induct) (auto simp: upd_defs)

lemma env_promoting: "envStep tmpl gst p p' \<Longrightarrow> branchFree p' = branchFree p"
  by (induction rule: envStep.induct) (auto simp: branchFree_def upd_defs)

lemma leaderOK_env: "envStep tmpl gst p p' \<Longrightarrow> leaderOK p \<Longrightarrow> leaderOK p'"
  using env_branch [of tmpl gst p p'] by (auto simp: leaderOK_def leads_def env_frame(1) env_promoting)

lemma retiredOK_sink: "sinkStep p p' \<Longrightarrow> retiredOK p \<Longrightarrow> retiredOK p'"
  using sink_frame [of p p'] by (auto simp: retiredOK_def)

lemma retiredOK_env: "envStep tmpl gst p p' \<Longrightarrow> retiredOK p \<Longrightarrow> retiredOK p'"
  using env_frame [of tmpl gst p p'] by (auto simp: retiredOK_def notEmitting_def)

lemma retiredOK_replace:
  assumes step: "replaceStep tmpl gst p p'" and "heapOK p" and ph: "phaseOK (psReplace p) p" and old: "retiredOK p"
  shows "retiredOK p'"
proof -
  have mono: "stoppedIn p g \<and> notEmitting g p \<Longrightarrow> stoppedIn p' g \<and> notEmitting g p'" for g
    using replace_frame [OF step] replace_stopped [OF step assms(2)] by (simp add: notEmitting_def)
  from replace_active [OF step assms(2) ph] show ?thesis
  proof (elim disjE exE conjE)
    assume "activeIn p' = activeIn p"
    then show ?thesis using old mono by (auto simp: retiredOK_def)
  next
    fix c o' assume c: "psReplace p = RPromoting c o'" "notEmitting o' p" "activeIn p' = (activeIn p)(c := True)"
    have lead: "leads o' p" "stoppedIn p o'" "Suc c = psAlloc p" using c ph by auto
    have le: "\<not> c < h" if "activeIn p h" for h
      using that heap_less [OF assms(2), of h] lead(3) by (auto simp: in_defs)
    have "stoppedIn p g \<and> notEmitting g p" if "activeIn p g" for g
      using that lead c(2) old by (cases "g = o'") (auto simp: leads_def retiredOK_def dest: le_neq_implies_less)
    then show ?thesis using mono le c(3) by (auto simp: retiredOK_def split: if_splits)
  qed
qed

lemma emittedOK_sink: "sinkStep p p' \<Longrightarrow> gateOK p \<Longrightarrow> retiredOK p \<Longrightarrow> emittedOK p \<Longrightarrow> emittedOK p'"
proof (induction rule: sinkStep.induct)
  case (emit p g kf)
  then have g: "activeIn p g" using gateOK_heap [of p g] by (auto simp: in_defs)
  have "fst e \<le> g" if "e \<in> set (psEmitted p)" for e
  proof (rule ccontr)
    assume "\<not> fst e \<le> g"
    then have "g < fst e" "activeIn p (fst e)" using emit(4) that by (simp_all add: emittedOK_def)
    then have "notEmitting g p" using emit(3) g by (auto simp: retiredOK_def)
    then show False using emit(1) by (cases kf) (auto simp: notEmitting_def)
  qed
  then show ?case using emit(4) g by (auto simp: emittedOK_def sorted_append setSink_def in_defs)
qed (auto simp: emittedOK_def upd_defs in_defs)

lemma emittedOK_replace:
  assumes "replaceStep tmpl gst p p'" "heapOK p" "phaseOK (psReplace p) p" "emittedOK p" shows "emittedOK p'"
  using replace_frame [OF assms(1)] replace_active [OF assms(1-3)] assms(4) by (auto simp: emittedOK_def)

lemma emittedOK_env: "envStep tmpl gst p p' \<Longrightarrow> emittedOK p \<Longrightarrow> emittedOK p'"
  by (simp add: emittedOK_def env_frame)

text \<open>The first sample that a replacement emits is the keyframe that waited at its gate.\<close>

fun awaitsKeyframe :: "sinkPhase \<Rightarrow> bool" where
  "awaitsKeyframe SinkWait = True"
| "awaitsKeyframe SinkHalted = True"
| "awaitsKeyframe (SinkPast kf) = kf"
| "awaitsKeyframe (SinkEmit kf) = kf"
| "awaitsKeyframe _ = False"

definition firstAt :: "pipeState \<Rightarrow> nat \<Rightarrow> bool" where
  "firstAt p g \<longleftrightarrow> emittedBy g p = [] \<and> awaitsKeyframe (psSink p g) \<or> emittedBy g p \<noteq> [] \<and> hd (emittedBy g p)"

definition firstOK :: "pipeState \<Rightarrow> bool" where
  "firstOK p \<longleftrightarrow> (\<forall>g. activeIn p g \<and> 0 < g \<longrightarrow> firstAt p g)"

lemma firstAt_set: "psSink p g = ph \<Longrightarrow> (awaitsKeyframe ph \<longrightarrow> awaitsKeyframe ph') \<Longrightarrow> firstAt p h \<Longrightarrow> firstAt (setSink g ph' p) h"
  by (auto simp: firstAt_def setSink_def emittedBy_def split: list.splits)

lemma firstAt_upd [simp]: "firstAt (updBranch g f p) h = firstAt p h"
  by (simp add: firstAt_def emittedBy_def updBranch_def)

lemma firstAt_sink: "sinkStep p p' \<Longrightarrow> gateOK p \<Longrightarrow> activeIn p h \<Longrightarrow> firstAt p h \<Longrightarrow> firstAt p' h"
proof (induction rule: sinkStep.induct)
  case (emit p g kf)
  then show ?case by (cases "g = h"; cases "emittedBy h p = []") (auto simp: firstAt_def emittedBy_def setSink_def hd_append)
next
  case (gateReady p g b)
  then have "g \<noteq> h" by (auto simp: in_defs)
  then show ?case using gateReady(5,6) by (simp add: setSink_updBranch firstAt_def emittedBy_def setSink_def updBranch_def)
next
  case (gateDrop p g b)
  then have "g \<noteq> h" by (auto simp: in_defs)
  then show ?case using gateDrop(5,6) by (simp add: firstAt_def emittedBy_def setSink_def)
qed (auto intro: firstAt_set)

lemma firstOK_sink: "sinkStep p p' \<Longrightarrow> gateOK p \<Longrightarrow> firstOK p \<Longrightarrow> firstOK p'"
  by (auto simp: firstOK_def sink_frame(1) intro: firstAt_sink)

lemma firstOK_env: "envStep tmpl gst p p' \<Longrightarrow> firstOK p \<Longrightarrow> firstOK p'"
  by (simp add: firstOK_def firstAt_def emittedBy_def env_frame)

lemma firstOK_replace:
  assumes step: "replaceStep tmpl gst p p'" and "heapOK p" and ph: "phaseOK (psReplace p) p" and "gateOK p" "emittedOK p" and old: "firstOK p"
  shows "firstOK p'"
proof -
  have same: "firstAt p' g = firstAt p g" for g using replace_frame [OF step] by (simp add: firstAt_def emittedBy_def)
  from replace_active [OF step assms(2) ph] show ?thesis
  proof (elim disjE exE conjE)
    assume "activeIn p' = activeIn p"
    then show ?thesis using old same by (simp add: firstOK_def)
  next
    fix c o' assume c: "psReplace p = RPromoting c o'" "activeIn p' = (activeIn p)(c := True)"
    then obtain b where b: "psHeap p c = Some b" "\<not> vbActive b" "vbReady b" "\<not> vbStop b" using ph by auto
    have "gateAt b (psSink p c)" by (rule gateOK_D(1) [OF assms(4) b(1)])
    then have "psSink p c = SinkWait" using b by (cases "psSink p c") auto
    moreover have "emittedBy c p = []" using assms(5) b by (auto simp: emittedBy_def emittedOK_def in_defs filter_empty_conv)
    ultimately have "firstAt p c" by (simp add: firstAt_def)
    then show ?thesis using old same c(2) by (simp add: firstOK_def)
  qed
qed

text \<open>Every branch but the active one and a running candidate has been stopped.\<close>

fun candOf :: "replacer \<Rightarrow> nat option" where
  "candOf (RBuilt c old) = Some c"
| "candOf (RStarted c old) = Some c"
| "candOf (RRegistered c old) = Some c"
| "candOf (RWaiting c old) = Some c"
| "candOf (RReady c old) = Some c"
| "candOf (RKept c old) = Some c"
| "candOf (RRollback e c old) = Some c"
| "candOf _ = None"

definition leakOK :: "pipeState \<Rightarrow> bool" where
  "leakOK p \<longleftrightarrow> (\<forall>g b. psHeap p g = Some b \<and> psBranch p \<noteq> Some g \<and> candOf (psReplace p) \<noteq> Some g \<longrightarrow> vbStop b)"

lemma leakOK_sink: "sinkStep p p' \<Longrightarrow> leakOK p \<Longrightarrow> leakOK p'"
  by (induction rule: sinkStep.induct) (auto simp: leakOK_def upd_defs)

lemma leakOK_replace: "replaceStep tmpl gst p p' \<Longrightarrow> phaseOK (psReplace p) p \<Longrightarrow> leakOK p \<Longrightarrow> leakOK p'"
  by (induction rule: replaceStep.induct) (auto simp: leakOK_def upd_defs candidateOK_def in_defs split: if_splits)

lemma leakOK_env: "envStep tmpl gst p p' \<Longrightarrow> leakOK p \<Longrightarrow> leakOK p'"
proof (induction rule: envStep.induct)
  case (bitrate p g b kbps e applied b')
  then show ?case using bitrate_frame [OF bitrate(4)] by (auto simp: leakOK_def)
qed (auto simp: leakOK_def upd_defs)

text \<open>A branch is done only after an error or its close, and a watcher that ended for the active branch has failed the pipeline.\<close>

definition watchOK :: "pipeState \<Rightarrow> bool" where
  "watchOK p \<longleftrightarrow> (\<forall>g b. psHeap p g = Some b \<longrightarrow>
     (vbDone b \<and> vbErr b = None \<longrightarrow> vbClosed b) \<and> (vbClosed b \<longrightarrow> vbStop b \<and> psBranch p \<noteq> Some g)
     \<and> (g \<in> psWatched p \<longrightarrow> vbDone b \<and> (psBranch p = Some g \<longrightarrow> psDone p))) \<and> (\<forall>g \<in> psWatched p. psHeap p g \<noteq> None)"

lemma watchOK_D:
  "watchOK p \<Longrightarrow> psHeap p g = Some b \<Longrightarrow> vbDone b \<Longrightarrow> vbErr b = None \<Longrightarrow> vbClosed b"
  "watchOK p \<Longrightarrow> psHeap p g = Some b \<Longrightarrow> vbClosed b \<Longrightarrow> vbStop b \<and> psBranch p \<noteq> Some g"
  by (auto simp: watchOK_def)

lemma errorsJoin_last [simp]: "\<exists>y. errorsJoin [e, Some x] = Some y"
  by (cases e) (simp_all add: errorsJoin_def)

lemma closeEnd_watch: "vbErr (closeEnd e b) = None \<Longrightarrow> vbErr b = None"
  by (auto simp: closeEnd_def branchSetErr_def split: option.splits)

lemma watchOK_upd:
  assumes "watchOK p" "\<And>b. vbDone (f b) = vbDone b \<and> vbErr (f b) = vbErr b \<and> vbClosed (f b) = vbClosed b \<and> (vbStop b \<longrightarrow> vbStop (f b))"
  shows "watchOK (updBranch g f p)"
  using assms by (auto simp: watchOK_def updBranch_def)

lemma watchOK_sink: "sinkStep p p' \<Longrightarrow> watchOK p \<Longrightarrow> watchOK p'"
  by (induction rule: sinkStep.induct) (auto simp: watchOK_def upd_defs)

lemma watchOK_replace: "replaceStep tmpl gst p p' \<Longrightarrow> heapOK p \<Longrightarrow> phaseOK (psReplace p) p \<Longrightarrow> watchOK p \<Longrightarrow> watchOK p'"
proof (induction rule: replaceStep.induct)
  case (build p old q profile t b)
  then show ?case using new_branch [OF build(3)] heap_fresh [OF build(4)] by (auto simp: watchOK_def)
next
  case (promote p c old b)
  then have "\<not> vbClosed b" "\<not> vbDone b"
    using watchOK_D [OF promote(8,4)] by (auto simp: activationError_None)
  then have "watchOK (p\<lparr>psReplace := RPromoting c old, psBranch := Some c, psCandidate := None\<rparr>)"
    using promote by (auto simp: watchOK_def)
  then show ?case by (rule watchOK_upd) (simp_all add: stopClose_def)
next
  case (closed p e c b stateErr)
  then show ?case by (auto simp: watchOK_def upd_defs dest: closeEnd_watch)
qed (auto simp: watchOK_def upd_defs candidateOK_def split: if_splits)

lemma watchOK_env: "envStep tmpl gst p p' \<Longrightarrow> watchOK p \<Longrightarrow> watchOK p'"
proof (induction rule: envStep.induct)
  case (bitrate p g b kbps e applied b')
  then show ?case using bitrate_frame [OF bitrate(4)] by (auto simp: watchOK_def)
next
  case (watch p g b)
  have "vbErr b \<noteq> None" if "psBranch p = Some g"
    using watchOK_D [OF watch(5,1)] watch(2) that by auto
  then show ?case using watch by (auto simp: watchOK_def watchBranch_def pipeFail_def split: option.splits)
qed (auto simp: watchOK_def upd_defs dest: closeEnd_watch)

section \<open>Reachable states\<close>

definition pipeInv :: "pipeState \<Rightarrow> bool" where
  "pipeInv p \<longleftrightarrow> heapOK p \<and> gateOK p \<and> phaseOK (psReplace p) p \<and> leaderOK p \<and> retiredOK p \<and> emittedOK p \<and> firstOK p \<and> leakOK p \<and> watchOK p"

lemma pipeInv_init:
  assumes "newVideoEncoderBranch tmpl gst 1 q profile t = Inr b"
  shows "pipeInv (initialPipeline b)"
proof -
  have "heapOK (initialPipeline b)" by (auto simp: heapOK_def initialPipeline_def)
  then show ?thesis using new_branch [OF assms]
    by (auto simp: pipeInv_def initialPipeline_def gateOK_def leaderOK_def branchFree_def leads_def in_defs retiredOK_def emittedOK_def
        firstOK_def leakOK_def watchOK_def split: if_splits)
qed

lemma pipeReach_inv: "pipeReach tmpl gst p \<Longrightarrow> pipeInv p"
proof (induction rule: pipeReach.induct)
  case (init q profile t b)
  then show ?case by (rule pipeInv_init)
next
  case (sink p p')
  then show ?case unfolding pipeInv_def
    using heapOK_sink gateOK_sink phaseOK_sink leaderOK_sink retiredOK_sink emittedOK_sink firstOK_sink leakOK_sink watchOK_sink by metis
next
  case (replace p p')
  then show ?case unfolding pipeInv_def
    using heapOK_replace gateOK_replace phaseOK_replace leaderOK_replace retiredOK_replace emittedOK_replace firstOK_replace leakOK_replace
      watchOK_replace by metis
next
  case (env p p')
  then show ?case unfolding pipeInv_def
    using heapOK_env gateOK_env phaseOK_env leaderOK_env retiredOK_env emittedOK_env firstOK_env leakOK_env watchOK_env by metis
qed

section \<open>Properties\<close>

text \<open>C31: switching encoders never mixes their streams.  In every interleaving of the encoders' streaming
  threads, failures, watchers and quality replacements, the emitted samples come from one encoder after the
  other in the order the encoders were created, and the first sample of every replacement is a keyframe.\<close>

theorem encoder_switch_safe:
  assumes "pipeReach tmpl gst p"
  shows "sorted (map fst (psEmitted p)) \<and> (\<forall>g kf rest. 0 < g \<and> emittedBy g p = kf # rest \<longrightarrow> kf)"
proof -
  have inv: "emittedOK p" "firstOK p" using pipeReach_inv [OF assms] by (simp_all add: pipeInv_def)
  have "kf" if "0 < g" "emittedBy g p = kf # rest" for g kf rest
  proof -
    have "\<exists>e \<in> set (psEmitted p). fst e = g"
      using that(2) by (metis (mono_tags, lifting) emittedBy_def filter_empty_conv list.distinct(1) list.map_disc_iff)
    then have "activeIn p g" using inv(1) by (auto simp: emittedOK_def)
    then show kf using inv(2) that by (auto simp: firstOK_def firstAt_def)
  qed
  then show ?thesis using inv(1) by (auto simp: emittedOK_def)
qed

text \<open>C32: a quality replacement is all or nothing.  When \<open>ReplaceQuality\<close> returns without error, the active
  branch encodes the requested quality and the capture keepalive matches it; when it returns an error the
  active branch is the one from before the call.  Either way no candidate is left and every other branch has
  been stopped, and an active branch whose watcher has ended has failed the pipeline, so that no failure of
  the running encoder goes unnoticed.\<close>

theorem replace_quality_atomic:
  assumes "pipeReach tmpl gst p" and "psReplace p = RReturned r"
  shows "(case r of
      None \<Rightarrow> (\<exists>g b. psBranch p = Some g \<and> psHeap p g = Some b \<and> vbActive b \<and> vbQuality b = psRequested p
                \<and> psKeepalive p = keepaliveOf (psRequested p))
    | Some e \<Rightarrow> psBranch p = psBefore p)
    \<and> psCandidate p = None
    \<and> (\<forall>g b. psHeap p g = Some b \<and> psBranch p \<noteq> Some g \<longrightarrow> vbStop b)
    \<and> (\<forall>g. psBranch p = Some g \<and> g \<in> psWatched p \<longrightarrow> psDone p)"
proof -
  have inv: "phaseOK (psReplace p) p" "leaderOK p" "leakOK p" "watchOK p" using pipeReach_inv [OF assms(1)] by (simp_all add: pipeInv_def)
  have "branchFree p" using assms(2) by (simp add: branchFree_def)
  moreover have "\<forall>g. psBranch p = Some g \<and> g \<in> psWatched p \<longrightarrow> psDone p" using inv(4) by (force simp: watchOK_def)
  moreover have "\<forall>g b. psHeap p g = Some b \<and> psBranch p \<noteq> Some g \<longrightarrow> vbStop b" using inv(3) assms(2) by (simp add: leakOK_def)
  ultimately show ?thesis using inv(1,2) assms(2) by (cases r) (auto simp: leaderOK_def leads_def in_defs)
qed

section \<open>Witnesses\<close>

text \<open>A GStreamer that accepts everything, and a replacement that runs to the end.\<close>

definition demoGst :: gstreamer where
  "demoGst = \<lparr>gsPipeline = (\<lambda>_. None), gsElement = (\<lambda>_. None), gsSource = (\<lambda>_. True), gsSink = (\<lambda>_. True), gsProbe = (\<lambda>_ _. None),
     gsSet = (\<lambda>_ _ _. None)\<rparr>"

definition demoQuality :: quality where
  "demoQuality = optionQuality demoOption ''vp8'' ''hd''"

definition demoBranch :: "uint64 \<Rightarrow> videoEncoderBranch" where
  "demoBranch n = \<lparr>vbGeneration = n, vbNamePrefix = branchPrefix n, vbQuality = demoQuality, vbProfile = demoProfile, vbTuning = demoTuning,
     vbActive = False, vbReady = False, vbFailed = None, vbStop = False, vbDone = False, vbClosed = False, vbInputStarted = False,
     vbErr = None, vbTraceBitrate = qBitrateKbps demoQuality\<rparr>"

lemma demo_new: "newVideoEncoderBranch plainEngine demoGst n demoQuality demoProfile demoTuning = Inr (demoBranch n)"
  by (simp add: newVideoEncoderBranch_def Let_def RenderPipeline_def renderProfileTemplate_def plainEngine_def demoGst_def demoBranch_def)

text \<open>A state with two branches: the first with its flags, the second with its sink.\<close>

definition demoState :: "videoEncoderBranch \<Rightarrow> videoEncoderBranch \<Rightarrow> sinkPhase \<Rightarrow> nat option \<Rightarrow> nat option \<Rightarrow> replacer \<Rightarrow> (nat \<times> bool) list \<Rightarrow> pipeState" where
  "demoState b0 b1 ph br cand r es = \<lparr>psHeap = (\<lambda>_. None)(0 := Some b0, Suc 0 := Some b1), psAlloc = 2, psSink = (\<lambda>_. SinkIdle)(Suc 0 := ph),
     psBranch = br, psCandidate = cand, psNextGeneration = 3, psReplace = r, psKeepalive = keepaliveOf demoQuality, psStop = False,
     psDone = False, psErr = None, psWatched = {}, psEmitted = es, psRequested = demoQuality, psBefore = Some 0\<rparr>"

definition demoOld :: videoEncoderBranch where
  "demoOld = (demoBranch 1)\<lparr>vbActive := True, vbInputStarted := True\<rparr>"

definition demoRun :: videoEncoderBranch where
  "demoRun = (demoBranch 2)\<lparr>vbInputStarted := True\<rparr>"

lemmas demo_sim = demoState_def demoOld_def demoRun_def upd_defs keepaliveOf_def fun_upd_twist

lemma demo_built: "pipeReach plainEngine demoGst (demoState demoOld (demoBranch 2) SinkIdle (Some 0) None (RBuilt 1 0) [])"
proof -
  let ?p = "initialPipeline (demoBranch 1)"
  have "replaceStep plainEngine demoGst ?p (?p\<lparr>psHeap := (psHeap ?p)(psAlloc ?p := Some (demoBranch 2)), psAlloc := Suc (psAlloc ?p),
      psNextGeneration := psNextGeneration ?p + 1, psReplace := RBuilt (psAlloc ?p) 0, psRequested := demoQuality, psBefore := Some 0\<rparr>)"
    by (rule replaceStep.build [where profile = demoProfile and t = demoTuning])
       (simp_all add: initialPipeline_def demo_new)
  moreover have "?p\<lparr>psHeap := (psHeap ?p)(psAlloc ?p := Some (demoBranch 2)), psAlloc := Suc (psAlloc ?p),
      psNextGeneration := psNextGeneration ?p + 1, psReplace := RBuilt (psAlloc ?p) 0, psRequested := demoQuality, psBefore := Some 0\<rparr>
      = demoState demoOld (demoBranch 2) SinkIdle (Some 0) None (RBuilt 1 0) []"
    by (simp add: initialPipeline_def demoState_def demoOld_def demoBranch_def fun_eq_iff)
  ultimately show ?thesis using pipeReach.init [OF demo_new] pipeReach.replace by metis
qed

lemma demo_waiting: "pipeReach plainEngine demoGst (demoState demoOld demoRun SinkIdle (Some 0) (Some 1) (RWaiting 1 0) [])"
proof -
  have "replaceStep plainEngine demoGst (demoState demoOld (demoBranch 2) SinkIdle (Some 0) None (RBuilt 1 0) [])
      (demoState demoOld demoRun SinkIdle (Some 0) None (RStarted 1 0) [])"
    using replaceStep.start [of "demoState demoOld (demoBranch 2) SinkIdle (Some 0) None (RBuilt 1 0) []" 1 0 "demoBranch 2" plainEngine demoGst]
    by (simp add: demo_sim demoBranch_def)
  moreover have "replaceStep plainEngine demoGst (demoState demoOld demoRun SinkIdle (Some 0) None (RStarted 1 0) [])
      (demoState demoOld demoRun SinkIdle (Some 0) (Some 1) (RRegistered 1 0) [])"
    using replaceStep.register [of "demoState demoOld demoRun SinkIdle (Some 0) None (RStarted 1 0) []" 1 0 demoRun plainEngine demoGst]
    by (simp add: demo_sim demoBranch_def)
  moreover have "replaceStep plainEngine demoGst (demoState demoOld demoRun SinkIdle (Some 0) (Some 1) (RRegistered 1 0) [])
      (demoState demoOld demoRun SinkIdle (Some 0) (Some 1) (RWaiting 1 0) [])"
    using replaceStep.keep [of "demoState demoOld demoRun SinkIdle (Some 0) (Some 1) (RRegistered 1 0) []" 1 0 demoRun demoOld plainEngine demoGst]
    by (simp add: demo_sim demoBranch_def)
  ultimately show ?thesis using demo_built pipeReach.replace by metis
qed

definition demoReady :: videoEncoderBranch where
  "demoReady = demoRun\<lparr>vbReady := True\<rparr>"

lemma demo_kept: "pipeReach plainEngine demoGst (demoState demoOld demoReady SinkWait (Some 0) (Some 1) (RKept 1 0) [])"
proof -
  have "sinkStep (demoState demoOld demoRun SinkIdle (Some 0) (Some 1) (RWaiting 1 0) [])
      (demoState demoOld demoRun (SinkGate True) (Some 0) (Some 1) (RWaiting 1 0) [])"
    using sinkStep.pull [of "demoState demoOld demoRun SinkIdle (Some 0) (Some 1) (RWaiting 1 0) []" 1 demoRun True]
    by (simp add: demo_sim demoBranch_def)
  moreover have "sinkStep (demoState demoOld demoRun (SinkGate True) (Some 0) (Some 1) (RWaiting 1 0) [])
      (demoState demoOld demoReady SinkWait (Some 0) (Some 1) (RWaiting 1 0) [])"
    using sinkStep.gateReady [of "demoState demoOld demoRun (SinkGate True) (Some 0) (Some 1) (RWaiting 1 0) []" 1 demoRun]
    by (simp add: demo_sim demoReady_def demoBranch_def)
  moreover have "replaceStep plainEngine demoGst (demoState demoOld demoReady SinkWait (Some 0) (Some 1) (RWaiting 1 0) [])
      (demoState demoOld demoReady SinkWait (Some 0) (Some 1) (RReady 1 0) [])"
    using replaceStep.ready [of "demoState demoOld demoReady SinkWait (Some 0) (Some 1) (RWaiting 1 0) []" 1 0 demoReady plainEngine demoGst]
    by (simp add: demo_sim demoReady_def)
  moreover have "replaceStep plainEngine demoGst (demoState demoOld demoReady SinkWait (Some 0) (Some 1) (RReady 1 0) [])
      (demoState demoOld demoReady SinkWait (Some 0) (Some 1) (RKept 1 0) [])"
    using replaceStep.keepReady [of "demoState demoOld demoReady SinkWait (Some 0) (Some 1) (RReady 1 0) []" 1 0 demoReady plainEngine demoGst]
    by (simp add: demo_sim demoReady_def demoBranch_def)
  ultimately show ?thesis using demo_waiting pipeReach.replace pipeReach.sink by metis
qed

lemma demo_promoted:
  "pipeReach plainEngine demoGst (demoState (demoOld\<lparr>vbStop := True, vbClosed := True\<rparr>) (demoReady\<lparr>vbActive := True\<rparr>) SinkWait (Some 1) None (RReturned None) [])"
proof -
  have "replaceStep plainEngine demoGst (demoState demoOld demoReady SinkWait (Some 0) (Some 1) (RKept 1 0) [])
      (demoState (demoOld\<lparr>vbStop := True\<rparr>) demoReady SinkWait (Some 1) None (RPromoting 1 0) [])"
    using replaceStep.promote [of "demoState demoOld demoReady SinkWait (Some 0) (Some 1) (RKept 1 0) []" 1 0 demoReady plainEngine demoGst]
    by (simp add: demo_sim demoReady_def demoBranch_def activationError_def)
  moreover have "replaceStep plainEngine demoGst (demoState (demoOld\<lparr>vbStop := True\<rparr>) demoReady SinkWait (Some 1) None (RPromoting 1 0) [])
      (demoState (demoOld\<lparr>vbStop := True, vbClosed := True\<rparr>) (demoReady\<lparr>vbActive := True\<rparr>) SinkWait (Some 1) None (RReturned None) [])"
    using replaceStep.promoted [of "demoState (demoOld\<lparr>vbStop := True\<rparr>) demoReady SinkWait (Some 1) None (RPromoting 1 0) []" 1 0 plainEngine demoGst]
    by (simp add: demo_sim demoReady_def demoBranch_def notEmitting_def)
  ultimately show ?thesis using demo_kept pipeReach.replace by metis
qed

lemma demo_emitted:
  "pipeReach plainEngine demoGst (demoState (demoOld\<lparr>vbStop := True, vbClosed := True\<rparr>) (demoReady\<lparr>vbActive := True\<rparr>) SinkIdle (Some 1) None (RReturned None) [(1, True)])"
proof -
  let ?s = "\<lambda>ph es. demoState (demoOld\<lparr>vbStop := True, vbClosed := True\<rparr>) (demoReady\<lparr>vbActive := True\<rparr>) ph (Some 1) None (RReturned None) es"
  have a: "sinkStep (?s SinkWait []) (?s (SinkPast True) [])"
    using sinkStep.waitActive [of "?s SinkWait []" 1 "demoReady\<lparr>vbActive := True\<rparr>"] by (simp add: demo_sim)
  have b: "sinkStep (?s (SinkPast True) []) (?s (SinkEmit True) [])"
    using sinkStep.lock [of "?s (SinkPast True) []" 1 True "demoReady\<lparr>vbActive := True\<rparr>"] by (simp add: demo_sim demoReady_def demoBranch_def)
  have c: "sinkStep (?s (SinkEmit True) []) (?s SinkIdle [(1, True)])"
    using sinkStep.emit [of "?s (SinkEmit True) []" 1 True] by (simp add: demo_sim)
  show ?thesis by (rule pipeReach.sink [OF pipeReach.sink [OF pipeReach.sink [OF demo_promoted a] b] c])
qed

theorem encoder_switch_safe_witness:
  "\<exists>p. pipeReach plainEngine demoGst p \<and> psEmitted p = [(1, True)] \<and> sorted (map fst (psEmitted p)) \<and> hd (emittedBy 1 p)"
proof -
  let ?p = "demoState (demoOld\<lparr>vbStop := True, vbClosed := True\<rparr>) (demoReady\<lparr>vbActive := True\<rparr>) SinkIdle (Some 1) None (RReturned None) [(1, True)]"
  have "psEmitted ?p = [(1, True)]" "emittedBy 1 ?p = True # []" by (simp_all add: demoState_def emittedBy_def)
  then show ?thesis using encoder_switch_safe [OF demo_emitted] demo_emitted by (metis list.sel(1) zero_less_one)
qed

theorem replace_quality_atomic_witness:
  "\<exists>p b. pipeReach plainEngine demoGst p \<and> psReplace p = RReturned None \<and> psBranch p = Some 1 \<and> psHeap p 1 = Some b
     \<and> vbQuality b = demoQuality \<and> (\<exists>b'. psHeap p 0 = Some b' \<and> vbStop b')"
proof -
  let ?p = "demoState (demoOld\<lparr>vbStop := True, vbClosed := True\<rparr>) (demoReady\<lparr>vbActive := True\<rparr>) SinkWait (Some 1) None (RReturned None) []"
  have "psReplace ?p = RReturned None" "psBranch ?p = Some 1" "psRequested ?p = demoQuality" "psHeap ?p 0 \<noteq> None"
    by (simp_all add: demoState_def)
  then show ?thesis using replace_quality_atomic [OF demo_promoted, of None] demo_promoted by fastforce
qed

text \<open>The slot: a reader that has seen an older sequence gets the newest sample, and one that waits is woken by the next.\<close>

lemma slot_latest:
  assumes "slotStore f s = (True, s')"
  shows "slotNext after s' = (if after = slSequence s + 1 then SlotWait (Suc (slChanged s)) else SlotFrame f (slSequence s + 1))"
    and "slotNext after s = SlotWait ch \<Longrightarrow> changedClosed ch s'" and "slotNext after s = SlotWait ch \<Longrightarrow> changedClosed ch (slotClose s)"
  using assms by (auto simp: slotStore_def slotNext_def changedClosed_def slotClose_def split: if_splits option.splits)

end
