(* ===== verification/Media_Service.thy ===== *)
theory Media_Service
  imports Video_Pipeline
begin

text \<open>
  The media service (\<open>src/media/media.go\<close>): which quality is active, live bitrate changes and the delivery
  switch, on top of an encoder pipeline.  The pipeline is an interface: what \<open>ReplaceQuality\<close> and
  \<open>SetBitrate\<close> do to the quality of the active encoder; it is interpreted on the pipeline of
  \<open>Video_Pipeline\<close>.
\<close>

subsection \<open>Operations\<close>

record 'p mediaService =
  msCfg :: mediaConfig
  msStarted :: bool
  msRunning :: bool
  msSource :: bool
  msPipeline :: "'p option"
  msQuality :: quality
  msActive :: bool
  msStopSamples :: bool

definition newService :: "'t templateEngine \<Rightarrow> (string fset \<Rightarrow> string list) \<Rightarrow> (string \<Rightarrow> goerror option) \<Rightarrow> mediaConfig \<Rightarrow> goerror + 'p mediaService" where
  "newService tmpl keys regex cfg =
    (case mediaConfigValidate tmpl keys regex cfg of
       Some err \<Rightarrow> Inl err
     | None \<Rightarrow> Inr \<lparr>msCfg = cfg, msStarted = False, msRunning = False, msSource = False, msPipeline = None, msQuality = mcQuality cfg,
         msActive = False, msStopSamples = False\<rparr>)"

text \<open>
  \<open>Run\<close> up to its loop: \<open>acquire\<close>, \<open>build\<close> and \<open>start\<close> are the outcomes of acquiring the stream, building
  the pipeline for the configured quality, and starting it.
\<close>

definition runStart :: "bool \<Rightarrow> goerror option \<Rightarrow> goerror + 'p \<Rightarrow> goerror option \<Rightarrow> 'p mediaService \<Rightarrow> goerror option \<times> 'p mediaService" where
  "runStart hasSource acquire build start s =
    (if msStarted s then (Some (errorsNew ''media service has already been run''), s)
     else let s = s\<lparr>msStarted := True\<rparr> in
       if \<not> hasSource then (Some (errorsNew ''video source is required''), s)
       else (case acquire of
         Some err \<Rightarrow> (Some (Wrap ''acquire desktop capture stream: %w'' err []), s)
       | None \<Rightarrow> (case build of
           Inl err \<Rightarrow> (Some (Wrap ''build video pipeline: %w'' err []), s)
         | Inr pl \<Rightarrow> (case start of
             Some err \<Rightarrow> (Some (Wrap ''start video pipeline: %w'' err []), s)
           | None \<Rightarrow> (None, s\<lparr>msSource := True, msPipeline := Some pl, msRunning := True\<rparr>)))))"

text \<open>The deferred end of \<open>Run\<close>.\<close>

definition runEnd :: "'p mediaService \<Rightarrow> 'p mediaService" where
  "runEnd s = s\<lparr>msStopSamples := True, msPipeline := None, msSource := False, msRunning := False\<rparr>"

text \<open>
  \<open>SetActive\<close>: the result tells whether a keyframe is requested from the pipeline.
\<close>

definition SetActive :: "bool \<Rightarrow> 'p mediaService \<Rightarrow> bool \<times> 'p mediaService" where
  "SetActive active s =
    (let previous = msActive s; s' = s\<lparr>msActive := active\<rparr>
     in if \<not> active \<or> previous then (False, s') else (msRunning s \<and> msPipeline s \<noteq> None, s'))"

definition RequestKeyframe :: "('p \<Rightarrow> goerror option) \<Rightarrow> 'p mediaService \<Rightarrow> goerror option" where
  "RequestKeyframe request s =
    (case msPipeline s of
       Some pl \<Rightarrow> if msRunning s then wrapError ''request encoder keyframe: %w'' [] (request pl)
                 else Some (errorsNew ''media service is not running'')
     | None \<Rightarrow> Some (errorsNew ''media service is not running''))"

text \<open>
  \<open>UpdateQuality\<close> releases \<open>mu\<close> around the call into the pipeline: what it decides before the call, and
  what it does after it.  \<open>updateMu\<close> keeps other updates out in between.
\<close>

datatype updatePlan = UpdateReject goerror | UpdateNothing | UpdateReplace | UpdateBitrate

definition planUpdate :: "quality \<Rightarrow> 'p mediaService \<Rightarrow> updatePlan" where
  "planUpdate q s =
    (case qualityValidate (mcProfiles (msCfg s)) q of
       Some err \<Rightarrow> UpdateReject err
     | None \<Rightarrow>
         if \<not> msRunning s \<or> msPipeline s = None \<or> \<not> msSource s then UpdateReject (errorsNew ''media service is not running'')
         else let current = msQuality s in
           if q = current then UpdateNothing
           else if qProfile q = qProfile current \<and> qWidth q = qWidth current \<and> qHeight q = qHeight current
                \<and> qFramerate q = qFramerate current
           then UpdateBitrate else UpdateReplace)"

definition updateError :: "updatePlan \<Rightarrow> goerror \<Rightarrow> goerror" where
  "updateError plan err = (if plan = UpdateReplace then Wrap ''replace video encoder branch: %w'' err []
     else Wrap ''update live encoder bitrate: %w'' err [])"

text \<open>\<open>samePipeline\<close>: the pipeline is still the one that was called.\<close>

definition commitUpdate :: "quality \<Rightarrow> bool \<Rightarrow> 'p mediaService \<Rightarrow> goerror option \<times> 'p mediaService" where
  "commitUpdate q samePipeline s =
    (if \<not> msRunning s \<or> \<not> samePipeline \<or> \<not> msSource s
     then (Some (errorsNew ''media service stopped during video quality update''), s)
     else (None, s\<lparr>msQuality := q\<rparr>))"

datatype bitratePlan = BitrateReject goerror | BitrateApply

definition planBitrate :: "int \<Rightarrow> 'p mediaService \<Rightarrow> bitratePlan" where
  "planBitrate kbps s =
    (if kbps < MinBitrateKbps then BitrateReject (Errorf ''video bitrate must be at least %d Kbit/s'' [FInt MinBitrateKbps])
     else if \<not> msRunning s \<or> msPipeline s = None \<or> \<not> msSource s then BitrateReject (errorsNew ''media service is not running'')
     else if kbps > qBitrateKbps (msQuality s)
     then BitrateReject (Errorf ''encoder bitrate must not exceed requested bitrate %d Kbit/s'' [FInt (qBitrateKbps (msQuality s))])
     else BitrateApply)"

subsection \<open>Interleavings\<close>

text \<open>
  The service with the holder of \<open>updateMu\<close>: nobody, or an \<open>UpdateQuality\<close> whose pipeline call has
  succeeded and that has not yet committed.  The parameters are the pipeline's operations, as relations
  between the pipeline before, the result and the pipeline after, and the steps of its own goroutines.
\<close>

record 'p mediaSystem =
  sysService :: "'p mediaService"
  sysPending :: "quality option"

inductive mediaStep :: "(quality \<Rightarrow> 'p \<Rightarrow> goerror option \<Rightarrow> 'p \<Rightarrow> bool) \<Rightarrow> (int \<Rightarrow> 'p \<Rightarrow> goerror option \<Rightarrow> 'p \<Rightarrow> bool)
    \<Rightarrow> ('p \<Rightarrow> 'p \<Rightarrow> bool) \<Rightarrow> (quality \<Rightarrow> 'p \<Rightarrow> bool) \<Rightarrow> 'p mediaSystem \<Rightarrow> 'p mediaSystem \<Rightarrow> bool"
  for replaceQuality setBitrate background started where
  run: "runStart src acquire build start (sysService m) = (e, s') \<Longrightarrow> (\<And>pl. build = Inr pl \<Longrightarrow> started (mcQuality (msCfg (sysService m))) pl)
    \<Longrightarrow> mediaStep replaceQuality setBitrate background started m (m\<lparr>sysService := s'\<rparr>)"
| stop: "msRunning (sysService m) \<Longrightarrow> mediaStep replaceQuality setBitrate background started m (m\<lparr>sysService := runEnd (sysService m)\<rparr>)"
| active: "SetActive a (sysService m) = (kf, s') \<Longrightarrow> mediaStep replaceQuality setBitrate background started m (m\<lparr>sysService := s'\<rparr>)"
| pipeline: "msPipeline (sysService m) = Some pl \<Longrightarrow> background pl pl'
    \<Longrightarrow> mediaStep replaceQuality setBitrate background started m (m\<lparr>sysService := (sysService m)\<lparr>msPipeline := Some pl'\<rparr>\<rparr>)"
| updateReplace: "sysPending m = None \<Longrightarrow> planUpdate q (sysService m) = UpdateReplace \<Longrightarrow> msPipeline (sysService m) = Some pl
    \<Longrightarrow> replaceQuality q pl e pl'
    \<Longrightarrow> mediaStep replaceQuality setBitrate background started m
          \<lparr>sysService = (sysService m)\<lparr>msPipeline := Some pl'\<rparr>, sysPending = (if e = None then Some q else None)\<rparr>"
| updateBitrate: "sysPending m = None \<Longrightarrow> planUpdate q (sysService m) = UpdateBitrate \<Longrightarrow> msPipeline (sysService m) = Some pl
    \<Longrightarrow> setBitrate (qBitrateKbps q) pl e pl'
    \<Longrightarrow> mediaStep replaceQuality setBitrate background started m
          \<lparr>sysService = (sysService m)\<lparr>msPipeline := Some pl'\<rparr>, sysPending = (if e = None then Some q else None)\<rparr>"
| updateCommit: "sysPending m = Some q \<Longrightarrow> commitUpdate q (msPipeline (sysService m) \<noteq> None) (sysService m) = (e, s')
    \<Longrightarrow> mediaStep replaceQuality setBitrate background started m \<lparr>sysService = s', sysPending = None\<rparr>"
| congestion: "sysPending m = None \<Longrightarrow> planBitrate kbps (sysService m) = BitrateApply \<Longrightarrow> msPipeline (sysService m) = Some pl
    \<Longrightarrow> setBitrate kbps pl e pl'
    \<Longrightarrow> mediaStep replaceQuality setBitrate background started m (m\<lparr>sysService := (sysService m)\<lparr>msPipeline := Some pl'\<rparr>\<rparr>)"

inductive mediaReach :: "(quality \<Rightarrow> 'p \<Rightarrow> goerror option \<Rightarrow> 'p \<Rightarrow> bool) \<Rightarrow> (int \<Rightarrow> 'p \<Rightarrow> goerror option \<Rightarrow> 'p \<Rightarrow> bool)
    \<Rightarrow> ('p \<Rightarrow> 'p \<Rightarrow> bool) \<Rightarrow> (quality \<Rightarrow> 'p \<Rightarrow> bool) \<Rightarrow> 'p mediaService \<Rightarrow> 'p mediaSystem \<Rightarrow> bool"
  for replaceQuality setBitrate background started s0 where
  init: "mediaReach replaceQuality setBitrate background started s0 \<lparr>sysService = s0, sysPending = None\<rparr>"
| step: "mediaReach replaceQuality setBitrate background started s0 m \<Longrightarrow> mediaStep replaceQuality setBitrate background started m m'
    \<Longrightarrow> mediaReach replaceQuality setBitrate background started s0 m'"

section \<open>The pipeline as the service sees it\<close>

locale encoder_pipeline =
  fixes encoderQuality :: "'p \<Rightarrow> quality option"
    and replaceQuality :: "quality \<Rightarrow> 'p \<Rightarrow> goerror option \<Rightarrow> 'p \<Rightarrow> bool"
    and setBitrate :: "int \<Rightarrow> 'p \<Rightarrow> goerror option \<Rightarrow> 'p \<Rightarrow> bool"
    and background :: "'p \<Rightarrow> 'p \<Rightarrow> bool"
    and started :: "quality \<Rightarrow> 'p \<Rightarrow> bool"
  assumes started_quality: "started q pl \<Longrightarrow> encoderQuality pl = Some q"
    and replace_done: "replaceQuality q pl None pl' \<Longrightarrow> encoderQuality pl' = Some q"
    and replace_failed: "replaceQuality q pl (Some e) pl' \<Longrightarrow> encoderQuality pl' = encoderQuality pl"
    and bitrate_done: "setBitrate kbps pl None pl' \<Longrightarrow> encoderQuality pl' = map_option (\<lambda>q. q\<lparr>qBitrateKbps := kbps\<rparr>) (encoderQuality pl)"
    and bitrate_failed: "setBitrate kbps pl (Some e) pl' \<Longrightarrow> encoderQuality pl' = encoderQuality pl"
    and background_quality: "background pl pl' \<Longrightarrow> encoderQuality pl' = encoderQuality pl \<or> encoderQuality pl' = None"
begin

text \<open>The encoder runs the requested picture at no more than the requested bitrate.\<close>

definition follows :: "quality \<Rightarrow> quality \<Rightarrow> bool" where
  "follows q enc \<longleftrightarrow> qProfile enc = qProfile q \<and> qWidth enc = qWidth q \<and> qHeight enc = qHeight q \<and> qFramerate enc = qFramerate q
     \<and> qBitrateKbps enc \<le> qBitrateKbps q"

definition serviceOK :: "profiles \<Rightarrow> 'p mediaSystem \<Rightarrow> bool" where
  "serviceOK profiles m \<longleftrightarrow> mcProfiles (msCfg (sysService m)) = profiles \<and> qualityValidate profiles (msQuality (sysService m)) = None
     \<and> (\<forall>q. sysPending m = Some q \<longrightarrow> qualityValidate profiles q = None)
     \<and> (msStarted (sysService m) \<or> msQuality (sysService m) = mcQuality (msCfg (sysService m)) \<and> msPipeline (sysService m) = None
          \<and> sysPending m = None)
     \<and> (\<forall>pl enc. msPipeline (sysService m) = Some pl \<and> encoderQuality pl = Some enc \<longrightarrow>
          (sysPending m = None \<longrightarrow> follows (msQuality (sysService m)) enc) \<and> (\<forall>q. sysPending m = Some q \<longrightarrow> follows q enc))
     \<and> (msRunning (sysService m) \<longleftrightarrow> msPipeline (sysService m) \<noteq> None) \<and> (msSource (sysService m) \<longleftrightarrow> msPipeline (sysService m) \<noteq> None)"

lemma planUpdate_valid: "planUpdate q s = UpdateReplace \<or> planUpdate q s = UpdateBitrate \<Longrightarrow> qualityValidate (mcProfiles (msCfg s)) q = None"
  by (auto simp: planUpdate_def split: option.splits)

lemma planUpdate_bitrate:
  "planUpdate q s = UpdateBitrate \<Longrightarrow> qProfile q = qProfile (msQuality s) \<and> qWidth q = qWidth (msQuality s)
     \<and> qHeight q = qHeight (msQuality s) \<and> qFramerate q = qFramerate (msQuality s)"
  by (auto simp: planUpdate_def Let_def split: option.splits if_splits)

lemma planBitrate_apply: "planBitrate kbps s = BitrateApply \<Longrightarrow> kbps \<le> qBitrateKbps (msQuality s)"
  by (auto simp: planBitrate_def split: if_splits)

lemma runStart_cases:
  assumes "runStart src acquire build start s = (e, s')"
  shows "s' = s \<or> \<not> msStarted s \<and> (s' = s\<lparr>msStarted := True\<rparr>
    \<or> (\<exists>pl. build = Inr pl \<and> s' = s\<lparr>msStarted := True, msSource := True, msPipeline := Some pl, msRunning := True\<rparr>))"
  using assms by (auto simp: runStart_def Let_def split: if_splits option.splits sum.splits)

lemma serviceOK_step:
  "mediaStep replaceQuality setBitrate background started m m' \<Longrightarrow> serviceOK profiles m \<Longrightarrow> serviceOK profiles m'"
proof (induction rule: mediaStep.induct)
  case (run src acquire build start m e s')
  have q: "encoderQuality pl = Some (mcQuality (msCfg (sysService m)))" if "build = Inr pl" for pl
    using run(2) [OF that] started_quality by blast
  from runStart_cases [OF run(1)] show ?case
  proof (elim disjE conjE exE)
    fix pl assume b: "build = Inr pl" and ns: "\<not> msStarted (sysService m)"
      and s': "s' = (sysService m)\<lparr>msStarted := True, msSource := True, msPipeline := Some pl, msRunning := True\<rparr>"
    have p: "msQuality (sysService m) = mcQuality (msCfg (sysService m))" "sysPending m = None"
      using run(3) ns by (auto simp: serviceOK_def)
    have e: "encoderQuality pl = Some (msQuality (sysService m))" using q [OF b] p(1) by simp
    show ?thesis unfolding s' using run(3) p(2) e by (auto simp: serviceOK_def follows_def)
  qed (use run(3) in \<open>auto simp: serviceOK_def\<close>)
next
  case (stop m)
  then show ?case by (auto simp: serviceOK_def runEnd_def)
next
  case (active a m kf s')
  then show ?case by (auto simp: serviceOK_def SetActive_def Let_def split: if_splits)
next
  case (pipeline m pl pl')
  then show ?case using background_quality [OF pipeline(2)] by (auto simp: serviceOK_def)
next
  case (updateReplace m q pl e pl')
  have v: "qualityValidate (mcProfiles (msCfg (sysService m))) q = None" using planUpdate_valid updateReplace(2) by blast
  show ?case
  proof (cases e)
    case None
    then have "encoderQuality pl' = Some q" using updateReplace(4) replace_done by blast
    then show ?thesis using None updateReplace(1,3,5) v by (simp add: serviceOK_def follows_def)
  next
    case (Some err)
    then have "encoderQuality pl' = encoderQuality pl" using updateReplace(4) replace_failed by blast
    then show ?thesis using Some updateReplace(1,3,5) by (simp add: serviceOK_def)
  qed
next
  case (updateBitrate m q pl e pl')
  have v: "qualityValidate (mcProfiles (msCfg (sysService m))) q = None" using planUpdate_valid updateBitrate(2) by blast
  show ?case
  proof (cases e)
    case None
    then have "encoderQuality pl' = map_option (\<lambda>q'. q'\<lparr>qBitrateKbps := qBitrateKbps q\<rparr>) (encoderQuality pl)"
      using updateBitrate(4) bitrate_done by blast
    moreover have "follows (msQuality (sysService m)) enc" if "encoderQuality pl = Some enc" for enc
      using updateBitrate(1,3,5) that by (simp add: serviceOK_def)
    ultimately have "follows q enc" if "encoderQuality pl' = Some enc" for enc
      using that planUpdate_bitrate [OF updateBitrate(2)] by (cases "encoderQuality pl") (auto simp: follows_def)
    then show ?thesis using None updateBitrate(1,3,5) v by (simp add: serviceOK_def)
  next
    case (Some err)
    then have "encoderQuality pl' = encoderQuality pl" using updateBitrate(4) bitrate_failed by blast
    then show ?thesis using Some updateBitrate(1,3,5) by (simp add: serviceOK_def)
  qed
next
  case (updateCommit m q e s')
  then show ?case by (auto simp: serviceOK_def commitUpdate_def split: if_splits)
next
  case (congestion m kbps pl e pl')
  have "encoderQuality pl' = map_option (\<lambda>q'. q'\<lparr>qBitrateKbps := kbps\<rparr>) (encoderQuality pl) \<or> encoderQuality pl' = encoderQuality pl"
    using congestion(4) bitrate_done bitrate_failed by (cases e) blast+
  then show ?case using congestion(1,3,5) planBitrate_apply [OF congestion(2)] by (auto simp: serviceOK_def follows_def)
qed

lemma serviceOK_reach:
  assumes "mediaReach replaceQuality setBitrate background started s0 m" "newService tmpl keys regex cfg = Inr s0"
  shows "serviceOK (mcProfiles cfg) m"
  using assms(1)
proof (induction rule: mediaReach.induct)
  case init
  then show ?case using assms(2)
    by (auto simp: newService_def serviceOK_def mediaConfigValidate_def ValidateProfiles_def split: option.splits)
next
  case (step m m')
  then show ?case using serviceOK_step by blast
qed

end

section \<open>The pipeline provides the interface\<close>

text \<open>The quality of the active branch.\<close>

definition activeQuality :: "pipeState \<Rightarrow> quality option" where
  "activeQuality p = (case psBranch p of None \<Rightarrow> None | Some g \<Rightarrow> map_option vbQuality (psHeap p g))"

text \<open>
  A call of \<open>ReplaceQuality\<close>: its first step, then any steps of the call and of the other goroutines until
  it returns.
\<close>

inductive replaceCall :: "'t templateEngine \<Rightarrow> gstreamer \<Rightarrow> quality \<Rightarrow> pipeState \<Rightarrow> pipeState \<Rightarrow> bool" for tmpl gst q p0 where
  enter: "pipeReach tmpl gst p0 \<Longrightarrow> psReplace p0 = RIdle \<Longrightarrow> replaceStep tmpl gst p0 p \<Longrightarrow> psRequested p = q \<Longrightarrow> replaceCall tmpl gst q p0 p"
| sink: "replaceCall tmpl gst q p0 p \<Longrightarrow> sinkStep p p' \<Longrightarrow> replaceCall tmpl gst q p0 p'"
| env: "replaceCall tmpl gst q p0 p \<Longrightarrow> envStep tmpl gst p p' \<Longrightarrow> replaceCall tmpl gst q p0 p'"
| go: "replaceCall tmpl gst q p0 p \<Longrightarrow> \<forall>r. psReplace p \<noteq> RReturned r \<Longrightarrow> replaceStep tmpl gst p p' \<Longrightarrow> replaceCall tmpl gst q p0 p'"

definition replaceResult :: "'t templateEngine \<Rightarrow> gstreamer \<Rightarrow> quality \<Rightarrow> pipeState \<Rightarrow> goerror option \<Rightarrow> pipeState \<Rightarrow> bool" where
  "replaceResult tmpl gst q p0 r p' \<longleftrightarrow> (\<exists>p. replaceCall tmpl gst q p0 p \<and> psReplace p = RReturned r \<and> p' = p\<lparr>psReplace := RIdle\<rparr>)"

definition bitrateResult :: "'t templateEngine \<Rightarrow> gstreamer \<Rightarrow> int \<Rightarrow> pipeState \<Rightarrow> goerror option \<Rightarrow> pipeState \<Rightarrow> bool" where
  "bitrateResult tmpl gst kbps p r p' \<longleftrightarrow> psReplace p = RIdle \<and>
    (case psBranch p of
       None \<Rightarrow> r = Some (errorsNew ''video encoder branch is unavailable'') \<and> p' = p
     | Some g \<Rightarrow> (\<exists>b applied b'. psHeap p g = Some b \<and> branchSetBitrate tmpl gst kbps b = (r, applied, b')
         \<and> p' = p\<lparr>psHeap := (psHeap p)(g := Some b')\<rparr>))"

text \<open>
  The steps of the pipeline's own goroutines between calls; a live bitrate change is a call, not one of them.
\<close>

definition sameQualities :: "pipeState \<Rightarrow> pipeState \<Rightarrow> bool" where
  "sameQualities p p' \<longleftrightarrow> (\<forall>g b. psHeap p g = Some b \<longrightarrow> (\<exists>b'. psHeap p' g = Some b' \<and> vbQuality b' = vbQuality b))"

definition pipeBackground :: "'t templateEngine \<Rightarrow> gstreamer \<Rightarrow> pipeState \<Rightarrow> pipeState \<Rightarrow> bool" where
  "pipeBackground tmpl gst p p' \<longleftrightarrow> pipeReach tmpl gst p \<and> (sinkStep p p' \<or> envStep tmpl gst p p' \<and> sameQualities p p')"

definition pipeStarted :: "'t templateEngine \<Rightarrow> gstreamer \<Rightarrow> quality \<Rightarrow> pipeState \<Rightarrow> bool" where
  "pipeStarted tmpl gst q p \<longleftrightarrow> (\<exists>profile t b. newVideoEncoderBranch tmpl gst 1 q profile t = Inr b \<and> p = initialPipeline b)"

lemma sink_qualities: "sinkStep p p' \<Longrightarrow> sameQualities p p'"
  using keptHeap_sink [of p p'] by (fastforce simp: keptHeap_def keptBranch_def sameQualities_def)

lemma env_qualities: "envStep tmpl gst p p' \<Longrightarrow> psReplace p \<noteq> RIdle \<Longrightarrow> sameQualities p p'"
  by (induction rule: envStep.induct) (auto simp: sameQualities_def upd_defs)

lemma replace_qualities: "replaceStep tmpl gst p p' \<Longrightarrow> heapOK p \<Longrightarrow> sameQualities p p'"
proof (induction rule: replaceStep.induct)
  case (build p old q profile t b)
  then show ?case using heap_fresh [OF build(4)] by (auto simp: sameQualities_def)
qed (auto simp: sameQualities_def upd_defs)

lemma replace_history: "replaceStep tmpl gst p p' \<Longrightarrow> psReplace p \<noteq> RIdle \<Longrightarrow> psRequested p' = psRequested p \<and> psBefore p' = psBefore p"
  by (induction rule: replaceStep.induct) (auto simp: upd_defs)

lemma replace_enter: "replaceStep tmpl gst p p' \<Longrightarrow> psReplace p = RIdle \<Longrightarrow> psBefore p' = psBranch p \<and> psReplace p' \<noteq> RIdle
    \<and> (\<forall>r. psReplace p' \<noteq> RDetached r) \<and> psReplace p' \<noteq> RShutdown"
  by (induction rule: replaceStep.induct) (auto simp: upd_defs)

text \<open>Inside a call \<open>replaceMu\<close> is held by the call.\<close>

definition inCall :: "replacer \<Rightarrow> bool" where
  "inCall r \<longleftrightarrow> r \<noteq> RIdle \<and> r \<noteq> RShutdown \<and> (\<forall>d. r \<noteq> RDetached d)"

lemma inCall_steps:
  "sinkStep p p' \<Longrightarrow> psReplace p' = psReplace p"
  "envStep tmpl gst p p' \<Longrightarrow> inCall (psReplace p) \<Longrightarrow> psReplace p' = psReplace p"
  "replaceStep tmpl gst p p' \<Longrightarrow> inCall (psReplace p) \<Longrightarrow> \<forall>r. psReplace p \<noteq> RReturned r \<Longrightarrow> inCall (psReplace p')"
proof -
  show "envStep tmpl gst p p' \<Longrightarrow> inCall (psReplace p) \<Longrightarrow> psReplace p' = psReplace p"
    by (induction rule: envStep.induct) (auto simp: upd_defs inCall_def)
  show "replaceStep tmpl gst p p' \<Longrightarrow> inCall (psReplace p) \<Longrightarrow> \<forall>r. psReplace p \<noteq> RReturned r \<Longrightarrow> inCall (psReplace p')"
    by (induction rule: replaceStep.induct) (auto simp: upd_defs inCall_def)
qed (simp add: sink_frame)

lemma sameQualities_trans: "sameQualities p p' \<Longrightarrow> sameQualities p' p'' \<Longrightarrow> sameQualities p p''"
  by (fastforce simp: sameQualities_def)

lemma replaceCall_inv:
  "replaceCall tmpl gst q p0 p \<Longrightarrow> pipeReach tmpl gst p0 \<and> psReplace p0 = RIdle \<and> pipeReach tmpl gst p \<and> inCall (psReplace p) \<and> psRequested p = q \<and> psBefore p = psBranch p0 \<and> sameQualities p0 p"
proof (induction rule: replaceCall.induct)
  case (enter p)
  then show ?case using replace_enter [OF enter(3,2)] replace_qualities [OF enter(3)] pipeReach_inv [OF enter(1)] pipeReach.replace
    by (auto simp: inCall_def pipeInv_def)
next
  case (sink p p')
  then show ?case using pipeReach.sink sink_qualities sameQualities_trans by (auto simp: sink_frame)
next
  case (env p p')
  then show ?case using pipeReach.env [of tmpl gst p p'] env_qualities [OF env(2)] sameQualities_trans [of p0 p p'] inCall_steps(2) [OF env(2)]
    by (auto simp: env_frame [OF env(2)] inCall_def)
next
  case (go p p')
  then show ?case using pipeReach.replace [of tmpl gst p p'] replace_qualities [OF go(3)] sameQualities_trans [of p0 p p'] inCall_steps(3) [OF go(3)]
      replace_history [OF go(3)] pipeReach_inv [of tmpl gst p]
    by (auto simp: pipeInv_def inCall_def)
qed

lemma replaceResult_inv:
  assumes "replaceResult tmpl gst q p r p'"
  obtains p1 where "phaseOK (RReturned r) p1" "p' = p1\<lparr>psReplace := RIdle\<rparr>" "psRequested p1 = q" "psBefore p1 = psBranch p"
    "sameQualities p p1" "leaderOK p" "branchFree p"
proof -
  obtain p1 where p1: "replaceCall tmpl gst q p p1" "psReplace p1 = RReturned r" "p' = p1\<lparr>psReplace := RIdle\<rparr>"
    using assms by (auto simp: replaceResult_def)
  note inv = replaceCall_inv [OF p1(1)]
  have "pipeInv p1" "pipeInv p" using inv pipeReach_inv by blast+
  then show thesis using that [of p1] p1 inv by (simp add: pipeInv_def branchFree_def)
qed

lemma leader_quality: "leaderOK p \<Longrightarrow> branchFree p \<Longrightarrow> psBranch p = Some g \<Longrightarrow> \<exists>b. psHeap p g = Some b"
  by (auto simp: leaderOK_def leads_def in_defs)

lemma branch_exists: "pipeInv p \<Longrightarrow> psBranch p = Some g \<Longrightarrow> \<exists>b. psHeap p g = Some b"
  using leader_quality [of p g] by (cases "psReplace p") (auto simp: pipeInv_def branchFree_def)

interpretation videopipe: encoder_pipeline activeQuality "replaceResult tmpl gst" "bitrateResult tmpl gst" "pipeBackground tmpl gst" "pipeStarted tmpl gst"
  for tmpl :: "'t templateEngine" and gst
proof
  fix q p assume "pipeStarted tmpl gst q p"
  then show "activeQuality p = Some q" using new_branch by (fastforce simp: pipeStarted_def activeQuality_def initialPipeline_def)
next
  fix q p p' assume "replaceResult tmpl gst q p None p'"
  then show "activeQuality p' = Some q" by (rule replaceResult_inv) (auto simp: activeQuality_def)
next
  fix q p e p' assume "replaceResult tmpl gst q p (Some e) p'"
  then obtain p1 where p1: "phaseOK (RReturned (Some e)) p1" "p' = p1\<lparr>psReplace := RIdle\<rparr>" "psBefore p1 = psBranch p"
    "sameQualities p p1" "leaderOK p" "branchFree p" by (rule replaceResult_inv)
  then show "activeQuality p' = activeQuality p"
  proof (cases "psBranch p")
    case (Some g)
    then obtain b where "psHeap p g = Some b" using leader_quality p1 by blast
    then show ?thesis using p1 Some by (fastforce simp: activeQuality_def sameQualities_def)
  qed (simp add: activeQuality_def)
next
  fix kbps p p' assume "bitrateResult tmpl gst kbps p None p'"
  then show "activeQuality p' = map_option (\<lambda>q. q\<lparr>qBitrateKbps := kbps\<rparr>) (activeQuality p)"
    using bitrate_frame by (fastforce simp: bitrateResult_def activeQuality_def split: option.splits)
next
  fix kbps p e p' assume "bitrateResult tmpl gst kbps p (Some e) p'"
  then show "activeQuality p' = activeQuality p"
    using bitrate_frame by (fastforce simp: bitrateResult_def activeQuality_def split: option.splits)
next
  fix p p' assume b: "pipeBackground tmpl gst p p'"
  then have "sameQualities p p'" "psBranch p' = psBranch p \<or> psBranch p' = None" "pipeInv p"
    using pipeReach_inv [of tmpl gst p] sink_qualities [of p p'] sink_frame(3) [of p p'] env_branch [of tmpl gst p p'] by (auto simp: pipeBackground_def)
  then show "activeQuality p' = activeQuality p \<or> activeQuality p' = None"
    using branch_exists [of p] by (cases "psBranch p") (fastforce simp: activeQuality_def sameQualities_def split: option.splits)+
qed

section \<open>Properties\<close>

text \<open>C33: the media service and its encoder agree.  In every interleaving of quality updates, congestion
  limits, failures and shutdown, the service's quality is a valid quality of its configuration, and while no
  update is between its encoder call and its commit the active encoder runs the service's profile, picture
  size and frame rate at no more than the requested bitrate; during such an update it runs the new ones.\<close>

theorem media_quality_consistent:
  assumes "newService tmpl keys regex cfg = Inr s0"
    and "mediaReach (replaceResult tmpl gst) (bitrateResult tmpl gst) (pipeBackground tmpl gst) (pipeStarted tmpl gst) s0 m"
    and "msPipeline (sysService m) = Some pl" and "activeQuality pl = Some enc"
    and "q = (case sysPending m of None \<Rightarrow> msQuality (sysService m) | Some q' \<Rightarrow> q')"
  shows "qualityValidate (mcProfiles cfg) q = None \<and> qualityValidate (mcProfiles cfg) (msQuality (sysService m)) = None
    \<and> qProfile enc = qProfile q \<and> qWidth enc = qWidth q \<and> qHeight enc = qHeight q \<and> qFramerate enc = qFramerate q
    \<and> qBitrateKbps enc \<le> qBitrateKbps q"
  using videopipe.serviceOK_reach [OF assms(2,1)] assms(3-5)
  by (cases "sysPending m") (auto simp: videopipe.serviceOK_def videopipe.follows_def)

section \<open>Witnesses\<close>

definition demoConfig :: mediaConfig where
  "demoConfig = \<lparr>mcProfiles = demoProfiles, mcQuality = demoQuality, mcTuning = demoTuning\<rparr>"

definition demoService :: "pipeState mediaService" where
  "demoService = \<lparr>msCfg = demoConfig, msStarted = False, msRunning = False, msSource = False, msPipeline = None, msQuality = demoQuality,
     msActive = False, msStopSamples = False\<rparr>"

lemma demo_service: "newService plainEngine sorted_list_of_fset (\<lambda>_. None) demoConfig = Inr demoService"
proof -
  have "mediaConfigValidate plainEngine sorted_list_of_fset (\<lambda>_. None) demoConfig = None"
    using demo_valid by (simp add: mediaConfigValidate_def demoConfig_def demoQuality_def) (simp add: demoTuning_def)
  then show ?thesis by (simp add: newService_def demoService_def) (simp add: demoConfig_def)
qed

definition demoRunning :: "pipeState mediaSystem" where
  "demoRunning = \<lparr>sysService = demoService\<lparr>msStarted := True, msSource := True, msPipeline := Some (initialPipeline (demoBranch 1)), msRunning := True\<rparr>,
     sysPending = None\<rparr>"

lemma demo_running:
  "mediaReach (replaceResult plainEngine demoGst) (bitrateResult plainEngine demoGst) (pipeBackground plainEngine demoGst)
     (pipeStarted plainEngine demoGst) demoService demoRunning"
proof -
  let ?m = "\<lparr>sysService = demoService, sysPending = None\<rparr>"
  have "runStart True None (Inr (initialPipeline (demoBranch 1))) None (sysService ?m) = (None, sysService demoRunning)"
    by (simp add: runStart_def demoService_def demoRunning_def Let_def)
  moreover have "pipeStarted plainEngine demoGst demoQuality (initialPipeline (demoBranch 1))"
    using demo_new [of 1] by (auto simp: pipeStarted_def)
  ultimately have "mediaStep (replaceResult plainEngine demoGst) (bitrateResult plainEngine demoGst) (pipeBackground plainEngine demoGst)
      (pipeStarted plainEngine demoGst) ?m (?m\<lparr>sysService := sysService demoRunning\<rparr>)"
    by (intro mediaStep.run) (auto simp: demoService_def demoConfig_def)
  moreover have "?m\<lparr>sysService := sysService demoRunning\<rparr> = demoRunning" by (simp add: demoRunning_def)
  ultimately show ?thesis using mediaReach.init mediaReach.step by metis
qed

theorem media_quality_consistent_witness:
  "\<exists>pl enc. msPipeline (sysService demoRunning) = Some pl \<and> activeQuality pl = Some enc \<and> qWidth enc = 1280 \<and> qBitrateKbps enc \<le> 2500
     \<and> qualityValidate demoProfiles demoQuality = None"
proof -
  have f: "msPipeline (sysService demoRunning) = Some (initialPipeline (demoBranch 1))"
    "activeQuality (initialPipeline (demoBranch 1)) = Some demoQuality" "sysPending demoRunning = None"
    "msQuality (sysService demoRunning) = demoQuality" "mcProfiles demoConfig = demoProfiles" "qWidth demoQuality = 1280" "qBitrateKbps demoQuality = 2500"
    by (simp_all add: demoRunning_def activeQuality_def initialPipeline_def demoBranch_def demoService_def demoConfig_def demoQuality_def optionQuality_def demoOption_def)
  note c = media_quality_consistent [OF demo_service demo_running f(1,2) refl, unfolded f(3) option.case, unfolded f(4,5)]
  show ?thesis using f(1,2,6,7) c by (intro exI [of _ "initialPipeline (demoBranch 1)"] exI [of _ demoQuality]) simp
qed

end
