(* ===== verification/Peer_Registry.thy ===== *)
theory Peer_Registry
  imports Prelude
begin

text \<open>
  Admission and lifecycle of peers (\<open>src/webrtc/service.go\<close>, with the opening and closing parts of
  \<open>src/webrtc/peer.go\<close>): reservations, registration, the switch that activates the media source, closing
  a peer exactly once, and closing the service.
\<close>

subsection \<open>State\<close>

definition errPeerLimit :: goerror where "errPeerLimit = Sentinel ''maximum peer count reached''"
definition errServiceUnavailable :: goerror where "errServiceUnavailable = Sentinel ''WebRTC service is unavailable''"

text \<open>
  A peer object is named by the number of its reservation; its \<open>id\<close> is that number as a \<open>uint64\<close>.  The
  life of a peer after its reservation: initialising, registered, closing (\<open>closeWith\<close> has run, its
  \<open>finishClose\<close> goroutine is under way), removed from the map, and gone.
\<close>

datatype peerPhase = PeerReserved | PeerOpen | PeerClosing | PeerRemoved | PeerGone

record registry =
  rgMaxPeers :: int
  rgClosed :: bool
  rgCloseDone :: bool
  rgNextID :: nat
  rgReservations :: int
  rgPeers :: "nat fset"
  rgActive :: bool
  rgPhase :: "nat \<Rightarrow> peerPhase option"

definition peerID :: "nat \<Rightarrow> uint64" where
  "peerID n = of_nat n"

definition newRegistry :: "int \<Rightarrow> registry" where
  "newRegistry maxPeers = \<lparr>rgMaxPeers = maxPeers, rgClosed = False, rgCloseDone = False, rgNextID = 0, rgReservations = 0, rgPeers = {||},
     rgActive = False, rgPhase = (\<lambda>_. None)\<rparr>"

definition setPhase :: "nat \<Rightarrow> peerPhase \<Rightarrow> registry \<Rightarrow> registry" where
  "setPhase n ph r = r\<lparr>rgPhase := (rgPhase r)(n := Some ph)\<rparr>"

subsection \<open>Operations\<close>

definition reservePeer :: "registry \<Rightarrow> (goerror + nat) \<times> registry" where
  "reservePeer r =
    (if rgClosed r then (Inl errServiceUnavailable, r)
     else if rgReservations r \<ge> rgMaxPeers r then (Inl errPeerLimit, r)
     else let n = Suc (rgNextID r)
       in (Inr n, setPhase n PeerReserved (r\<lparr>rgNextID := n, rgReservations := rgReservations r + 1\<rparr>)))"

definition registerPeer :: "nat \<Rightarrow> registry \<Rightarrow> goerror option \<times> registry" where
  "registerPeer n r =
    (if rgClosed r then (Some errServiceUnavailable, r)
     else let first = (fcard (rgPeers r) = 0); r' = setPhase n PeerOpen (r\<lparr>rgPeers := finsert n (rgPeers r)\<rparr>)
       in (None, if first then r'\<lparr>rgActive := True\<rparr> else r'))"

definition releaseReservation :: "nat \<Rightarrow> registry \<Rightarrow> registry" where
  "releaseReservation n r =
    (let r' = setPhase n PeerGone (r\<lparr>rgReservations := rgReservations r - 1\<rparr>)
     in if rgClosed r' \<and> rgReservations r' = 0 \<and> \<not> rgCloseDone r' then r'\<lparr>rgCloseDone := True\<rparr> else r')"

text \<open>The part of \<open>removePeer\<close> under \<open>peersMu\<close>; the result tells whether the peer was in the map.\<close>

definition removePeer :: "nat \<Rightarrow> registry \<Rightarrow> bool \<times> registry" where
  "removePeer n r =
    (if n |\<in>| rgPeers r
     then let r' = setPhase n PeerRemoved (r\<lparr>rgPeers := rgPeers r |-| {|n|}\<rparr>)
       in (True, if fcard (rgPeers r') = 0 then r'\<lparr>rgActive := False\<rparr> else r')
     else (False, setPhase n PeerRemoved r))"

text \<open>\<open>isClosing\<close>: \<open>closeWith\<close> has run, or the service's context is cancelled.\<close>

definition isClosing :: "nat \<Rightarrow> registry \<Rightarrow> bool" where
  "isClosing n r \<longleftrightarrow> rgClosed r \<or> rgPhase r n \<noteq> Some PeerOpen"

text \<open>\<open>closeWith\<close>, guarded by \<open>closeOnce\<close>.\<close>

definition closeWith :: "nat \<Rightarrow> registry \<Rightarrow> registry" where
  "closeWith n r = (if rgPhase r n = Some PeerOpen then setPhase n PeerClosing r else r)"

definition peerSnapshot :: "registry \<Rightarrow> nat fset" where
  "peerSnapshot r = ffilter (\<lambda>n. \<not> isClosing n r) (rgPeers r)"

text \<open>The map is visited in an arbitrary order; \<open>order\<close> is that order.\<close>

definition findPeer :: "nat list \<Rightarrow> uint64 \<Rightarrow> registry \<Rightarrow> nat option" where
  "findPeer order ident r = find (\<lambda>n. peerID n = ident \<and> \<not> isClosing n r) order"

text \<open>The part of \<open>Close\<close> under \<open>peersMu\<close>: the peers to close, or none when it had been closed before.\<close>

definition closeService :: "registry \<Rightarrow> nat fset \<times> registry" where
  "closeService r =
    (if rgClosed r then ({||}, r)
     else let r' = r\<lparr>rgClosed := True, rgActive := False\<rparr>
       in (rgPeers r, if rgReservations r = 0 \<and> \<not> rgCloseDone r then r'\<lparr>rgCloseDone := True\<rparr> else r'))"

definition PeerCount :: "registry \<Rightarrow> int" where
  "PeerCount r = rgReservations r"

text \<open>The peers that a new connection replaces.\<close>

definition replaceActivePeer :: "registry \<Rightarrow> registry" where
  "replaceActivePeer r = r\<lparr>rgPhase := (\<lambda>n. if n |\<in>| rgPeers r \<and> rgPhase r n = Some PeerOpen then Some PeerClosing else rgPhase r n)\<rparr>"

section \<open>Interleavings\<close>

text \<open>
  The goroutines of \<open>newPeer\<close>, of \<open>finishClose\<close> and of the callers of \<open>Close\<close>, \<open>closeWith\<close> and
  \<open>replaceActivePeer\<close>.  \<open>newPeer\<close> gives its reservation back when anything before the registration fails;
  \<open>finishClose\<close> removes the peer and then releases its reservation.
\<close>

inductive registryStep :: "registry \<Rightarrow> registry \<Rightarrow> bool" where
  reserve: "reservePeer r = (e, r') \<Longrightarrow> registryStep r r'"
| openFailed: "rgPhase r n = Some PeerReserved \<Longrightarrow> registryStep r (releaseReservation n r)"
| register: "rgPhase r n = Some PeerReserved \<Longrightarrow> registerPeer n r = (None, r') \<Longrightarrow> registryStep r r'"
| registerRefused: "rgPhase r n = Some PeerReserved \<Longrightarrow> registerPeer n r = (Some e, r') \<Longrightarrow> registryStep r (releaseReservation n r')"
| close: "registryStep r (closeWith n r)"
| replace: "registryStep r (replaceActivePeer r)"
| finishRemove: "rgPhase r n = Some PeerClosing \<Longrightarrow> removePeer n r = (b, r') \<Longrightarrow> registryStep r r'"
| finishRelease: "rgPhase r n = Some PeerRemoved \<Longrightarrow> registryStep r (releaseReservation n r)"
| stop: "closeService r = (ps, r') \<Longrightarrow> registryStep r r'"

inductive registryReach :: "int \<Rightarrow> registry \<Rightarrow> bool" for maxPeers where
  init: "registryReach maxPeers (newRegistry maxPeers)"
| step: "registryReach maxPeers r \<Longrightarrow> registryStep r r' \<Longrightarrow> registryReach maxPeers r'"

text \<open>The peers that hold a reservation.\<close>

definition holders :: "registry \<Rightarrow> nat set" where
  "holders r = {n. rgPhase r n \<in> {Some PeerReserved, Some PeerOpen, Some PeerClosing, Some PeerRemoved}}"

definition countOK :: "registry \<Rightarrow> bool" where
  "countOK r \<longleftrightarrow> finite (holders r) \<and> rgReservations r = int (card (holders r))"

definition mapOK :: "registry \<Rightarrow> bool" where
  "mapOK r \<longleftrightarrow> (\<forall>n. n |\<in>| rgPeers r \<longleftrightarrow> rgPhase r n = Some PeerOpen \<or> rgPhase r n = Some PeerClosing)"

definition idOK :: "registry \<Rightarrow> bool" where
  "idOK r \<longleftrightarrow> dom (rgPhase r) = {1..rgNextID r}"

definition activeOK :: "registry \<Rightarrow> bool" where
  "activeOK r \<longleftrightarrow> (rgActive r \<longleftrightarrow> rgPeers r \<noteq> {||} \<and> \<not> rgClosed r) \<and> (rgCloseDone r \<longleftrightarrow> rgClosed r \<and> rgReservations r = 0)"

definition registryOK :: "registry \<Rightarrow> bool" where
  "registryOK r \<longleftrightarrow> countOK r \<and> mapOK r \<and> idOK r \<and> activeOK r \<and> rgReservations r \<le> max 0 (rgMaxPeers r)"

lemma holders_setPhase:
  "holders (setPhase n ph r) = (if ph = PeerGone then holders r - {n} else insert n (holders r))"
  by (cases ph) (auto simp: holders_def setPhase_def)

lemma holders_frame [simp]:
  "holders (r\<lparr>rgNextID := a\<rparr>) = holders r" "holders (r\<lparr>rgReservations := b\<rparr>) = holders r" "holders (r\<lparr>rgPeers := c\<rparr>) = holders r"
  "holders (r\<lparr>rgActive := d\<rparr>) = holders r" "holders (r\<lparr>rgClosed := e\<rparr>) = holders r" "holders (r\<lparr>rgCloseDone := f\<rparr>) = holders r"
  by (simp_all add: holders_def)

section \<open>Invariant\<close>

lemma setPhase_frame [simp]:
  "rgReservations (setPhase n ph r) = rgReservations r" "rgNextID (setPhase n ph r) = rgNextID r" "rgPeers (setPhase n ph r) = rgPeers r"
  "rgClosed (setPhase n ph r) = rgClosed r" "rgCloseDone (setPhase n ph r) = rgCloseDone r" "rgActive (setPhase n ph r) = rgActive r"
  "rgMaxPeers (setPhase n ph r) = rgMaxPeers r" "rgPhase (setPhase n ph r) = (rgPhase r)(n := Some ph)"
  by (simp_all add: setPhase_def)

lemma idOK_set: "idOK r \<Longrightarrow> rgPhase r n = Some ph' \<Longrightarrow> idOK (setPhase n ph r)"
  by (auto simp: idOK_def insert_absorb)

lemma idOK_frame [simp]:
  "idOK (r\<lparr>rgReservations := b\<rparr>) = idOK r" "idOK (r\<lparr>rgPeers := c\<rparr>) = idOK r" "idOK (r\<lparr>rgActive := d\<rparr>) = idOK r"
  "idOK (r\<lparr>rgClosed := e\<rparr>) = idOK r" "idOK (r\<lparr>rgCloseDone := f\<rparr>) = idOK r"
  by (simp_all add: idOK_def)

lemma countOK_release:
  assumes "countOK r" "n \<in> holders r" shows "countOK (releaseReservation n r)"
proof -
  have "0 < card (holders r)" using assms by (auto simp: countOK_def card_gt_0_iff)
  then show ?thesis using assms by (auto simp: countOK_def releaseReservation_def Let_def holders_setPhase)
qed

lemma registryOK_release:
  assumes "registryOK r" and "rgPhase r n = Some PeerReserved \<or> rgPhase r n = Some PeerRemoved"
  shows "registryOK (releaseReservation n r)"
proof -
  have "n \<in> holders r" using assms(2) by (auto simp: holders_def)
  then have c: "countOK (releaseReservation n r)" "0 < rgReservations r"
    using assms(1) countOK_release by (auto simp: registryOK_def countOK_def card_gt_0_iff)
  have "mapOK (releaseReservation n r)" using assms by (auto simp: registryOK_def mapOK_def releaseReservation_def Let_def)
  moreover have "idOK (releaseReservation n r)" using assms by (auto simp: registryOK_def releaseReservation_def Let_def intro!: idOK_set)
  moreover have "activeOK (releaseReservation n r)"
    using assms(1) c(2) by (auto simp: registryOK_def activeOK_def releaseReservation_def Let_def setPhase_def)
  moreover have "rgReservations (releaseReservation n r) \<le> max 0 (rgMaxPeers (releaseReservation n r))"
    using assms(1) by (auto simp: registryOK_def releaseReservation_def Let_def setPhase_def)
  ultimately show ?thesis using c(1) by (simp add: registryOK_def)
qed

lemma registryOK_reserve:
  assumes "registryOK r" "reservePeer r = (e, r')" shows "registryOK r'"
proof (cases "rgClosed r \<or> rgReservations r \<ge> rgMaxPeers r")
  case True
  then show ?thesis using assms by (auto simp: reservePeer_def split: if_splits)
next
  case False
  let ?n = "Suc (rgNextID r)"
  have "?n \<notin> dom (rgPhase r)" using assms(1) by (simp add: registryOK_def idOK_def)
  then have fresh: "rgPhase r ?n = None" by (simp add: domIff)
  then have "?n \<notin> holders r" by (simp add: holders_def)
  moreover have r': "r' = setPhase ?n PeerReserved (r\<lparr>rgNextID := ?n, rgReservations := rgReservations r + 1\<rparr>)"
    using assms(2) False by (simp add: reservePeer_def Let_def)
  ultimately have "countOK r'" using assms(1) by (simp add: registryOK_def countOK_def holders_setPhase)
  moreover have "mapOK r'" using assms(1) fresh by (auto simp: registryOK_def mapOK_def r' setPhase_def)
  moreover have "idOK r'" using assms(1) by (auto simp: registryOK_def idOK_def r')
  moreover have "activeOK r'" using assms(1) False by (auto simp: registryOK_def activeOK_def r' setPhase_def)
  moreover have "rgReservations r' \<le> max 0 (rgMaxPeers r')" using False by (auto simp: r' max_def)
  ultimately show ?thesis by (simp add: registryOK_def)
qed

lemma registryOK_register:
  assumes "registryOK r" "rgPhase r n = Some PeerReserved" "registerPeer n r = (None, r')" shows "registryOK r'"
proof -
  have "n \<in> holders r" using assms(2) by (simp add: holders_def)
  then have h: "holders r' = holders r" using assms(3) by (auto simp: registerPeer_def Let_def holders_setPhase split: if_splits)
  have "countOK r'" using assms(1,3) h by (auto simp: registryOK_def countOK_def registerPeer_def Let_def setPhase_def split: if_splits)
  moreover have "mapOK r'" using assms by (auto simp: registryOK_def mapOK_def registerPeer_def Let_def split: if_splits)
  moreover have "idOK r'" using assms by (auto simp: registryOK_def registerPeer_def Let_def intro!: idOK_set split: if_splits)
  moreover have "activeOK r'" using assms by (auto simp: registryOK_def activeOK_def registerPeer_def Let_def setPhase_def split: if_splits)
  moreover have "rgReservations r' \<le> max 0 (rgMaxPeers r')"
    using assms(1,3) by (auto simp: registryOK_def registerPeer_def Let_def setPhase_def split: if_splits)
  ultimately show ?thesis by (simp add: registryOK_def)
qed

lemma holders_closing:
  "holders (closeWith n r) = holders r" "holders (replaceActivePeer r) = holders r"
  by (auto simp: holders_def closeWith_def replaceActivePeer_def setPhase_def)

lemma registryOK_close:
  assumes "registryOK r" shows "registryOK (closeWith n r)"
proof (cases "rgPhase r n = Some PeerOpen")
  case True
  have "mapOK (setPhase n PeerClosing r)" using assms True by (auto simp: registryOK_def mapOK_def)
  moreover have "idOK (setPhase n PeerClosing r)" using assms True idOK_set by (auto simp: registryOK_def)
  ultimately show ?thesis
    using assms True holders_closing(1) [of n r] by (simp add: registryOK_def countOK_def activeOK_def closeWith_def)
next
  case False
  then show ?thesis using assms by (simp add: closeWith_def)
qed

lemma registryOK_replace: "registryOK r \<Longrightarrow> registryOK (replaceActivePeer r)"
proof -
  assume "registryOK r"
  moreover have "dom (rgPhase (replaceActivePeer r)) = dom (rgPhase r)" by (auto simp: replaceActivePeer_def dom_def)
  moreover have "rgNextID (replaceActivePeer r) = rgNextID r" by (simp add: replaceActivePeer_def)
  moreover have "mapOK (replaceActivePeer r)" using calculation(1) by (auto simp: registryOK_def mapOK_def replaceActivePeer_def)
  ultimately show ?thesis
    using holders_closing(2) [of r] by (simp add: registryOK_def countOK_def activeOK_def idOK_def) (simp add: replaceActivePeer_def)
qed

lemma registryOK_remove:
  assumes "registryOK r" "rgPhase r n = Some PeerClosing" "removePeer n r = (b, r')" shows "registryOK r'"
proof -
  have n: "n |\<in>| rgPeers r" "n \<in> holders r" using assms(1,2) by (auto simp: registryOK_def mapOK_def holders_def)
  then have h: "holders r' = holders r" using assms(3) by (auto simp: removePeer_def Let_def holders_setPhase split: if_splits)
  have "countOK r'" using assms(1,3) h by (auto simp: registryOK_def countOK_def removePeer_def Let_def setPhase_def split: if_splits)
  moreover have "mapOK r'" using assms n by (auto simp: registryOK_def mapOK_def removePeer_def Let_def split: if_splits)
  moreover have "idOK r'" using assms n by (auto simp: registryOK_def removePeer_def Let_def intro!: idOK_set split: if_splits)
  moreover have "activeOK r'" using assms n by (auto simp: registryOK_def activeOK_def removePeer_def Let_def setPhase_def split: if_splits)
  moreover have "rgReservations r' \<le> max 0 (rgMaxPeers r')"
    using assms(1,3) n by (auto simp: registryOK_def removePeer_def Let_def setPhase_def split: if_splits)
  ultimately show ?thesis by (simp add: registryOK_def)
qed

lemma registryOK_stop: "registryOK r \<Longrightarrow> closeService r = (ps, r') \<Longrightarrow> registryOK r'"
  by (auto simp: registryOK_def countOK_def mapOK_def activeOK_def closeService_def Let_def split: if_splits)

lemma registryOK_step: "registryStep r r' \<Longrightarrow> registryOK r \<Longrightarrow> registryOK r'"
proof (induction rule: registryStep.induct)
  case (registerRefused r n e r')
  then have "r' = r" by (auto simp: registerPeer_def Let_def split: if_splits)
  then show ?case using registerRefused registryOK_release by blast
qed (auto intro: registryOK_reserve registryOK_release registryOK_register registryOK_close registryOK_replace registryOK_remove registryOK_stop)

lemma registryReach_ok: "registryReach maxPeers r \<Longrightarrow> registryOK r \<and> rgMaxPeers r = maxPeers"
proof (induction rule: registryReach.induct)
  case init
  have "holders (newRegistry maxPeers) = {}" by (simp add: holders_def newRegistry_def)
  then show ?case by (auto simp: registryOK_def countOK_def mapOK_def idOK_def activeOK_def newRegistry_def)
next
  case (step r r')
  have "rgMaxPeers r' = rgMaxPeers r" using step(2)
    by (induction rule: registryStep.induct)
       (auto simp: reservePeer_def registerPeer_def releaseReservation_def closeWith_def replaceActivePeer_def removePeer_def closeService_def
          setPhase_def Let_def split: if_splits)
  then show ?case using step registryOK_step by blast
qed

section \<open>Shutdown\<close>

text \<open>How many steps of its own goroutines a peer still needs.\<close>

fun phaseWeight :: "peerPhase option \<Rightarrow> nat" where
  "phaseWeight None = 0"
| "phaseWeight (Some PeerReserved) = 1"
| "phaseWeight (Some PeerOpen) = 3"
| "phaseWeight (Some PeerClosing) = 2"
| "phaseWeight (Some PeerRemoved) = 1"
| "phaseWeight (Some PeerGone) = 0"

definition pendingWork :: "registry \<Rightarrow> nat" where
  "pendingWork r = (\<Sum>n = 1..rgNextID r. phaseWeight (rgPhase r n))"

lemma pendingWork_same: "rgNextID r' = rgNextID r \<Longrightarrow> (\<And>n. phaseWeight (rgPhase r' n) \<le> phaseWeight (rgPhase r n)) \<Longrightarrow> pendingWork r' \<le> pendingWork r"
  unfolding pendingWork_def by (simp add: sum_mono)

lemma pendingWork_less:
  assumes "rgNextID r' = rgNextID r" "rgPhase r' = (rgPhase r)(n := Some ph)" "n \<in> {1..rgNextID r}" "phaseWeight (Some ph) < phaseWeight (rgPhase r n)"
  shows "pendingWork r' < pendingWork r"
proof -
  have "phaseWeight (rgPhase r' m) \<le> phaseWeight (rgPhase r m)" for m using assms(2,4) by simp
  moreover have "phaseWeight (rgPhase r' n) < phaseWeight (rgPhase r n)" using assms(2,4) by simp
  ultimately show ?thesis
    unfolding pendingWork_def using assms(1,3) by (simp only:) (rule sum_strict_mono_ex1, auto)
qed

lemma release_frame [simp]:
  "rgNextID (releaseReservation n r) = rgNextID r" "rgPhase (releaseReservation n r) = (rgPhase r)(n := Some PeerGone)"
  "rgClosed (releaseReservation n r) = rgClosed r"
  by (simp_all add: releaseReservation_def Let_def)

lemma remove_frame: "removePeer n r = (b, r') \<Longrightarrow> rgNextID r' = rgNextID r \<and> rgPhase r' = (rgPhase r)(n := Some PeerRemoved) \<and> rgClosed r' = rgClosed r"
  by (auto simp: removePeer_def Let_def split: if_splits)

lemma closed_step: "registryStep r r' \<Longrightarrow> rgClosed r \<Longrightarrow> rgClosed r' \<and> pendingWork r' \<le> pendingWork r"
proof (induction rule: registryStep.induct)
  case (registerRefused r n e r')
  then have "r' = r" by (auto simp: registerPeer_def Let_def split: if_splits)
  then show ?case using registerRefused by (auto intro!: pendingWork_same)
next
  case (finishRemove r n b r')
  then show ?case using remove_frame [OF finishRemove(2)] by (auto intro!: pendingWork_same)
qed (auto simp: reservePeer_def registerPeer_def closeWith_def replaceActivePeer_def closeService_def Let_def intro!: pendingWork_same split: if_splits)

lemma holder_progress:
  assumes "registryOK r" "rgClosed r" "n \<in> holders r"
  shows "\<exists>r'. registryStep r r' \<and> pendingWork r' < pendingWork r"
proof -
  have "n \<in> dom (rgPhase r)" using assms(3) by (auto simp: holders_def)
  then have n: "n \<in> {1..rgNextID r}" using assms(1) by (simp add: registryOK_def idOK_def)
  from assms(3) consider "rgPhase r n = Some PeerReserved" | "rgPhase r n = Some PeerOpen" | "rgPhase r n = Some PeerClosing" | "rgPhase r n = Some PeerRemoved"
    by (auto simp: holders_def)
  then show ?thesis
  proof cases
    case 1
    then show ?thesis using registryStep.openFailed [OF 1] pendingWork_less [of "releaseReservation n r" r n PeerGone] n by auto
  next
    case 2
    then show ?thesis using registryStep.close [of r n] pendingWork_less [of "closeWith n r" r n PeerClosing] n by (auto simp: closeWith_def)
  next
    case 3
    obtain b r' where r': "removePeer n r = (b, r')" by fastforce
    then show ?thesis using registryStep.finishRemove [OF 3 r'] pendingWork_less [of r' r n PeerRemoved] remove_frame [OF r'] n 3 by auto
  next
    case 4
    then show ?thesis using registryStep.finishRelease [OF 4] pendingWork_less [of "releaseReservation n r" r n PeerGone] n by auto
  qed
qed

lemma closed_progress:
  assumes "registryOK r" "rgClosed r" "\<not> rgCloseDone r"
  shows "\<exists>r'. registryStep r r' \<and> pendingWork r' < pendingWork r"
  using assms holder_progress by (force simp: registryOK_def activeOK_def countOK_def)

lemma closes_eventually:
  assumes "registryOK r" "rgClosed r"
  shows "\<exists>r'. registryStep\<^sup>*\<^sup>* r r' \<and> rgCloseDone r'"
  using assms
proof (induction "pendingWork r" arbitrary: r rule: less_induct)
  case less
  show ?case
  proof (cases "rgCloseDone r")
    case False
    then obtain r1 where r1: "registryStep r r1" "pendingWork r1 < pendingWork r" using closed_progress less.prems by blast
    then have "\<exists>r'. registryStep\<^sup>*\<^sup>* r1 r' \<and> rgCloseDone r'"
      using less.hyps less.prems registryOK_step closed_step by blast
    then show ?thesis using r1(1) by (meson converse_rtranclp_into_rtranclp)
  qed blast
qed

lemma closed_shrinks:
  "registryStep r r' \<Longrightarrow> rgClosed r \<Longrightarrow> rgPeers r' |\<subseteq>| rgPeers r \<and> rgReservations r' \<le> rgReservations r"
  by (induction rule: registryStep.induct)
     (auto simp: reservePeer_def registerPeer_def releaseReservation_def removePeer_def closeWith_def replaceActivePeer_def closeService_def
        Let_def split: if_splits)

section \<open>Properties\<close>

text \<open>C34: admission control.  In every interleaving of connecting, failing, closing and replaced peers and of
  the service's shutdown, the reservations are exactly the peers that have not finished closing, never more
  than the configured maximum; the map holds exactly the registered peers that are still to be removed; the
  media source is active exactly while a peer is registered and the service is open; and \<open>closeDone\<close> is
  closed exactly when the service is closed and no peer is left.\<close>

theorem peer_admission:
  assumes "registryReach maxPeers r" and "1 \<le> maxPeers"
  shows "rgReservations r = int (card (holders r)) \<and> 0 \<le> rgReservations r \<and> rgReservations r \<le> maxPeers
    \<and> fset (rgPeers r) = {n. rgPhase r n = Some PeerOpen \<or> rgPhase r n = Some PeerClosing}
    \<and> (rgActive r \<longleftrightarrow> rgPeers r \<noteq> {||} \<and> \<not> rgClosed r)
    \<and> (rgCloseDone r \<longleftrightarrow> rgClosed r \<and> holders r = {})"
proof -
  have ok: "countOK r" "mapOK r" "activeOK r" "rgReservations r \<le> maxPeers"
    using registryReach_ok [OF assms(1)] assms(2) by (auto simp: registryOK_def max_def split: if_splits)
  then have "rgReservations r = 0 \<longleftrightarrow> holders r = {}" by (simp add: countOK_def)
  then show ?thesis using ok by (auto simp: countOK_def mapOK_def activeOK_def)
qed

text \<open>C35: the service closes.  After \<open>Close\<close> no step reopens the service, admits or registers a peer or adds
  work; as long as \<open>closeDone\<close> is not closed some goroutine of a remaining peer can step and leaves strictly
  less work; so the goroutines can always run on to a state in which \<open>closeDone\<close> is closed.\<close>

theorem service_closes:
  assumes "registryReach maxPeers r" and "rgClosed r"
  shows "(\<exists>r'. registryStep\<^sup>*\<^sup>* r r' \<and> rgCloseDone r')
    \<and> (rgCloseDone r \<or> (\<exists>r'. registryStep r r' \<and> pendingWork r' < pendingWork r))
    \<and> (\<forall>r'. registryStep r r' \<longrightarrow> rgClosed r' \<and> pendingWork r' \<le> pendingWork r \<and> rgPeers r' |\<subseteq>| rgPeers r \<and> rgReservations r' \<le> rgReservations r)"
proof -
  have ok: "registryOK r" using registryReach_ok [OF assms(1)] by simp
  then show ?thesis using closes_eventually closed_progress closed_step closed_shrinks assms(2) by meson
qed

text \<open>A reservation, its registration, \<open>Close\<close>, and the peer's goroutines finishing: the states of one such run.\<close>

lemma registry_run:
  "registryReach 2 (snd (reservePeer (newRegistry 2)))"
  "registryReach 2 (snd (registerPeer 1 (snd (reservePeer (newRegistry 2)))))"
  "registryReach 2 (snd (closeService (snd (registerPeer 1 (snd (reservePeer (newRegistry 2)))))))"
proof -
  let ?a = "snd (reservePeer (newRegistry 2))" and ?b = "snd (registerPeer 1 (snd (reservePeer (newRegistry 2))))"
  show a: "registryReach 2 ?a" by (rule registryReach.step [OF registryReach.init registryStep.reserve]) (rule surjective_pairing)
  have "rgPhase ?a 1 = Some PeerReserved" "registerPeer 1 ?a = (None, ?b)"
    by (simp_all add: reservePeer_def newRegistry_def registerPeer_def Let_def)
  then show b: "registryReach 2 ?b" by (rule registryReach.step [OF a registryStep.register])
  show "registryReach 2 (snd (closeService ?b))" by (rule registryReach.step [OF b registryStep.stop]) (rule surjective_pairing)
qed

theorem peer_admission_witness:
  "rgReservations (snd (registerPeer 1 (snd (reservePeer (newRegistry 2))))) = 1
   \<and> int (card (holders (snd (registerPeer 1 (snd (reservePeer (newRegistry 2))))))) = 1
   \<and> rgActive (snd (registerPeer 1 (snd (reservePeer (newRegistry 2)))))"
  using peer_admission [OF registry_run(2)] by (simp add: reservePeer_def newRegistry_def registerPeer_def Let_def)

theorem service_closes_witness:
  "\<exists>r'. registryStep\<^sup>*\<^sup>* (snd (closeService (snd (registerPeer 1 (snd (reservePeer (newRegistry 2))))))) r' \<and> rgCloseDone r'"
  using service_closes [OF registry_run(3)] by (simp add: closeService_def reservePeer_def newRegistry_def registerPeer_def Let_def)

end
