(* ===== verification/Rtc_Config.thy ===== *)
theory Rtc_Config
  imports Media_Quality
begin

text \<open>
  Static settings of the WebRTC service (\<open>src/webrtc/service.go\<close>): validation of the configuration, the origin
  check of the signaling handler, the codec capability offered to a peer, and the answer to a refused peer.
  The parsers of STUN URIs, IP addresses and URLs are arguments.
\<close>

record rtcConfig =
  rcfAudioEnabled :: bool
  rcfICEServers :: "string list"
  rcfICEUsername :: string
  rcfICECredential :: string
  rcfICEAdvertisedIPs :: "string list"
  rcfUDPPortMin :: uint16
  rcfUDPPortMax :: uint16
  rcfMaxPeers :: int
  rcfReplaceExistingPeer :: bool
  rcfAllowedOrigins :: "string list"
  rcfTracingEnabled :: bool

datatype stunScheme = SchemeTypeSTUN | SchemeTypeSTUNS | SchemeTypeTURN | SchemeTypeTURNS

text \<open>The fields of \<open>url.URL\<close> that the code reads; \<open>urlUser\<close> tells whether user information is present.\<close>

record parsedURL =
  urlScheme :: string
  urlHost :: string
  urlUser :: bool
  urlPath :: string
  urlRawQuery :: string
  urlFragment :: string

definition iceServerError :: "(string \<Rightarrow> goerror + stunScheme) \<Rightarrow> rtcConfig \<Rightarrow> string \<Rightarrow> goerror option" where
  "iceServerError parseURI cfg server =
    (case parseURI server of
       Inl err \<Rightarrow> Some (Wrap ''invalid ICE server URL %q: %w'' err [FStr server])
     | Inr scheme \<Rightarrow> check (scheme \<in> {SchemeTypeTURN, SchemeTypeTURNS} \<and> rcfICEUsername cfg = [])
         (Errorf ''TURN server %q requires ICE credentials'' [FStr server]))"

definition originError :: "(string \<Rightarrow> goerror + parsedURL) \<Rightarrow> string \<Rightarrow> goerror option" where
  "originError parseURL origin =
    (if origin = ''*'' then None
     else check (case parseURL origin of Inl _ \<Rightarrow> True
            | Inr u \<Rightarrow> urlScheme u \<noteq> ''http'' \<and> urlScheme u \<noteq> ''https'' \<or> urlHost u = [] \<or> urlUser u \<or> urlPath u \<noteq> [] \<or> urlRawQuery u \<noteq> []
                \<or> urlFragment u \<noteq> [])
       (Errorf ''invalid allowed WebSocket origin %q'' [FStr origin]))"

definition rtcConfigValidate :: "(string \<Rightarrow> goerror + stunScheme) \<Rightarrow> (string \<Rightarrow> goerror option) \<Rightarrow> (string \<Rightarrow> goerror + parsedURL) \<Rightarrow> rtcConfig \<Rightarrow> goerror option" where
  "rtcConfigValidate parseURI parseAddr parseURL cfg = errorsJoin
    ([check (rcfMaxPeers cfg < 1 \<or> rcfMaxPeers cfg > 64) (errorsNew ''WebRTC max peers must be between 1 and 64''),
      check (rcfReplaceExistingPeer cfg \<and> rcfMaxPeers cfg \<noteq> 1) (errorsNew ''replacing an existing peer requires WebRTC max peers to be 1''),
      check ((rcfICEUsername cfg = []) \<noteq> (rcfICECredential cfg = [])) (errorsNew ''ICE username and credential must both be set or both be empty''),
      check (rcfICEServers cfg = [] \<and> rcfICEUsername cfg \<noteq> []) (errorsNew ''ICE credentials require at least one ICE server'')]
     @ map (iceServerError parseURI cfg) (rcfICEServers cfg)
     @ map (\<lambda>a. wrapError ''invalid advertised ICE IP %q: %w'' [FStr a] (parseAddr a)) (rcfICEAdvertisedIPs cfg)
     @ [check ((rcfUDPPortMin cfg = 0) \<noteq> (rcfUDPPortMax cfg = 0) \<or> rcfUDPPortMax cfg < rcfUDPPortMin cfg) (errorsNew ''ICE UDP port range is invalid'')]
     @ map (originError parseURL) (rcfAllowedOrigins cfg))"

text \<open>\<open>origin\<close> is the \<open>Origin\<close> header, empty when there is none.\<close>

definition originAllowed :: "(string \<Rightarrow> goerror + parsedURL) \<Rightarrow> rtcConfig \<Rightarrow> string \<Rightarrow> string \<Rightarrow> bool" where
  "originAllowed parseURL cfg requestHost origin =
    (if origin = [] then True
     else if rcfAllowedOrigins cfg = []
     then (case parseURL origin of Inl _ \<Rightarrow> False | Inr u \<Rightarrow> (urlScheme u = ''http'' \<or> urlScheme u = ''https'') \<and> urlHost u = requestHost)
     else list_ex (\<lambda>allowed. allowed = ''*'' \<or> allowed = origin) (rcfAllowedOrigins cfg))"

definition opusPayloadType :: uint8 where "opusPayloadType = 111"

record codecCapability =
  ccMimeType :: string
  ccClockRate :: uint32
  ccChannels :: uint16
  ccSDPFmtpLine :: string
  ccRTCPFeedback :: "rtcpFeedback list"

text \<open>\<open>pion.TypeRTCPFBTransportCC\<close>.\<close>

definition TypeRTCPFBTransportCC :: string where "TypeRTCPFBTransportCC = ''transport-cc''"

definition videoCodecCapability :: "rtpCodec \<Rightarrow> codecCapability" where
  "videoCodecCapability codec =
    (let feedback = map (\<lambda>item. \<lparr>rfType = rfType item, rfParameter = rfParameter item\<rparr>) (rcRTCPFeedback codec);
         transportCCConfigured = list_ex (\<lambda>item. rfType item = TypeRTCPFBTransportCC) (rcRTCPFeedback codec)
     in \<lparr>ccMimeType = rcMimeType codec, ccClockRate = rcClockRate codec, ccChannels = rcChannels codec, ccSDPFmtpLine = rcSDPFmtpLine codec,
         ccRTCPFeedback = (if transportCCConfigured then feedback else feedback @ [\<lparr>rfType = TypeRTCPFBTransportCC, rfParameter = []\<rparr>])\<rparr>)"

lemma transport_cc_offered: "\<exists>item\<in>set (ccRTCPFeedback (videoCodecCapability codec)). rfType item = TypeRTCPFBTransportCC"
  by (auto simp: videoCodecCapability_def Let_def list_ex_iff)

lemma configured_feedback_kept: "set (rcRTCPFeedback codec) \<subseteq> set (ccRTCPFeedback (videoCodecCapability codec))"
proof -
  have "map (\<lambda>item. \<lparr>rfType = rfType item, rfParameter = rfParameter item\<rparr>) xs = xs" for xs :: "rtcpFeedback list"
    by (rule map_idI) simp
  then show ?thesis by (auto simp: videoCodecCapability_def Let_def)
qed

lemma iceServerError_None:
  "iceServerError parseURI cfg server = None \<longleftrightarrow>
     (\<exists>scheme. parseURI server = Inr scheme \<and> (scheme \<in> {SchemeTypeTURN, SchemeTypeTURNS} \<longrightarrow> rcfICEUsername cfg \<noteq> []))"
  by (auto simp: iceServerError_def split: sum.splits)

text \<open>A validated configuration admits at least one peer, and exactly one when it replaces peers.\<close>

lemma rtcConfig_valid_peers:
  assumes "rtcConfigValidate parseURI parseAddr parseURL cfg = None"
  shows "1 \<le> rcfMaxPeers cfg \<and> rcfMaxPeers cfg \<le> 64 \<and> (rcfReplaceExistingPeer cfg \<longrightarrow> rcfMaxPeers cfg = 1)
    \<and> ((rcfICEUsername cfg = []) = (rcfICECredential cfg = [])) \<and> rcfUDPPortMin cfg \<le> rcfUDPPortMax cfg"
  using assms by (auto simp: rtcConfigValidate_def)

text \<open>
  Without a list of origins only pages of the requested host over HTTP are let in; with one, only its entries,
  which a validated configuration restricts to bare HTTP origins.
\<close>

lemma origin_same_host:
  assumes "rcfAllowedOrigins cfg = []" "origin \<noteq> []" "originAllowed parseURL cfg host origin"
  shows "\<exists>u. parseURL origin = Inr u \<and> urlScheme u \<in> {''http'', ''https''} \<and> urlHost u = host"
  using assms by (auto simp: originAllowed_def split: sum.splits)

lemma origin_listed:
  assumes "rtcConfigValidate parseURI parseAddr parseURL cfg = None" "rcfAllowedOrigins cfg \<noteq> []" "''*'' \<notin> set (rcfAllowedOrigins cfg)"
    "origin \<noteq> []" "originAllowed parseURL cfg host origin"
  shows "\<exists>u. parseURL origin = Inr u \<and> urlScheme u \<in> {''http'', ''https''} \<and> urlHost u \<noteq> [] \<and> \<not> urlUser u \<and> urlPath u = []"
proof -
  have o: "origin \<in> set (rcfAllowedOrigins cfg)" using assms(2-5) by (auto simp: originAllowed_def list_ex_iff)
  then have "originError parseURL origin = None" using assms(1) by (auto simp: rtcConfigValidate_def)
  then show ?thesis using o assms(3) by (auto simp: originError_def split: sum.splits if_splits)
qed

end
