(* ===== verification/Peer_Quality.thy ===== *)
theory Peer_Quality
  imports Media_Service Peer_Registry Rtc_Config
begin

text \<open>
  The shared encoder as the WebRTC service drives it (\<open>src/webrtc/service.go\<close>): the congestion limit, quality
  updates, and closing the peers whose codec a new profile does not fit.  The media source is an interface
  (\<open>MediaSource\<close> in \<open>src/webrtc/contracts.go\<close>), interpreted on the media service through the adapter of
  \<open>src/internal/app/webrtc_adapters.go\<close>.
\<close>

subsection \<open>Data\<close>

record rtcProfile =
  rpDefaultOption :: string
  rpOptions :: "(string, qualityOption) fmap"
  rpFrontendTransform :: string
  rpCodec :: rtpCodec

text \<open>The calls of the source: the state before, the result and the state after.\<close>

record 'm mediaSource =
  moQuality :: "'m \<Rightarrow> quality"
  moProfile :: "'m \<Rightarrow> string \<Rightarrow> rtcProfile option"
  moUpdateQuality :: "quality \<Rightarrow> 'm \<Rightarrow> goerror option \<Rightarrow> 'm \<Rightarrow> bool"
  moSetBitrate :: "int \<Rightarrow> 'm \<Rightarrow> goerror option \<Rightarrow> 'm \<Rightarrow> bool"

text \<open>The fields of a peer that these operations read.\<close>

record peerVideo =
  pvCongestionBitrate :: int
  pvCodec :: rtpCodec
  pvFrontendTransform :: string

text \<open>
  \<open>rsClosers\<close> are the closings that a finished update still has to make: \<open>closePeerForProfileChange\<close> with
  its generation, or with none the \<open>Close\<close> of the requester.  \<open>rsHalf\<close> is no state of the program: it records
  that some update failed after the source had accepted the new quality.
\<close>

record 'm rtcService =
  rsRegistry :: registry
  rsSource :: 'm
  rsVideo :: "nat \<Rightarrow> peerVideo"
  rsEncoderKbps :: int
  rsGeneration :: uint64
  rsClosers :: "(nat \<times> uint64 option) list"
  rsHalf :: bool

record qualityUpdateResult =
  urEffective :: quality
  urRequesterNeedsReconnect :: bool
  urIncompatiblePeers :: "nat list"
  urGeneration :: uint64

subsection \<open>Congestion limit\<close>

definition encoderBitrateMinStepKbps :: int where "encoderBitrateMinStepKbps = 250"
definition encoderBitrateStepDivisor :: int where "encoderBitrateStepDivisor = 20"

fun limitBitrate :: "int \<Rightarrow> peerVideo list \<Rightarrow> int" where
  "limitBitrate encoderBitrateKbps [] = encoderBitrateKbps"
| "limitBitrate encoderBitrateKbps (p # ps) =
    (let peerBitrateKbps = go_div (pvCongestionBitrate p) 1000
     in limitBitrate (if peerBitrateKbps < encoderBitrateKbps then peerBitrateKbps else encoderBitrateKbps) ps)"

definition desiredKbps :: "int \<Rightarrow> peerVideo list \<Rightarrow> int" where
  "desiredKbps requested ps = (let e = limitBitrate requested ps in if e < 100 then 100 else e)"

text \<open>The bitrate to set, or \<open>None\<close> for the early returns.\<close>

definition planCongestion :: "int \<Rightarrow> int \<Rightarrow> peerVideo list \<Rightarrow> int option" where
  "planCongestion requested current ps =
    (let enc = desiredKbps requested ps in
     if enc = current then None
     else let d = enc - current; diff = (if d < 0 then - d else d) in
       if enc \<noteq> requested \<and> diff < max encoderBitrateMinStepKbps (go_div current encoderBitrateStepDivisor) then None
       else Some enc)"

text \<open>\<open>order\<close> is the order in which the peer map is visited.\<close>

definition snapshotVideo :: "(nat fset \<Rightarrow> nat list) \<Rightarrow> 'm rtcService \<Rightarrow> peerVideo list" where
  "snapshotVideo order s = map (rsVideo s) (order (peerSnapshot (rsRegistry s)))"

definition applyCongestionBitrateLocked ::
    "'m mediaSource \<Rightarrow> (nat fset \<Rightarrow> nat list) \<Rightarrow> 'm rtcService \<Rightarrow> goerror option \<Rightarrow> 'm rtcService \<Rightarrow> bool" where
  "applyCongestionBitrateLocked src order s e s' =
    (case planCongestion (qBitrateKbps (moQuality src (rsSource s))) (rsEncoderKbps s) (snapshotVideo order s) of
       None \<Rightarrow> e = None \<and> s' = s
     | Some kbps \<Rightarrow> (\<exists>m'. moSetBitrate src kbps (rsSource s) e m'
         \<and> s' = s\<lparr>rsSource := m', rsEncoderKbps := (if e = None then kbps else rsEncoderKbps s)\<rparr>))"

definition storeEstimate :: "nat \<Rightarrow> int \<Rightarrow> 'm rtcService \<Rightarrow> 'm rtcService" where
  "storeEstimate n bitrate s = s\<lparr>rsVideo := (rsVideo s)(n := (rsVideo s n)\<lparr>pvCongestionBitrate := bitrate\<rparr>)\<rparr>"

subsection \<open>Quality updates\<close>

definition incompatible :: "(string fset \<Rightarrow> string list) \<Rightarrow> rtcProfile \<Rightarrow> peerVideo \<Rightarrow> bool" where
  "incompatible keys profile p \<longleftrightarrow> \<not> transportCompatible keys (pvCodec p) (rpCodec profile) \<or> pvFrontendTransform p \<noteq> rpFrontendTransform profile"

text \<open>The loop over the snapshot: whether the requester must reconnect, and the other peers to close.\<close>

fun incompatiblePeers :: "(string fset \<Rightarrow> string list) \<Rightarrow> rtcProfile \<Rightarrow> (nat \<Rightarrow> peerVideo) \<Rightarrow> nat option \<Rightarrow> nat list \<Rightarrow> bool \<times> nat list" where
  "incompatiblePeers keys profile video requester [] = (False, [])"
| "incompatiblePeers keys profile video requester (n # ns) =
    (let (again, ps) = incompatiblePeers keys profile video requester ns in
     if \<not> incompatible keys profile (video n) then (again, ps)
     else if requester = Some n then (True, ps)
     else (again, n # ps))"

text \<open>What follows the calls into the source; \<open>before\<close> is the quality before them and \<open>err\<close> their error.\<close>

definition finishUpdate :: "'m mediaSource \<Rightarrow> (string fset \<Rightarrow> string list) \<Rightarrow> (nat fset \<Rightarrow> nat list) \<Rightarrow> nat option \<Rightarrow> quality
    \<Rightarrow> goerror option \<Rightarrow> 'm rtcService \<Rightarrow> qualityUpdateResult \<times> goerror option \<times> 'm rtcService" where
  "finishUpdate src keys order requester before err s =
    (let effective = moQuality src (rsSource s);
         result = \<lparr>urEffective = effective, urRequesterNeedsReconnect = False, urIncompatiblePeers = [], urGeneration = 0\<rparr>
     in case err of
          Some e \<Rightarrow> (result, Some e, s)
        | None \<Rightarrow>
            (case (moProfile src (rsSource s) (qProfile before), moProfile src (rsSource s) (qProfile effective)) of
               (Some _, Some profile) \<Rightarrow>
                 let (again, ps) = incompatiblePeers keys profile (rsVideo s) requester (order (peerSnapshot (rsRegistry s)))
                 in if again \<or> ps \<noteq> []
                    then (result\<lparr>urRequesterNeedsReconnect := again, urIncompatiblePeers := ps, urGeneration := rsGeneration s + 1\<rparr>, None,
                          s\<lparr>rsGeneration := rsGeneration s + 1\<rparr>)
                    else (result, None, s)
             | _ \<Rightarrow> (result, Some (errorsNew ''media profile metadata is unavailable after quality update''), s)))"

inductive updateQualityLocked :: "'m mediaSource \<Rightarrow> (string fset \<Rightarrow> string list) \<Rightarrow> (nat fset \<Rightarrow> nat list) \<Rightarrow> quality \<Rightarrow> nat option
    \<Rightarrow> 'm rtcService \<Rightarrow> qualityUpdateResult \<Rightarrow> goerror option \<Rightarrow> 'm rtcService \<Rightarrow> bool"
  for src keys order q requester s where
  refused: "moUpdateQuality src q (rsSource s) (Some e) m'
    \<Longrightarrow> finishUpdate src keys order requester (moQuality src (rsSource s)) (Some e) (s\<lparr>rsSource := m'\<rparr>) = (result, err, s')
    \<Longrightarrow> updateQualityLocked src keys order q requester s result err s'"
| accepted: "moUpdateQuality src q (rsSource s) None m'
    \<Longrightarrow> applyCongestionBitrateLocked src order (s\<lparr>rsSource := m', rsEncoderKbps := qBitrateKbps q\<rparr>) e s1
    \<Longrightarrow> finishUpdate src keys order requester (moQuality src (rsSource s)) e s1 = (result, err, s')
    \<Longrightarrow> updateQualityLocked src keys order q requester s result err s'"

definition closePeerForProfileChange :: "nat \<Rightarrow> uint64 \<Rightarrow> 'm rtcService \<Rightarrow> 'm rtcService" where
  "closePeerForProfileChange n generation s =
    (if rsGeneration s = generation then s\<lparr>rsRegistry := closeWith n (rsRegistry s)\<rparr> else s)"

text \<open>The closings an update leaves behind: of the incompatible peers, and of the requester.\<close>

definition closersOf :: "nat option \<Rightarrow> qualityUpdateResult \<Rightarrow> (nat \<times> uint64 option) list" where
  "closersOf requester result = map (\<lambda>n. (n, Some (urGeneration result))) (urIncompatiblePeers result)
     @ (case requester of Some n \<Rightarrow> if urRequesterNeedsReconnect result then [(n, None)] else [] | None \<Rightarrow> [])"

definition runCloser :: "nat \<times> uint64 option \<Rightarrow> 'm rtcService \<Rightarrow> 'm rtcService" where
  "runCloser c s =
    (case snd c of Some generation \<Rightarrow> closePeerForProfileChange (fst c) generation s
     | None \<Rightarrow> s\<lparr>rsRegistry := closeWith (fst c) (rsRegistry s)\<rparr>)"

section \<open>Interleavings\<close>

text \<open>
  \<open>register\<close> is the locked part of \<open>newPeer\<close>: a peer takes the codec of the current profile.  \<open>other\<close> is any
  other step of the registry.  \<open>congestion\<close> is a call of \<open>updateCongestionBitrate\<close> after it has stored the
  estimate, or the one at the end of \<open>removePeer\<close>.
\<close>

inductive qualityStep :: "'m mediaSource \<Rightarrow> (string fset \<Rightarrow> string list) \<Rightarrow> (nat fset \<Rightarrow> nat list) \<Rightarrow> ('m \<Rightarrow> 'm \<Rightarrow> bool)
    \<Rightarrow> 'm rtcService \<Rightarrow> 'm rtcService \<Rightarrow> bool"
  for src keys order background where
  other: "registryStep (rsRegistry s) r' \<Longrightarrow> rgPeers r' |\<subseteq>| rgPeers (rsRegistry s) \<Longrightarrow> qualityStep src keys order background s (s\<lparr>rsRegistry := r'\<rparr>)"
| register: "rgPhase (rsRegistry s) n = Some PeerReserved \<Longrightarrow> registerPeer n (rsRegistry s) = (None, r')
    \<Longrightarrow> moProfile src (rsSource s) (qProfile (moQuality src (rsSource s))) = Some profile
    \<Longrightarrow> applyCongestionBitrateLocked src order (s\<lparr>rsRegistry := r', rsVideo := (rsVideo s)(n := \<lparr>pvCongestionBitrate = b, pvCodec = rpCodec profile,
          pvFrontendTransform = rpFrontendTransform profile\<rparr>)\<rparr>) e s'
    \<Longrightarrow> qualityStep src keys order background s s'"
| estimate: "qualityStep src keys order background s (storeEstimate n b s)"
| congestion: "applyCongestionBitrateLocked src order s e s' \<Longrightarrow> qualityStep src keys order background s s'"
| update: "updateQualityLocked src keys order q requester s result err s'
    \<Longrightarrow> qualityStep src keys order background s
          (s'\<lparr>rsClosers := rsClosers s @ closersOf requester result,
              rsHalf := (rsHalf s \<or> (err \<noteq> None \<and> moQuality src (rsSource s') \<noteq> moQuality src (rsSource s)))\<rparr>)"
| closer: "c \<in> set (rsClosers s) \<Longrightarrow> qualityStep src keys order background s ((runCloser c s)\<lparr>rsClosers := remove1 c (rsClosers s)\<rparr>)"
| media: "background (rsSource s) m' \<Longrightarrow> qualityStep src keys order background s (s\<lparr>rsSource := m'\<rparr>)"

text \<open>\<open>New\<close>: \<open>valid\<close> is the outcome of \<open>Validate\<close>; the flags tell which arguments are not nil.\<close>

definition newRtcService :: "goerror option \<Rightarrow> bool \<Rightarrow> bool \<Rightarrow> bool \<Rightarrow> rtcConfig \<Rightarrow> 'm mediaSource \<Rightarrow> (nat \<Rightarrow> peerVideo) \<Rightarrow> 'm \<Rightarrow> goerror + 'm rtcService" where
  "newRtcService valid source audio logger cfg src video m =
    (case valid of
       Some err \<Rightarrow> Inl err
     | None \<Rightarrow>
         if \<not> source then Inl (errorsNew ''WebRTC media source is required'')
         else if rcfAudioEnabled cfg \<and> \<not> audio then Inl (errorsNew ''WebRTC audio source is required when audio is enabled'')
         else if \<not> logger then Inl (errorsNew ''WebRTC logger is required'')
         else (case moProfile src m (qProfile (moQuality src m)) of
             None \<Rightarrow> Inl (Errorf ''media profile %q is unavailable'' [FStr (qProfile (moQuality src m))])
           | Some profile \<Rightarrow>
               if rcfAudioEnabled cfg \<and> rcPayloadType (rpCodec profile) = opusPayloadType
               then Inl (Errorf ''video profile %q payload type conflicts with Opus'' [FStr (qProfile (moQuality src m))])
               else Inr \<lparr>rsRegistry = newRegistry (rcfMaxPeers cfg), rsSource = m, rsVideo = video,
                 rsEncoderKbps = qBitrateKbps (moQuality src m), rsGeneration = 0, rsClosers = [], rsHalf = False\<rparr>))"

inductive qualityReach :: "'m mediaSource \<Rightarrow> (string fset \<Rightarrow> string list) \<Rightarrow> (nat fset \<Rightarrow> nat list) \<Rightarrow> ('m \<Rightarrow> 'm \<Rightarrow> bool)
    \<Rightarrow> 'm rtcService \<Rightarrow> 'm rtcService \<Rightarrow> bool"
  for src keys order background s0 where
  init: "qualityReach src keys order background s0 s0"
| step: "qualityReach src keys order background s0 s \<Longrightarrow> qualityStep src keys order background s s' \<Longrightarrow> qualityReach src keys order background s0 s'"

section \<open>Congestion limit: what is computed\<close>

definition peerKbps :: "peerVideo \<Rightarrow> int" where
  "peerKbps p = go_div (pvCongestionBitrate p) 1000"

lemma limitBitrate_Min: "limitBitrate k ps = Min (insert k (peerKbps ` set ps))"
proof (induction ps arbitrary: k)
  case (Cons p ps)
  have "limitBitrate k (p # ps) = Min (insert (min k (peerKbps p)) (peerKbps ` set ps))"
    using Cons.IH by (simp add: Let_def peerKbps_def min_def)
  also have "\<dots> = Min (insert k (insert (peerKbps p) (peerKbps ` set ps)))"
    by (cases "set ps = {}") (auto simp: min.assoc)
  finally show ?case by simp
qed simp

lemma limitBitrate_le: "limitBitrate k ps \<le> k"
  by (simp add: limitBitrate_Min)

lemma desiredKbps_Min: "desiredKbps requested ps = max 100 (Min (insert requested (peerKbps ` set ps)))"
proof -
  have "(if e < 100 then 100 else e) = max 100 e" for e :: int by simp
  then show ?thesis by (simp only: desiredKbps_def limitBitrate_Min Let_def)
qed

lemma desiredKbps_bounds: "100 \<le> requested \<Longrightarrow> 100 \<le> desiredKbps requested ps \<and> desiredKbps requested ps \<le> requested"
  using limitBitrate_le [of requested ps] by (simp add: desiredKbps_def Let_def)

lemma planCongestion_Some:
  assumes "planCongestion requested current ps = Some k"
  shows "k = desiredKbps requested ps \<and> k \<noteq> current"
  using assms by (auto simp: planCongestion_def Let_def split: if_splits)

lemma planCongestion_None:
  "planCongestion requested current ps = None \<longleftrightarrow>
     current = desiredKbps requested ps \<or> desiredKbps requested ps \<noteq> requested
       \<and> \<bar>desiredKbps requested ps - current\<bar> < max encoderBitrateMinStepKbps (go_div current encoderBitrateStepDivisor)"
  by (auto simp: planCongestion_def Let_def abs_if)

lemma apply_frame:
  assumes "applyCongestionBitrateLocked src order s e s'"
  shows "rsRegistry s' = rsRegistry s \<and> rsVideo s' = rsVideo s \<and> rsGeneration s' = rsGeneration s \<and> rsClosers s' = rsClosers s \<and> rsHalf s' = rsHalf s"
  using assms by (auto simp: applyCongestionBitrateLocked_def split: option.splits)

lemma apply_cases:
  assumes "applyCongestionBitrateLocked src order s e s'"
  obtains "e = None" "s' = s" "planCongestion (qBitrateKbps (moQuality src (rsSource s))) (rsEncoderKbps s) (snapshotVideo order s) = None"
  | kbps m' where "planCongestion (qBitrateKbps (moQuality src (rsSource s))) (rsEncoderKbps s) (snapshotVideo order s) = Some kbps"
      "moSetBitrate src kbps (rsSource s) e m'" "s' = s\<lparr>rsSource := m', rsEncoderKbps := (if e = None then kbps else rsEncoderKbps s)\<rparr>"
  using assms by (auto simp: applyCongestionBitrateLocked_def split: option.splits)

section \<open>The media source as the service sees it\<close>

lemma finishUpdate_source:
  "finishUpdate src keys order requester before err s = (result, err', s') \<Longrightarrow>
     rsSource s' = rsSource s \<and> rsRegistry s' = rsRegistry s \<and> rsVideo s' = rsVideo s \<and> rsEncoderKbps s' = rsEncoderKbps s
     \<and> urEffective result = moQuality src (rsSource s)"
  by (auto simp: finishUpdate_def Let_def split: option.splits prod.splits if_splits)

lemma incompatiblePeers_set:
  assumes "incompatiblePeers keys profile video requester ns = (again, ps)"
  shows "set ps = {n \<in> set ns. incompatible keys profile (video n) \<and> requester \<noteq> Some n}
    \<and> (again \<longleftrightarrow> (\<exists>n\<in>set ns. incompatible keys profile (video n) \<and> requester = Some n))"
  using assms
proof (induction ns arbitrary: again ps)
  case (Cons n ns)
  obtain again' ps' where r: "incompatiblePeers keys profile video requester ns = (again', ps')" by fastforce
  note IH = Cons.IH [OF r]
  show ?case
  proof (cases "incompatible keys profile (video n)")
    case bad: True
    show ?thesis
    proof (cases "requester = Some n")
      case True
      then have "again" "ps = ps'" using Cons.prems r bad by simp_all
      then show ?thesis using IH bad True by simp blast
    next
      case False
      then have "again = again'" "ps = n # ps'" using Cons.prems r bad by simp_all
      then show ?thesis using IH bad False by simp blast
    qed
  next
    case False
    then have "again = again'" "ps = ps'" using Cons.prems r by simp_all
    then show ?thesis using IH False by simp blast
  qed
qed auto

lemma snapshot_shrinks:
  assumes "registryStep r r'" "rgPeers r' |\<subseteq>| rgPeers r" "registryOK r"
  shows "peerSnapshot r' |\<subseteq>| peerSnapshot r"
proof -
  have c: "rgClosed r \<Longrightarrow> rgClosed r'" using closed_step [OF assms(1)] by blast
  have o: "n |\<in>| rgPeers r \<Longrightarrow> rgPhase r' n = Some PeerOpen \<Longrightarrow> rgPhase r n = Some PeerOpen" for n
    using assms(1,3)
    by (induction rule: registryStep.induct)
       (auto simp: reservePeer_def registerPeer_def releaseReservation_def removePeer_def closeWith_def replaceActivePeer_def closeService_def
          registryOK_def mapOK_def Let_def split: if_splits)
  have "n |\<in>| rgPeers r' \<Longrightarrow> n |\<in>| rgPeers r" for n using assms(2) by blast
  then show ?thesis using c o by (auto simp: peerSnapshot_def isClosing_def)
qed

locale media_source =
  fixes src :: "'m mediaSource" and background :: "'m \<Rightarrow> 'm \<Rightarrow> bool"
  assumes update_done: "moUpdateQuality src q m None m' \<Longrightarrow> moQuality src m' = q \<and> MinBitrateKbps \<le> qBitrateKbps q \<and> moProfile src m' (qProfile q) \<noteq> None"
    and update_failed: "moUpdateQuality src q m (Some e) m' \<Longrightarrow> moQuality src m' = moQuality src m"
    and update_profiles: "moUpdateQuality src q m r m' \<Longrightarrow> moProfile src m' = moProfile src m"
    and bitrate_kept: "moSetBitrate src kbps m r m' \<Longrightarrow> moQuality src m' = moQuality src m \<and> moProfile src m' = moProfile src m"
    and background_kept: "background m m' \<Longrightarrow> moQuality src m' = moQuality src m \<and> moProfile src m' = moProfile src m"
begin

abbreviation requestedKbps :: "'m rtcService \<Rightarrow> int" where
  "requestedKbps s \<equiv> qBitrateKbps (moQuality src (rsSource s))"

definition boundedOK :: "'m rtcService \<Rightarrow> bool" where
  "boundedOK s \<longleftrightarrow> 100 \<le> rsEncoderKbps s \<and> rsEncoderKbps s \<le> requestedKbps s"

lemma apply_source:
  assumes "applyCongestionBitrateLocked src order s e s'"
  shows "moQuality src (rsSource s') = moQuality src (rsSource s) \<and> moProfile src (rsSource s') = moProfile src (rsSource s)"
  using assms by (rule apply_cases) (auto dest: bitrate_kept)

lemma apply_bounded:
  assumes "applyCongestionBitrateLocked src order s e s'" "boundedOK s"
  shows "boundedOK s'"
  using assms(1)
proof (rule apply_cases)
  fix kbps m' assume p: "planCongestion (requestedKbps s) (rsEncoderKbps s) (snapshotVideo order s) = Some kbps"
    and s': "s' = s\<lparr>rsSource := m', rsEncoderKbps := (if e = None then kbps else rsEncoderKbps s)\<rparr>"
  have "100 \<le> requestedKbps s" using assms(2) by (simp add: boundedOK_def)
  then have "100 \<le> kbps \<and> kbps \<le> requestedKbps s" using planCongestion_Some [OF p] desiredKbps_bounds by metis
  then show ?thesis using s' apply_source [OF assms(1)] assms(2) by (simp add: boundedOK_def)
qed (use assms(2) in simp)

lemma update_bounded:
  assumes "updateQualityLocked src keys order q requester s result err s'" "boundedOK s"
  shows "boundedOK s'"
  using assms
proof (induction rule: updateQualityLocked.induct)
  case (refused e m' result err s')
  then show ?case using finishUpdate_source [OF refused(2)] update_failed [OF refused(1)] by (simp add: boundedOK_def)
next
  case (accepted m' e s1 result err s')
  have "boundedOK (s\<lparr>rsSource := m', rsEncoderKbps := qBitrateKbps q\<rparr>)"
    using update_done [OF accepted(1)] by (simp add: boundedOK_def MinBitrateKbps_def)
  then have "boundedOK s1" using apply_bounded [OF accepted(2)] by blast
  then show ?case using finishUpdate_source [OF accepted(3)] by (simp add: boundedOK_def)
qed

lemma closer_frame:
  "rsSource (runCloser c s) = rsSource s" "rsEncoderKbps (runCloser c s) = rsEncoderKbps s" "rsVideo (runCloser c s) = rsVideo s"
  "rsHalf (runCloser c s) = rsHalf s" "rsGeneration (runCloser c s) = rsGeneration s"
  "rsRegistry (runCloser c s) = rsRegistry s \<or> rsRegistry (runCloser c s) = closeWith (fst c) (rsRegistry s)"
  by (auto simp: runCloser_def closePeerForProfileChange_def split: option.splits)

lemma bounded_step: "qualityStep src keys order background s s' \<Longrightarrow> boundedOK s \<Longrightarrow> boundedOK s'"
proof (induction rule: qualityStep.induct)
  case (register s n r' profile b e s')
  then show ?case using apply_bounded [OF register(4)] by (simp add: boundedOK_def)
next
  case (update q requester s result err s')
  then show ?case using update_bounded by (auto simp: boundedOK_def)
next
  case (media s m')
  then show ?case using background_kept [OF media(1)] by (simp add: boundedOK_def)
qed (auto simp: boundedOK_def storeEstimate_def closer_frame dest: apply_bounded)

lemma bounded_reach: "qualityReach src keys order background s0 s \<Longrightarrow> boundedOK s0 \<Longrightarrow> boundedOK s"
  by (induction rule: qualityReach.induct) (auto dest: bounded_step)

text \<open>Every peer in use fits the current profile, or a closing of it is under way.\<close>

definition covered :: "'m rtcService \<Rightarrow> nat \<Rightarrow> bool" where
  "covered s n \<longleftrightarrow> (n, None) \<in> set (rsClosers s) \<or> (n, Some (rsGeneration s)) \<in> set (rsClosers s)"

definition fits :: "(string fset \<Rightarrow> string list) \<Rightarrow> 'm rtcService \<Rightarrow> nat \<Rightarrow> bool" where
  "fits keys s n \<longleftrightarrow> (\<forall>profile. moProfile src (rsSource s) (qProfile (moQuality src (rsSource s))) = Some profile \<longrightarrow> \<not> incompatible keys profile (rsVideo s n))"

definition peersOK :: "(string fset \<Rightarrow> string list) \<Rightarrow> 'm rtcService \<Rightarrow> bool" where
  "peersOK keys s \<longleftrightarrow> rsHalf s \<or> (\<forall>n. n |\<in>| peerSnapshot (rsRegistry s) \<longrightarrow> fits keys s n \<or> covered s n)"

lemma peersOK_mono:
  assumes "peersOK keys s" "rsHalf s \<Longrightarrow> rsHalf s'"
    and "\<And>n. n |\<in>| peerSnapshot (rsRegistry s') \<Longrightarrow> n |\<in>| peerSnapshot (rsRegistry s) \<and> (fits keys s n \<longrightarrow> fits keys s' n) \<and> (covered s n \<longrightarrow> covered s' n)"
  shows "peersOK keys s'"
  using assms unfolding peersOK_def by blast

lemma fits_same:
  "moQuality src (rsSource s') = moQuality src (rsSource s) \<Longrightarrow> moProfile src (rsSource s') = moProfile src (rsSource s)
    \<Longrightarrow> pvCodec (rsVideo s' n) = pvCodec (rsVideo s n) \<Longrightarrow> pvFrontendTransform (rsVideo s' n) = pvFrontendTransform (rsVideo s n)
    \<Longrightarrow> fits keys s' n = fits keys s n"
  by (simp add: fits_def incompatible_def)

lemma peersOK_same:
  assumes "peersOK keys s" "moQuality src (rsSource s') = moQuality src (rsSource s)" "moProfile src (rsSource s') = moProfile src (rsSource s)"
    "rsVideo s' = rsVideo s" "rsRegistry s' = rsRegistry s" "rsGeneration s' = rsGeneration s" "set (rsClosers s) \<subseteq> set (rsClosers s')" "rsHalf s \<Longrightarrow> rsHalf s'"
  shows "peersOK keys s'"
  using assms(1)
proof (rule peersOK_mono)
  fix n assume "n |\<in>| peerSnapshot (rsRegistry s')"
  then show "n |\<in>| peerSnapshot (rsRegistry s) \<and> (fits keys s n \<longrightarrow> fits keys s' n) \<and> (covered s n \<longrightarrow> covered s' n)"
    using fits_same [of s' s n keys] assms(2-7) by (auto simp: covered_def)
qed (rule assms(8))

lemma peersOK_apply:
  assumes "applyCongestionBitrateLocked src order s e s'" "peersOK keys s"
  shows "peersOK keys s'"
  by (rule peersOK_same [OF assms(2)]) (use apply_frame [OF assms(1)] apply_source [OF assms(1)] in auto)

lemma finishUpdate_error:
  "finishUpdate src keys order requester before err s = (result, Some e, s') \<Longrightarrow> s' = s \<and> closersOf requester result = []"
  by (auto simp: finishUpdate_def closersOf_def Let_def split: option.splits prod.splits if_splits)

lemma finishUpdate_covers:
  assumes "finishUpdate src keys order requester before err s = (result, None, s')"
    and "\<And>r. set (order r) = fset r" and "n |\<in>| peerSnapshot (rsRegistry s)"
    and "s2 = s'\<lparr>rsClosers := cs @ closersOf requester result, rsHalf := h\<rparr>"
  shows "fits keys s2 n \<or> covered s2 n"
proof -
  obtain profile where pr: "moProfile src (rsSource s) (qProfile (moQuality src (rsSource s))) = Some profile"
    using assms(1) by (auto simp: finishUpdate_def Let_def split: option.splits)
  obtain again ps where ip: "incompatiblePeers keys profile (rsVideo s) requester (order (peerSnapshot (rsRegistry s))) = (again, ps)" by fastforce
  note sets = incompatiblePeers_set [OF ip]
  note frame = finishUpdate_source [OF assms(1)]
  show ?thesis
  proof (cases "incompatible keys profile (rsVideo s n)")
    case False
    then show ?thesis using pr frame assms(4) by (simp add: fits_def)
  next
    case True
    then have "n \<in> set ps \<and> requester \<noteq> Some n \<or> again \<and> requester = Some n" using sets assms(2,3) by auto
    moreover from this have "again \<or> ps \<noteq> []" by auto
    then have "result = \<lparr>urEffective = moQuality src (rsSource s), urRequesterNeedsReconnect = again, urIncompatiblePeers = ps, urGeneration = rsGeneration s'\<rparr>"
      using assms(1) pr ip by (auto simp: finishUpdate_def Let_def split: option.splits)
    ultimately have "covered s2 n" using assms(4) by (auto simp: covered_def closersOf_def)
    then show ?thesis ..
  qed
qed

lemma peersOK_update:
  assumes u: "updateQualityLocked src keys order q requester s result err s'" and ok: "peersOK keys s" and o: "\<And>r. set (order r) = fset r"
    and s2: "s2 = s'\<lparr>rsClosers := rsClosers s @ closersOf requester result,
              rsHalf := (rsHalf s \<or> (err \<noteq> None \<and> moQuality src (rsSource s') \<noteq> moQuality src (rsSource s)))\<rparr>"
  shows "peersOK keys s2"
  using u
proof (cases rule: updateQualityLocked.cases)
  case (refused e m')
  then have "err = Some e" by (simp add: finishUpdate_def Let_def)
  then have f: "s' = s\<lparr>rsSource := m'\<rparr>" using finishUpdate_error refused(2) by blast
  show ?thesis
    by (rule peersOK_same [OF ok]) (use f s2 update_failed [OF refused(1)] update_profiles [OF refused(1)] in auto)
next
  case (accepted m' e s1)
  note fr = apply_frame [OF accepted(2)] and so = apply_source [OF accepted(2)] and fi = finishUpdate_source [OF accepted(3)]
  have reg: "rsRegistry s' = rsRegistry s" "rsRegistry s1 = rsRegistry s" "rsRegistry s2 = rsRegistry s" using fr fi s2 by auto
  show ?thesis
  proof (cases err)
    case None
    have c: "fits keys s2 n \<or> covered s2 n" if "n |\<in>| peerSnapshot (rsRegistry s1)" for n
      using finishUpdate_covers [OF accepted(3) [unfolded None] o that s2] .
    show ?thesis unfolding peersOK_def using c reg by simp
  next
    case (Some e')
    then have f: "s' = s1" "closersOf requester result = []" using finishUpdate_error accepted(3) by blast+
    show ?thesis
    proof (cases "moQuality src (rsSource s') = moQuality src (rsSource s)")
      case True
      show ?thesis
        by (rule peersOK_same [OF ok]) (use True f fr so s2 update_profiles [OF accepted(1)] in auto)
    next
      case False
      then show ?thesis using s2 Some by (simp add: peersOK_def)
    qed
  qed
qed

lemma peersOK_closer:
  assumes "peersOK keys s" shows "peersOK keys ((runCloser c s)\<lparr>rsClosers := remove1 c (rsClosers s)\<rparr>)"
  using assms
proof (rule peersOK_mono)
  let ?s = "(runCloser c s)\<lparr>rsClosers := remove1 c (rsClosers s)\<rparr>"
  fix n assume n: "n |\<in>| peerSnapshot (rsRegistry ?s)"
  have "n |\<in>| peerSnapshot (rsRegistry s)" using n closer_frame(6) [of c s] by (auto simp: peerSnapshot_def isClosing_def closeWith_def split: if_splits)
  moreover have "fits keys s n \<longrightarrow> fits keys ?s n" by (simp add: fits_def closer_frame)
  moreover have "fst c \<noteq> n" if "snd c = None \<or> snd c = Some (rsGeneration s)"
    using n that by (auto simp: runCloser_def closePeerForProfileChange_def peerSnapshot_def isClosing_def closeWith_def split: if_splits)
  then have "c \<noteq> (n, None) \<and> c \<noteq> (n, Some (rsGeneration s))" by auto
  then have "covered s n \<longrightarrow> covered ?s n" by (auto simp: covered_def closer_frame)
  ultimately show "n |\<in>| peerSnapshot (rsRegistry s) \<and> (fits keys s n \<longrightarrow> fits keys ?s n) \<and> (covered s n \<longrightarrow> covered ?s n)" by blast
qed (simp add: closer_frame)

lemma transportCompatible_refl: "transportCompatible keys c c"
  by (simp add: transportCompatible_def sameCodecFields_def sameFeedback_def list_all_iff)

lemma peersOK_register:
  assumes "peersOK keys s" "registryOK (rsRegistry s)" "rgPhase (rsRegistry s) n = Some PeerReserved" "registerPeer n (rsRegistry s) = (None, r')"
    and "moProfile src (rsSource s) (qProfile (moQuality src (rsSource s))) = Some profile"
    and "pvCodec v = rpCodec profile" "pvFrontendTransform v = rpFrontendTransform profile"
  shows "peersOK keys (s\<lparr>rsRegistry := r', rsVideo := (rsVideo s)(n := v)\<rparr>)"
proof -
  let ?s = "s\<lparr>rsRegistry := r', rsVideo := (rsVideo s)(n := v)\<rparr>"
  have new: "fits keys ?s n" using assms(5-7) transportCompatible_refl by (simp add: fits_def incompatible_def)
  have old: "k |\<in>| peerSnapshot (rsRegistry s)" if "k |\<in>| peerSnapshot r'" "k \<noteq> n" for k
    using that assms(4) by (auto simp: peerSnapshot_def isClosing_def registerPeer_def Let_def split: if_splits)
  have same: "fits keys ?s k = fits keys s k" "covered ?s k = covered s k" if "k \<noteq> n" for k
    using that by (simp_all add: fits_def covered_def)
  have "fits keys ?s k \<or> covered ?s k" if "k |\<in>| peerSnapshot r'" "\<not> rsHalf s" for k
    using new old [of k] same [of k] that assms(1) by (cases "k = n") (auto simp: peersOK_def)
  then show ?thesis by (auto simp: peersOK_def)
qed

lemma peers_step:
  assumes "qualityStep src keys order background s s'" "\<And>r. set (order r) = fset r" "registryOK (rsRegistry s)" "peersOK keys s"
  shows "registryOK (rsRegistry s') \<and> peersOK keys s'"
  using assms(1)
proof (cases rule: qualityStep.cases)
  case (other r')
  have "peersOK keys s'"
    using assms(4) by (rule peersOK_mono) (use other(1) snapshot_shrinks [OF other(2,3) assms(3)] in \<open>auto simp: fits_def covered_def\<close>)
  then show ?thesis using other registryOK_step [OF other(2) assms(3)] by simp
next
  case (register n r' profile b e)
  have "registryOK r'" using registryOK_register [OF assms(3) register(1,2)] .
  then show ?thesis using peersOK_apply [OF register(4) peersOK_register [OF assms(4,3) register(1-3)]] apply_frame [OF register(4)] by simp
next
  case (estimate n b)
  have "peersOK keys s'"
    using assms(4) by (rule peersOK_mono) (use fits_same [of s' s _ keys] in \<open>auto simp: estimate storeEstimate_def covered_def\<close>)
  then show ?thesis using estimate assms(3) by (simp add: storeEstimate_def)
next
  case (congestion e)
  then show ?thesis using peersOK_apply assms(3,4) apply_frame by metis
next
  case (update q requester result err s1)
  have "rsRegistry s1 = rsRegistry s"
    using update(2) by (cases rule: updateQualityLocked.cases) (auto dest!: finishUpdate_source apply_frame)
  then show ?thesis using peersOK_update [OF update(2) assms(4,2) update(1)] update(1) assms(3) by simp
next
  case (closer c)
  then show ?thesis using peersOK_closer [OF assms(4)] closer_frame(6) [of c s] registryOK_close [OF assms(3)] assms(3) by auto
next
  case (media m')
  have "peersOK keys s'" by (rule peersOK_same [OF assms(4)]) (use media background_kept [OF media(2)] in auto)
  then show ?thesis using media assms(3) by simp
qed

lemma peers_reach:
  assumes "qualityReach src keys order background s0 s" "\<And>r. set (order r) = fset r" "registryOK (rsRegistry s0)" "peersOK keys s0"
  shows "registryOK (rsRegistry s) \<and> peersOK keys s"
  using assms(1)
proof (induction rule: qualityReach.induct)
  case (step s s')
  then show ?case using peers_step [OF step(2) assms(2)] by blast
qed (use assms(3,4) in simp)

end

section \<open>The media service provides the interface\<close>

definition adaptProfile :: "encoderProfile \<Rightarrow> rtcProfile" where
  "adaptProfile profile = \<lparr>rpDefaultOption = pfDefaultOption profile, rpOptions = pfOptions profile,
     rpFrontendTransform = pfFrontendTransform profile, rpCodec = pfCodec profile\<rparr>"

text \<open>
  The calls of the media service on the pipeline of \<open>Video_Pipeline\<close>.  While \<open>UpdateQuality\<close> has released
  \<open>mu\<close>, the service's other goroutines run.
\<close>

abbreviation mediaPipeStep :: "'t templateEngine \<Rightarrow> gstreamer \<Rightarrow> pipeState mediaSystem \<Rightarrow> pipeState mediaSystem \<Rightarrow> bool" where
  "mediaPipeStep tmpl gst \<equiv> mediaStep (replaceResult tmpl gst) (bitrateResult tmpl gst) (pipeBackground tmpl gst) (pipeStarted tmpl gst)"

definition mediaDuring :: "'t templateEngine \<Rightarrow> gstreamer \<Rightarrow> pipeState mediaSystem \<Rightarrow> pipeState mediaSystem \<Rightarrow> bool" where
  "mediaDuring tmpl gst m m' \<longleftrightarrow> mediaPipeStep tmpl gst m m' \<and> sysPending m' = sysPending m"

inductive mediaUpdateQuality :: "'t templateEngine \<Rightarrow> gstreamer \<Rightarrow> quality \<Rightarrow> pipeState mediaSystem \<Rightarrow> goerror option \<Rightarrow> pipeState mediaSystem \<Rightarrow> bool"
  for tmpl gst q m where
  reject: "planUpdate q (sysService m) = UpdateReject e \<Longrightarrow> mediaUpdateQuality tmpl gst q m (Some e) m"
| unchanged: "planUpdate q (sysService m) = UpdateNothing \<Longrightarrow> mediaUpdateQuality tmpl gst q m None m"
| fails: "sysPending m = None \<Longrightarrow> plan = planUpdate q (sysService m) \<Longrightarrow> plan = UpdateReplace \<or> plan = UpdateBitrate
    \<Longrightarrow> msPipeline (sysService m) = Some pl
    \<Longrightarrow> (if plan = UpdateReplace then replaceResult tmpl gst q pl (Some e) pl' else bitrateResult tmpl gst (qBitrateKbps q) pl (Some e) pl')
    \<Longrightarrow> mediaUpdateQuality tmpl gst q m (Some (updateError plan e)) (m\<lparr>sysService := (sysService m)\<lparr>msPipeline := Some pl'\<rparr>\<rparr>)"
| commits: "sysPending m = None \<Longrightarrow> plan = planUpdate q (sysService m) \<Longrightarrow> plan = UpdateReplace \<or> plan = UpdateBitrate
    \<Longrightarrow> msPipeline (sysService m) = Some pl
    \<Longrightarrow> (if plan = UpdateReplace then replaceResult tmpl gst q pl None pl' else bitrateResult tmpl gst (qBitrateKbps q) pl None pl')
    \<Longrightarrow> (mediaDuring tmpl gst)\<^sup>*\<^sup>* \<lparr>sysService = (sysService m)\<lparr>msPipeline := Some pl'\<rparr>, sysPending = Some q\<rparr> m1
    \<Longrightarrow> commitUpdate q (msPipeline (sysService m1) \<noteq> None) (sysService m1) = (e, s')
    \<Longrightarrow> mediaUpdateQuality tmpl gst q m e \<lparr>sysService = s', sysPending = None\<rparr>"

inductive mediaSetBitrate :: "'t templateEngine \<Rightarrow> gstreamer \<Rightarrow> int \<Rightarrow> pipeState mediaSystem \<Rightarrow> goerror option \<Rightarrow> pipeState mediaSystem \<Rightarrow> bool"
  for tmpl gst kbps m where
  reject: "planBitrate kbps (sysService m) = BitrateReject e \<Longrightarrow> mediaSetBitrate tmpl gst kbps m (Some e) m"
| applied: "sysPending m = None \<Longrightarrow> planBitrate kbps (sysService m) = BitrateApply \<Longrightarrow> msPipeline (sysService m) = Some pl
    \<Longrightarrow> bitrateResult tmpl gst kbps pl e pl'
    \<Longrightarrow> mediaSetBitrate tmpl gst kbps m (wrapError ''update congestion-limited encoder bitrate: %w'' [] e)
          (m\<lparr>sysService := (sysService m)\<lparr>msPipeline := Some pl'\<rparr>\<rparr>)"

definition mediaSourceAdapter :: "'t templateEngine \<Rightarrow> gstreamer \<Rightarrow> pipeState mediaSystem mediaSource" where
  "mediaSourceAdapter tmpl gst = \<lparr>moQuality = (\<lambda>m. msQuality (sysService m)),
     moProfile = (\<lambda>m name. map_option adaptProfile (fmlookup (mcProfiles (msCfg (sysService m))) name)),
     moUpdateQuality = mediaUpdateQuality tmpl gst, moSetBitrate = mediaSetBitrate tmpl gst\<rparr>"

text \<open>Steps of the media service between the calls of the WebRTC service, which alone updates the quality.\<close>

definition mediaBackground :: "'t templateEngine \<Rightarrow> gstreamer \<Rightarrow> pipeState mediaSystem \<Rightarrow> pipeState mediaSystem \<Rightarrow> bool" where
  "mediaBackground tmpl gst m m' \<longleftrightarrow> mediaDuring tmpl gst m m' \<and> sysPending m = None"

lemma mediaStep_config:
  "mediaPipeStep tmpl gst m m' \<Longrightarrow> msCfg (sysService m') = msCfg (sysService m)
     \<and> (sysPending m' = sysPending m \<longrightarrow> msQuality (sysService m') = msQuality (sysService m))"
  by (induction rule: mediaStep.induct)
     (auto simp: runStart_def runEnd_def SetActive_def commitUpdate_def Let_def split: if_splits option.splits sum.splits)

lemma mediaDuring_star:
  "(mediaDuring tmpl gst)\<^sup>*\<^sup>* m m' \<Longrightarrow> msCfg (sysService m') = msCfg (sysService m) \<and> msQuality (sysService m') = msQuality (sysService m)"
  by (induction rule: rtranclp_induct) (auto simp: mediaDuring_def dest: mediaStep_config)

lemma mediaUpdate_config:
  "mediaUpdateQuality tmpl gst q m e m' \<Longrightarrow> msCfg (sysService m') = msCfg (sysService m)"
  by (induction rule: mediaUpdateQuality.induct) (auto simp: commitUpdate_def dest!: mediaDuring_star split: if_splits)

lemma quality_valid_facts:
  "qualityValidate profiles q = None \<Longrightarrow> MinBitrateKbps \<le> qBitrateKbps q \<and> fmlookup profiles (qProfile q) \<noteq> None"
  by (auto simp: qualityValidate_def validateQualityValues_def split: option.splits if_splits)

interpretation rtcsource: media_source "mediaSourceAdapter tmpl gst" "mediaBackground tmpl gst"
  for tmpl :: "'t templateEngine" and gst
proof
  fix q m m' assume u: "moUpdateQuality (mediaSourceAdapter tmpl gst) q m None m'"
  then have m: "mediaUpdateQuality tmpl gst q m None m'" by (simp add: mediaSourceAdapter_def)
  have "qualityValidate (mcProfiles (msCfg (sysService m))) q = None \<and> msQuality (sysService m') = q"
    using m by (cases rule: mediaUpdateQuality.cases)
      (auto simp: planUpdate_def commitUpdate_def Let_def split: option.splits if_splits)
  then show "moQuality (mediaSourceAdapter tmpl gst) m' = q \<and> MinBitrateKbps \<le> qBitrateKbps q \<and> moProfile (mediaSourceAdapter tmpl gst) m' (qProfile q) \<noteq> None"
    using quality_valid_facts [of _ q] mediaUpdate_config [OF m] by (auto simp: mediaSourceAdapter_def)
next
  fix q m e m' assume "moUpdateQuality (mediaSourceAdapter tmpl gst) q m (Some e) m'"
  then have "mediaUpdateQuality tmpl gst q m (Some e) m'" by (simp add: mediaSourceAdapter_def)
  then show "moQuality (mediaSourceAdapter tmpl gst) m' = moQuality (mediaSourceAdapter tmpl gst) m"
    by (cases rule: mediaUpdateQuality.cases)
       (auto simp: mediaSourceAdapter_def commitUpdate_def dest!: mediaDuring_star split: if_splits)
next
  fix q m e m' assume "moUpdateQuality (mediaSourceAdapter tmpl gst) q m e m'"
  then show "moProfile (mediaSourceAdapter tmpl gst) m' = moProfile (mediaSourceAdapter tmpl gst) m"
    using mediaUpdate_config [of tmpl gst q m e m'] by (simp add: mediaSourceAdapter_def)
next
  fix kbps m e m' assume "moSetBitrate (mediaSourceAdapter tmpl gst) kbps m e m'"
  then have "mediaSetBitrate tmpl gst kbps m e m'" by (simp add: mediaSourceAdapter_def)
  then show "moQuality (mediaSourceAdapter tmpl gst) m' = moQuality (mediaSourceAdapter tmpl gst) m
      \<and> moProfile (mediaSourceAdapter tmpl gst) m' = moProfile (mediaSourceAdapter tmpl gst) m"
    by (cases rule: mediaSetBitrate.cases) (auto simp: mediaSourceAdapter_def)
next
  fix m m' assume "mediaBackground tmpl gst m m'"
  then show "moQuality (mediaSourceAdapter tmpl gst) m' = moQuality (mediaSourceAdapter tmpl gst) m
      \<and> moProfile (mediaSourceAdapter tmpl gst) m' = moProfile (mediaSourceAdapter tmpl gst) m"
    using mediaStep_config [of tmpl gst m m'] by (auto simp: mediaBackground_def mediaDuring_def mediaSourceAdapter_def)
qed

section \<open>Properties\<close>

text \<open>C36: the congestion limit.  In every interleaving of bandwidth estimates, peers coming and going, quality
  updates, failed encoder calls and steps of the media service, the stored encoder bitrate is between 100 Kbit/s
  and the requested bitrate.  A successful application of the limit leaves it at the target, the smallest of the
  requested bitrate and the peers' estimates but at least 100, or within the hysteresis of the target; and at
  the requested bitrate whenever the target is the requested bitrate.\<close>

theorem congestion_bitrate:
  assumes "newRtcService valid source audio logger cfg (mediaSourceAdapter tmpl gst) video m0 = Inr s0" and "100 \<le> qBitrateKbps (msQuality (sysService m0))"
    and "qualityReach (mediaSourceAdapter tmpl gst) keys order (mediaBackground tmpl gst) s0 s"
    and "requested = qBitrateKbps (msQuality (sysService (rsSource s)))"
    and "target = max 100 (Min (insert requested (peerKbps ` set (snapshotVideo order s))))"
  shows "100 \<le> rsEncoderKbps s \<and> rsEncoderKbps s \<le> requested
    \<and> (\<forall>s'. applyCongestionBitrateLocked (mediaSourceAdapter tmpl gst) order s None s' \<longrightarrow>
          rsEncoderKbps s' = target \<or> target \<noteq> requested \<and> s' = s \<and> \<bar>target - rsEncoderKbps s\<bar> < max 250 (go_div (rsEncoderKbps s) 20))"
proof -
  have q: "qBitrateKbps (moQuality (mediaSourceAdapter tmpl gst) (rsSource s)) = requested" by (simp add: assms(4) mediaSourceAdapter_def)
  have "100 \<le> rsEncoderKbps s0" "rsEncoderKbps s0 \<le> qBitrateKbps (moQuality (mediaSourceAdapter tmpl gst) (rsSource s0))"
    using assms(1,2) by (auto simp: newRtcService_def mediaSourceAdapter_def split: option.splits if_splits)
  then have b: "100 \<le> rsEncoderKbps s \<and> rsEncoderKbps s \<le> requested"
    using rtcsource.bounded_reach [OF assms(3), unfolded rtcsource.boundedOK_def] q by simp
  have t: "target = desiredKbps requested (snapshotVideo order s)" by (simp only: assms(5) desiredKbps_Min)
  have "rsEncoderKbps s' = target \<or> target \<noteq> requested \<and> s' = s \<and> \<bar>target - rsEncoderKbps s\<bar> < max 250 (go_div (rsEncoderKbps s) 20)"
    if "applyCongestionBitrateLocked (mediaSourceAdapter tmpl gst) order s None s'" for s'
    using that
  proof (rule apply_cases)
    assume "s' = s" "planCongestion (qBitrateKbps (moQuality (mediaSourceAdapter tmpl gst) (rsSource s))) (rsEncoderKbps s) (snapshotVideo order s) = None"
    then show ?thesis using planCongestion_None [of requested "rsEncoderKbps s" "snapshotVideo order s"] q t
      by (auto simp: encoderBitrateMinStepKbps_def encoderBitrateStepDivisor_def)
  qed (use planCongestion_Some [of requested "rsEncoderKbps s" "snapshotVideo order s"] q t in auto)
  then show ?thesis using b by blast
qed


lemma apply_planned:
  "planCongestion (qBitrateKbps (moQuality src (rsSource s))) (rsEncoderKbps s) (snapshotVideo order s) = None
    \<Longrightarrow> applyCongestionBitrateLocked src order s e s' \<longleftrightarrow> e = None \<and> s' = s"
  by (simp add: applyCongestionBitrateLocked_def)

lemma recovered_target:
  assumes "100 \<le> requested" "\<And>p. p \<in> set ps \<Longrightarrow> requested \<le> peerKbps p"
  shows "desiredKbps requested ps = requested"
proof -
  have "Min (insert requested (peerKbps ` set ps)) = requested" using assms(2) by (intro Min_eqI) auto
  then show ?thesis using assms(1) by (simp only: desiredKbps_Min)
qed


text \<open>
  When the limit cannot be applied after the source has accepted the new quality, the update reports the error
  with the new quality in force and no peer to close, whatever their codecs.
\<close>

lemma half_update_keeps_peers:
  assumes "moUpdateQuality src q (rsSource s) None m'"
    and "applyCongestionBitrateLocked src order (s\<lparr>rsSource := m', rsEncoderKbps := qBitrateKbps q\<rparr>) (Some e) s1"
  shows "updateQualityLocked src keys order q requester s
      \<lparr>urEffective = moQuality src (rsSource s1), urRequesterNeedsReconnect = False, urIncompatiblePeers = [], urGeneration = 0\<rparr> (Some e) s1
    \<and> rsRegistry s1 = rsRegistry s"
  using apply_frame [OF assms(2)] by (auto intro!: updateQualityLocked.accepted [OF assms] simp: finishUpdate_def Let_def)

section \<open>Witnesses\<close>

definition demoVideo :: "int \<Rightarrow> peerVideo" where
  "demoVideo b = \<lparr>pvCongestionBitrate = b, pvCodec = demoCodec, pvFrontendTransform = pfFrontendTransform demoProfile\<rparr>"

definition demoRegistry :: registry where
  "demoRegistry = snd (registerPeer 1 (snd (reservePeer (newRegistry 2))))"

definition demoRtc0 :: "pipeState mediaSystem rtcService" where
  "demoRtc0 = \<lparr>rsRegistry = newRegistry 2, rsSource = demoRunning, rsVideo = (\<lambda>_. demoVideo 0), rsEncoderKbps = 2500, rsGeneration = 0,
     rsClosers = [], rsHalf = False\<rparr>"

definition demoRtc :: "int \<Rightarrow> pipeState mediaSystem rtcService" where
  "demoRtc b = demoRtc0\<lparr>rsRegistry := demoRegistry, rsVideo := (rsVideo demoRtc0)(1 := demoVideo b)\<rparr>"

lemma demo_source:
  "msQuality (sysService demoRunning) = demoQuality" "qBitrateKbps demoQuality = 2500" "mcProfiles (msCfg (sysService demoRunning)) = demoProfiles"
  "fmlookup demoProfiles (qProfile demoQuality) = Some demoProfile" "pfCodec demoProfile = demoCodec"
  by (simp_all add: demoRunning_def demoService_def demoConfig_def demoQuality_def optionQuality_def demoOption_def demoProfiles_def demoProfile_def)

definition demoRtcConfig :: rtcConfig where
  "demoRtcConfig = \<lparr>rcfAudioEnabled = False, rcfICEServers = [], rcfICEUsername = [], rcfICECredential = [], rcfICEAdvertisedIPs = [], rcfUDPPortMin = 0,
     rcfUDPPortMax = 0, rcfMaxPeers = 2, rcfReplaceExistingPeer = False, rcfAllowedOrigins = [], rcfTracingEnabled = False\<rparr>"

lemma demo_new_rtc: "newRtcService (rtcConfigValidate (\<lambda>_. Inr SchemeTypeSTUN) (\<lambda>_. None) (\<lambda>s. Inl (errorsNew s)) demoRtcConfig) True False True demoRtcConfig
    (mediaSourceAdapter plainEngine demoGst) (\<lambda>_. demoVideo 0) demoRunning = Inr demoRtc0"
  by (simp add: newRtcService_def mediaSourceAdapter_def demo_source demoRtc0_def rtcConfigValidate_def demoRtcConfig_def errorsJoin_def check_def)

lemma demo_snapshot: "peerSnapshot demoRegistry = {|1|}"
  by (auto simp: peerSnapshot_def isClosing_def demoRegistry_def registerPeer_def reservePeer_def newRegistry_def Let_def)

lemma demo_snapshot_video: "snapshotVideo sorted_list_of_fset (demoRtc b) = [demoVideo b]"
proof -
  have "sorted_list_of_fset {|1 :: nat|} = [1]" by (simp add: sorted_list_of_fset.rep_eq)
  then show ?thesis by (simp add: snapshotVideo_def demoRtc_def demo_snapshot)
qed

lemma demo_plan: "planCongestion 2500 2500 [demoVideo 2400000] = None"
  by (simp add: planCongestion_def desiredKbps_def demoVideo_def go_div_def encoderBitrateMinStepKbps_def encoderBitrateStepDivisor_def)

lemma demo_reach:
  "qualityReach (mediaSourceAdapter plainEngine demoGst) keys sorted_list_of_fset (mediaBackground plainEngine demoGst) demoRtc0 (demoRtc 2400000)"
proof -
  let ?src = "mediaSourceAdapter plainEngine demoGst" and ?r = "snd (reservePeer (newRegistry 2))"
  let ?s = "demoRtc0\<lparr>rsRegistry := ?r\<rparr>"
  have "registryStep (newRegistry 2) ?r" by (rule registryStep.reserve) (rule surjective_pairing)
  moreover have "rgPeers ?r |\<subseteq>| rgPeers (newRegistry 2)" by (simp add: reservePeer_def newRegistry_def Let_def)
  ultimately have 1: "qualityReach ?src keys sorted_list_of_fset (mediaBackground plainEngine demoGst) demoRtc0 ?s"
    by (intro qualityReach.step [OF qualityReach.init] qualityStep.other) (simp_all add: demoRtc0_def)
  have p: "rgPhase ?r 1 = Some PeerReserved" "registerPeer 1 ?r = (None, demoRegistry)"
    by (simp_all add: reservePeer_def newRegistry_def registerPeer_def Let_def demoRegistry_def)
  have pr: "moProfile ?src (rsSource ?s) (qProfile (moQuality ?src (rsSource ?s))) = Some (adaptProfile demoProfile)"
    by (simp add: mediaSourceAdapter_def demoRtc0_def demo_source)
  have "applyCongestionBitrateLocked ?src sorted_list_of_fset (demoRtc 2400000) None (demoRtc 2400000)"
    using demo_plan by (simp add: applyCongestionBitrateLocked_def demo_snapshot_video) (simp add: demoRtc_def demoRtc0_def mediaSourceAdapter_def demo_source)
  moreover have eq: "?s\<lparr>rsRegistry := demoRegistry, rsVideo := (rsVideo ?s)(1 := \<lparr>pvCongestionBitrate = 2400000, pvCodec = rpCodec (adaptProfile demoProfile),
      pvFrontendTransform = rpFrontendTransform (adaptProfile demoProfile)\<rparr>)\<rparr> = demoRtc 2400000"
    by (simp add: demoRtc_def demoRtc0_def demoVideo_def adaptProfile_def demo_source)
  ultimately have ap: "applyCongestionBitrateLocked ?src sorted_list_of_fset (?s\<lparr>rsRegistry := demoRegistry, rsVideo := (rsVideo ?s)(1 := \<lparr>pvCongestionBitrate = 2400000,
      pvCodec = rpCodec (adaptProfile demoProfile), pvFrontendTransform = rpFrontendTransform (adaptProfile demoProfile)\<rparr>)\<rparr>) None (demoRtc 2400000)"
    by (simp only: eq)
  have "qualityStep ?src keys sorted_list_of_fset (mediaBackground plainEngine demoGst) ?s (demoRtc 2400000)"
    by (rule qualityStep.register [OF _ _ pr ap]) (use p in simp_all)
  then show ?thesis using 1 qualityReach.step by blast
qed

theorem congestion_bitrate_witness:
  "100 \<le> rsEncoderKbps (demoRtc 2400000) \<and> rsEncoderKbps (demoRtc 2400000) \<le> 2500
   \<and> (rsEncoderKbps (demoRtc 2400000) = 2400 \<or> \<bar>2400 - rsEncoderKbps (demoRtc 2400000)\<bar> < max 250 (go_div (rsEncoderKbps (demoRtc 2400000)) 20))"
proof -
  have f: "rsSource (demoRtc 2400000) = demoRunning" by (simp add: demoRtc_def demoRtc0_def)
  have k: "peerKbps (demoVideo 2400000) = 2400" by (simp add: peerKbps_def demoVideo_def go_div_def)
  note c = congestion_bitrate [OF demo_new_rtc _ demo_reach [of sorted_list_of_fset] refl refl, unfolded f demo_source demo_snapshot_video]
  have "applyCongestionBitrateLocked (mediaSourceAdapter plainEngine demoGst) sorted_list_of_fset (demoRtc 2400000) None (demoRtc 2400000)"
    using demo_plan by (simp add: applyCongestionBitrateLocked_def demo_snapshot_video) (simp add: demoRtc_def demoRtc0_def mediaSourceAdapter_def demo_source)
  then show ?thesis using c k by (simp add: min_def) blast
qed


text \<open>The encoder limited to 2200 Kbit/s of the requested 2500; the estimate, now at 2300, then recovers.\<close>

definition demoLimited :: "pipeState mediaSystem" where
  "demoLimited = demoRunning\<lparr>sysService := (sysService demoRunning)\<lparr>msPipeline := Some (initialPipeline ((demoBranch 1)\<lparr>vbQuality := demoQuality\<lparr>qBitrateKbps := 2200\<rparr>\<rparr>))\<rparr>\<rparr>"

definition demoParked :: "int \<Rightarrow> int \<Rightarrow> pipeState mediaSystem rtcService" where
  "demoParked stored b = (demoRtc b)\<lparr>rsSource := demoLimited, rsEncoderKbps := stored\<rparr>"

lemma demo_limited:
  "msQuality (sysService demoLimited) = demoQuality" "mcProfiles (msCfg (sysService demoLimited)) = demoProfiles"
  "map_option qBitrateKbps (Option.bind (msPipeline (sysService demoLimited)) activeQuality) = Some 2200"
  by (simp_all add: demoLimited_def demo_source activeQuality_def initialPipeline_def demoBranch_def)

lemma demo_resubmit: "planUpdate demoQuality (sysService demoLimited) = UpdateNothing"
proof -
  have "qualityValidate demoProfiles demoQuality = None" using demo_quality by (simp add: demoQuality_def)
  then show ?thesis using demo_limited(1,2) by (simp add: planUpdate_def) (simp add: demoLimited_def demoRunning_def)
qed

lemma demo_parked_snapshot: "snapshotVideo sorted_list_of_fset (demoParked k b) = [demoVideo b]"
  using demo_snapshot_video [of b] by (simp add: demoParked_def snapshotVideo_def)

lemma demo_parked_fields:
  "rsSource (demoParked k b) = demoLimited" "rsEncoderKbps (demoParked k b) = k" "peerSnapshot (rsRegistry (demoParked k b)) = {|1|}"
  "rsVideo (demoParked k b) 1 = demoVideo b"
  by (simp_all add: demoParked_def demoRtc_def demoRtc0_def demo_snapshot)

lemma demo_update:
  "updateQualityLocked (mediaSourceAdapter plainEngine demoGst) sorted_list_of_fset sorted_list_of_fset demoQuality None (demoParked 2200 2300000)
     \<lparr>urEffective = demoQuality, urRequesterNeedsReconnect = False, urIncompatiblePeers = [], urGeneration = 0\<rparr> None (demoParked 2500 2300000)"
proof (rule updateQualityLocked.accepted)
  let ?src = "mediaSourceAdapter plainEngine demoGst"
  show "moUpdateQuality ?src demoQuality (rsSource (demoParked 2200 2300000)) None demoLimited"
    using mediaUpdateQuality.unchanged [OF demo_resubmit] by (simp add: mediaSourceAdapter_def demo_parked_fields)
  have "(demoParked 2200 2300000)\<lparr>rsSource := demoLimited, rsEncoderKbps := qBitrateKbps demoQuality\<rparr> = demoParked 2500 2300000"
    by (simp add: demoParked_def demo_source)
  moreover have "planCongestion 2500 2500 [demoVideo 2300000] = None"
    by (simp add: planCongestion_def desiredKbps_def demoVideo_def go_div_def encoderBitrateMinStepKbps_def encoderBitrateStepDivisor_def)
  ultimately show "applyCongestionBitrateLocked ?src sorted_list_of_fset
      ((demoParked 2200 2300000)\<lparr>rsSource := demoLimited, rsEncoderKbps := qBitrateKbps demoQuality\<rparr>) None (demoParked 2500 2300000)"
    by (simp add: applyCongestionBitrateLocked_def demo_parked_snapshot demo_parked_fields mediaSourceAdapter_def demo_limited demo_source)
  have "sorted_list_of_fset {|1 :: nat|} = [1]" by (simp add: sorted_list_of_fset.rep_eq)
  moreover have "\<not> incompatible sorted_list_of_fset (adaptProfile demoProfile) (demoVideo 2300000)"
    by (simp add: incompatible_def adaptProfile_def demoVideo_def demo_source transportCompatible_def sameCodecFields_def sameFeedback_def list_all_iff)
  ultimately show "finishUpdate ?src sorted_list_of_fset sorted_list_of_fset None (moQuality ?src (rsSource (demoParked 2200 2300000))) None (demoParked 2500 2300000)
      = (\<lparr>urEffective = demoQuality, urRequesterNeedsReconnect = False, urIncompatiblePeers = [], urGeneration = 0\<rparr>, None, demoParked 2500 2300000)"
    by (simp add: finishUpdate_def mediaSourceAdapter_def demo_parked_fields [unfolded One_nat_def] demo_limited demo_source)
qed


end
