(* ===== verification/Peer_Lease.thy ===== *)
theory Peer_Lease
  imports Input_Controller
begin

text \<open>
  The input lease of a peer (\<open>src/webrtc/control.go\<close> and \<open>closeWith\<close> in \<open>src/webrtc/peer.go\<close>): data channels
  that come and go, the generations that guard the lease, and the goroutines that acquire, release and lose
  it.  The input controller is an interface (\<open>InputController\<close> in \<open>src/webrtc/contracts.go\<close>), interpreted on
  the controller of \<open>Input_Controller\<close> and on the disabled controller.

  The generation counters are 64-bit in the code; they only ever count channel and lease changes of one peer
  and are modelled without wrap-around.
\<close>

subsection \<open>State of a peer\<close>

record leaseState =
  lsControl :: "nat option"
  lsInput :: "nat option"
  lsMotion :: "nat option"
  lsInputGen :: nat
  lsMotionGen :: nat
  lsLeaseGen :: nat
  lsInputSequence :: uint64
  lsInputSequenceSet :: bool
  lsMotionSequence :: uint64
  lsMotionSequenceSet :: bool
  lsClosing :: bool
  lsCancelled :: bool
  lsConnected :: bool

text \<open>What the revocation callback of a lease has captured: the generations of the two input channels and of
  the lease.\<close>

record leaseKey =
  lkInput :: nat
  lkMotion :: nat
  leaseOf :: nat

definition closingNow :: "leaseState \<Rightarrow> bool" where
  "closingNow s \<longleftrightarrow> lsClosing s \<or> lsCancelled s"

subsection \<open>Channels\<close>

text \<open>
  Each of the next operations is one critical section; its second result tells whether the caller goes on to
  give the lease back.
\<close>

definition setControlChannel :: "nat \<Rightarrow> leaseState \<Rightarrow> leaseState \<times> bool" where
  "setControlChannel channel s = (s\<lparr>lsControl := Some channel\<rparr>, lsControl s \<noteq> None)"

definition controlCleanup :: "nat \<Rightarrow> leaseState \<Rightarrow> leaseState \<times> bool" where
  "controlCleanup channel s = (if lsControl s = Some channel then (s\<lparr>lsControl := None\<rparr>, True) else (s, False))"

definition setInputChannel :: "nat \<Rightarrow> leaseState \<Rightarrow> leaseState \<times> bool" where
  "setInputChannel channel s =
    (s\<lparr>lsInputGen := lsInputGen s + 1, lsInput := Some channel, lsInputSequence := 0, lsInputSequenceSet := False,
       lsLeaseGen := lsLeaseGen s + 1\<rparr>, lsInput s \<noteq> None)"

definition inputCleanup :: "nat \<Rightarrow> nat \<Rightarrow> leaseState \<Rightarrow> leaseState \<times> bool" where
  "inputCleanup channel generation s =
    (if lsInput s = Some channel \<and> lsInputGen s = generation
     then (s\<lparr>lsInput := None, lsLeaseGen := lsLeaseGen s + 1\<rparr>, True) else (s, False))"

definition setInputMotionChannel :: "nat \<Rightarrow> leaseState \<Rightarrow> leaseState \<times> bool" where
  "setInputMotionChannel channel s =
    (s\<lparr>lsMotionGen := lsMotionGen s + 1, lsMotion := Some channel, lsMotionSequence := 0, lsMotionSequenceSet := False,
       lsLeaseGen := lsLeaseGen s + 1\<rparr>, lsMotion s \<noteq> None)"

definition motionCleanup :: "nat \<Rightarrow> nat \<Rightarrow> leaseState \<Rightarrow> leaseState \<times> bool" where
  "motionCleanup channel generation s =
    (if lsMotion s = Some channel \<and> lsMotionGen s = generation
     then (s\<lparr>lsMotion := None, lsLeaseGen := lsLeaseGen s + 1\<rparr>, True) else (s, False))"

text \<open>The start of \<open>closeWith\<close>, once.\<close>

definition beginClose :: "leaseState \<Rightarrow> leaseState \<times> bool" where
  "beginClose s = (if lsClosing s then (s, False) else (s\<lparr>lsClosing := True, lsConnected := False\<rparr>, True))"

definition bumpLease :: "leaseState \<Rightarrow> leaseState" where
  "bumpLease s = s\<lparr>lsLeaseGen := lsLeaseGen s + 1\<rparr>"

text \<open>\<open>onInputRevoked\<close>: the result tells whether the channels are closed with an error message.\<close>

definition onInputRevoked :: "leaseKey \<Rightarrow> leaseState \<Rightarrow> leaseState \<times> bool" where
  "onInputRevoked k s =
    (let current = lsInput s \<noteq> None \<and> lsMotion s \<noteq> None \<and> lsInputGen s = lkInput k \<and> lsMotionGen s = lkMotion k \<and> lsLeaseGen s = leaseOf k
     in if current \<and> \<not> closingNow s
        then (s\<lparr>lsInput := None, lsMotion := None, lsInputGen := lsInputGen s + 1, lsMotionGen := lsMotionGen s + 1,
                lsLeaseGen := lsLeaseGen s + 1\<rparr>, True)
        else (s, False))"

subsection \<open>Acquiring\<close>

text \<open>
  The handler of \<open>input.acquire\<close> on control channel \<open>c\<close>, between its critical sections: after its first checks,
  with the input channels it has read, with its generations, after the call of \<open>Acquire\<close>, and after it has
  looked at the control channel and at the input channels again.
\<close>

datatype acquirer =
    AcqBegun nat
  | AcqRead nat nat nat
  | AcqArmed nat nat nat leaseKey
  | AcqCalled nat nat nat leaseKey "goerror + capabilities"
  | AcqControl nat nat nat leaseKey "goerror + capabilities" bool
  | AcqInput nat nat nat leaseKey "goerror + capabilities" bool bool

definition armLease :: "leaseState \<Rightarrow> leaseKey \<times> leaseState" where
  "armLease s = (\<lparr>lkInput = lsInputGen s, lkMotion = lsMotionGen s, leaseOf = lsLeaseGen s + 1\<rparr>, s\<lparr>lsLeaseGen := lsLeaseGen s + 1\<rparr>)"

definition sameInputs :: "nat \<Rightarrow> nat \<Rightarrow> leaseState \<Rightarrow> bool" where
  "sameInputs i m s \<longleftrightarrow> lsInput s = Some i \<and> lsMotion s = Some m"

definition stillCurrent :: "nat \<Rightarrow> nat \<Rightarrow> leaseKey \<Rightarrow> leaseState \<Rightarrow> bool" where
  "stillCurrent i m k s \<longleftrightarrow> sameInputs i m s \<and> lsInputGen s = lkInput k \<and> lsMotionGen s = lkMotion k \<and> lsLeaseGen s = leaseOf k"

text \<open>Whether the handler gives the lease back after its last checks.\<close>

definition givesBack :: "goerror + capabilities \<Rightarrow> bool \<Rightarrow> bool \<Rightarrow> leaseState \<Rightarrow> bool" where
  "givesBack r controlStillCurrent inputStillCurrent s \<longleftrightarrow>
     (\<exists>caps. r = Inr caps) \<and> (\<not> controlStillCurrent \<or> \<not> inputStillCurrent \<or> closingNow s)"

text \<open>A goroutine about to give the lease back: it has to bump the lease generation first, or only to call
  \<open>Release\<close>.\<close>

datatype releaser = RelBump | RelCall

record 'c leaseSystem =
  lyPeer :: leaseState
  lyInput :: 'c
  lyAcquirers :: "nat \<Rightarrow> acquirer option"
  lyReleasers :: "releaser list"
  lyFired :: "leaseKey list"

text \<open>The interface, for one peer; \<open>icBackground\<close> is everything else that happens to the controller, with the
  revocation callbacks of this peer that it runs.\<close>

record 'c inputOps =
  icAcquire :: "leaseKey \<Rightarrow> 'c \<Rightarrow> goerror + capabilities \<Rightarrow> 'c \<Rightarrow> bool"
  icRelease :: "'c \<Rightarrow> goerror option \<times> 'c"
  icOwns :: "'c \<Rightarrow> bool"
  icBackground :: "'c \<Rightarrow> leaseKey list \<Rightarrow> 'c \<Rightarrow> bool"

definition addReleaser :: "bool \<Rightarrow> releaser \<Rightarrow> 'c leaseSystem \<Rightarrow> 'c leaseSystem" where
  "addReleaser b r y = (if b then y\<lparr>lyReleasers := r # lyReleasers y\<rparr> else y)"

definition setAcquirer :: "nat \<Rightarrow> acquirer option \<Rightarrow> 'c leaseSystem \<Rightarrow> 'c leaseSystem" where
  "setAcquirer t a y = y\<lparr>lyAcquirers := (lyAcquirers y)(t := a)\<rparr>"

inductive leaseStep :: "'c inputOps \<Rightarrow> 'c leaseSystem \<Rightarrow> 'c leaseSystem \<Rightarrow> bool" for ops where
  setControl: "setControlChannel ch (lyPeer y) = (s', b) \<Longrightarrow> leaseStep ops y (addReleaser b RelBump (y\<lparr>lyPeer := s'\<rparr>))"
| controlGone: "controlCleanup ch (lyPeer y) = (s', b) \<Longrightarrow> leaseStep ops y (addReleaser b RelBump (y\<lparr>lyPeer := s'\<rparr>))"
| setInput: "setInputChannel ch (lyPeer y) = (s', b) \<Longrightarrow> leaseStep ops y (addReleaser b RelCall (y\<lparr>lyPeer := s'\<rparr>))"
| inputGone: "inputCleanup ch gen (lyPeer y) = (s', b) \<Longrightarrow> leaseStep ops y (addReleaser b RelCall (y\<lparr>lyPeer := s'\<rparr>))"
| setMotion: "setInputMotionChannel ch (lyPeer y) = (s', b) \<Longrightarrow> leaseStep ops y (addReleaser b RelCall (y\<lparr>lyPeer := s'\<rparr>))"
| motionGone: "motionCleanup ch gen (lyPeer y) = (s', b) \<Longrightarrow> leaseStep ops y (addReleaser b RelCall (y\<lparr>lyPeer := s'\<rparr>))"
| close: "beginClose (lyPeer y) = (s', b) \<Longrightarrow> leaseStep ops y (addReleaser b RelBump (y\<lparr>lyPeer := s'\<rparr>))"
| cancel: "leaseStep ops y (y\<lparr>lyPeer := (lyPeer y)\<lparr>lsCancelled := True\<rparr>\<rparr>)"
| connect: "leaseStep ops y (y\<lparr>lyPeer := (lyPeer y)\<lparr>lsConnected := b\<rparr>\<rparr>)"
| sequence: "leaseStep ops y (y\<lparr>lyPeer := (lyPeer y)\<lparr>lsInputSequence := a, lsInputSequenceSet := b, lsMotionSequence := c, lsMotionSequenceSet := d\<rparr>\<rparr>)"
| retarget: "\<not> closingNow (lyPeer y) \<Longrightarrow> leaseStep ops y (addReleaser True RelBump y)"
| releaseRequest: "lsControl (lyPeer y) = Some ch \<Longrightarrow> \<not> closingNow (lyPeer y) \<Longrightarrow> leaseStep ops y (addReleaser True RelCall y)"
| bump: "RelBump \<in> set (lyReleasers y)
    \<Longrightarrow> leaseStep ops y (y\<lparr>lyPeer := bumpLease (lyPeer y), lyReleasers := RelCall # remove1 RelBump (lyReleasers y)\<rparr>)"
| release: "RelCall \<in> set (lyReleasers y) \<Longrightarrow> icRelease ops (lyInput y) = (e, c')
    \<Longrightarrow> leaseStep ops y (y\<lparr>lyInput := c', lyReleasers := remove1 RelCall (lyReleasers y)\<rparr>)"
| acquireBegin: "lyAcquirers y t = None \<Longrightarrow> lsControl (lyPeer y) = Some ch \<Longrightarrow> \<not> closingNow (lyPeer y) \<Longrightarrow> lsConnected (lyPeer y)
    \<Longrightarrow> leaseStep ops y (setAcquirer t (Some (AcqBegun ch)) y)"
| acquireRead: "lyAcquirers y t = Some (AcqBegun ch) \<Longrightarrow> lsInput (lyPeer y) = Some i \<Longrightarrow> lsMotion (lyPeer y) = Some m
    \<Longrightarrow> leaseStep ops y (setAcquirer t (Some (AcqRead ch i m)) y)"
| acquireRefused: "lyAcquirers y t = Some (AcqBegun ch) \<Longrightarrow> leaseStep ops y (setAcquirer t None y)"
| acquireArm: "lyAcquirers y t = Some (AcqRead ch i m) \<Longrightarrow> armLease (lyPeer y) = (k, s')
    \<Longrightarrow> leaseStep ops y (setAcquirer t (if sameInputs i m s' \<and> \<not> closingNow s' then Some (AcqArmed ch i m k) else None) (y\<lparr>lyPeer := s'\<rparr>))"
| acquireCall: "lyAcquirers y t = Some (AcqArmed ch i m k) \<Longrightarrow> icAcquire ops k (lyInput y) r c'
    \<Longrightarrow> leaseStep ops y (setAcquirer t (Some (AcqCalled ch i m k r)) (y\<lparr>lyInput := c'\<rparr>))"
| acquireControl: "lyAcquirers y t = Some (AcqCalled ch i m k r)
    \<Longrightarrow> leaseStep ops y (setAcquirer t (Some (AcqControl ch i m k r (lsControl (lyPeer y) = Some ch))) y)"
| acquireInput: "lyAcquirers y t = Some (AcqControl ch i m k r b)
    \<Longrightarrow> leaseStep ops y (setAcquirer t (Some (AcqInput ch i m k r b (stillCurrent i m k (lyPeer y)))) y)"
| acquireEnd: "lyAcquirers y t = Some (AcqInput ch i m k r b1 b2)
    \<Longrightarrow> leaseStep ops y (setAcquirer t None (addReleaser (givesBack r b1 b2 (lyPeer y)) RelBump y))"
| other: "icBackground ops (lyInput y) fired c' \<Longrightarrow> leaseStep ops y (y\<lparr>lyInput := c', lyFired := fired @ lyFired y\<rparr>)"
| revoked: "k \<in> set (lyFired y) \<Longrightarrow> onInputRevoked k (lyPeer y) = (s', b)
    \<Longrightarrow> leaseStep ops y (y\<lparr>lyPeer := s', lyFired := remove1 k (lyFired y)\<rparr>)"

definition newLeaseState :: leaseState where
  "newLeaseState = \<lparr>lsControl = None, lsInput = None, lsMotion = None, lsInputGen = 0, lsMotionGen = 0, lsLeaseGen = 0, lsInputSequence = 0,
     lsInputSequenceSet = False, lsMotionSequence = 0, lsMotionSequenceSet = False, lsClosing = False, lsCancelled = False, lsConnected = False\<rparr>"

definition newLeaseSystem :: "'c \<Rightarrow> 'c leaseSystem" where
  "newLeaseSystem c = \<lparr>lyPeer = newLeaseState, lyInput = c, lyAcquirers = (\<lambda>_. None), lyReleasers = [], lyFired = []\<rparr>"

inductive leaseReach :: "'c inputOps \<Rightarrow> 'c \<Rightarrow> 'c leaseSystem \<Rightarrow> bool" for ops c0 where
  init: "leaseReach ops c0 (newLeaseSystem c0)"
| step: "leaseReach ops c0 y \<Longrightarrow> leaseStep ops y y' \<Longrightarrow> leaseReach ops c0 y'"

section \<open>The lease invariant\<close>

fun okKey :: "acquirer \<Rightarrow> leaseKey option" where
  "okKey (AcqCalled ch i m k (Inr caps)) = Some k"
| "okKey (AcqControl ch i m k (Inr caps) b) = Some k"
| "okKey (AcqInput ch i m k (Inr caps) b1 b2) = Some k"
| "okKey a = None"

fun armedKey :: "acquirer \<Rightarrow> leaseKey option" where
  "armedKey (AcqArmed ch i m k) = Some k"
| "armedKey a = None"

text \<open>What the handler has seen in order still is.\<close>

fun watching :: "leaseState \<Rightarrow> acquirer \<Rightarrow> bool" where
  "watching s (AcqControl ch i m k r b) = (b \<longrightarrow> lsControl s \<noteq> None)"
| "watching s (AcqInput ch i m k r b1 b2) = (b1 \<and> b2 \<longrightarrow> lsControl s \<noteq> None \<and> lsInput s \<noteq> None \<and> lsMotion s \<noteq> None)"
| "watching s a = True"

fun sawCurrent :: "acquirer \<Rightarrow> bool" where
  "sawCurrent (AcqInput ch i m k r b1 b2) = b2"
| "sawCurrent a = False"

definition settled :: "leaseState \<Rightarrow> bool" where
  "settled s \<longleftrightarrow> lsControl s \<noteq> None \<and> lsInput s \<noteq> None \<and> lsMotion s \<noteq> None \<and> \<not> lsClosing s"

text \<open>The handlers whose call of \<open>Acquire\<close> has given them the lease \<open>k\<close> and that have not finished.\<close>

definition holding :: "'c leaseSystem \<Rightarrow> leaseKey \<Rightarrow> acquirer \<Rightarrow> bool" where
  "holding y k a \<longleftrightarrow> (\<exists>t. lyAcquirers y t = Some a) \<and> okKey a = Some k"

text \<open>The keys of handlers that have not called \<open>Acquire\<close> yet.\<close>

definition armed :: "'c leaseSystem \<Rightarrow> nat \<Rightarrow> leaseKey \<Rightarrow> bool" where
  "armed y t k \<longleftrightarrow> (\<exists>a. lyAcquirers y t = Some a \<and> armedKey a = Some k)"

locale input_lease =
  fixes ops :: "'c inputOps" and holder :: "'c \<Rightarrow> leaseKey option" and valid :: "'c \<Rightarrow> bool"
  assumes owns: "valid c \<Longrightarrow> icOwns ops c \<longleftrightarrow> holder c \<noteq> None"
    and acquired: "valid c \<Longrightarrow> icAcquire ops k c (Inr caps) c' \<Longrightarrow> holder c' = Some k"
    and refused: "valid c \<Longrightarrow> icAcquire ops k c (Inl e) c' \<Longrightarrow> holder c' = holder c"
    and released: "holder (snd (icRelease ops c)) = None"
    and background: "valid c \<Longrightarrow> icBackground ops c fired c' \<Longrightarrow> holder c' = holder c \<and> fired = [] \<or> holder c' = None \<and> set fired \<subseteq> set_option (holder c)"
    and acquire_valid: "valid c \<Longrightarrow> icAcquire ops k c r c' \<Longrightarrow> valid c'"
    and release_valid: "valid c \<Longrightarrow> valid (snd (icRelease ops c))"
    and background_valid: "valid c \<Longrightarrow> icBackground ops c fired c' \<Longrightarrow> valid c'"
begin

definition known :: "'c leaseSystem \<Rightarrow> leaseKey \<Rightarrow> bool" where
  "known y k \<longleftrightarrow> holder (lyInput y) = Some k \<or> k \<in> set (lyFired y) \<or> (\<exists>a. holding y k a)"

definition keysOK :: "'c leaseSystem \<Rightarrow> bool" where
  "keysOK y \<longleftrightarrow> (\<forall>k. known y k \<longrightarrow> leaseOf k \<le> lsLeaseGen (lyPeer y))
     \<and> (\<forall>t k. armed y t k \<longrightarrow> leaseOf k \<le> lsLeaseGen (lyPeer y) \<and> (\<forall>k'. known y k' \<longrightarrow> leaseOf k' \<noteq> leaseOf k)
          \<and> (\<forall>t' k'. armed y t' k' \<and> t' \<noteq> t \<longrightarrow> leaseOf k' \<noteq> leaseOf k))"

definition heldOK :: "'c leaseSystem \<Rightarrow> bool" where
  "heldOK y \<longleftrightarrow> (\<forall>k. holder (lyInput y) = Some k \<longrightarrow> lyReleasers y \<noteq> []
     \<or> ((\<exists>a. holding y k a) \<or> settled (lyPeer y)) \<and> (\<forall>a. holding y k a \<longrightarrow> watching (lyPeer y) a))"

definition firedOK :: "'c leaseSystem \<Rightarrow> bool" where
  "firedOK y \<longleftrightarrow> (\<forall>k f. holder (lyInput y) = Some k \<and> f \<in> set (lyFired y) \<and> leaseOf f = lsLeaseGen (lyPeer y) \<longrightarrow> lyReleasers y \<noteq> []
     \<or> leaseOf k \<noteq> lsLeaseGen (lyPeer y) \<and> (\<exists>a. holding y k a) \<and> (\<forall>a. holding y k a \<longrightarrow> \<not> sawCurrent a))"

definition leaseOK :: "'c leaseSystem \<Rightarrow> bool" where
  "leaseOK y \<longleftrightarrow> valid (lyInput y) \<and> keysOK y \<and> heldOK y \<and> firedOK y"

subsection \<open>Steps of the peer\<close>

lemma peer_change:
  assumes "leaseOK y" "lsLeaseGen (lyPeer y) \<le> lsLeaseGen s'"
    and "rs \<noteq> [] \<or> rs = lyReleasers y \<and> (settled (lyPeer y) \<longrightarrow> settled s') \<and> (\<forall>a. watching (lyPeer y) a \<longrightarrow> watching s' a)"
  shows "leaseOK (y\<lparr>lyPeer := s', lyReleasers := rs\<rparr>)"
proof -
  let ?y = "y\<lparr>lyPeer := s', lyReleasers := rs\<rparr>"
  have same: "known ?y k = known y k" "armed ?y t k = armed y t k" "holding ?y k a = holding y k a" for k t a
    by (simp_all add: known_def armed_def holding_def)
  have "keysOK ?y" using assms(1,2) unfolding leaseOK_def keysOK_def same by (simp, meson order_trans)
  moreover have "heldOK ?y" using assms(1,3) by (auto simp: leaseOK_def heldOK_def same)
  moreover have "firedOK ?y"
  proof (cases "lsLeaseGen s' = lsLeaseGen (lyPeer y)")
    case True
    then show ?thesis using assms(1,3) by (auto simp: leaseOK_def firedOK_def same)
  next
    case False
    then have "leaseOf f \<noteq> lsLeaseGen s'" if "f \<in> set (lyFired y)" for f
      using that assms(1,2) by (fastforce simp: leaseOK_def keysOK_def known_def)
    then show ?thesis by (auto simp: firedOK_def)
  qed
  ultimately show ?thesis using assms(1) by (simp add: leaseOK_def)
qed

lemma peer_released: "leaseOK y \<Longrightarrow> lsLeaseGen (lyPeer y) \<le> lsLeaseGen s' \<Longrightarrow> leaseOK (addReleaser True r (y\<lparr>lyPeer := s'\<rparr>))"
  using peer_change [of y s' "r # lyReleasers y"] by (simp add: addReleaser_def)

lemma peer_kept:
  "leaseOK y \<Longrightarrow> lsLeaseGen (lyPeer y) \<le> lsLeaseGen s' \<Longrightarrow> (settled (lyPeer y) \<Longrightarrow> settled s')
    \<Longrightarrow> (\<And>a. watching (lyPeer y) a \<Longrightarrow> watching s' a) \<Longrightarrow> leaseOK (addReleaser False r (y\<lparr>lyPeer := s'\<rparr>))"
  using peer_change [of y s' "lyReleasers y"] by (simp add: addReleaser_def)

lemma watching_mono:
  assumes "watching s a" "lsControl s \<noteq> None \<Longrightarrow> lsControl s' \<noteq> None" "lsInput s \<noteq> None \<Longrightarrow> lsInput s' \<noteq> None"
    "lsMotion s \<noteq> None \<Longrightarrow> lsMotion s' \<noteq> None"
  shows "watching s' a"
  using assms by (cases a) auto

lemma leaseOK_channels:
  assumes "leaseOK y"
  shows "setControlChannel ch (lyPeer y) = (s', b) \<Longrightarrow> leaseOK (addReleaser b r (y\<lparr>lyPeer := s'\<rparr>))"
    "controlCleanup ch (lyPeer y) = (s', b) \<Longrightarrow> leaseOK (addReleaser b r (y\<lparr>lyPeer := s'\<rparr>))"
    "setInputChannel ch (lyPeer y) = (s', b) \<Longrightarrow> leaseOK (addReleaser b r (y\<lparr>lyPeer := s'\<rparr>))"
    "inputCleanup ch gen (lyPeer y) = (s', b) \<Longrightarrow> leaseOK (addReleaser b r (y\<lparr>lyPeer := s'\<rparr>))"
    "setInputMotionChannel ch (lyPeer y) = (s', b) \<Longrightarrow> leaseOK (addReleaser b r (y\<lparr>lyPeer := s'\<rparr>))"
    "motionCleanup ch gen (lyPeer y) = (s', b) \<Longrightarrow> leaseOK (addReleaser b r (y\<lparr>lyPeer := s'\<rparr>))"
    "beginClose (lyPeer y) = (s', b) \<Longrightarrow> leaseOK (addReleaser b r (y\<lparr>lyPeer := s'\<rparr>))"
proof -
  have r: "leaseOK (addReleaser b r (y\<lparr>lyPeer := s'\<rparr>))"
    if "lsLeaseGen (lyPeer y) \<le> lsLeaseGen s'" "b \<or> (settled (lyPeer y) \<longrightarrow> settled s') \<and> (\<forall>a. watching (lyPeer y) a \<longrightarrow> watching s' a)"
    using that peer_released [OF assms, of s'] peer_kept [OF assms, of s'] by (cases b) auto
  note defs = setControlChannel_def controlCleanup_def setInputChannel_def inputCleanup_def setInputMotionChannel_def motionCleanup_def beginClose_def settled_def
  show "setControlChannel ch (lyPeer y) = (s', b) \<Longrightarrow> leaseOK (addReleaser b r (y\<lparr>lyPeer := s'\<rparr>))"
    by (rule r) (auto simp: defs elim: watching_mono)
  show "controlCleanup ch (lyPeer y) = (s', b) \<Longrightarrow> leaseOK (addReleaser b r (y\<lparr>lyPeer := s'\<rparr>))"
    by (rule r) (auto simp: defs split: if_splits)
  show "setInputChannel ch (lyPeer y) = (s', b) \<Longrightarrow> leaseOK (addReleaser b r (y\<lparr>lyPeer := s'\<rparr>))"
    by (rule r) (auto simp: defs elim: watching_mono)
  show "inputCleanup ch gen (lyPeer y) = (s', b) \<Longrightarrow> leaseOK (addReleaser b r (y\<lparr>lyPeer := s'\<rparr>))"
    by (rule r) (auto simp: defs split: if_splits)
  show "setInputMotionChannel ch (lyPeer y) = (s', b) \<Longrightarrow> leaseOK (addReleaser b r (y\<lparr>lyPeer := s'\<rparr>))"
    by (rule r) (auto simp: defs elim: watching_mono)
  show "motionCleanup ch gen (lyPeer y) = (s', b) \<Longrightarrow> leaseOK (addReleaser b r (y\<lparr>lyPeer := s'\<rparr>))"
    by (rule r) (auto simp: defs split: if_splits)
  show "beginClose (lyPeer y) = (s', b) \<Longrightarrow> leaseOK (addReleaser b r (y\<lparr>lyPeer := s'\<rparr>))"
    by (rule r) (auto simp: defs split: if_splits)
qed

subsection \<open>Steps of the handlers and of the controller\<close>

lemma holding_set:
  "holding (setAcquirer t a y) k b \<longleftrightarrow> (a = Some b \<or> (\<exists>t'. t' \<noteq> t \<and> lyAcquirers y t' = Some b)) \<and> okKey b = Some k"
  by (auto simp: holding_def setAcquirer_def)

lemma holding_swap:
  assumes "\<And>b. lyAcquirers y t = Some b \<Longrightarrow> okKey b = None"
  shows "holding (setAcquirer t a y) k b \<longleftrightarrow> a = Some b \<and> okKey b = Some k \<or> holding y k b"
proof -
  have "t' \<noteq> t" if "lyAcquirers y t' = Some b" "okKey b = Some k" for t' using that assms by auto
  then show ?thesis by (simp only: holding_set holding_def [of y]) blast
qed

lemma armed_set: "armed (setAcquirer t a y) t' k \<longleftrightarrow> (if t' = t then (\<exists>b. a = Some b \<and> armedKey b = Some k) else armed y t' k)"
  by (auto simp: armed_def setAcquirer_def)

lemma setAcquirer_frame [simp]:
  "lyPeer (setAcquirer t a y) = lyPeer y" "lyInput (setAcquirer t a y) = lyInput y" "lyReleasers (setAcquirer t a y) = lyReleasers y"
  "lyFired (setAcquirer t a y) = lyFired y"
  by (simp_all add: setAcquirer_def)

lemma keysOK_mono:
  assumes "keysOK y" "lsLeaseGen (lyPeer y') = lsLeaseGen (lyPeer y)" "\<And>k. known y' k \<Longrightarrow> known y k" "\<And>t k. armed y' t k \<Longrightarrow> armed y t k"
  shows "keysOK y'"
  using assms(1) unfolding keysOK_def assms(2) using assms(3,4) by blast

lemma keysOK_drop:
  assumes "keysOK y" "\<And>b k. a = Some b \<Longrightarrow> armedKey b \<noteq> Some k" "\<And>b k. a = Some b \<Longrightarrow> okKey b = Some k \<Longrightarrow> known y k"
  shows "keysOK (setAcquirer t a y)"
proof (rule keysOK_mono [OF assms(1)])
  show "known (setAcquirer t a y) k \<Longrightarrow> known y k" for k using assms(3) by (auto simp: known_def holding_set) (auto simp: holding_def)
  show "armed (setAcquirer t a y) t' k \<Longrightarrow> armed y t' k" for t' k using assms(2) by (auto simp: armed_set split: if_splits)
qed simp

text \<open>A handler that holds no lease moves on without one.\<close>

lemma acquirer_neutral:
  assumes "leaseOK y" "\<And>b. lyAcquirers y t = Some b \<Longrightarrow> okKey b = None" "\<And>b. a = Some b \<Longrightarrow> okKey b = None \<and> armedKey b = None"
  shows "leaseOK (setAcquirer t a y)"
proof -
  have h: "holding (setAcquirer t a y) k b = holding y k b" for k b
    using assms(3) holding_swap [of y t a k b, OF assms(2)] by auto
  have "keysOK (setAcquirer t a y)" using assms by (intro keysOK_drop) (auto simp: leaseOK_def)
  then show ?thesis using assms(1) by (simp add: leaseOK_def heldOK_def firedOK_def h)
qed

lemma leaseOK_arm:
  assumes ok: "leaseOK y" and a: "lyAcquirers y t = Some (AcqRead ch i m)" and k: "armLease (lyPeer y) = (k, s')"
  shows "leaseOK (setAcquirer t (if b then Some (AcqArmed ch i m k) else None) (y\<lparr>lyPeer := s'\<rparr>))"
proof -
  let ?a = "if b then Some (AcqArmed ch i m k) else None" and ?y = "y\<lparr>lyPeer := s'\<rparr>"
  have s': "lsLeaseGen s' = lsLeaseGen (lyPeer y) + 1" "leaseOf k = lsLeaseGen s'" using k by (auto simp: armLease_def)
  have w: "watching (lyPeer y) c \<Longrightarrow> watching s' c" for c using k by (cases c) (auto simp: armLease_def)
  have oky: "leaseOK ?y"
    using peer_kept [OF ok, of s' RelCall] w k by (auto simp: addReleaser_def armLease_def settled_def)
  have h: "holding (setAcquirer t ?a ?y) k' c = holding ?y k' c" for k' c
    using holding_swap [of ?y t ?a k' c] a by (auto split: if_splits)
  have lt: "known ?y k' \<Longrightarrow> leaseOf k' < leaseOf k" "armed ?y t' k' \<Longrightarrow> leaseOf k' < leaseOf k" for t' k'
    using ok s' by (fastforce simp: leaseOK_def keysOK_def known_def armed_def holding_def)+
  have kn: "known (setAcquirer t ?a ?y) k' = known ?y k'" for k' by (simp add: known_def h)
  have "keysOK (setAcquirer t ?a ?y)"
  proof (cases b)
    case True
    have new: "armed (setAcquirer t ?a ?y) t' k' \<longleftrightarrow> (if t' = t then k' = k else armed ?y t' k')" for t' k' using True by (auto simp: armed_set)
    show ?thesis using oky lt s'(2) unfolding keysOK_def leaseOK_def new kn
      by (simp split: if_splits) (metis less_irrefl)
  next
    case False
    then show ?thesis using oky by (intro keysOK_drop) (auto simp: leaseOK_def)
  qed
  then show ?thesis using oky by (simp add: leaseOK_def heldOK_def firedOK_def h)
qed

lemma armed_fresh: "leaseOK y \<Longrightarrow> armed y t k \<Longrightarrow> known y k' \<Longrightarrow> leaseOf k' \<noteq> leaseOf k"
  unfolding leaseOK_def keysOK_def by blast

lemma leaseOK_call:
  assumes ok: "leaseOK y" and a: "lyAcquirers y t = Some (AcqArmed ch i m k)" and c: "icAcquire ops k (lyInput y) r c'"
  shows "leaseOK (setAcquirer t (Some (AcqCalled ch i m k r)) (y\<lparr>lyInput := c'\<rparr>))"
proof -
  let ?y = "setAcquirer t (Some (AcqCalled ch i m k r)) (y\<lparr>lyInput := c'\<rparr>)"
  have v: "valid (lyInput y)" "valid c'" using ok acquire_valid [OF _ c] by (auto simp: leaseOK_def)
  have ar: "armed ?y t' k' \<longleftrightarrow> t' \<noteq> t \<and> armed y t' k'" for t' k' by (auto simp: armed_def setAcquirer_def)
  have ak: "armed y t k" using a by (auto simp: armed_def)
  have "okKey b = None" if "lyAcquirers (y\<lparr>lyInput := c'\<rparr>) t = Some b" for b using that a by auto
  then have swap: "holding ?y k' b \<longleftrightarrow> Some (AcqCalled ch i m k r) = Some b \<and> okKey b = Some k' \<or> holding y k' b" for k' b
    using holding_swap [of "y\<lparr>lyInput := c'\<rparr>" t "Some (AcqCalled ch i m k r)" k' b] by (simp add: holding_def [of "y\<lparr>lyInput := c'\<rparr>"] holding_def [of y])
  show ?thesis
  proof (cases r)
    case (Inl e)
    have ho: "holder c' = holder (lyInput y)" using refused v(1) c Inl by blast
    have h: "holding ?y k' b = holding y k' b" for k' b
      using Inl unfolding swap by auto
    have kn: "known ?y k' = known y k'" for k' using ho by (simp add: known_def h)
    have "keysOK y" using ok by (simp add: leaseOK_def)
    then have "keysOK ?y" by (rule keysOK_mono) (simp_all add: ar kn)
    then show ?thesis using ok v(2) ho by (simp add: leaseOK_def heldOK_def firedOK_def h)
  next
    case (Inr caps)
    have ho: "holder c' = Some k" using acquired v(1) c Inr by blast
    have hold: "holding ?y k' b \<longleftrightarrow> b = AcqCalled ch i m k r \<and> k' = k \<or> holding y k' b" for k' b
      using Inr unfolding swap by auto
    have "\<not> holding y k b" for b using armed_fresh [OF ok ak, of k] by (auto simp: known_def)
    then have only: "holding ?y k b \<longleftrightarrow> b = AcqCalled ch i m k r" for b using hold by blast
    have "leaseOf f \<noteq> leaseOf k" if "f \<in> set (lyFired y)" for f using that armed_fresh [OF ok ak, of f] by (simp add: known_def)
    then have "firedOK ?y" using ho only by (auto simp: firedOK_def)
    moreover have "heldOK ?y" using ho only by (auto simp: heldOK_def)
    moreover have "keysOK ?y"
    proof -
      have kn: "known ?y k' \<Longrightarrow> k' = k \<or> known y k'" for k' using ho hold by (auto simp: known_def)
      show ?thesis using ok kn ak unfolding leaseOK_def keysOK_def ar by (simp, metis)
    qed
    ultimately show ?thesis using v(2) by (simp add: leaseOK_def)
  qed
qed

text \<open>A handler that has called \<open>Acquire\<close> looks at its channels again.\<close>

lemma leaseOK_look:
  assumes ok: "leaseOK y" and a: "lyAcquirers y t = Some a" and k: "okKey a' = okKey a" "armedKey a' = None" "\<not> sawCurrent a"
    and w: "\<And>k'. holder (lyInput y) = Some k' \<Longrightarrow> okKey a' = Some k' \<Longrightarrow> lyReleasers y = [] \<Longrightarrow> watching (lyPeer y) a'"
    and saw: "\<And>k'. sawCurrent a' \<Longrightarrow> okKey a' = Some k' \<Longrightarrow> leaseOf k' = lsLeaseGen (lyPeer y)"
  shows "leaseOK (setAcquirer t (Some a') y)"
proof -
  let ?y = "setAcquirer t (Some a') y"
  have up: "holding ?y k b \<Longrightarrow> b = a' \<or> holding y k b" for k b unfolding holding_set by (auto simp: holding_def)
  have ex: "(\<exists>b. holding ?y k b) \<longleftrightarrow> (\<exists>b. holding y k b)" for k
    using a k(1) unfolding holding_set holding_def [of y] by (metis option.inject)
  have "keysOK ?y"
  proof (rule keysOK_drop)
    show "Some a' = Some b \<Longrightarrow> okKey b = Some k \<Longrightarrow> known y k" for b k using a k(1) by (auto simp: known_def holding_def)
  qed (use ok k(2) in \<open>auto simp: leaseOK_def\<close>)
  moreover have "watching (lyPeer y) b" if "holding ?y k b" "holder (lyInput y) = Some k" "lyReleasers y = []" for k b
    using ok up [OF that(1)] that w [of k] by (auto simp: leaseOK_def heldOK_def holding_def)
  then have "heldOK ?y" using ok by (auto simp: leaseOK_def heldOK_def ex)
  moreover have "firedOK ?y"
  proof -
    have "\<not> sawCurrent b" if "holding ?y k b" "leaseOf k \<noteq> lsLeaseGen (lyPeer y)" "\<forall>b. holding y k b \<longrightarrow> \<not> sawCurrent b" for k b
      using that up [OF that(1)] saw [of k] by (auto simp: holding_def)
    then show ?thesis using ok unfolding leaseOK_def firedOK_def ex by simp
  qed
  ultimately show ?thesis using ok by (simp add: leaseOK_def)
qed

lemma leaseOK_end:
  assumes ok: "leaseOK y" and a: "lyAcquirers y t = Some (AcqInput ch i m k r b1 b2)"
  shows "leaseOK (setAcquirer t None (addReleaser (givesBack r b1 b2 (lyPeer y)) RelBump y))"
proof -
  let ?y = "setAcquirer t None (addReleaser (givesBack r b1 b2 (lyPeer y)) RelBump y)"
  have f: "lyPeer ?y = lyPeer y" "lyInput ?y = lyInput y" "lyFired ?y = lyFired y" by (simp_all add: addReleaser_def)
  have "keysOK (addReleaser (givesBack r b1 b2 (lyPeer y)) RelBump y)"
    using ok by (simp add: leaseOK_def keysOK_def addReleaser_def known_def holding_def armed_def)
  then have keys: "keysOK ?y" by (rule keysOK_drop) auto
  have hold: "holding ?y k' b \<Longrightarrow> holding y k' b" for k' b by (auto simp: holding_def setAcquirer_def addReleaser_def split: if_splits)
  have kept: "holding y k' b \<Longrightarrow> b \<noteq> AcqInput ch i m k r b1 b2 \<Longrightarrow> holding ?y k' b" for k' b
    using a by (simp add: holding_def setAcquirer_def addReleaser_def) (metis option.inject)
  have "lyReleasers ?y \<noteq> [] \<or> lyReleasers y = [] \<and> \<not> givesBack r b1 b2 (lyPeer y)" by (auto simp: addReleaser_def)
  then have "heldOK ?y \<and> firedOK ?y"
  proof
    assume "lyReleasers ?y \<noteq> []"
    then show ?thesis by (auto simp: heldOK_def firedOK_def)
  next
    assume no: "lyReleasers y = [] \<and> \<not> givesBack r b1 b2 (lyPeer y)"
    have own: "b1 \<and> b2 \<and> \<not> lsClosing (lyPeer y)" if "okKey (AcqInput ch i m k r b1 b2) = Some k'" for k'
      using that no by (cases r) (auto simp: givesBack_def closingNow_def)
    have T: "settled (lyPeer y)" if "holding y k' (AcqInput ch i m k r b1 b2)" "holder (lyInput y) = Some k'" for k'
    proof -
      have o: "b1 \<and> b2 \<and> \<not> lsClosing (lyPeer y)" using that(1) own by (simp add: holding_def)
      have "watching (lyPeer y) (AcqInput ch i m k r b1 b2)" using ok no that by (auto simp: leaseOK_def heldOK_def)
      then show ?thesis using o by (simp add: settled_def)
    qed
    have "heldOK ?y" using ok no T kept hold unfolding leaseOK_def heldOK_def f by metis
    moreover have "\<not> holding y k' (AcqInput ch i m k r b1 b2)"
      if "holder (lyInput y) = Some k'" "f' \<in> set (lyFired y)" "leaseOf f' = lsLeaseGen (lyPeer y)" for k' f'
      using ok no that own unfolding leaseOK_def firedOK_def by (metis holding_def sawCurrent.simps(1))
    then have "firedOK ?y" using ok no kept hold unfolding leaseOK_def firedOK_def f by metis
    ultimately show ?thesis ..
  qed
  then show ?thesis using ok keys f by (simp add: leaseOK_def)
qed

text \<open>The controller takes the lease away, or leaves it as it is.\<close>

lemma leaseOK_lost:
  assumes ok: "leaseOK y" and c: "valid c'" "holder c' = None" and f: "\<And>k. k \<in> set fired \<Longrightarrow> known y k"
  shows "leaseOK (y\<lparr>lyInput := c', lyFired := fired, lyReleasers := rs\<rparr>)"
proof -
  let ?y = "y\<lparr>lyInput := c', lyFired := fired, lyReleasers := rs\<rparr>"
  have "keysOK y" using ok by (simp add: leaseOK_def)
  then have "keysOK ?y"
    by (rule keysOK_mono) (use c f in \<open>auto simp: known_def holding_def armed_def\<close>)
  then show ?thesis using c by (simp add: leaseOK_def heldOK_def firedOK_def)
qed

lemma leaseOK_release:
  assumes "leaseOK y" "icRelease ops (lyInput y) = (e, c')" shows "leaseOK (y\<lparr>lyInput := c', lyReleasers := rs\<rparr>)"
proof -
  have "valid c'" "holder c' = None"
    using assms release_valid [of "lyInput y"] released [of "lyInput y"] by (auto simp: leaseOK_def)
  then have "leaseOK (y\<lparr>lyInput := c', lyFired := lyFired y, lyReleasers := rs\<rparr>)" by (rule leaseOK_lost [OF assms(1)]) (simp add: known_def)
  then show ?thesis by simp
qed

lemma leaseOK_other:
  assumes ok: "leaseOK y" and b: "icBackground ops (lyInput y) fired c'" shows "leaseOK (y\<lparr>lyInput := c', lyFired := fired @ lyFired y\<rparr>)"
proof -
  have v: "valid (lyInput y)" "valid c'" using ok background_valid [OF _ b] by (auto simp: leaseOK_def)
  from background [OF v(1) b] show ?thesis
  proof (elim disjE conjE)
    assume h: "holder c' = holder (lyInput y)" "fired = []"
    have "holding (y\<lparr>lyInput := c', lyFired := fired @ lyFired y\<rparr>) = holding y" "armed (y\<lparr>lyInput := c', lyFired := fired @ lyFired y\<rparr>) = armed y"
      by (simp_all add: fun_eq_iff holding_def armed_def)
    then show ?thesis using ok v h by (simp add: leaseOK_def keysOK_def heldOK_def firedOK_def known_def)
  next
    assume h: "holder c' = None" "set fired \<subseteq> set_option (holder (lyInput y))"
    have "leaseOK (y\<lparr>lyInput := c', lyFired := fired @ lyFired y, lyReleasers := lyReleasers y\<rparr>)"
      by (rule leaseOK_lost [OF ok v(2) h(1)]) (use h(2) in \<open>auto simp: known_def\<close>)
    then show ?thesis by simp
  qed
qed

lemma leaseOK_revoked:
  assumes ok: "leaseOK y" and f: "f \<in> set (lyFired y)" and r: "onInputRevoked f (lyPeer y) = (s', b)"
  shows "leaseOK (y\<lparr>lyPeer := s', lyFired := remove1 f (lyFired y)\<rparr>)"
proof -
  let ?z = "y\<lparr>lyFired := remove1 f (lyFired y)\<rparr>"
  have sub: "set (remove1 f (lyFired y)) \<subseteq> set (lyFired y)" by (rule set_remove1_subset)
  have h: "holding ?z = holding y" "armed ?z = armed y" by (simp_all add: fun_eq_iff holding_def armed_def)
  have "keysOK y" using ok by (simp add: leaseOK_def)
  then have "keysOK ?z" by (rule keysOK_mono) (use sub in \<open>auto simp: known_def h\<close>)
  moreover have "firedOK ?z" using ok sub unfolding leaseOK_def firedOK_def h by (simp, blast)
  ultimately have z: "leaseOK ?z" using ok by (simp add: leaseOK_def heldOK_def h)
  show ?thesis
  proof (cases b)
    case False
    then have "s' = lyPeer y" using r by (auto simp: onInputRevoked_def Let_def split: if_splits)
    then show ?thesis using z by simp
  next
    case True
    then have cur: "leaseOf f = lsLeaseGen (lyPeer y)" and s': "lsLeaseGen s' = lsLeaseGen (lyPeer y) + 1" "lsControl s' = lsControl (lyPeer y)"
      using r by (auto simp: onInputRevoked_def Let_def split: if_splits)
    let ?y = "y\<lparr>lyPeer := s', lyFired := remove1 f (lyFired y)\<rparr>"
    have g: "holding ?y = holding y" "armed ?y = armed y" "known ?y = known ?z" by (simp_all add: fun_eq_iff holding_def armed_def known_def)
    have "heldOK ?y" unfolding heldOK_def g
    proof (intro allI impI)
      fix k assume "holder (lyInput ?y) = Some k"
      then have k: "holder (lyInput y) = Some k" by simp
      show "lyReleasers ?y \<noteq> [] \<or> ((\<exists>a. holding y k a) \<or> settled (lyPeer ?y)) \<and> (\<forall>a. holding y k a \<longrightarrow> watching (lyPeer ?y) a)"
      proof (cases "lyReleasers y = []")
        case True
        then have e: "\<exists>a. holding y k a" "\<And>a. holding y k a \<Longrightarrow> \<not> sawCurrent a"
          using ok k f cur unfolding leaseOK_def firedOK_def by blast+
        have "watching s' a" if "holding y k a" for a
        proof -
          have "watching (lyPeer y) a" using ok k True that unfolding leaseOK_def heldOK_def by blast
          then show ?thesis using e(2) [OF that] s'(2) by (cases a) auto
        qed
        then show ?thesis using e(1) by simp
      qed simp
    qed
    moreover have "keysOK ?y" using z s'(1) unfolding leaseOK_def keysOK_def g by (simp add: h) (meson le_Suc_eq)
    moreover have "leaseOf f' \<noteq> lsLeaseGen s'" if "f' \<in> set (lyFired ?y)" for f'
      using that z s'(1) unfolding leaseOK_def keysOK_def known_def by fastforce
    then have "firedOK ?y" by (auto simp: firedOK_def)
    ultimately show ?thesis using ok by (simp add: leaseOK_def)
  qed
qed

lemma leaseOK_step: "leaseStep ops y y' \<Longrightarrow> leaseOK y \<Longrightarrow> leaseOK y'"
proof (induction rule: leaseStep.induct)
  case (bump y)
  then show ?case using peer_change [OF bump(2), of "bumpLease (lyPeer y)" "RelCall # remove1 RelBump (lyReleasers y)"]
    by (simp add: bumpLease_def)
next
  case (cancel y)
  have "leaseOK (addReleaser False RelCall (y\<lparr>lyPeer := (lyPeer y)\<lparr>lsCancelled := True\<rparr>\<rparr>))"
    using cancel by (rule peer_kept) (auto simp: settled_def elim: watching_mono)
  then show ?case by (simp add: addReleaser_def)
next
  case (connect y b)
  have "leaseOK (addReleaser False RelCall (y\<lparr>lyPeer := (lyPeer y)\<lparr>lsConnected := b\<rparr>\<rparr>))"
    using connect by (rule peer_kept) (auto simp: settled_def elim: watching_mono)
  then show ?case by (simp add: addReleaser_def)
next
  case (sequence y d c b a)
  let ?s = "(lyPeer y)\<lparr>lsInputSequence := a, lsInputSequenceSet := b, lsMotionSequence := c, lsMotionSequenceSet := d\<rparr>"
  have "leaseOK (addReleaser False RelCall (y\<lparr>lyPeer := ?s\<rparr>))"
    using sequence by (rule peer_kept) (auto simp: settled_def elim: watching_mono)
  then show ?case by (simp add: addReleaser_def)
next
  case (retarget y)
  then show ?case using peer_released [OF retarget(2), of "lyPeer y" RelBump] by simp
next
  case (releaseRequest y ch)
  then show ?case using peer_released [OF releaseRequest(3), of "lyPeer y" RelCall] by simp
next
  case (acquireArm y t ch i m k s')
  show ?case by (rule leaseOK_arm [OF acquireArm(3,1,2)])
next
  case (acquireControl y t ch i m k r)
  show ?case by (rule leaseOK_look [OF acquireControl(2,1)]) (cases r; simp)+
next
  case (acquireInput y t ch i m k r b)
  show ?case
  proof (rule leaseOK_look [OF acquireInput(2,1)])
    fix k' assume h: "holder (lyInput y) = Some k'" "okKey (AcqInput ch i m k r b (stillCurrent i m k (lyPeer y))) = Some k'" "lyReleasers y = []"
    then have "okKey (AcqControl ch i m k r b) = Some k'" by (cases r) auto
    then have "holding y k' (AcqControl ch i m k r b)" using acquireInput(1) by (auto simp: holding_def)
    then have "watching (lyPeer y) (AcqControl ch i m k r b)" using acquireInput(2) h unfolding leaseOK_def heldOK_def by blast
    then show "watching (lyPeer y) (AcqInput ch i m k r b (stillCurrent i m k (lyPeer y)))" by (auto simp: stillCurrent_def sameInputs_def)
  qed (cases r; auto simp: stillCurrent_def)+
qed (auto intro: leaseOK_channels leaseOK_release acquirer_neutral leaseOK_arm leaseOK_call leaseOK_end leaseOK_other leaseOK_revoked)

lemma leaseOK_reach:
  assumes "leaseReach ops c0 y" "valid c0" "holder c0 = None" shows "leaseOK y"
  using assms(1)
proof (induction rule: leaseReach.induct)
  case init
  then show ?case using assms(2,3)
    by (simp add: leaseOK_def keysOK_def heldOK_def firedOK_def known_def armed_def holding_def newLeaseSystem_def)
next
  case (step y y')
  then show ?case using leaseOK_step by blast
qed

lemma lease_safe:
  assumes "leaseReach ops c0 y" "valid c0" "holder c0 = None" "icOwns ops (lyInput y)"
  shows "lyReleasers y \<noteq> [] \<or> (\<exists>t a k. lyAcquirers y t = Some a \<and> okKey a = Some k) \<or> settled (lyPeer y)"
  using leaseOK_reach [OF assms(1-3)] assms(4) owns unfolding leaseOK_def heldOK_def holding_def by blast

end

section \<open>The input controller provides the interface\<close>

text \<open>
  The callback of a lease is the peer it belongs to and its key.  A revocation calls the callback; those of
  peer \<open>p\<close> are the ones it sees.
\<close>

type_synonym 's leaseController = "('s, uint64 \<times> leaseKey) controller"

definition firedFor :: "uint64 \<Rightarrow> (uint64 \<times> leaseKey) revocation list \<Rightarrow> leaseKey list" where
  "firedFor p revs = map (\<lambda>r. snd (rvRevoke r)) (filter (\<lambda>r. fst (rvRevoke r) = p) revs)"

definition ctlAcquire :: "'s senderOps \<Rightarrow> uint64 \<Rightarrow> leaseKey \<Rightarrow> 's leaseController \<Rightarrow> goerror + capabilities \<Rightarrow> 's leaseController \<Rightarrow> bool" where
  "ctlAcquire ops p k c r c' \<longleftrightarrow> Acquire ops p (Some (p, k)) c = ((case r of Inr caps \<Rightarrow> AcqOk caps | Inl e \<Rightarrow> AcqErr e), c')"

inductive ctlBackground :: "'s senderOps \<Rightarrow> uint64 \<Rightarrow> 's leaseController \<Rightarrow> leaseKey list \<Rightarrow> 's leaseController \<Rightarrow> bool" for ops p c where
  submit: "Submit ops owner ev c = (e, revs, c') \<Longrightarrow> ctlBackground ops p c (firedFor p revs) c'"
| acquireOther: "owner \<noteq> p \<Longrightarrow> ctlAcquire ops owner k c r c' \<Longrightarrow> ctlBackground ops p c [] c'"
| releaseOther: "owner \<noteq> p \<Longrightarrow> Release ops owner c = (e, c') \<Longrightarrow> ctlBackground ops p c [] c'"
| revoke: "Revoke ops cause c = (revs, c') \<Longrightarrow> ctlBackground ops p c (firedFor p revs) c'"
| close: "CloseLocked ops c = (wait, c') \<Longrightarrow> ctlBackground ops p c [] c'"
| closeSender: "CloseSender ops c = (e, c') \<Longrightarrow> ctlBackground ops p c [] c'"
| attach: "Attach ops auth s c = (e, rejected, c') \<Longrightarrow> ctlBackground ops p c [] c'"
| unavailable: "ctlBackground ops p c [] (SetUnavailable auth err c)"
| dequeue: "dequeue c = Some (q, c') \<Longrightarrow> ctlBackground ops p c [] c'"
| handle: "handleEvent ops q c = (revs, c') \<Longrightarrow> ctlBackground ops p c (firedFor p revs) c'"
| watchDone: "watchDone ops status c = (revs, c') \<Longrightarrow> ctlBackground ops p c (firedFor p revs) c'"
| watchChange: "watchChange ops reset status c = (reset', revs, c') \<Longrightarrow> ctlBackground ops p c (firedFor p revs) c'"
| senderMoves: "ctlBackground ops p c [] (c\<lparr>ctlSender := s\<rparr>)"

definition controllerOps :: "'s senderOps \<Rightarrow> uint64 \<Rightarrow> 's leaseController inputOps" where
  "controllerOps ops p = \<lparr>icAcquire = ctlAcquire ops p, icRelease = Release ops p, icOwns = Owns p, icBackground = ctlBackground ops p\<rparr>"

definition leaseHolder :: "uint64 \<Rightarrow> 's leaseController \<Rightarrow> leaseKey option" where
  "leaseHolder p c = Option.bind (fmlookup (ctlOwners c) p) (\<lambda>state. map_option snd (osRevoke state))"

text \<open>Every lease has the callback of its own peer.\<close>

definition tagged :: "'s leaseController \<Rightarrow> bool" where
  "tagged c \<longleftrightarrow> (\<forall>q state. fmlookup (ctlOwners c) q = Some state \<longrightarrow> (\<exists>k. osRevoke state = Some (q, k)))"

definition evolves :: "uint64 \<Rightarrow> 's leaseController \<Rightarrow> (uint64 \<times> leaseKey) revocation list \<Rightarrow> 's leaseController \<Rightarrow> bool" where
  "evolves p c revs c' \<longleftrightarrow> tagged c' \<and> (leaseHolder p c' = leaseHolder p c \<and> firedFor p revs = []
     \<or> leaseHolder p c' = None \<and> set (firedFor p revs) \<subseteq> set_option (leaseHolder p c))"

lemma evolves_trans: "evolves p c r1 c1 \<Longrightarrow> evolves p c1 r2 c2 \<Longrightarrow> evolves p c (r1 @ r2) c2"
proof -
  have "firedFor p (r1 @ r2) = firedFor p r1 @ firedFor p r2" by (simp add: firedFor_def)
  then show "evolves p c r1 c1 \<Longrightarrow> evolves p c1 r2 c2 \<Longrightarrow> ?thesis" by (auto simp: evolves_def)
qed

lemma evolves_same:
  assumes "tagged c" "\<And>q. map_option osRevoke (fmlookup (ctlOwners c') q) = map_option osRevoke (fmlookup (ctlOwners c) q)"
  shows "evolves p c [] c'"
proof -
  have "tagged c'" using assms unfolding tagged_def by (metis (no_types, lifting) map_option_eq_Some)
  moreover have "leaseHolder p c' = leaseHolder p c"
    using assms(2) [of p] by (cases "fmlookup (ctlOwners c') p"; cases "fmlookup (ctlOwners c) p") (auto simp: leaseHolder_def)
  ultimately show ?thesis by (simp add: evolves_def firedFor_def)
qed

lemma evolves_revokeOwner:
  assumes "tagged c" "revokeOwnerLocked ops owner sq cause c = (revs, c')"
  shows "evolves p c revs c'"
proof -
  have o: "ctlOwners c' = fmdrop owner (ctlOwners c)" using revokeOwnerLocked_owners [of ops owner sq cause c] assms(2) by simp
  have revs: "\<exists>state. fmlookup (ctlOwners c) owner = Some state \<and> osRevoke state = Some (rvRevoke r)" if "r \<in> set revs" for r
    using that assms(2) by (auto simp: revokeOwnerLocked_def Let_def split: option.splits)
  have tag: "fst (rvRevoke r) = owner" if "r \<in> set revs" for r
    using revs [OF that] assms(1) unfolding tagged_def by (metis fst_conv option.inject)
  have t: "tagged c'" using assms(1) o by (auto simp: tagged_def split: if_splits)
  show ?thesis
  proof (cases "owner = p")
    case True
    then have "leaseHolder p c' = None" "set (firedFor p revs) \<subseteq> set_option (leaseHolder p c)"
      using o revs by (fastforce simp: leaseHolder_def firedFor_def)+
    then show ?thesis using t by (simp add: evolves_def)
  next
    case False
    then have "firedFor p revs = []" using tag by (auto simp: firedFor_def filter_empty_conv)
    then show ?thesis using t o False by (simp add: evolves_def leaseHolder_def)
  qed
qed

lemma evolves_revokeOwners: "tagged c \<Longrightarrow> revokeOwners ops os cause c = (revs, c') \<Longrightarrow> evolves p c revs c'"
proof (induction os arbitrary: c revs c')
  case Nil
  then show ?case by (auto intro!: evolves_same)
next
  case (Cons o1 os)
  obtain r1 c1 where 1: "revokeOwnerLocked ops o1 0 cause c = (r1, c1)" by fastforce
  obtain r2 c2 where 2: "revokeOwners ops os cause c1 = (r2, c2)" by fastforce
  have e1: "evolves p c r1 c1" using evolves_revokeOwner [OF Cons.prems(1) 1] .
  then have "evolves p c1 r2 c2" using Cons.IH [OF _ 2] by (simp add: evolves_def)
  then have "evolves p c (r1 @ r2) c2" by (rule evolves_trans [OF e1])
  then show ?case using Cons.prems(2) 1 2 by auto
qed

lemma evolves_revokeAll: "tagged c \<Longrightarrow> revokeAllLocked ops cause c = (revs, c') \<Longrightarrow> evolves p c revs c'"
  unfolding revokeAllLocked_def by (rule evolves_revokeOwners)

lemma evolves_fewer: "evolves p c revs c' \<Longrightarrow> evolves p c [] c'"
  by (auto simp: evolves_def firedFor_def)

lemma evolves_Submit:
  assumes "tagged c" "Submit ops owner ev c = (e, revs, c')" shows "evolves p c revs c'"
  using assms by (auto simp: Submit_def Let_def intro!: evolves_same dest: evolves_revokeOwner split: option.splits if_splits prod.splits)

lemma evolves_acquire:
  assumes "tagged c" "ctlAcquire ops owner k c r c'"
  shows "tagged c' \<and> (\<forall>q. q \<noteq> owner \<longrightarrow> leaseHolder q c' = leaseHolder q c)
    \<and> leaseHolder owner c' = (case r of Inr caps \<Rightarrow> Some k | Inl e \<Rightarrow> leaseHolder owner c)"
  using assms by (auto simp: ctlAcquire_def Acquire_def tagged_def leaseHolder_def Let_def split: option.splits if_splits sum.splits)

lemma evolves_handle:
  assumes "tagged c" "handleEvent ops q c = (revs, c')" shows "evolves p c revs c'"
proof (cases "fmlookup (ctlOwners c) (qOwner q)")
  case None
  then show ?thesis using assms by (auto simp: handleEvent_def intro!: evolves_same)
next
  case (Some state)
  have d: "evolves p c [] c1" if "deliver ops (qOwner q) state (qEvent q) s c = Some (err, c1)" for s err c1
    using that assms(1) Some by (intro evolves_same) (auto simp: deliver_def Let_def split: eventType.splits option.splits prod.splits)
  show ?thesis
  proof (cases "\<exists>s err c1. ctlSender c = Some s \<and> \<not> (ctlClosed c \<or> osGeneration state \<noteq> qGeneration q)
      \<and> deliver ops (qOwner q) state (qEvent q) s c = Some (Some err, c1)")
    case True
    then obtain s err c1 where h: "ctlSender c = Some s" "\<not> (ctlClosed c \<or> osGeneration state \<noteq> qGeneration q)"
      "deliver ops (qOwner q) state (qEvent q) s c = Some (Some err, c1)" by blast
    obtain r1 c2 where 1: "revokeOwnerLocked ops (qOwner q) (evSequence (qEvent q)) (Some err) c1 = (r1, c2)" by fastforce
    obtain r2 c3 where 2: "revokeAllLocked ops (Some err) c2 = (r2, c3)" by fastforce
    have "tagged c1" using d [OF h(3)] by (simp add: evolves_def)
    then have e1: "evolves p c1 r1 c2" using evolves_revokeOwner 1 by blast
    then have "evolves p c2 r2 c3" using evolves_revokeAll 2 by (auto simp: evolves_def [of _ c1])
    then have "evolves p c ([] @ r1 @ r2) c3" using evolves_trans d [OF h(3)] e1 by blast
    then show ?thesis using assms(2) Some h 1 2 by (auto simp: handleEvent_def)
  next
    case False
    then show ?thesis using assms Some d by (auto simp: handleEvent_def intro!: evolves_same split: option.splits if_splits prod.splits)
  qed
qed

lemma evolves_background:
  assumes "ctlBackground ops p c fired c'" "tagged c"
  shows "tagged c' \<and> (leaseHolder p c' = leaseHolder p c \<and> fired = [] \<or> leaseHolder p c' = None \<and> set fired \<subseteq> set_option (leaseHolder p c))"
proof -
  have e: ?thesis if "evolves p c revs c'" "fired = firedFor p revs" for revs using that by (auto simp: evolves_def)
  have n: ?thesis if "evolves p c revs c'" "fired = []" for revs
    using evolves_fewer [OF that(1)] that(2) by (auto simp: evolves_def firedFor_def)
  show ?thesis using assms(1)
  proof (cases rule: ctlBackground.cases)
    case (submit owner ev e revs)
    then show ?thesis using e evolves_Submit [OF assms(2)] by blast
  next
    case (acquireOther owner k r)
    then show ?thesis using evolves_acquire [OF assms(2) acquireOther(3)] by auto
  next
    case (releaseOther owner e)
    obtain revs c1 where r: "revokeOwnerLocked ops owner 0 None c = (revs, c1)" by fastforce
    have "c' = c \<or> c' = c1" using releaseOther(3) r by (auto simp: Release_def split: if_splits)
    then show ?thesis using n [of revs] evolves_revokeOwner [OF assms(2) r, of p] assms(2) releaseOther(1) by auto
  next
    case (revoke cause revs)
    then have "revokeAllLocked ops cause c = (revs, c')" by (simp add: Revoke_def)
    then show ?thesis using revoke(1) by (intro e [OF evolves_revokeAll [OF assms(2)]])
  next
    case (close wait)
    have "tagged (c\<lparr>ctlClosed := True\<rparr>)" using assms(2) by (simp add: tagged_def)
    moreover obtain revs c1 where "revokeAllLocked ops None (c\<lparr>ctlClosed := True\<rparr>) = (revs, c1)" by fastforce
    ultimately have "evolves p (c\<lparr>ctlClosed := True\<rparr>) revs c1" "c' = c \<or> c' = c1\<lparr>ctlStop := True\<rparr>"
      using evolves_revokeAll close(2) by (auto simp: CloseLocked_def split: if_splits)
    then show ?thesis using assms(2) close(1) by (auto simp: evolves_def tagged_def leaseHolder_def)
  next
    case (watchChange reset status reset' revs)
    then have "revokeAllLocked ops (errorsJoin [Some ErrNotReady, ssErr status]) c = (revs, c') \<or> revs = [] \<and> c' = c"
      by (auto simp: watchChange_def Revoke_def split: if_splits)
    then show ?thesis
    proof
      assume "revokeAllLocked ops (errorsJoin [Some ErrNotReady, ssErr status]) c = (revs, c')"
      then show ?thesis using watchChange(1) by (intro e [OF evolves_revokeAll [OF assms(2)]])
    next
      assume "revs = [] \<and> c' = c"
      then show ?thesis using watchChange(1) assms(2) by (simp add: firedFor_def)
    qed
  next
    case (watchDone status revs)
    then have "revokeAllLocked ops (errorsJoin [Some ErrNotReady, ssErr status]) c = (revs, c')" by (simp add: watchDone_def Revoke_def)
    then show ?thesis using watchDone(1) by (intro e [OF evolves_revokeAll [OF assms(2)]])
  next
    case (handle q revs)
    then show ?thesis using e evolves_handle [OF assms(2)] by blast
  next
    case (dequeue q)
    then have "map_option osRevoke (fmlookup (ctlOwners c') o1) = map_option osRevoke (fmlookup (ctlOwners c) o1)" for o1
      by (auto simp: dequeue_def split: list.splits option.splits if_splits)
    then show ?thesis using n [OF evolves_same [OF assms(2)]] dequeue(1) by blast
  qed (use assms(2) n [OF evolves_same [OF assms(2)]] in
      \<open>auto simp: CloseSender_def Attach_def SetUnavailable_def tagged_def leaseHolder_def split: option.splits if_splits prod.splits\<close>)
qed

interpretation ctllease: input_lease "controllerOps ops p" "leaseHolder p" tagged
  for ops :: "'s senderOps" and p
proof
  fix c :: "'s leaseController" assume t: "tagged c"
  show "icOwns (controllerOps ops p) c \<longleftrightarrow> leaseHolder p c \<noteq> None"
    using t by (cases "fmlookup (ctlOwners c) p") (fastforce simp: controllerOps_def Owns_def leaseHolder_def tagged_def)+
  show "icAcquire (controllerOps ops p) k c (Inr caps) c' \<Longrightarrow> leaseHolder p c' = Some k" for k caps c'
    using evolves_acquire [OF t, of ops p k "Inr caps" c'] by (simp add: controllerOps_def)
  show "icAcquire (controllerOps ops p) k c (Inl e) c' \<Longrightarrow> leaseHolder p c' = leaseHolder p c" for k e c'
    using evolves_acquire [OF t, of ops p k "Inl e" c'] by (simp add: controllerOps_def)
  show "icBackground (controllerOps ops p) c fired c' \<Longrightarrow>
      leaseHolder p c' = leaseHolder p c \<and> fired = [] \<or> leaseHolder p c' = None \<and> set fired \<subseteq> set_option (leaseHolder p c)" for fired c'
    using evolves_background [of ops p c fired c'] t by (simp add: controllerOps_def)
  show "icAcquire (controllerOps ops p) k c r c' \<Longrightarrow> tagged c'" for k r c'
    using evolves_acquire [OF t] by (simp add: controllerOps_def)
  show "tagged (snd (icRelease (controllerOps ops p) c))"
    using evolves_revokeOwner [OF t, of ops p 0 None] t
    by (cases "revokeOwnerLocked ops p 0 None c") (auto simp: controllerOps_def Release_def evolves_def)
  show "icBackground (controllerOps ops p) c fired c' \<Longrightarrow> tagged c'" for fired c'
    using evolves_background [of ops p c fired c'] t by (simp add: controllerOps_def)
next
  fix c :: "'s leaseController"
  show "leaseHolder p (snd (icRelease (controllerOps ops p) c)) = None"
    by (simp add: controllerOps_def Release_def leaseHolder_def)
qed

text \<open>\<open>disabledInputController\<close>.\<close>

definition disabledOps :: "unit inputOps" where
  "disabledOps = \<lparr>icAcquire = (\<lambda>k c r c'. r = Inl ErrDisabled), icRelease = (\<lambda>c. (Some ErrNotOwner, c)), icOwns = (\<lambda>c. False),
     icBackground = (\<lambda>c fired c'. fired = [])\<rparr>"

interpretation nolease: input_lease disabledOps "\<lambda>_. None" "\<lambda>_. True"
  by unfold_locales (auto simp: disabledOps_def)

section \<open>Property\<close>

text \<open>C3: the input lease is bound to open channels.  In every interleaving of a peer's channels opening and
  closing, lease requests, target changes, revocations by the controller, other peers' requests and the peer's
  close, over an input controller that starts with no lease: while the controller gives the peer the lease,
  either a handler or a goroutine is under way that still checks the lease or gives it back, or the peer is
  not closing and has its control, input and input-motion channels.\<close>

theorem lease_needs_channels:
  assumes "New cfg = Inr c0" and "leaseReach (controllerOps ops p) c0 y" and "Owns p (lyInput y)"
  shows "lyReleasers y \<noteq> [] \<or> (\<exists>t a k. lyAcquirers y t = Some a \<and> okKey a = Some k)
    \<or> lsControl (lyPeer y) \<noteq> None \<and> lsInput (lyPeer y) \<noteq> None \<and> lsMotion (lyPeer y) \<noteq> None \<and> \<not> lsClosing (lyPeer y)"
proof -
  have "ctlOwners c0 = fmempty" using assms(1) by (auto simp: New_def Let_def split: if_splits)
  then have "tagged c0" "leaseHolder p c0 = None" by (simp_all add: tagged_def leaseHolder_def)
  then show ?thesis
    using ctllease.lease_safe [OF assms(2)] assms(3) by (simp add: controllerOps_def settled_def)
qed

section \<open>Witness\<close>

text \<open>A peer with number 7 opens its three channels, connects and acquires the lease.\<close>

definition demoPeer :: "nat option \<Rightarrow> nat option \<Rightarrow> nat option \<Rightarrow> nat \<Rightarrow> nat \<Rightarrow> nat \<Rightarrow> bool \<Rightarrow> leaseState" where
  "demoPeer ct i m gi gm gl con = newLeaseState\<lparr>lsControl := ct, lsInput := i, lsMotion := m, lsInputGen := gi, lsMotionGen := gm, lsLeaseGen := gl,
     lsConnected := con\<rparr>"

definition demoLy :: "unit leaseController \<Rightarrow> leaseState \<Rightarrow> acquirer option \<Rightarrow> unit leaseController leaseSystem" where
  "demoLy c s a = \<lparr>lyPeer = s, lyInput = c, lyAcquirers = (\<lambda>_. None)(0 := a), lyReleasers = [], lyFired = []\<rparr>"

definition demoC0 :: "unit leaseController" where "demoC0 = projr (New demoCfg)"
definition demoC1 :: "unit leaseController" where
  "demoC1 = demoC0\<lparr>ctlAuthorization := \<lparr>authPointer = True, authKeyboard = True\<rparr>, ctlSender := Some (), ctlSetupErr := None\<rparr>"

definition demoLeaseKey :: leaseKey where "demoLeaseKey = \<lparr>lkInput = 1, lkMotion = 1, leaseOf = 3\<rparr>"
definition demoCaps :: capabilities where "demoCaps = \<lparr>capPointer = True, capKeyboard = True, capText = False\<rparr>"
definition demoC2 :: "unit leaseController" where "demoC2 = snd (Acquire demoOps 7 (Some (7, demoLeaseKey)) demoC1)"

lemmas demo_lease_defs = demoPeer_def newLeaseState_def demoLy_def addReleaser_def setAcquirer_def

lemma demo_c0: "New demoCfg = Inr demoC0"
  by (simp add: demoC0_def New_def demoCfg_def)

lemma demo_attach: "ctlBackground demoOps 7 demoC0 [] demoC1"
  by (rule ctlBackground.attach [of _ "\<lparr>authPointer = True, authKeyboard = True\<rparr>" "Some ()" _ None None])
     (simp add: Attach_def demoC1_def demoC0_def New_def demoCfg_def)

lemma demo_acquired:
  "Acquire demoOps 7 (Some (7, demoLeaseKey)) demoC1 = (AcqOk demoCaps, demoC1\<lparr>ctlGeneration := 1, ctlOwners := fmupd 7 \<lparr>osGeneration = 1,
     osRevoke = Some (7, demoLeaseKey), osQueued = 0, osPressedKeys = {||}, osPressedButtons = {||}\<rparr> fmempty\<rparr>)"
proof -
  have "ctlClosed demoC1 = False" "ctlCfg demoC1 = demoCfg" "ctlOwners demoC1 = fmempty" "ctlSender demoC1 = Some ()" "ctlGeneration demoC1 = 0"
    "ctlAuthorization demoC1 = \<lparr>authPointer = True, authKeyboard = True\<rparr>"
    by (simp_all add: demoC1_def demoC0_def New_def demoCfg_def)
  then show ?thesis by (simp add: Acquire_def demoCfg_def demoOps_def demoStatus_def senderReady_def grantedCaps_def demoCaps_def)
qed

lemma demo_acquire: "ctlAcquire demoOps 7 demoLeaseKey demoC1 (Inr demoCaps) demoC2" "Owns 7 demoC2"
proof -
  have "demoC2 = snd (AcqOk demoCaps, demoC1\<lparr>ctlGeneration := 1, ctlOwners := fmupd 7 \<lparr>osGeneration = 1,
     osRevoke = Some (7, demoLeaseKey), osQueued = 0, osPressedKeys = {||}, osPressedButtons = {||}\<rparr> fmempty\<rparr>)"
    unfolding demoC2_def demo_acquired ..
  then have 2: "demoC2 = demoC1\<lparr>ctlGeneration := 1, ctlOwners := fmupd 7 \<lparr>osGeneration = 1,
     osRevoke = Some (7, demoLeaseKey), osQueued = 0, osPressedKeys = {||}, osPressedButtons = {||}\<rparr> fmempty\<rparr>" by simp
  show "ctlAcquire demoOps 7 demoLeaseKey demoC1 (Inr demoCaps) demoC2" unfolding ctlAcquire_def demo_acquired 2 by simp
  show "Owns 7 demoC2" unfolding 2 Owns_def by simp
qed

lemma demo_lease: "leaseReach (controllerOps demoOps 7) demoC0 (demoLy demoC2 (demoPeer (Some 1) (Some 2) (Some 3) 1 1 3 True) None)"
proof -
  let ?ops = "controllerOps demoOps 7"
  let ?p = "demoPeer (Some 1) (Some 2) (Some 3) 1 1"
  have go: "leaseReach ?ops demoC0 y \<Longrightarrow> leaseStep ?ops y y'' \<Longrightarrow> y'' = y' \<Longrightarrow> leaseReach ?ops demoC0 y'" for y y' y''
    using leaseReach.step [of ?ops demoC0 y y''] by simp
  have "leaseReach ?ops demoC0 (demoLy demoC0 (demoPeer None None None 0 0 0 False) None)"
    using leaseReach.init [of ?ops demoC0] by (simp add: newLeaseSystem_def demo_lease_defs)
  then have "leaseReach ?ops demoC0 (demoLy demoC1 (demoPeer None None None 0 0 0 False) None)"
    by (rule go [OF _ leaseStep.other]) (use demo_attach in \<open>simp_all add: controllerOps_def demoLy_def\<close>)
  then have "leaseReach ?ops demoC0 (demoLy demoC1 (demoPeer (Some 1) None None 0 0 0 False) None)"
    by (rule go [OF _ leaseStep.setControl [OF surjective_pairing]]) (simp add: setControlChannel_def demo_lease_defs)
  then have "leaseReach ?ops demoC0 (demoLy demoC1 (demoPeer (Some 1) (Some 2) None 1 0 1 False) None)"
    by (rule go [OF _ leaseStep.setInput [OF surjective_pairing]]) (simp add: setInputChannel_def demo_lease_defs)
  then have "leaseReach ?ops demoC0 (demoLy demoC1 (?p 2 False) None)"
    by (rule go [OF _ leaseStep.setMotion [OF surjective_pairing]]) (simp add: setInputMotionChannel_def demo_lease_defs)
  then have "leaseReach ?ops demoC0 (demoLy demoC1 (?p 2 True) None)"
    by (rule go [OF _ leaseStep.connect]) (simp add: demo_lease_defs)
  then have "leaseReach ?ops demoC0 (demoLy demoC1 (?p 2 True) (Some (AcqBegun 1)))"
    by (rule go [OF _ leaseStep.acquireBegin [of _ 0 1]]) (simp_all add: demo_lease_defs closingNow_def)
  then have "leaseReach ?ops demoC0 (demoLy demoC1 (?p 2 True) (Some (AcqRead 1 2 3)))"
    by (rule go [OF _ leaseStep.acquireRead [of _ 0 1 2 3]]) (simp_all add: demo_lease_defs)
  then have "leaseReach ?ops demoC0 (demoLy demoC1 (?p 3 True) (Some (AcqArmed 1 2 3 demoLeaseKey)))"
    by (rule go [OF _ leaseStep.acquireArm [of _ 0 1 2 3 demoLeaseKey "?p 3 True"]])
       (simp_all add: armLease_def demoLeaseKey_def sameInputs_def closingNow_def demo_lease_defs)
  then have "leaseReach ?ops demoC0 (demoLy demoC2 (?p 3 True) (Some (AcqCalled 1 2 3 demoLeaseKey (Inr demoCaps))))"
    by (rule go [OF _ leaseStep.acquireCall [of _ 0 1 2 3 demoLeaseKey]]) (use demo_acquire in \<open>simp_all add: controllerOps_def demo_lease_defs\<close>)
  then have "leaseReach ?ops demoC0 (demoLy demoC2 (?p 3 True) (Some (AcqControl 1 2 3 demoLeaseKey (Inr demoCaps) True)))"
    by (rule go [OF _ leaseStep.acquireControl [of _ 0 1 2 3 demoLeaseKey "Inr demoCaps"]]) (simp_all add: demo_lease_defs)
  then have "leaseReach ?ops demoC0 (demoLy demoC2 (?p 3 True) (Some (AcqInput 1 2 3 demoLeaseKey (Inr demoCaps) True True)))"
    by (rule go [OF _ leaseStep.acquireInput [of _ 0 1 2 3 demoLeaseKey "Inr demoCaps" True]]) (simp_all add: stillCurrent_def sameInputs_def demoLeaseKey_def demo_lease_defs)
  then show ?thesis
    by (rule go [OF _ leaseStep.acquireEnd [of _ 0 1 2 3 demoLeaseKey "Inr demoCaps" True True]]) (simp_all add: givesBack_def closingNow_def demo_lease_defs)
qed

theorem lease_needs_channels_witness:
  "Owns 7 (lyInput (demoLy demoC2 (demoPeer (Some 1) (Some 2) (Some 3) 1 1 3 True) None))
   \<and> lsInput (lyPeer (demoLy demoC2 (demoPeer (Some 1) (Some 2) (Some 3) 1 1 3 True) None)) \<noteq> None"
proof -
  let ?y = "demoLy demoC2 (demoPeer (Some 1) (Some 2) (Some 3) 1 1 3 True) None"
  have f: "Owns 7 (lyInput ?y)" "lyReleasers ?y = []" "lyAcquirers ?y = (\<lambda>_. None)" using demo_acquire(2) by (simp_all add: demoLy_def)
  then show ?thesis using lease_needs_channels [OF demo_c0 demo_lease f(1)] by simp
qed

end
