(* ===== verification/Peer_Signaling.thy ===== *)
theory Peer_Signaling
  imports Sdp_Negotiation Protocol "HOL-Library.Multiset"
begin

text \<open>
  Signaling of a peer (\<open>run\<close>, \<open>handleOffer\<close> and the ICE candidate handlers in \<open>src/webrtc/peer.go\<close>).  The read
  loop and pion's callback for local candidates run side by side.  The results of the calls into pion and of the
  socket writes are arguments of the steps; \<open>decode\<close> is the strict JSON decoder of a signaling message.
\<close>

subsection \<open>State\<close>

definition maxQueuedCandidates :: int where "maxQueuedCandidates = 256"
definition signalingVersion :: int where "signalingVersion = 1"

datatype 'cand signalMessage = AnswerMessage string | CandidateMessage 'cand | ErrorMessage string goerror

text \<open>
  \<open>sgFlush\<close> and \<open>sgOut\<close> are the local candidates that \<open>flushLocalCandidates\<close> and the callback have taken and
  not yet written.  Four fields record history: what was written to the socket, what was handed to
  \<open>AddICECandidate\<close>, and the remote and local candidates that were taken in.
\<close>

record 'cand signaling =
  sgOfferHandled :: bool
  sgRemoteSet :: bool
  sgPendingRemote :: "'cand list"
  sgAnswerSent :: bool
  sgPendingLocal :: "'cand list"
  sgClosing :: bool
  sgAnswered :: bool
  sgFlush :: "'cand list"
  sgOut :: "'cand list"
  sgSent :: "'cand signalMessage list"
  sgAdded :: "'cand list"
  sgRemote :: "'cand list"
  sgLocal :: "'cand list"

definition newSignaling :: "'cand signaling" where
  "newSignaling = \<lparr>sgOfferHandled = False, sgRemoteSet = False, sgPendingRemote = [], sgAnswerSent = False, sgPendingLocal = [],
     sgClosing = False, sgAnswered = False, sgFlush = [], sgOut = [], sgSent = [], sgAdded = [], sgRemote = [], sgLocal = []\<rparr>"

text \<open>The SDP tools and settings of the peer.\<close>

record sdpTools =
  stKeys :: "string fset \<Rightarrow> string list"
  stFold :: "nat \<Rightarrow> nat"
  stLower :: "string \<Rightarrow> string"
  stMatches :: "string \<Rightarrow> string \<Rightarrow> bool"
  stUnmarshal :: "string \<Rightarrow> goerror + mediaDescription list"
  stMarshal :: "mediaDescription list \<Rightarrow> goerror + string"
  stAudioEnabled :: bool
  stTracing :: bool
  stVideoCodec :: rtpCodec

text \<open>The results of the library calls of one handler.\<close>

record 'cand pionResults =
  prSetDeadline :: "goerror option"
  prSetRemote :: "goerror option"
  prAddCandidate :: "'cand \<Rightarrow> goerror option"
  prCreateAnswer :: "goerror option"
  prSetLocal :: "goerror option"
  prLocalDescription :: "string option"
  prWrites :: bool
  prWritesError :: bool

subsection \<open>Writing\<close>

definition writeSignal :: "bool \<Rightarrow> 'cand signalMessage \<Rightarrow> 'cand signaling \<Rightarrow> bool \<times> 'cand signaling" where
  "writeSignal written m s = (if sgClosing s \<or> \<not> written then (False, s) else (True, s\<lparr>sgSent := sgSent s @ [m]\<rparr>))"

subsection \<open>Remote candidates and the offer\<close>

definition handleRemoteCandidate :: "'cand pionResults \<Rightarrow> 'cand \<Rightarrow> 'cand signaling \<Rightarrow> goerror option \<times> 'cand signaling" where
  "handleRemoteCandidate pr c s =
    (if \<not> sgRemoteSet s
     then if int (length (sgPendingRemote s)) \<ge> maxQueuedCandidates
          then (Some (errorsNew ''too many ICE candidates arrived before the offer''), s)
          else (None, s\<lparr>sgPendingRemote := sgPendingRemote s @ [c], sgRemote := sgRemote s @ [c]\<rparr>)
     else (case prAddCandidate pr c of
         Some err \<Rightarrow> (Some (Wrap ''add ICE candidate: %w'' err []), s)
       | None \<Rightarrow> (None, s\<lparr>sgAdded := sgAdded s @ [c], sgRemote := sgRemote s @ [c]\<rparr>)))"

fun addQueued :: "'cand pionResults \<Rightarrow> 'cand list \<Rightarrow> 'cand signaling \<Rightarrow> goerror option \<times> 'cand signaling" where
  "addQueued pr [] s = (None, s\<lparr>sgPendingRemote := []\<rparr>)"
| "addQueued pr (c # cs) s =
    (case prAddCandidate pr c of
       Some err \<Rightarrow> (Some (Wrap ''add queued ICE candidate: %w'' err []), s)
     | None \<Rightarrow> addQueued pr cs (s\<lparr>sgAdded := sgAdded s @ [c]\<rparr>))"

definition validateOffer :: "sdpTools \<Rightarrow> string \<Rightarrow> goerror option" where
  "validateOffer st sdp =
    (case (if stAudioEnabled st then validateAudioOffer (stFold st) (stUnmarshal st) sdp else None) of
       Some err \<Rightarrow> Some err
     | None \<Rightarrow> validateVideoOffer (stKeys st) (stFold st) (stLower st) (stMatches st) (stUnmarshal st) sdp (stVideoCodec st))"

definition answerSDP :: "sdpTools \<Rightarrow> string \<Rightarrow> goerror + string" where
  "answerSDP st sdp =
    (if sdpAnswerFmtp (rcSDP (stVideoCodec st)) = fmempty then Inr sdp
     else (case rewriteVideoAnswer (stKeys st) (stFold st) (stUnmarshal st) (stMarshal st) sdp (stVideoCodec st) of
         Inl err \<Rightarrow> Inl (Wrap ''set video answer parameters: %w'' err [])
       | Inr answer \<Rightarrow> Inr answer))"

text \<open>The part of \<open>handleOffer\<close> after the remote description is set.\<close>

definition sendAnswer :: "sdpTools \<Rightarrow> 'cand pionResults \<Rightarrow> 'cand signaling \<Rightarrow> goerror option \<times> 'cand signaling" where
  "sendAnswer st pr s =
    (case prCreateAnswer pr of Some err \<Rightarrow> (Some (Wrap ''create answer: %w'' err []), s)
     | None \<Rightarrow> (case prSetLocal pr of Some err \<Rightarrow> (Some (Wrap ''set local answer: %w'' err []), s)
       | None \<Rightarrow> (case prLocalDescription pr of None \<Rightarrow> (Some (errorsNew ''local answer is unavailable''), s)
         | Some local \<Rightarrow> (case answerSDP st local of Inl err \<Rightarrow> (Some err, s)
           | Inr answer \<Rightarrow>
               let (ok, s') = writeSignal (prWrites pr) (AnswerMessage answer) s
               in if ok then (None, s'\<lparr>sgAnswered := True\<rparr>) else (Some (errorsNew ''write answer''), s')))))"

text \<open>\<open>handleOffer\<close> up to \<open>flushLocalCandidates\<close>, which is a step of its own.\<close>

definition handleOffer :: "sdpTools \<Rightarrow> 'cand pionResults \<Rightarrow> string \<Rightarrow> 'cand signaling \<Rightarrow> goerror option \<times> 'cand signaling" where
  "handleOffer st pr sdp s =
    (if sgOfferHandled s then (Some (errorsNew ''only one offer is allowed per WebSocket connection''), s)
     else (case validateOffer st sdp of Some err \<Rightarrow> (Some err, s)
       | None \<Rightarrow>
           let s = s\<lparr>sgOfferHandled := True\<rparr> in
           (case prSetDeadline pr of Some err \<Rightarrow> (Some (Wrap ''set signaling read deadline: %w'' err []), s)
            | None \<Rightarrow> (case prSetRemote pr of Some err \<Rightarrow> (Some (Wrap ''set remote offer: %w'' err []), s)
              | None \<Rightarrow>
                  let (e, s1) = addQueued pr (sgPendingRemote s) (s\<lparr>sgRemoteSet := True\<rparr>)
                  in (case e of Some err \<Rightarrow> (Some err, s1) | None \<Rightarrow> sendAnswer st pr s1)))))"

subsection \<open>The read loop\<close>

text \<open>What \<open>ReadMessage\<close> returns: an error, which may be a timeout, or a text or binary message.\<close>

datatype frame = ReadFailed bool | Frame bool string

datatype readResult = LoopOn | LoopStop int string

definition CloseNormalClosure :: int where "CloseNormalClosure = 1000"
definition CloseGoingAway :: int where "CloseGoingAway = 1001"
definition ClosePolicyViolation :: int where "ClosePolicyViolation = 1008"

text \<open>An error message that leaves the connection open, with the close reason when it cannot be written.\<close>

definition replyError :: "'cand pionResults \<Rightarrow> string \<Rightarrow> string \<Rightarrow> goerror \<Rightarrow> 'cand signaling \<Rightarrow> readResult \<times> 'cand signaling" where
  "replyError pr reason code message s =
    (let (ok, s') = writeSignal (prWritesError pr) (ErrorMessage code message) s
     in (if ok then LoopOn else LoopStop CloseNormalClosure reason, s'))"

text \<open>An error message after which the peer is closed.\<close>

definition fatalError :: "'cand pionResults \<Rightarrow> string \<Rightarrow> goerror option \<times> 'cand signaling \<Rightarrow> readResult \<times> 'cand signaling" where
  "fatalError pr code r =
    (case r of (None, s) \<Rightarrow> (LoopOn, s)
     | (Some err, s) \<Rightarrow> (LoopStop CloseNormalClosure ''peer closed'', snd (writeSignal (prWritesError pr) (ErrorMessage code err) s)))"

definition handleSignal :: "sdpTools \<Rightarrow> string list \<Rightarrow> 'cand pionResults \<Rightarrow> string \<Rightarrow> 'cand signalRequest \<Rightarrow> 'cand signaling
    \<Rightarrow> readResult \<times> 'cand signaling" where
  "handleSignal st order pr kind r s =
    (if kind = ''offer'' then
       (case srqSDP r of
          Some sdp \<Rightarrow>
            if sdp = [] \<or> srqCandidate r \<noteq> None \<or> hasClientLogFields r
            then replyError pr ''peer closed'' ''invalid_offer'' (errorsNew ''offer requires sdp and no candidate'') s
            else fatalError pr ''invalid_offer'' (handleOffer st pr sdp s)
        | None \<Rightarrow> replyError pr ''peer closed'' ''invalid_offer'' (errorsNew ''offer requires sdp and no candidate'') s)
     else if kind = ''ice-candidate'' then
       (case srqCandidate r of
          Some c \<Rightarrow>
            if srqSDP r \<noteq> None \<or> hasClientLogFields r
            then replyError pr ''peer closed'' ''invalid_candidate'' (errorsNew ''ice-candidate requires candidate and no sdp'') s
            else fatalError pr ''invalid_candidate'' (handleRemoteCandidate pr c s)
        | None \<Rightarrow> replyError pr ''peer closed'' ''invalid_candidate'' (errorsNew ''ice-candidate requires candidate and no sdp'') s)
     else if kind = ''client-log'' then
       (if \<not> stTracing st then replyError pr ''peer closed'' ''tracing_disabled'' (errorsNew ''client tracing is disabled'') s
        else (case validateClientLogRequest order r of
            Some e \<Rightarrow> replyError pr ''peer closed'' (peCode e) (peMessage e) s
          | None \<Rightarrow> (LoopOn, s)))
     else replyError pr ''peer closed'' ''unexpected_message'' (Errorf ''signaling message type %q is not supported'' [FStr kind]) s)"

text \<open>One iteration of \<open>run\<close>'s loop.\<close>

definition readStep :: "sdpTools \<Rightarrow> (string \<Rightarrow> goerror + 'cand signalRequest) \<Rightarrow> string list \<Rightarrow> 'cand pionResults \<Rightarrow> frame \<Rightarrow> 'cand signaling
    \<Rightarrow> readResult \<times> 'cand signaling" where
  "readStep st decode order pr frame s =
    (case frame of
       ReadFailed timeout \<Rightarrow>
         (if \<not> timeout then LoopStop CloseNormalClosure ''signaling closed''
          else if \<not> sgOfferHandled s then LoopStop ClosePolicyViolation ''offer timeout''
          else LoopStop CloseGoingAway ''signaling pong timeout'', s)
     | Frame text data \<Rightarrow>
         if \<not> text then replyError pr ''signaling closed'' ''invalid_message'' (errorsNew ''signaling messages must be WebSocket text messages'') s
         else if \<not> utf8Valid data then replyError pr ''signaling closed'' ''invalid_message'' (errorsNew ''signaling message is not valid UTF-8'') s
         else (case decode data of
             Inl err \<Rightarrow> replyError pr ''signaling closed'' ''invalid_message'' (Errorf ''decode signaling message: %v'' [FErr err]) s
           | Inr r \<Rightarrow>
               (case (srqVersion r, srqType r) of
                  (None, _) \<Rightarrow> replyError pr ''signaling closed'' ''missing_field'' (errorsNew ''version is required'') s
                | (_, None) \<Rightarrow> replyError pr ''signaling closed'' ''missing_field'' (errorsNew ''type is required'') s
                | (Some version, Some kind) \<Rightarrow>
                    if version \<noteq> signalingVersion
                    then replyError pr ''signaling closed'' ''unsupported_version''
                           (Errorf ''signaling protocol version %d is not supported'' [FInt version]) s
                    else handleSignal st order pr kind r s)))"

subsection \<open>Local candidates\<close>

text \<open>The locked part of \<open>onLocalICECandidate\<close>; the peer is closed when the queue is full.\<close>

definition onLocalICECandidate :: "'cand option \<Rightarrow> 'cand signaling \<Rightarrow> 'cand signaling" where
  "onLocalICECandidate candidate s =
    (case candidate of
       None \<Rightarrow> s
     | Some c \<Rightarrow>
         if sgClosing s then s
         else if \<not> sgAnswerSent s
         then if int (length (sgPendingLocal s)) \<ge> maxQueuedCandidates then s\<lparr>sgClosing := True\<rparr>
              else s\<lparr>sgPendingLocal := sgPendingLocal s @ [c], sgLocal := sgLocal s @ [c]\<rparr>
         else s\<lparr>sgOut := sgOut s @ [c], sgLocal := sgLocal s @ [c]\<rparr>)"

text \<open>The locked part of \<open>flushLocalCandidates\<close>.\<close>

definition flushLocalCandidates :: "'cand signaling \<Rightarrow> 'cand signaling" where
  "flushLocalCandidates s = s\<lparr>sgAnswerSent := True, sgFlush := sgPendingLocal s, sgPendingLocal := [], sgAnswered := False\<rparr>"

text \<open>Writing one candidate; when it fails the peer is closed.\<close>

definition sendCandidate :: "bool \<Rightarrow> 'cand \<Rightarrow> 'cand signaling \<Rightarrow> 'cand signaling" where
  "sendCandidate written c s = (let (ok, s') = writeSignal written (CandidateMessage c) s in if ok then s' else s'\<lparr>sgClosing := True\<rparr>)"

section \<open>Interleavings\<close>

text \<open>
  The read loop handles the next message only when the flush of the previous one is done.
\<close>

inductive signalStep :: "sdpTools \<Rightarrow> (string \<Rightarrow> goerror + 'cand signalRequest) \<Rightarrow> 'cand signaling \<Rightarrow> 'cand signaling \<Rightarrow> bool" for st decode where
  read: "\<not> sgAnswered s \<Longrightarrow> sgFlush s = [] \<Longrightarrow> readStep st decode order pr frame s = (r, s')
    \<Longrightarrow> signalStep st decode s (if r = LoopOn then s' else s'\<lparr>sgClosing := True\<rparr>)"
| flush: "sgAnswered s \<Longrightarrow> signalStep st decode s (flushLocalCandidates s)"
| flushed: "sgFlush s = c # cs \<Longrightarrow> signalStep st decode s (sendCandidate written c (s\<lparr>sgFlush := cs\<rparr>))"
| local: "signalStep st decode s (onLocalICECandidate candidate s)"
| send: "c \<in> set (sgOut s) \<Longrightarrow> signalStep st decode s (sendCandidate written c (s\<lparr>sgOut := remove1 c (sgOut s)\<rparr>))"
| close: "signalStep st decode s (s\<lparr>sgClosing := True\<rparr>)"

inductive signalReach :: "sdpTools \<Rightarrow> (string \<Rightarrow> goerror + 'cand signalRequest) \<Rightarrow> 'cand signaling \<Rightarrow> bool" for st decode where
  init: "signalReach st decode newSignaling"
| step: "signalReach st decode s \<Longrightarrow> signalStep st decode s s' \<Longrightarrow> signalReach st decode s'"


section \<open>Sent messages\<close>

fun isAnswer :: "'cand signalMessage \<Rightarrow> bool" where
  "isAnswer (AnswerMessage _) = True"
| "isAnswer _ = False"

fun candidateOf :: "'cand signalMessage \<Rightarrow> 'cand option" where
  "candidateOf (CandidateMessage c) = Some c"
| "candidateOf _ = None"

definition sentCandidates :: "'cand signalMessage list \<Rightarrow> 'cand list" where
  "sentCandidates ms = List.map_filter candidateOf ms"

definition answersSent :: "'cand signaling \<Rightarrow> nat" where
  "answersSent s = length (filter isAnswer (sgSent s))"

lemma sentCandidates_simps [simp]:
  "sentCandidates [] = []"
  "sentCandidates (m # ms) = (case candidateOf m of None \<Rightarrow> sentCandidates ms | Some c \<Rightarrow> c # sentCandidates ms)"
  "sentCandidates (ms @ ns) = sentCandidates ms @ sentCandidates ns"
  by (induction ms) (auto simp: sentCandidates_def List.map_filter_def split: option.splits)

lemma sentCandidates_none:
  "sentCandidates ms = [] \<Longrightarrow> sentCandidates (takeWhile P ms) = []"
  by (induction ms) (auto split: option.splits)

definition early :: "'cand signalMessage list \<Rightarrow> 'cand list" where
  "early ms = sentCandidates (takeWhile (\<lambda>m. \<not> isAnswer m) ms)"

lemma early_simps [simp]:
  "early [] = []"
  "early (xs @ ys) = early xs @ (if filter isAnswer xs = [] then early ys else [])"
  by (induction xs) (auto simp: early_def split: option.splits)

lemma early_single [simp]: "sentCandidates ms = [] \<Longrightarrow> early ms = []"
  by (simp add: early_def sentCandidates_none)

section \<open>Invariants\<close>

subsection \<open>Remote candidates\<close>

text \<open>
  Remote candidates reach \<open>AddICECandidate\<close> in the order of their arrival, and only after the remote description.
  The first part may fail when a step fails, which closes the peer.
\<close>

definition remoteOrder :: "'cand signaling \<Rightarrow> bool" where
  "remoteOrder s \<longleftrightarrow> sgAdded s @ sgPendingRemote s = sgRemote s \<and> (sgRemoteSet s \<longrightarrow> sgPendingRemote s = [])"

definition remoteInv :: "'cand signaling \<Rightarrow> bool" where
  "remoteInv s \<longleftrightarrow> (sgAdded s \<noteq> [] \<longrightarrow> sgRemoteSet s) \<and> (sgRemoteSet s \<longrightarrow> sgOfferHandled s)
     \<and> int (length (sgPendingRemote s)) \<le> maxQueuedCandidates"

definition sameRemote :: "'cand signaling \<Rightarrow> 'cand signaling \<Rightarrow> bool" where
  "sameRemote s s' \<longleftrightarrow> sgAdded s' = sgAdded s \<and> sgPendingRemote s' = sgPendingRemote s \<and> sgRemote s' = sgRemote s
     \<and> sgRemoteSet s' = sgRemoteSet s \<and> sgOfferHandled s' = sgOfferHandled s"

lemma sameRemote_inv:
  "sameRemote s s' \<Longrightarrow> remoteInv s' = remoteInv s"
  "sameRemote s s' \<Longrightarrow> remoteOrder s' = remoteOrder s"
  by (simp_all add: sameRemote_def remoteInv_def remoteOrder_def)

lemma sameRemote_refl [simp]: "sameRemote s s"
  by (simp add: sameRemote_def)

lemma writeSignal_result:
  "writeSignal w m s = (ok, s') \<Longrightarrow> (\<not> ok \<and> s' = s) \<or> (ok \<and> \<not> sgClosing s \<and> s' = s\<lparr>sgSent := sgSent s @ [m]\<rparr>)"
  by (simp add: writeSignal_def split: if_splits)

lemma sendAnswer_result:
  assumes "sendAnswer st pr s = (e, s')"
  shows "(e \<noteq> None \<and> s' = s) \<or> (e = None \<and> (\<exists>a. s' = s\<lparr>sgSent := sgSent s @ [AnswerMessage a], sgAnswered := True\<rparr>))"
proof -
  have fail: "sendAnswer st pr s = (Some err, s) \<Longrightarrow> ?thesis" for err using assms by auto
  show ?thesis
  proof (cases "prCreateAnswer pr = None \<and> prSetLocal pr = None")
  case True
  show ?thesis
  proof (cases "prLocalDescription pr")
    case None
    with True show ?thesis by (intro fail) (simp add: sendAnswer_def)
  next
    case (Some local)
    show ?thesis
    proof (cases "answerSDP st local")
      case (Inr answer)
      obtain ok s1 where w: "writeSignal (prWrites pr) (AnswerMessage answer) s = (ok, s1)" by fastforce
      from True Some Inr w assms have "(if ok then (None, s1\<lparr>sgAnswered := True\<rparr>) else (Some (errorsNew ''write answer''), s1)) = (e, s')"
        by (simp add: sendAnswer_def)
      with writeSignal_result [OF w] show ?thesis by (cases ok) auto
    qed (use True Some in \<open>intro fail, simp add: sendAnswer_def\<close>)
  qed
next
    case False
    then have "\<exists>err. sendAnswer st pr s = (Some err, s)"
      by (cases "prCreateAnswer pr"; cases "prSetLocal pr") (simp_all add: sendAnswer_def)
    then show ?thesis using fail by blast
  qed
qed

lemma writeSignal_remote: "writeSignal w m s = (ok, s') \<Longrightarrow> sameRemote s s'"
  by (drule writeSignal_result) (auto simp: sameRemote_def)

lemma sendAnswer_remote: "sendAnswer st pr s = (e, s') \<Longrightarrow> sameRemote s s'"
  by (drule sendAnswer_result) (auto simp: sameRemote_def)

lemma addQueued_result:
  "addQueued pr cs s = (e, s') \<Longrightarrow>
     (e = None \<and> s' = s\<lparr>sgAdded := sgAdded s @ cs, sgPendingRemote := []\<rparr>)
     \<or> (e \<noteq> None \<and> (\<exists>ds. s' = s\<lparr>sgAdded := sgAdded s @ ds\<rparr>))"
proof (induction cs arbitrary: s)
  case Nil
  then show ?case by (auto intro: exI [of _ "[]"])
next
  case (Cons c cs)
  show ?case
  proof (cases "prAddCandidate pr c")
    case None
    with Cons.prems have "addQueued pr cs (s\<lparr>sgAdded := sgAdded s @ [c]\<rparr>) = (e, s')" by simp
    from Cons.IH [OF this] show ?thesis by auto
  next
    case (Some err)
    with Cons.prems show ?thesis by (auto intro: exI [of _ "[]"])
  qed
qed

lemma handleOffer_failed:
  assumes "sgOfferHandled s \<or> validateOffer st sdp \<noteq> None \<or> prSetDeadline pr \<noteq> None \<or> prSetRemote pr \<noteq> None"
    and "handleOffer st pr sdp s = (e, s')"
  shows "e \<noteq> None \<and> (s' = s \<or> s' = s\<lparr>sgOfferHandled := True\<rparr>)"
proof -
  have fail: "handleOffer st pr sdp s = (Some err, t) \<Longrightarrow> t = s \<or> t = s\<lparr>sgOfferHandled := True\<rparr> \<Longrightarrow> ?thesis" for err t
    using assms(2) by auto
  have "\<exists>err. handleOffer st pr sdp s = (Some err, s) \<or> handleOffer st pr sdp s = (Some err, s\<lparr>sgOfferHandled := True\<rparr>)"
    using assms(1)
    by (cases "sgOfferHandled s"; cases "validateOffer st sdp"; cases "prSetDeadline pr"; cases "prSetRemote pr")
      (simp_all add: handleOffer_def, blast+)
  then show ?thesis using fail by blast
qed

text \<open>An offer that passes these checks.\<close>

lemma handleOffer_passed:
  assumes "\<not> (sgOfferHandled s \<or> validateOffer st sdp \<noteq> None \<or> prSetDeadline pr \<noteq> None \<or> prSetRemote pr \<noteq> None)"
    and "handleOffer st pr sdp s = (e, s')"
  obtains e1 s1 where "addQueued pr (sgPendingRemote s) (s\<lparr>sgOfferHandled := True, sgRemoteSet := True\<rparr>) = (e1, s1)"
    and "e1 = None \<Longrightarrow> sendAnswer st pr s1 = (e, s')" and "e1 \<noteq> None \<Longrightarrow> e = e1 \<and> s' = s1"
proof -
  obtain e1 s1 where a: "addQueued pr (sgPendingRemote s) (s\<lparr>sgOfferHandled := True, sgRemoteSet := True\<rparr>) = (e1, s1)"
    by fastforce
  with assms have "(case e1 of Some err \<Rightarrow> (Some err, s1) | None \<Rightarrow> sendAnswer st pr s1) = (e, s')"
    by (simp add: handleOffer_def Let_def)
  then show thesis by (intro that [OF a]) auto
qed

lemma handleOffer_remote:
  assumes "remoteInv s" "handleOffer st pr sdp s = (e, s')"
  shows "remoteInv s' \<and> (e = None \<and> remoteOrder s \<longrightarrow> remoteOrder s')"
proof (cases "sgOfferHandled s \<or> validateOffer st sdp \<noteq> None \<or> prSetDeadline pr \<noteq> None \<or> prSetRemote pr \<noteq> None")
  case True
  from handleOffer_failed [OF True assms(2)] assms(1) show ?thesis
    by (elim conjE disjE) (auto simp: remoteInv_def)
next
  case False
  then obtain e1 s1 where a: "addQueued pr (sgPendingRemote s) (s\<lparr>sgOfferHandled := True, sgRemoteSet := True\<rparr>) = (e1, s1)"
    and ok: "e1 = None \<Longrightarrow> sendAnswer st pr s1 = (e, s')" and err: "e1 \<noteq> None \<Longrightarrow> e = e1 \<and> s' = s1"
    using assms(2) by (rule handleOffer_passed) blast
  have s1: "remoteInv s1 \<and> (e1 = None \<and> remoteOrder s \<longrightarrow> remoteOrder s1)"
    using addQueued_result [OF a] assms(1) by (auto simp: remoteInv_def remoteOrder_def maxQueuedCandidates_def)
  show ?thesis
  proof (cases "e1 = None")
    case True
    from sendAnswer_remote [OF ok [OF True]] s1 True show ?thesis by (simp add: sameRemote_inv)
  qed (use err s1 in simp)
qed

lemma handleRemoteCandidate_remote:
  assumes "remoteInv s" "handleRemoteCandidate pr c s = (e, s')"
  shows "remoteInv s' \<and> (remoteOrder s \<longrightarrow> remoteOrder s')"
  using assms by (auto simp: handleRemoteCandidate_def remoteInv_def remoteOrder_def split: if_splits option.splits)

lemma replyError_remote: "replyError pr why code msg s = (r, s') \<Longrightarrow> sameRemote s s'"
  by (auto simp: replyError_def split: prod.splits dest!: writeSignal_remote)

lemma fatalError_remote:
  assumes "fatalError pr code (e, s1) = (r, s')" "remoteInv s1" "e = None \<and> P \<longrightarrow> remoteOrder s1"
  shows "remoteInv s' \<and> (r = LoopOn \<and> P \<longrightarrow> remoteOrder s')"
proof (cases e)
  case (Some err)
  obtain ok s2 where w: "writeSignal (prWritesError pr) (ErrorMessage code err) s1 = (ok, s2)" by fastforce
  with Some assms(1) have "s' = s2" "r \<noteq> LoopOn" by (auto simp: fatalError_def)
  with writeSignal_remote [OF w] assms(2) show ?thesis by (simp add: sameRemote_inv)
qed (use assms in \<open>auto simp: fatalError_def\<close>)

text \<open>What a signaling message leads to.\<close>

lemma handleSignal_result:
  "(\<exists>why code msg. handleSignal st order pr kind q s = replyError pr why code msg s)
   \<or> (\<exists>code sdp. handleSignal st order pr kind q s = fatalError pr code (handleOffer st pr sdp s))
   \<or> (\<exists>code c. handleSignal st order pr kind q s = fatalError pr code (handleRemoteCandidate pr c s))
   \<or> handleSignal st order pr kind q s = (LoopOn, s)" (is "?R \<or> ?O \<or> ?C \<or> ?S")
proof -
  consider "kind = ''offer''" | "kind = ''ice-candidate''" | "kind = ''client-log''"
    | "kind \<noteq> ''offer''" "kind \<noteq> ''ice-candidate''" "kind \<noteq> ''client-log''" by blast
  then show ?thesis
  proof cases
    case 1
    then have "?R \<or> ?O" by (cases "srqSDP q") (auto simp: handleSignal_def)
    then show ?thesis by blast
  next
    case 2
    then have "?R \<or> ?C" by (cases "srqCandidate q") (auto simp: handleSignal_def)
    then show ?thesis by blast
  next
    case 3
    then have "?R \<or> ?S" by (cases "validateClientLogRequest order q") (auto simp: handleSignal_def)
    then show ?thesis by blast
  next
    case 4
    then have ?R by (auto simp: handleSignal_def)
    then show ?thesis by blast
  qed
qed

lemma handleSignal_remote:
  assumes "remoteInv s" "handleSignal st order pr kind q s = (r, s')"
  shows "remoteInv s' \<and> (r = LoopOn \<and> remoteOrder s \<longrightarrow> remoteOrder s')"
proof -
  have reply: "replyError pr why code msg s = (r, s') \<Longrightarrow> ?thesis" for why code msg
    using replyError_remote sameRemote_inv assms(1) by blast
  have offer: "fatalError pr code (handleOffer st pr sdp s) = (r, s') \<Longrightarrow> ?thesis" for code sdp
    by (metis fatalError_remote handleOffer_remote [OF assms(1)] surj_pair)
  have cand: "fatalError pr code (handleRemoteCandidate pr c s) = (r, s') \<Longrightarrow> ?thesis" for code c
    by (metis fatalError_remote handleRemoteCandidate_remote [OF assms(1)] surj_pair)
  have same: "(LoopOn, s) = (r, s') \<Longrightarrow> ?thesis" using assms(1) by simp
  from handleSignal_result [of st order pr kind q s] assms(2) show ?thesis
    using reply offer cand same by metis
qed

subsection \<open>The answer and local candidates\<close>

text \<open>
  At most one answer is sent, no candidate is sent before it, and the candidates that pion reports are exactly those
  that are sent, queued or about to be written.
\<close>

definition answerInv :: "'cand signaling \<Rightarrow> bool" where
  "answerInv s \<longleftrightarrow> answersSent s \<le> 1 \<and> (sgAnswered s \<or> sgAnswerSent s \<longrightarrow> answersSent s = 1)
     \<and> (\<not> sgOfferHandled s \<longrightarrow> answersSent s = 0) \<and> early (sgSent s) = []
     \<and> (sgFlush s \<noteq> [] \<or> sgOut s \<noteq> [] \<longrightarrow> sgAnswerSent s) \<and> (sgAnswered s \<longrightarrow> sgFlush s = [])
     \<and> int (length (sgPendingLocal s)) \<le> maxQueuedCandidates"

definition localOrder :: "'cand signaling \<Rightarrow> bool" where
  "localOrder s \<longleftrightarrow> mset (sgLocal s)
     = mset (sentCandidates (sgSent s)) + mset (sgPendingLocal s) + mset (sgFlush s) + mset (sgOut s)"

definition sameLocal :: "'cand signaling \<Rightarrow> 'cand signaling \<Rightarrow> bool" where
  "sameLocal s s' \<longleftrightarrow> sgAnswerSent s' = sgAnswerSent s \<and> sgPendingLocal s' = sgPendingLocal s \<and> sgFlush s' = sgFlush s
     \<and> sgOut s' = sgOut s \<and> sgLocal s' = sgLocal s \<and> sgClosing s' = sgClosing s"

text \<open>What a message does to the local side: it writes error messages, or the answer.\<close>

definition quiet :: "'cand signaling \<Rightarrow> 'cand signaling \<Rightarrow> bool" where
  "quiet s s' \<longleftrightarrow> sameLocal s s' \<and> sgAnswered s' = sgAnswered s \<and> (sgOfferHandled s \<longrightarrow> sgOfferHandled s')
     \<and> (\<exists>ms. sgSent s' = sgSent s @ ms \<and> sentCandidates ms = [] \<and> filter isAnswer ms = [])"

definition answering :: "'cand signaling \<Rightarrow> 'cand signaling \<Rightarrow> bool" where
  "answering s s' \<longleftrightarrow> sameLocal s s' \<and> \<not> sgOfferHandled s \<and> sgOfferHandled s' \<and> sgAnswered s'
     \<and> (\<exists>a. sgSent s' = sgSent s @ [AnswerMessage a])"

lemma quiet_refl [simp]: "quiet s s"
  by (auto simp: quiet_def sameLocal_def)

lemma quiet_trans: "quiet s t \<Longrightarrow> quiet t u \<Longrightarrow> quiet s u"
  by (auto simp: quiet_def sameLocal_def)

lemma quiet_local:
  assumes "quiet s s'" "answerInv s"
  shows "answerInv s' \<and> (localOrder s \<longrightarrow> localOrder s')"
proof -
  from assms(1) obtain ms where ms: "sgSent s' = sgSent s @ ms" "sentCandidates ms = []" "filter isAnswer ms = []"
    unfolding quiet_def by blast
  have n: "answersSent s' = answersSent s" using ms by (simp add: answersSent_def)
  have e: "early (sgSent s') = early (sgSent s)" using ms by simp
  have same: "sameLocal s s'" "sgAnswered s' = sgAnswered s" "\<not> sgOfferHandled s' \<longrightarrow> \<not> sgOfferHandled s"
    using assms(1) unfolding quiet_def by blast+
  show ?thesis
    using assms(2) same ms unfolding answerInv_def n e by (simp add: sameLocal_def localOrder_def)
qed

lemma answering_local:
  assumes "answering s s'" "answerInv s" "sgFlush s = []"
  shows "answerInv s' \<and> (localOrder s \<longrightarrow> localOrder s')"
proof -
  from assms(1) obtain a where a: "sgSent s' = sgSent s @ [AnswerMessage a]" unfolding answering_def by blast
  have same: "sameLocal s s'" "sgAnswered s'" "\<not> sgOfferHandled s" "sgOfferHandled s'"
    using assms(1) unfolding answering_def by blast+
  then have n0: "answersSent s = 0" using assms(2) unfolding answerInv_def by blast
  have n: "answersSent s' = 1" using a n0 by (simp add: answersSent_def)
  have "early [AnswerMessage a] = []" by (simp add: early_def)
  then have e: "early (sgSent s') = []" using assms(2) a by (simp add: answerInv_def)
  show ?thesis
    using assms(2,3) same a unfolding answerInv_def n e by (simp add: sameLocal_def localOrder_def)
qed

lemma writeSignal_quiet: "writeSignal w (ErrorMessage code msg) s = (ok, s') \<Longrightarrow> quiet s s'"
  by (drule writeSignal_result) (auto simp: quiet_def sameLocal_def)

lemma replyError_quiet: "replyError pr why code msg s = (r, s') \<Longrightarrow> quiet s s'"
  by (auto simp: replyError_def split: prod.splits intro: writeSignal_quiet)

lemma handleOffer_local:
  assumes "handleOffer st pr sdp s = (e, s')"
  shows "(e \<noteq> None \<and> quiet s s') \<or> (e = None \<and> answering s s')"
proof (cases "sgOfferHandled s \<or> validateOffer st sdp \<noteq> None \<or> prSetDeadline pr \<noteq> None \<or> prSetRemote pr \<noteq> None")
  case True
  from handleOffer_failed [OF True assms] show ?thesis
    by (elim conjE disjE) (simp_all add: quiet_def sameLocal_def)
next
  case False
  then obtain e1 s1 where a: "addQueued pr (sgPendingRemote s) (s\<lparr>sgOfferHandled := True, sgRemoteSet := True\<rparr>) = (e1, s1)"
    and ok: "e1 = None \<Longrightarrow> sendAnswer st pr s1 = (e, s')" and err: "e1 \<noteq> None \<Longrightarrow> e = e1 \<and> s' = s1"
    using assms by (rule handleOffer_passed) blast
  show ?thesis
  proof (cases "e1 = None")
    case True
    from sendAnswer_result [OF ok [OF True]] addQueued_result [OF a] True False show ?thesis
      by (elim conjE disjE exE) (simp_all add: quiet_def answering_def sameLocal_def)
  next
    case False
    with err addQueued_result [OF a] show ?thesis by (elim conjE disjE exE) (simp_all add: quiet_def sameLocal_def)
  qed
qed

lemma handleRemoteCandidate_local: "handleRemoteCandidate pr c s = (e, s') \<Longrightarrow> quiet s s'"
  by (auto simp: handleRemoteCandidate_def quiet_def sameLocal_def split: if_splits option.splits)

lemma fatalError_local:
  assumes "fatalError pr code (e, s1) = (r, s')" "e \<noteq> None \<and> quiet s s1 \<or> e = None \<and> (quiet s s1 \<or> answering s s1)"
  shows "quiet s s' \<or> answering s s'"
proof (cases e)
  case (Some err)
  obtain ok s2 where w: "writeSignal (prWritesError pr) (ErrorMessage code err) s1 = (ok, s2)" by fastforce
  with Some assms(1) have "s' = s2" by (simp add: fatalError_def)
  with writeSignal_quiet [OF w] assms(2) Some show ?thesis by (auto intro: quiet_trans)
qed (use assms in \<open>auto simp: fatalError_def\<close>)

lemma handleSignal_local:
  assumes "handleSignal st order pr kind q s = (r, s')"
  shows "quiet s s' \<or> answering s s'"
proof -
  have reply: "replyError pr why code msg s = (r, s') \<Longrightarrow> ?thesis" for why code msg
    using replyError_quiet by blast
  have offer: "fatalError pr code (handleOffer st pr sdp s) = (r, s') \<Longrightarrow> ?thesis" for code sdp
    by (metis fatalError_local handleOffer_local surj_pair)
  have cand: "fatalError pr code (handleRemoteCandidate pr c s) = (r, s') \<Longrightarrow> ?thesis" for code c
    by (metis fatalError_local handleRemoteCandidate_local surj_pair)
  have same: "(LoopOn, s) = (r, s') \<Longrightarrow> ?thesis" by simp
  from handleSignal_result [of st order pr kind q s] assms show ?thesis
    using reply offer cand same by metis
qed

subsection \<open>Steps\<close>

lemma readStep_result:
  "(\<exists>why code msg. readStep st decode order pr frame s = replyError pr why code msg s)
   \<or> (\<exists>kind q. readStep st decode order pr frame s = handleSignal st order pr kind q s)
   \<or> (\<exists>code why. readStep st decode order pr frame s = (LoopStop code why, s))" (is "?R \<or> ?H \<or> ?S")
proof (cases frame)
  case (ReadFailed timeout)
  then have ?S by (simp add: readStep_def)
  then show ?thesis by blast
next
  case (Frame plain data)
  show ?thesis
  proof (cases "plain \<and> utf8Valid data")
    case True
    show ?thesis
    proof (cases "decode data")
      case (Inl err)
      with True Frame have ?R by (auto simp: readStep_def)
      then show ?thesis by blast
    next
      case (Inr q)
      with True Frame have "?R \<or> ?H"
        by (cases "srqVersion q"; cases "srqType q"; simp add: readStep_def; blast)
      then show ?thesis by blast
    qed
  next
    case False
    with Frame have ?R by (auto simp: readStep_def)
    then show ?thesis by blast
  qed
qed

lemma readStep_remote:
  assumes "remoteInv s" "readStep st decode order pr frame s = (r, s')"
  shows "remoteInv s' \<and> (r = LoopOn \<and> remoteOrder s \<longrightarrow> remoteOrder s')"
proof -
  have reply: "replyError pr why code msg s = (r, s') \<Longrightarrow> ?thesis" for why code msg
    using replyError_remote sameRemote_inv assms(1) by blast
  from readStep_result [of st decode order pr frame s] assms show ?thesis
    using reply handleSignal_remote [OF assms(1)] by (metis prod.inject)
qed

lemma readStep_local: "readStep st decode order pr frame s = (r, s') \<Longrightarrow> quiet s s' \<or> answering s s'"
  using readStep_result [of st decode order pr frame s] replyError_quiet handleSignal_local quiet_refl
  by (metis prod.inject)

definition signalInv :: "'cand signaling \<Rightarrow> bool" where
  "signalInv s \<longleftrightarrow> remoteInv s \<and> answerInv s \<and> (\<not> sgClosing s \<longrightarrow> remoteOrder s \<and> localOrder s)"

lemmas signal_inv_defs = signalInv_def remoteInv_def answerInv_def remoteOrder_def localOrder_def answersSent_def

lemma signalInv_new: "signalInv newSignaling"
  by (simp add: signal_inv_defs newSignaling_def maxQueuedCandidates_def)

lemma signalInv_closing: "signalInv s \<Longrightarrow> signalInv (s\<lparr>sgClosing := True\<rparr>)"
  by (simp add: signal_inv_defs)

lemma signalInv_read:
  assumes "signalInv s" "sgFlush s = []" "readStep st decode order pr frame s = (r, s')"
  shows "signalInv (if r = LoopOn then s' else s'\<lparr>sgClosing := True\<rparr>)"
proof -
  have inv: "remoteInv s" "answerInv s" "\<not> sgClosing s \<longrightarrow> remoteOrder s \<and> localOrder s"
    using assms(1) unfolding signalInv_def by blast+
  have remote: "remoteInv s' \<and> (r = LoopOn \<and> remoteOrder s \<longrightarrow> remoteOrder s')"
    by (rule readStep_remote [OF inv(1) assms(3)])
  have local: "answerInv s' \<and> (localOrder s \<longrightarrow> localOrder s')"
    using readStep_local [OF assms(3)] quiet_local answering_local inv(2) assms(2) by blast
  have "sgClosing s' = sgClosing s"
    using readStep_local [OF assms(3)] by (auto simp: quiet_def answering_def sameLocal_def)
  then have "r = LoopOn \<Longrightarrow> signalInv s'"
    using inv(3) remote local unfolding signalInv_def by blast
  moreover have "signalInv (s'\<lparr>sgClosing := True\<rparr>)"
    using remote local by (simp add: signal_inv_defs)
  ultimately show ?thesis by simp
qed

lemma signalInv_flush:
  assumes "signalInv s" "sgAnswered s"
  shows "signalInv (flushLocalCandidates s)"
  using assms by (simp add: signal_inv_defs flushLocalCandidates_def)

lemma signalInv_send:
  assumes "signalInv s" "sgAnswerSent s"
    and "mset (sgFlush s) + mset (sgOut s) = {#c#} + mset fl + mset out" "sgAnswered s \<longrightarrow> fl = []"
  shows "signalInv (sendCandidate w c (s\<lparr>sgFlush := fl, sgOut := out\<rparr>))"
proof -
  have one: "filter isAnswer (sgSent s) \<noteq> []"
    using assms(1,2) by (auto simp: signal_inv_defs)
  obtain ok s2 where w: "writeSignal w (CandidateMessage c) (s\<lparr>sgFlush := fl, sgOut := out\<rparr>) = (ok, s2)" by fastforce
  show ?thesis
  proof (cases ok)
    case True
    with writeSignal_result [OF w] have "s2 = s\<lparr>sgFlush := fl, sgOut := out, sgSent := sgSent s @ [CandidateMessage c]\<rparr>" by simp
    with True w one assms show ?thesis
      by (simp add: sendCandidate_def signal_inv_defs ac_simps)
  next
    case False
    with writeSignal_result [OF w] have "s2 = s\<lparr>sgFlush := fl, sgOut := out\<rparr>" by simp
    with False w assms show ?thesis
      by (simp add: sendCandidate_def signal_inv_defs)
  qed
qed

lemma signalInv_local:
  assumes "signalInv s"
  shows "signalInv (onLocalICECandidate candidate s)"
  using assms
  by (cases candidate; simp add: onLocalICECandidate_def signal_inv_defs maxQueuedCandidates_def; blast)

lemma signalInv_step:
  assumes "signalStep st decode s s'" "signalInv s"
  shows "signalInv s'"
  using assms(1)
proof cases
  case (read order pr frame r t)
  from signalInv_read [OF assms(2) read(3,4)] read(1) show ?thesis by simp
next
  case (flushed c cs written)
  then have "sgAnswerSent s" "\<not> sgAnswered s" using assms(2) by (auto simp: signal_inv_defs)
  moreover have "s\<lparr>sgFlush := cs\<rparr> = s\<lparr>sgFlush := cs, sgOut := sgOut s\<rparr>" by simp
  ultimately show ?thesis
    using signalInv_send [OF assms(2), of c cs "sgOut s" written] flushed by simp
next
  case (send c written)
  then have "sgOut s \<noteq> []" by auto
  then have "sgAnswerSent s" "sgAnswered s \<longrightarrow> sgFlush s = []" using assms(2) by (auto simp: signal_inv_defs)
  moreover have "s\<lparr>sgOut := remove1 c (sgOut s)\<rparr> = s\<lparr>sgFlush := sgFlush s, sgOut := remove1 c (sgOut s)\<rparr>" by simp
  ultimately show ?thesis
    using signalInv_send [OF assms(2), of c "sgFlush s" "remove1 c (sgOut s)" written] send by simp
qed (use assms signalInv_flush signalInv_local signalInv_closing in simp_all)

lemma signalInv_reach: "signalReach st decode s \<Longrightarrow> signalInv s"
  by (induction rule: signalReach.induct) (auto intro: signalInv_new signalInv_step)

lemma early_answer:
  assumes "early ms = []" "ms = xs @ CandidateMessage c # ys"
  shows "\<exists>a. AnswerMessage a \<in> set xs"
proof (rule ccontr)
  assume "\<nexists>a. AnswerMessage a \<in> set xs"
  then have "\<not> isAnswer m" if "m \<in> set xs" for m using that by (cases m) auto
  then have "filter isAnswer xs = []" by (simp add: filter_empty_conv)
  then have "early ms = early xs @ early (CandidateMessage c # ys)" using assms(2) by simp
  then show False using assms(1) by (simp add: early_def)
qed


section \<open>Witness\<close>

text \<open>Pion reports candidate 7, the browser sends candidate 1 and then its offer, and the answer is written.\<close>

definition demoTools :: sdpTools where
  "demoTools = \<lparr>stKeys = sorted_list_of_fset, stFold = asciiFold, stLower = id, stMatches = (=), stUnmarshal = (\<lambda>_. Inr demoAnswer),
     stMarshal = (\<lambda>mds. Inr (snd (last (mdAttributes (hd mds))))), stAudioEnabled = False, stTracing = False, stVideoCodec = demoH264\<rparr>"

definition demoPion :: "nat pionResults" where
  "demoPion = \<lparr>prSetDeadline = None, prSetRemote = None, prAddCandidate = (\<lambda>_. None), prCreateAnswer = None, prSetLocal = None,
     prLocalDescription = Some [], prWrites = True, prWritesError = True\<rparr>"

definition demoDecode :: "string \<Rightarrow> goerror + nat signalRequest" where
  "demoDecode data = Inr (if data = ''c''
     then \<lparr>srqVersion = Some 1, srqType = Some ''ice-candidate'', srqSDP = None, srqCandidate = Some 1, srqLevel = None, srqEvent = None, srqDetails = None\<rparr>
     else \<lparr>srqVersion = Some 1, srqType = Some ''offer'', srqSDP = Some data, srqCandidate = None, srqLevel = None, srqEvent = None, srqDetails = None\<rparr>)"

lemma demo_offer: "validateOffer demoTools ''o'' = None"
proof -
  have "codecPayloads asciiFold demoH264 (mdAttributes (hd demoAnswer)) = [''96'']"
    by (simp add: demoAnswer_def demo_payloads del: codecPayloads.simps)
  then have "list_ex (videoSectionMatches k asciiFold l m demoH264) demoAnswer" for k l m
    by (simp add: demoAnswer_def videoSectionMatches_def demoH264_def del: codecPayloads.simps)
  then show ?thesis by (simp add: validateOffer_def validateVideoOffer_def demoTools_def)
qed

lemma demo_answer: "answerSDP demoTools [] = Inr ''96 a=1;plid=42e01f''"
proof -
  have "sdpAnswerFmtp (rcSDP demoH264) \<noteq> fmempty" by (simp add: demoH264_def)
  then show ?thesis by (simp add: answerSDP_def demoTools_def demo_rewrite)
qed

definition queuedSignal :: "nat signaling" where
  "queuedSignal = newSignaling\<lparr>sgPendingLocal := [7], sgLocal := [7], sgPendingRemote := [1], sgRemote := [1]\<rparr>"

definition answeredSignal :: "nat signaling" where
  "answeredSignal = queuedSignal\<lparr>sgOfferHandled := True, sgRemoteSet := True, sgPendingRemote := [], sgAdded := [1],
     sgSent := [AnswerMessage ''96 a=1;plid=42e01f''], sgAnswered := True\<rparr>"

definition demoSignal :: "nat signaling" where
  "demoSignal = answeredSignal\<lparr>sgAnswerSent := True, sgAnswered := False, sgPendingLocal := [],
     sgSent := [AnswerMessage ''96 a=1;plid=42e01f'', CandidateMessage 7]\<rparr>"

lemma signal_queued: "signalReach demoTools demoDecode queuedSignal"
proof -
  let ?s = "newSignaling\<lparr>sgPendingLocal := [7], sgLocal := [7]\<rparr> :: nat signaling"
  have "onLocalICECandidate (Some 7) newSignaling = ?s"
    by (simp add: onLocalICECandidate_def newSignaling_def maxQueuedCandidates_def)
  then have "signalStep demoTools demoDecode newSignaling ?s"
    using signalStep.local [of demoTools demoDecode newSignaling "Some 7"] by simp
  with signalReach.init have s: "signalReach demoTools demoDecode ?s" by (rule signalReach.step)
  have v: "utf8Valid ''c''" by (simp add: utf8Valid_def runesW_code runeError_def)
  have "handleRemoteCandidate demoPion 1 ?s = (None, queuedSignal)"
    by (simp add: handleRemoteCandidate_def newSignaling_def maxQueuedCandidates_def queuedSignal_def)
  then have "handleSignal demoTools [] demoPion ''ice-candidate''
      \<lparr>srqVersion = Some 1, srqType = Some ''ice-candidate'', srqSDP = None, srqCandidate = Some 1, srqLevel = None, srqEvent = None, srqDetails = None\<rparr> ?s
      = (LoopOn, queuedSignal)"
    by (simp add: handleSignal_def hasClientLogFields_def fatalError_def)
  then have "readStep demoTools demoDecode [] demoPion (Frame True ''c'') ?s = (LoopOn, queuedSignal)"
    by (simp add: readStep_def v demoDecode_def signalingVersion_def)
  from signalStep.read [OF _ _ this] have "signalStep demoTools demoDecode ?s queuedSignal"
    by (simp add: newSignaling_def)
  with s show ?thesis by (rule signalReach.step)
qed

lemma signal_answered: "signalReach demoTools demoDecode answeredSignal"
proof -
  have v: "utf8Valid ''o''" by (simp add: utf8Valid_def runesW_code runeError_def)
  have "handleOffer demoTools demoPion ''o'' queuedSignal = (None, answeredSignal)"
    by (simp add: handleOffer_def demo_offer sendAnswer_def demo_answer writeSignal_def demoPion_def queuedSignal_def newSignaling_def answeredSignal_def)
  then have "handleSignal demoTools [] demoPion ''offer''
      \<lparr>srqVersion = Some 1, srqType = Some ''offer'', srqSDP = Some ''o'', srqCandidate = None, srqLevel = None, srqEvent = None, srqDetails = None\<rparr> queuedSignal
      = (LoopOn, answeredSignal)"
    by (simp add: handleSignal_def hasClientLogFields_def fatalError_def)
  then have r: "readStep demoTools demoDecode [] demoPion (Frame True ''o'') queuedSignal = (LoopOn, answeredSignal)"
    by (simp add: readStep_def v demoDecode_def signalingVersion_def)
  from signalStep.read [OF _ _ r] have "signalStep demoTools demoDecode queuedSignal answeredSignal"
    by (simp add: queuedSignal_def newSignaling_def)
  with signal_queued show ?thesis by (rule signalReach.step)
qed

lemma demo_signal: "signalReach demoTools demoDecode demoSignal"
proof -
  let ?s = "flushLocalCandidates answeredSignal"
  have "signalStep demoTools demoDecode answeredSignal ?s"
    by (rule signalStep.flush) (simp add: answeredSignal_def)
  with signal_answered have s: "signalReach demoTools demoDecode ?s" by (rule signalReach.step)
  have f: "sgFlush ?s = 7 # []" by (simp add: flushLocalCandidates_def answeredSignal_def queuedSignal_def newSignaling_def)
  from signalStep.flushed [OF f, of demoTools demoDecode True] have "signalStep demoTools demoDecode ?s demoSignal"
    by (simp add: sendCandidate_def writeSignal_def flushLocalCandidates_def answeredSignal_def queuedSignal_def newSignaling_def demoSignal_def)
  with s show ?thesis by (rule signalReach.step)
qed


end
