(* ===== verification/Input_Messages.thy ===== *)
theory Input_Messages
  imports Peer_Lease Protocol
begin

text \<open>
  Input messages of a peer (\<open>handleInputMessage\<close> in \<open>src/webrtc/control.go\<close>).  Pion runs one handler at a time
  per data channel; the handlers of the two input channels run side by side, and beside everything that replaces or
  closes the channels.  The JSON decoder, which also returns what it has decoded before an error, and the calls
  into the input controller are arguments.
\<close>

subsection \<open>Errors\<close>

text \<open>What \<open>writeInputError\<close> sends: the sequence number, when there is one, a code and a message.\<close>

record inputError =
  ieSequence :: "uint64 option"
  ieCode :: string
  ieMessage :: goerror

definition inputSequencePointer :: "inputRequest \<Rightarrow> uint64 option" where
  "inputSequencePointer r = irSequence r"

definition inputErrorCode :: "goerror \<Rightarrow> string" where
  "inputErrorCode err =
    (if errorsIs err ''input is owned by another peer'' then ''input_busy''
     else if errorsIs err ''input is disabled'' then ''input_disabled''
     else if errorsIs err ''pointer input is not authorized'' then ''input_pointer_unauthorized''
     else if errorsIs err ''keyboard input is not authorized'' then ''input_keyboard_unauthorized''
     else if errorsIs err ''input sender is not ready'' then ''input_not_ready''
     else if errorsIs err ''peer does not own input'' then ''input_not_owned''
     else if errorsIs err ''input queue is full'' then ''input_overloaded''
     else if errorsIs err ''input controller is closed'' then ''input_unavailable''
     else ''input_failed'')"

lemma inputErrorCode_controller:
  "inputErrorCode ErrBusy = ''input_busy''" "inputErrorCode ErrDisabled = ''input_disabled''"
  "inputErrorCode ErrPointerUnauthorized = ''input_pointer_unauthorized''"
  "inputErrorCode ErrKeyboardUnauthorized = ''input_keyboard_unauthorized''"
  "inputErrorCode ErrNotReady = ''input_not_ready''" "inputErrorCode ErrNotOwner = ''input_not_owned''"
  "inputErrorCode ErrOverloaded = ''input_overloaded''" "inputErrorCode ErrClosed = ''input_unavailable''"
  by (simp_all add: inputErrorCode_def input_errors)

subsection \<open>The message itself\<close>

definition isMotion :: "event \<Rightarrow> bool" where
  "isMotion ev \<longleftrightarrow> evType ev = EventPointerAbsolute \<or> evType ev = EventPointerRelative"

definition checkInputMessage :: "(string \<Rightarrow> inputRequest \<times> goerror option) \<Rightarrow> bool \<Rightarrow> bool \<Rightarrow> string \<Rightarrow> inputError + (uint64 \<times> event)" where
  "checkInputMessage decode motion isString data =
    (let reject = (\<lambda>sq code message. Inl \<lparr>ieSequence = sq, ieCode = code, ieMessage = message\<rparr>)
     in if \<not> isString then reject None ''invalid_message'' (errorsNew ''input messages must be text'')
        else if int (length data) > maxInputMessageBytes then reject None ''message_too_large'' (errorsNew ''input message exceeds 4096 bytes'')
        else if \<not> utf8Valid data then reject None ''invalid_message'' (errorsNew ''input message is not valid UTF-8'')
        else (case decode data of
            (r, Some err) \<Rightarrow> reject (inputSequencePointer r) ''invalid_message'' (Errorf ''decode input message: %v'' [FErr err])
          | (r, None) \<Rightarrow>
              (case validateInputRequest r of
                 Inl e \<Rightarrow> reject (inputSequencePointer r) (peCode e) (peMessage e)
               | Inr ev \<Rightarrow>
                   if motion \<and> evType ev \<noteq> EventPointerAbsolute \<and> evType ev \<noteq> EventPointerRelative
                   then reject (inputSequencePointer r) ''unsupported_type'' (errorsNew ''input-motion accepts pointer motion messages only'')
                   else Inr (case irSequence r of None \<Rightarrow> 0 | Some sq \<Rightarrow> sq, ev))))"

subsection \<open>The handler\<close>

text \<open>Where the handler of a channel is: after the checks above, with its sequence number taken at a generation, after the
  check of the connection, after the second look at the channel, and after \<open>Owns\<close>.\<close>

datatype inputStage =
    HandlerIdle
  | Checked uint64 event
  | Admitted nat uint64 event
  | Linked nat uint64 event
  | Current nat uint64 event
  | Owning nat uint64 event

text \<open>The calls into the input controller for this peer.\<close>

record 'c inputCalls =
  icOwner :: "'c \<Rightarrow> bool"
  icSubmit :: "event \<Rightarrow> 'c \<Rightarrow> goerror option \<times> 'c"

text \<open>\<open>isLog\<close> and \<open>isErrors\<close> record, per channel kind, the generation and event of each call of \<open>Submit\<close> and the
  errors written.\<close>

record submission =
  suMotion :: bool
  suGen :: nat
  suEvent :: event

record 'c messageSystem =
  isPeer :: leaseState
  isController :: 'c
  isStage :: "bool \<Rightarrow> nat \<Rightarrow> inputStage"
  isSeen :: uint64
  isDone :: uint64
  isOverloads :: uint64
  isLog :: "submission list"
  isErrors :: "(bool \<times> nat \<times> inputError) list"

definition inputChannel :: "bool \<Rightarrow> leaseState \<Rightarrow> nat option" where
  "inputChannel motion s = (if motion then lsMotion s else lsInput s)"

definition inputGen :: "bool \<Rightarrow> leaseState \<Rightarrow> nat" where
  "inputGen motion s = (if motion then lsMotionGen s else lsInputGen s)"

definition lastSequence :: "bool \<Rightarrow> leaseState \<Rightarrow> uint64 option" where
  "lastSequence motion s = (if motion then (if lsMotionSequenceSet s then Some (lsMotionSequence s) else None)
     else if lsInputSequenceSet s then Some (lsInputSequence s) else None)"

definition takeSequence :: "bool \<Rightarrow> uint64 \<Rightarrow> leaseState \<Rightarrow> leaseState" where
  "takeSequence motion sq s = (if motion then s\<lparr>lsMotionSequence := sq, lsMotionSequenceSet := True\<rparr>
     else s\<lparr>lsInputSequence := sq, lsInputSequenceSet := True\<rparr>)"

definition toStage :: "bool \<Rightarrow> nat \<Rightarrow> inputStage \<Rightarrow> 'c messageSystem \<Rightarrow> 'c messageSystem" where
  "toStage motion ch st y = y\<lparr>isStage := (isStage y)(motion := (isStage y motion)(ch := st))\<rparr>"

definition writeInputError :: "bool \<Rightarrow> nat \<Rightarrow> inputError \<Rightarrow> 'c messageSystem \<Rightarrow> 'c messageSystem" where
  "writeInputError motion ch e y = (if closingNow (isPeer y) then y else y\<lparr>isErrors := isErrors y @ [(motion, ch, e)]\<rparr>)"

definition sequenceError :: "uint64 \<Rightarrow> string \<Rightarrow> goerror \<Rightarrow> inputError" where
  "sequenceError sq code message = \<lparr>ieSequence = Some sq, ieCode = code, ieMessage = message\<rparr>"

text \<open>The arrival of a message on an idle channel.\<close>

definition arrive :: "(string \<Rightarrow> inputRequest \<times> goerror option) \<Rightarrow> bool \<Rightarrow> nat \<Rightarrow> bool \<Rightarrow> string \<Rightarrow> 'c messageSystem \<Rightarrow> 'c messageSystem" where
  "arrive decode motion ch isString data y =
    (if inputChannel motion (isPeer y) \<noteq> Some ch \<or> closingNow (isPeer y) then y
     else let y = y\<lparr>isSeen := isSeen y + 1\<rparr>
          in (case checkInputMessage decode motion isString data of
                Inl e \<Rightarrow> writeInputError motion ch e y
              | Inr (sq, ev) \<Rightarrow> toStage motion ch (Checked sq ev) y))"

text \<open>
  The next critical section or call of a handler.  The check of \<open>isClosing\<close> after the connection check is part of
  the second look at the channel, which repeats it; a closing peer stays closing.
\<close>

definition admit :: "bool \<Rightarrow> nat \<Rightarrow> uint64 \<Rightarrow> event \<Rightarrow> 'c messageSystem \<Rightarrow> 'c messageSystem" where
  "admit motion ch sq ev y =
    (if inputChannel motion (isPeer y) \<noteq> Some ch \<or> closingNow (isPeer y) then toStage motion ch HandlerIdle y
     else if (case lastSequence motion (isPeer y) of None \<Rightarrow> False | Some seen \<Rightarrow> sq \<le> seen)
     then toStage motion ch HandlerIdle
            (if motion then y else writeInputError motion ch (sequenceError sq ''invalid_sequence'' (errorsNew ''sequence must increase monotonically'')) y)
     else toStage motion ch (Admitted (inputGen motion (isPeer y)) sq ev) (y\<lparr>isPeer := takeSequence motion sq (isPeer y)\<rparr>))"

definition submitEvent :: "'c inputCalls \<Rightarrow> bool \<Rightarrow> nat \<Rightarrow> nat \<Rightarrow> uint64 \<Rightarrow> event \<Rightarrow> 'c messageSystem \<Rightarrow> 'c messageSystem" where
  "submitEvent ops motion ch gen sq ev y =
    (let (e, c) = icSubmit ops ev (isController y);
         y = toStage motion ch HandlerIdle (y\<lparr>isController := c, isLog := isLog y @ [\<lparr>suMotion = motion, suGen = gen, suEvent = ev\<rparr>]\<rparr>)
     in (case e of
           Some err \<Rightarrow> if errorsIs err ''input queue is full'' then y\<lparr>isOverloads := isOverloads y + 1\<rparr>
                       else writeInputError motion ch (sequenceError sq (inputErrorCode err) err) y
         | None \<Rightarrow> y\<lparr>isDone := isDone y + 1\<rparr>))"

definition advance :: "'c inputCalls \<Rightarrow> bool \<Rightarrow> nat \<Rightarrow> 'c messageSystem \<Rightarrow> 'c messageSystem" where
  "advance ops motion ch y =
    (case isStage y motion ch of
       HandlerIdle \<Rightarrow> y
     | Checked sq ev \<Rightarrow> admit motion ch sq ev y
     | Admitted gen sq ev \<Rightarrow>
         if \<not> lsConnected (isPeer y)
         then toStage motion ch HandlerIdle (writeInputError motion ch (sequenceError sq ''peer_not_connected'' (errorsNew ''WebRTC peer is not connected'')) y)
         else toStage motion ch (Linked gen sq ev) y
     | Linked gen sq ev \<Rightarrow>
         toStage motion ch
           (if inputChannel motion (isPeer y) = Some ch \<and> inputGen motion (isPeer y) = gen \<and> \<not> closingNow (isPeer y) then Current gen sq ev else HandlerIdle) y
     | Current gen sq ev \<Rightarrow>
         if \<not> icOwner ops (isController y)
         then toStage motion ch HandlerIdle (writeInputError motion ch (sequenceError sq ''input_not_owned'' (errorsNew ''peer does not own input'')) y)
         else toStage motion ch (Owning gen sq ev) y
     | Owning gen sq ev \<Rightarrow> submitEvent ops motion ch gen sq ev y)"

text \<open>The whole handler, when nothing runs in between: after at most five steps it is idle again.\<close>

definition handleInputMessage :: "'c inputCalls \<Rightarrow> (string \<Rightarrow> inputRequest \<times> goerror option) \<Rightarrow> bool \<Rightarrow> nat \<Rightarrow> bool \<Rightarrow> string \<Rightarrow> 'c messageSystem \<Rightarrow> 'c messageSystem" where
  "handleInputMessage ops decode motion ch isString data y = (advance ops motion ch ^^ 5) (arrive decode motion ch isString data y)"

subsection \<open>Interleavings\<close>

text \<open>Everything else that changes what the handlers read: the channel operations, leases, the connection and closing.\<close>

inductive channelStep :: "leaseState \<Rightarrow> leaseState \<Rightarrow> bool" where
  setControl: "setControlChannel c s = (s', b) \<Longrightarrow> channelStep s s'"
| controlGone: "controlCleanup c s = (s', b) \<Longrightarrow> channelStep s s'"
| setInput: "setInputChannel c s = (s', b) \<Longrightarrow> channelStep s s'"
| inputGone: "inputCleanup c gen s = (s', b) \<Longrightarrow> channelStep s s'"
| setMotion: "setInputMotionChannel c s = (s', b) \<Longrightarrow> channelStep s s'"
| motionGone: "motionCleanup c gen s = (s', b) \<Longrightarrow> channelStep s s'"
| close: "beginClose s = (s', b) \<Longrightarrow> channelStep s s'"
| cancel: "channelStep s (s\<lparr>lsCancelled := True\<rparr>)"
| connect: "channelStep s (s\<lparr>lsConnected := b\<rparr>)"
| bump: "channelStep s (bumpLease s)"
| arm: "armLease s = (k, s') \<Longrightarrow> channelStep s s'"
| revoked: "onInputRevoked k s = (s', b) \<Longrightarrow> channelStep s s'"

inductive messageStep :: "'c inputCalls \<Rightarrow> (string \<Rightarrow> inputRequest \<times> goerror option) \<Rightarrow> 'c messageSystem \<Rightarrow> 'c messageSystem \<Rightarrow> bool" for ops decode where
  message: "isStage y motion ch = HandlerIdle \<Longrightarrow> messageStep ops decode y (arrive decode motion ch isString data y)"
| handler: "messageStep ops decode y (advance ops motion ch y)"
| channels: "channelStep (isPeer y) s' \<Longrightarrow> messageStep ops decode y (y\<lparr>isPeer := s'\<rparr>)"
| controller: "messageStep ops decode y (y\<lparr>isController := c\<rparr>)"

definition newMessageSystem :: "'c \<Rightarrow> 'c messageSystem" where
  "newMessageSystem c = \<lparr>isPeer = newLeaseState, isController = c, isStage = (\<lambda>_ _. HandlerIdle), isSeen = 0, isDone = 0, isOverloads = 0, isLog = [], isErrors = []\<rparr>"

inductive messageReach :: "'c inputCalls \<Rightarrow> (string \<Rightarrow> inputRequest \<times> goerror option) \<Rightarrow> 'c \<Rightarrow> 'c messageSystem \<Rightarrow> bool" for ops decode c0 where
  init: "messageReach ops decode c0 (newMessageSystem c0)"
| step: "messageReach ops decode c0 y \<Longrightarrow> messageStep ops decode y y' \<Longrightarrow> messageReach ops decode c0 y'"

section \<open>The order of submissions\<close>

record flight =
  flGen :: nat
  flSeq :: uint64

fun inFlight :: "inputStage \<Rightarrow> flight option" where
  "inFlight (Admitted gen sq ev) = Some \<lparr>flGen = gen, flSeq = sq\<rparr>"
| "inFlight (Linked gen sq ev) = Some \<lparr>flGen = gen, flSeq = sq\<rparr>"
| "inFlight (Current gen sq ev) = Some \<lparr>flGen = gen, flSeq = sq\<rparr>"
| "inFlight (Owning gen sq ev) = Some \<lparr>flGen = gen, flSeq = sq\<rparr>"
| "inFlight st = None"

definition goodEvent :: "bool \<Rightarrow> uint64 \<Rightarrow> event \<Rightarrow> bool" where
  "goodEvent motion sq ev \<longleftrightarrow> eventWF ev \<and> evSequence ev = sq \<and> (motion \<longrightarrow> isMotion ev)"

fun goodStage :: "bool \<Rightarrow> inputStage \<Rightarrow> bool" where
  "goodStage m HandlerIdle = True"
| "goodStage m (Checked sq ev) = goodEvent m sq ev"
| "goodStage m (Admitted gen sq ev) = goodEvent m sq ev"
| "goodStage m (Linked gen sq ev) = goodEvent m sq ev"
| "goodStage m (Current gen sq ev) = goodEvent m sq ev"
| "goodStage m (Owning gen sq ev) = goodEvent m sq ev"

definition suSeq :: "submission \<Rightarrow> uint64" where
  "suSeq x = evSequence (suEvent x)"

text \<open>A number of a generation has been taken: the generation has passed, or a number at least as large has been seen in it.\<close>

definition taken :: "bool \<Rightarrow> leaseState \<Rightarrow> nat \<Rightarrow> uint64 \<Rightarrow> bool" where
  "taken m s gen sq \<longleftrightarrow> gen \<le> inputGen m s \<and> (gen = inputGen m s \<longrightarrow> (\<exists>seen. lastSequence m s = Some seen \<and> sq \<le> seen))"

definition flightsOK :: "bool \<Rightarrow> leaseState \<Rightarrow> (nat \<Rightarrow> inputStage) \<Rightarrow> bool" where
  "flightsOK m s S \<longleftrightarrow>
     (\<forall>ch f. inFlight (S ch) = Some f \<longrightarrow> taken m s (flGen f) (flSeq f)
        \<and> (flGen f = inputGen m s \<longrightarrow> inputChannel m s = None \<or> inputChannel m s = Some ch))
     \<and> (\<forall>ch ch' f f'. inFlight (S ch) = Some f \<and> inFlight (S ch') = Some f' \<and> flGen f = flGen f' \<longrightarrow> ch = ch')"

definition logTaken :: "bool \<Rightarrow> leaseState \<Rightarrow> submission list \<Rightarrow> bool" where
  "logTaken m s xs \<longleftrightarrow> (\<forall>x \<in> set xs. suMotion x = m \<longrightarrow> taken m s (suGen x) (suSeq x))"

definition logBefore :: "bool \<Rightarrow> (nat \<Rightarrow> inputStage) \<Rightarrow> submission list \<Rightarrow> bool" where
  "logBefore m S xs \<longleftrightarrow> (\<forall>x \<in> set xs. \<forall>ch f. suMotion x = m \<and> inFlight (S ch) = Some f \<and> flGen f = suGen x \<longrightarrow> suSeq x < flSeq f)"

definition kindInv :: "bool \<Rightarrow> leaseState \<Rightarrow> (nat \<Rightarrow> inputStage) \<Rightarrow> submission list \<Rightarrow> bool" where
  "kindInv m s S xs \<longleftrightarrow> flightsOK m s S \<and> logTaken m s xs \<and> logBefore m S xs"

definition sameRun :: "submission \<Rightarrow> submission \<Rightarrow> bool" where
  "sameRun x y \<longleftrightarrow> suMotion x = suMotion y \<and> suGen x = suGen y"

definition increasing :: "submission list \<Rightarrow> bool" where
  "increasing xs \<longleftrightarrow> sorted_wrt (\<lambda>x y. sameRun x y \<longrightarrow> suSeq x < suSeq y) xs"

subsection \<open>Changes of one channel kind\<close>

lemma taken_later: "taken m s gen sq \<Longrightarrow> inputGen m s < inputGen m s' \<Longrightarrow> taken m s' gen sq"
  by (simp add: taken_def)

lemma taken_same:
  "taken m s gen sq \<Longrightarrow> inputGen m s' = inputGen m s \<Longrightarrow> lastSequence m s' = lastSequence m s \<Longrightarrow> taken m s' gen sq"
  by (simp add: taken_def)

lemma kindInv_later:
  assumes "kindInv m s S xs" "inputGen m s < inputGen m s'"
  shows "kindInv m s' S xs"
proof -
  have old: "flGen f < inputGen m s'" if "inFlight (S ch) = Some f" for ch f
    using that assms unfolding kindInv_def flightsOK_def taken_def by (meson le_less_trans)
  have "flightsOK m s' S"
    using assms(1) old taken_later [OF _ assms(2)] unfolding kindInv_def flightsOK_def by (metis less_irrefl)
  moreover have "logTaken m s' xs"
    using assms(1) taken_later [OF _ assms(2)] unfolding kindInv_def logTaken_def by blast
  ultimately show ?thesis using assms(1) unfolding kindInv_def by blast
qed

lemma kindInv_same:
  assumes "kindInv m s S xs" "inputGen m s' = inputGen m s" "lastSequence m s' = lastSequence m s"
    and "inputChannel m s' = None \<or> inputChannel m s' = inputChannel m s"
  shows "kindInv m s' S xs"
proof -
  have "flightsOK m s' S"
    using assms taken_same [OF _ assms(2,3)] unfolding kindInv_def flightsOK_def by metis
  moreover have "logTaken m s' xs"
    using assms(1) taken_same [OF _ assms(2,3)] unfolding kindInv_def logTaken_def by blast
  ultimately show ?thesis using assms(1) unfolding kindInv_def by blast
qed

lemma kindInv_stage:
  assumes "kindInv m s S xs" "inFlight st = None \<or> inFlight st = inFlight (S ch)"
  shows "kindInv m s (S(ch := st)) xs"
proof -
  have f: "inFlight ((S(ch := st)) c) = Some f \<Longrightarrow> inFlight (S c) = Some f" for c f
    using assms(2) by (cases "c = ch") auto
  have "flightsOK m s (S(ch := st))"
    using assms(1) f unfolding kindInv_def flightsOK_def by blast
  moreover have "logBefore m (S(ch := st)) xs"
    using assms(1) f unfolding kindInv_def logBefore_def by blast
  ultimately show ?thesis using assms(1) unfolding kindInv_def by blast
qed

lemma kindInv_admit:
  assumes inv: "kindInv m s S xs" and ch: "inputChannel m s = Some ch" "inFlight (S ch) = None"
    and sq: "\<And>seen. lastSequence m s = Some seen \<Longrightarrow> seen < sq"
  shows "kindInv m (takeSequence m sq s) (S(ch := Admitted (inputGen m s) sq ev)) xs"
proof -
  let ?s = "takeSequence m sq s" and ?S = "S(ch := Admitted (inputGen m s) sq ev)"
  have s: "inputGen m ?s = inputGen m s" "lastSequence m ?s = Some sq" "inputChannel m ?s = inputChannel m s"
    by (simp_all add: inputGen_def lastSequence_def inputChannel_def takeSequence_def)
  have t: "taken m s g q \<Longrightarrow> taken m ?s g q" for g q
    using sq s by (auto simp: taken_def intro: order_trans less_imp_le)
  have old: "inFlight (?S c) = Some f \<Longrightarrow> c \<noteq> ch \<Longrightarrow> inFlight (S c) = Some f" for c f by simp
  have new: "inFlight (?S ch) = Some f \<Longrightarrow> f = \<lparr>flGen = inputGen m s, flSeq = sq\<rparr>" for f by simp
  have past: "flGen f \<noteq> inputGen m s" if "inFlight (S c) = Some f" "c \<noteq> ch" for c f
  proof
    assume "flGen f = inputGen m s"
    then have "inputChannel m s = None \<or> inputChannel m s = Some c"
      using that(1) inv unfolding kindInv_def flightsOK_def by blast
    then show False using ch(1) that(2) by simp
  qed
  have "flightsOK m ?s ?S"
    unfolding flightsOK_def
  proof (intro conjI allI impI)
    fix c f assume f: "inFlight (?S c) = Some f"
    have "taken m ?s (flGen f) (flSeq f) \<and> (flGen f = inputGen m ?s \<longrightarrow> inputChannel m ?s = None \<or> inputChannel m ?s = Some c)"
    proof (cases "c = ch")
      case True
      with f have "f = \<lparr>flGen = inputGen m s, flSeq = sq\<rparr>" by (intro new) simp
      then show ?thesis using True s ch(1) by (simp add: taken_def)
    next
      case False
      with f have f': "inFlight (S c) = Some f" by (intro old)
      then have "taken m s (flGen f) (flSeq f)" using inv unfolding kindInv_def flightsOK_def by blast
      then show ?thesis using t past [OF f' False] s(1) by simp
    qed
    then show "taken m ?s (flGen f) (flSeq f)"
      and "flGen f = inputGen m ?s \<Longrightarrow> inputChannel m ?s = None \<or> inputChannel m ?s = Some c" by blast+
  next
    fix c c' f f' assume "inFlight (?S c) = Some f \<and> inFlight (?S c') = Some f' \<and> flGen f = flGen f'"
    then have f: "inFlight (?S c) = Some f" "inFlight (?S c') = Some f'" "flGen f = flGen f'" by blast+
    consider "c = ch" "c' = ch" | "c = ch" "c' \<noteq> ch" | "c \<noteq> ch" "c' = ch" | "c \<noteq> ch" "c' \<noteq> ch" by blast
    then show "c = c'"
    proof cases
      case 2
      with f(1) have "f = \<lparr>flGen = inputGen m s, flSeq = sq\<rparr>" by (intro new) simp
      with 2 f(2,3) past [of c' f'] show ?thesis by simp
    next
      case 3
      with f(2) have "f' = \<lparr>flGen = inputGen m s, flSeq = sq\<rparr>" by (intro new) simp
      with 3 f(1,3) past [of c f] show ?thesis by simp
    next
      case 4
      with f(1,2) have "inFlight (S c) = Some f" "inFlight (S c') = Some f'" by simp_all
      with f(3) inv show ?thesis unfolding kindInv_def flightsOK_def by blast
    qed simp
  qed
  moreover have "logTaken m ?s xs"
    using inv t unfolding kindInv_def logTaken_def by blast
  moreover have "logBefore m ?S xs"
    unfolding logBefore_def
  proof (intro ballI allI impI)
    fix x c f assume x: "x \<in> set xs" and f: "suMotion x = m \<and> inFlight (?S c) = Some f \<and> flGen f = suGen x"
    show "suSeq x < flSeq f"
    proof (cases "c = ch")
      case True
      with f have "suGen x = inputGen m s" "flSeq f = sq" by auto
      moreover have "taken m s (suGen x) (suSeq x)" using x f inv unfolding kindInv_def logTaken_def by blast
      ultimately obtain seen where "lastSequence m s = Some seen" "suSeq x \<le> seen" by (auto simp: taken_def)
      then show ?thesis using sq [of seen] \<open>flSeq f = sq\<close> by simp
    next
      case False
      with f have "inFlight (S c) = Some f" by simp
      with x f inv show ?thesis unfolding kindInv_def logBefore_def by blast
    qed
  qed
  ultimately show ?thesis unfolding kindInv_def by blast
qed

lemma kindInv_submit:
  assumes inv: "kindInv m s S xs" and f: "inFlight (S ch) = Some f" "suMotion x = m" "suGen x = flGen f" "suSeq x = flSeq f"
  shows "kindInv m s (S(ch := HandlerIdle)) (xs @ [x])"
proof -
  have k: "kindInv m s (S(ch := HandlerIdle)) xs" using inv by (rule kindInv_stage) simp
  have "taken m s (suGen x) (suSeq x)" using inv f unfolding kindInv_def flightsOK_def by metis
  then have "logTaken m s (xs @ [x])" using k unfolding kindInv_def logTaken_def by auto
  moreover have "logBefore m (S(ch := HandlerIdle)) (xs @ [x])"
    unfolding logBefore_def
  proof (intro ballI allI impI)
    fix z c f' assume z: "z \<in> set (xs @ [x])" and c: "suMotion z = m \<and> inFlight ((S(ch := HandlerIdle)) c) = Some f' \<and> flGen f' = suGen z"
    then have "c \<noteq> ch" "inFlight (S c) = Some f'" by (auto split: if_splits)
    then show "suSeq z < flSeq f'"
      using z c f inv unfolding kindInv_def flightsOK_def logBefore_def by (cases "z = x") auto
  qed
  ultimately show ?thesis using k unfolding kindInv_def by blast
qed

lemma kindInv_other:
  assumes "kindInv m s S xs" "m' \<noteq> m"
  shows "kindInv m (takeSequence m' sq s) S xs" "suMotion x = m' \<Longrightarrow> kindInv m s S (xs @ [x])"
proof -
  show "kindInv m (takeSequence m' sq s) S xs"
    using assms(1) by (rule kindInv_same) (use assms(2) in \<open>auto simp: inputGen_def lastSequence_def inputChannel_def takeSequence_def\<close>)
  show "kindInv m s S (xs @ [x])" if "suMotion x = m'"
    using assms that unfolding kindInv_def logTaken_def logBefore_def by auto
qed

lemma increasing_snoc:
  assumes "increasing xs" "kindInv m s S xs" "inFlight (S ch) = Some f" "suMotion x = m" "suGen x = flGen f" "suSeq x = flSeq f"
  shows "increasing (xs @ [x])"
  using assms unfolding increasing_def sorted_wrt_append kindInv_def logBefore_def sameRun_def by auto

lemma channelStep_kind:
  assumes "channelStep s s'"
  shows "inputGen m s < inputGen m s' \<or> inputGen m s' = inputGen m s \<and> lastSequence m s' = lastSequence m s
    \<and> (inputChannel m s' = None \<or> inputChannel m s' = inputChannel m s)"
proof -
  note defs = setControlChannel_def controlCleanup_def setInputChannel_def inputCleanup_def setInputMotionChannel_def motionCleanup_def
    beginClose_def bumpLease_def armLease_def onInputRevoked_def Let_def inputGen_def lastSequence_def inputChannel_def
  show ?thesis
    using assms by cases (cases m; auto simp: defs split: if_splits)+
qed

subsection \<open>The whole peer\<close>

lemma checkInputMessage_good:
  assumes "checkInputMessage decode m isString data = Inr (sq, ev)"
  shows "goodEvent m sq ev"
proof -
  obtain r where r: "decode data = (r, None)" "validateInputRequest r = Inr ev" "m \<longrightarrow> isMotion ev"
      "sq = (case irSequence r of None \<Rightarrow> 0 | Some q \<Rightarrow> q)"
    using assms by (auto simp: checkInputMessage_def isMotion_def Let_def split: if_splits prod.splits option.splits sum.splits)
  then obtain q kind where h: "requestHeader r q kind" "q \<noteq> 0" "validateKind kind r (zeroEvent q) = Inr ev"
    unfolding validateInputRequest_Inr by blast
  then have ev: "eventWF ev" "r = encodeEvent ev" using validateKind_Inr [of r q kind ev] by blast+
  have "irSequence (encodeEvent ev) = Some (evSequence ev)"
    by (cases "evType ev") (simp_all add: encodeEvent_def emptyRequest_def)
  with r ev show ?thesis by (simp add: goodEvent_def)
qed

definition messageInv :: "'c messageSystem \<Rightarrow> bool" where
  "messageInv y \<longleftrightarrow> (\<forall>m. kindInv m (isPeer y) (isStage y m) (isLog y)) \<and> increasing (isLog y)
     \<and> (\<forall>m ch. goodStage m (isStage y m ch)) \<and> (\<forall>x \<in> set (isLog y). goodEvent (suMotion x) (suSeq x) (suEvent x))"

lemma messageInv_frame:
  "isPeer y' = isPeer y \<Longrightarrow> isStage y' = isStage y \<Longrightarrow> isLog y' = isLog y \<Longrightarrow> messageInv y' = messageInv y"
  by (simp add: messageInv_def)

lemma writeInputError_frame [simp]:
  "isPeer (writeInputError m ch e y) = isPeer y" "isStage (writeInputError m ch e y) = isStage y"
  "isLog (writeInputError m ch e y) = isLog y" "isController (writeInputError m ch e y) = isController y"
  by (simp_all add: writeInputError_def)

lemma messageInv_error [simp]: "messageInv (writeInputError m ch e y) = messageInv y"
  by (rule messageInv_frame) simp_all

lemma toStage_frame [simp]:
  "isPeer (toStage m ch st y) = isPeer y" "isLog (toStage m ch st y) = isLog y"
  "isStage (toStage m ch st y) m' = (if m' = m then (isStage y m)(ch := st) else isStage y m')"
  by (simp_all add: toStage_def)

lemma messageInv_stage:
  assumes "messageInv y" "inFlight st = None \<or> inFlight st = inFlight (isStage y m ch)" "goodStage m st"
  shows "messageInv (toStage m ch st y)"
proof -
  have "kindInv k (isPeer y) (isStage (toStage m ch st y) k) (isLog y)" for k
    using assms(1,2) kindInv_stage [of m "isPeer y" "isStage y m" "isLog y" st ch]
    by (cases "k = m") (simp_all add: messageInv_def)
  then show ?thesis using assms(1,3) by (simp add: messageInv_def)
qed

lemma messageInv_idle: "messageInv y \<Longrightarrow> messageInv (toStage m ch HandlerIdle y)"
  by (rule messageInv_stage) simp_all

lemma messageInv_arrive:
  assumes "messageInv y"
  shows "messageInv (arrive decode m ch isString data y)"
proof -
  let ?y = "y\<lparr>isSeen := isSeen y + 1\<rparr>"
  have y: "messageInv ?y" using assms by (simp add: messageInv_def)
  show ?thesis
  proof (cases "checkInputMessage decode m isString data")
    case (Inr a)
    obtain sq ev where a: "a = (sq, ev)" by fastforce
    with Inr have "goodStage m (Checked sq ev)" using checkInputMessage_good by simp
    then have "messageInv (toStage m ch (Checked sq ev) ?y)" using y by (intro messageInv_stage) simp_all
    then show ?thesis using Inr a assms by (simp add: arrive_def)
  qed (use assms y in \<open>simp add: arrive_def\<close>)
qed

lemma messageInv_admit:
  assumes inv: "messageInv y" and stage: "isStage y m ch = Checked sq ev"
  shows "messageInv (admit m ch sq ev y)"
proof (cases "inputChannel m (isPeer y) = Some ch \<and> \<not> closingNow (isPeer y)
    \<and> \<not> (case lastSequence m (isPeer y) of None \<Rightarrow> False | Some seen \<Rightarrow> sq \<le> seen)")
  case True
  let ?s = "takeSequence m sq (isPeer y)"
  let ?y = "toStage m ch (Admitted (inputGen m (isPeer y)) sq ev) (y\<lparr>isPeer := ?s\<rparr>)"
  have k: "kindInv k (isPeer y) (isStage y k) (isLog y)" for k using inv by (simp add: messageInv_def)
  have "kindInv k ?s (isStage ?y k) (isLog y)" for k
  proof (cases "k = m")
    case same: True
    have "kindInv m ?s ((isStage y m)(ch := Admitted (inputGen m (isPeer y)) sq ev)) (isLog y)"
      using k True stage by (intro kindInv_admit) (auto split: option.splits)
    with same show ?thesis by simp
  next
    case False
    with k [of k] kindInv_other(1) [of k "isPeer y" "isStage y k" "isLog y" m sq] show ?thesis by simp
  qed
  moreover have "goodEvent m sq ev" using inv stage unfolding messageInv_def by (metis goodStage.simps(2))
  ultimately have "messageInv ?y" using inv by (simp add: messageInv_def)
  with True show ?thesis by (simp add: admit_def)
next
  case False
  with inv show ?thesis by (auto simp: admit_def intro!: messageInv_idle)
qed

lemma messageInv_submit:
  assumes inv: "messageInv y" and stage: "isStage y m ch = Owning gen sq ev"
  shows "messageInv (submitEvent ops m ch gen sq ev y)"
proof -
  let ?x = "\<lparr>suMotion = m, suGen = gen, suEvent = ev\<rparr>"
  let ?f = "\<lparr>flGen = gen, flSeq = sq\<rparr>"
  obtain e c where s: "icSubmit ops ev (isController y) = (e, c)" by fastforce
  let ?y = "toStage m ch HandlerIdle (y\<lparr>isController := c, isLog := isLog y @ [?x]\<rparr>)"
  have good: "goodEvent m sq ev" using inv stage unfolding messageInv_def by (metis goodStage.simps(6))
  then have x: "suSeq ?x = flSeq ?f" by (simp add: suSeq_def goodEvent_def)
  have k: "kindInv k (isPeer y) (isStage y k) (isLog y)" for k using inv by (simp add: messageInv_def)
  have f: "inFlight (isStage y m ch) = Some ?f" using stage by simp
  have "kindInv k (isPeer y) (isStage ?y k) (isLog y @ [?x])" for k
  proof (cases "k = m")
    case True
    with kindInv_submit [OF k [of m] f _ _ x] show ?thesis by simp
  next
    case False
    with k [of k] kindInv_other(2) [of k "isPeer y" "isStage y k" "isLog y" m ?x] show ?thesis by simp
  qed
  moreover have "increasing (isLog y @ [?x])"
    using inv by (intro increasing_snoc [OF _ k [of m] f _ _ x]) (simp_all add: messageInv_def)
  ultimately have y: "messageInv ?y" using inv good x by (auto simp: messageInv_def)
  then have "messageInv (?y\<lparr>isDone := d\<rparr>)" "messageInv (?y\<lparr>isOverloads := n\<rparr>)" for d n by (simp_all add: messageInv_def)
  with y show ?thesis by (auto simp: submitEvent_def s Let_def split: option.splits)
qed

lemma messageInv_advance:
  assumes "messageInv y"
  shows "messageInv (advance ops m ch y)"
proof -
  have good: "goodStage m (isStage y m ch)" using assms by (simp add: messageInv_def)
  have idle: "messageInv (toStage m ch HandlerIdle (writeInputError m ch e y))" for e
    using assms by (intro messageInv_idle) simp
  have forward: "messageInv (toStage m ch st y)" if "inFlight st = inFlight (isStage y m ch)" "goodStage m st" for st
    using assms that by (intro messageInv_stage) simp_all
  note simps = advance_def idle messageInv_idle [OF assms]
  show ?thesis
  proof (cases "isStage y m ch")
    case HandlerIdle
    with assms show ?thesis by (simp add: advance_def)
  next
    case (Checked sq ev)
    with assms show ?thesis by (simp add: advance_def messageInv_admit)
  next
    case (Admitted gen sq ev)
    then show ?thesis using forward [of "Linked gen sq ev"] good by (simp add: simps)
  next
    case (Linked gen sq ev)
    then show ?thesis using forward [of "Current gen sq ev"] good by (simp add: simps)
  next
    case (Current gen sq ev)
    then show ?thesis using forward [of "Owning gen sq ev"] good by (simp add: simps)
  next
    case (Owning gen sq ev)
    with assms show ?thesis by (simp add: advance_def messageInv_submit)
  qed
qed

lemma messageInv_channels:
  assumes "messageInv y" "channelStep (isPeer y) s'"
  shows "messageInv (y\<lparr>isPeer := s'\<rparr>)"
proof -
  have "kindInv m s' (isStage y m) (isLog y)" for m
    using assms(1) channelStep_kind [OF assms(2), of m] kindInv_later kindInv_same unfolding messageInv_def by metis
  with assms(1) show ?thesis by (simp add: messageInv_def)
qed

lemma messageInv_new: "messageInv (newMessageSystem c)"
  by (simp add: messageInv_def newMessageSystem_def kindInv_def flightsOK_def logTaken_def logBefore_def increasing_def)

lemma messageInv_step:
  assumes "messageStep ops decode y y'" "messageInv y"
  shows "messageInv y'"
  using assms(1)
proof cases
  case (controller c)
  then show ?thesis using assms(2) by (simp add: messageInv_def)
qed (use assms(2) in \<open>simp_all add: messageInv_arrive messageInv_advance messageInv_channels\<close>)

lemma messageInv_reach: "messageReach ops decode c0 y \<Longrightarrow> messageInv y"
  by (induction rule: messageReach.induct) (auto intro: messageInv_new messageInv_step)

subsection \<open>An uninterrupted handler\<close>

lemma messageReach_handle:
  assumes "messageReach ops decode c0 y" "isStage y m ch = HandlerIdle"
  shows "messageReach ops decode c0 (handleInputMessage ops decode m ch isString data y)"
proof -
  have "messageReach ops decode c0 ((advance ops m ch ^^ n) (arrive decode m ch isString data y))" for n
    by (induction n) (use assms in \<open>auto intro: messageReach.step messageStep.intros\<close>)
  then show ?thesis by (simp add: handleInputMessage_def)
qed

lemma checkInputMessage_accepts:
  assumes "length data \<le> 4096" "utf8Valid data" "decode data = (encodeEvent ev, None)" "eventWF ev" "m \<longrightarrow> isMotion ev"
  shows "checkInputMessage decode m True data = Inr (evSequence ev, ev)"
proof -
  have "irSequence (encodeEvent ev) = Some (evSequence ev)"
    by (cases "evType ev") (simp_all add: encodeEvent_def emptyRequest_def)
  moreover have "validateInputRequest (encodeEvent ev) = Inr ev" using assms(4) by (rule encodeEvent_accepted)
  ultimately show ?thesis
    using assms by (auto simp: checkInputMessage_def maxInputMessageBytes_def isMotion_def)
qed

text \<open>A well-formed message with a new number from the owner of the lease is handed to the controller.\<close>

lemma handleInputMessage_submits:
  assumes idle: "isStage y m ch = HandlerIdle" and s: "inputChannel m (isPeer y) = Some ch" "\<not> closingNow (isPeer y)" "lsConnected (isPeer y)"
    and msg: "checkInputMessage decode m True data = Inr (sq, ev)"
    and new: "\<And>seen. lastSequence m (isPeer y) = Some seen \<Longrightarrow> seen < sq" and own: "icOwner ops (isController y)"
  shows "handleInputMessage ops decode m ch True data y
    = submitEvent ops m ch (inputGen m (isPeer y)) sq ev (y\<lparr>isSeen := isSeen y + 1, isPeer := takeSequence m sq (isPeer y)\<rparr>)"
proof -
  let ?s = "takeSequence m sq (isPeer y)" and ?g = "inputGen m (isPeer y)"
  let ?y = "y\<lparr>isSeen := isSeen y + 1, isPeer := ?s\<rparr>"
  have t: "inputChannel m ?s = Some ch" "\<not> closingNow ?s" "lsConnected ?s" "inputGen m ?s = ?g"
    using s by (cases m; simp add: takeSequence_def inputChannel_def inputGen_def closingNow_def)+
  have two: "toStage m ch a (toStage m ch b z) = toStage m ch a z" for a b and z :: "'a messageSystem"
    by (simp add: toStage_def)
  have 0: "arrive decode m ch True data y = toStage m ch (Checked sq ev) (y\<lparr>isSeen := isSeen y + 1\<rparr>)"
    using s msg by (simp add: arrive_def)
  have "\<not> (case lastSequence m (isPeer y) of None \<Rightarrow> False | Some seen \<Rightarrow> sq \<le> seen)"
    using new by (auto split: option.splits)
  then have 1: "advance ops m ch (toStage m ch (Checked sq ev) (y\<lparr>isSeen := isSeen y + 1\<rparr>)) = toStage m ch (Admitted ?g sq ev) ?y"
    using s by (simp add: advance_def admit_def toStage_def)
  have 2: "advance ops m ch (toStage m ch (Admitted ?g sq ev) ?y) = toStage m ch (Linked ?g sq ev) ?y"
    using t by (simp add: advance_def two)
  have 3: "advance ops m ch (toStage m ch (Linked ?g sq ev) ?y) = toStage m ch (Current ?g sq ev) ?y"
    using t by (simp add: advance_def two)
  have 4: "advance ops m ch (toStage m ch (Current ?g sq ev) ?y) = toStage m ch (Owning ?g sq ev) ?y"
    using own by (simp add: advance_def two) (simp add: toStage_def)
  have 5: "advance ops m ch (toStage m ch (Owning ?g sq ev) ?y) = submitEvent ops m ch ?g sq ev ?y"
    by (simp add: advance_def submitEvent_def toStage_def)
  have five: "(f ^^ 5) z = f (f (f (f (f z))))" for f :: "'a messageSystem \<Rightarrow> 'a messageSystem" and z
    by (simp add: numeral_eq_Suc)
  show ?thesis by (simp only: handleInputMessage_def five 0 1 2 3 4 5)
qed

section \<open>Properties\<close>

text \<open>
  C28: However the handlers of the two input channels interleave with each other and with channels that are opened,
  replaced, revoked and closed, the events handed to the input controller from one channel have strictly increasing
  sequence numbers, so none is handed over twice or out of order.  Each of them is well formed, and the
  unreliable channel only carries pointer motion.
\<close>

theorem input_submissions_ordered:
  assumes "messageReach ops decode c0 y"
  shows "sorted_wrt (\<lambda>a b. suMotion a = suMotion b \<and> suGen a = suGen b \<longrightarrow> evSequence (suEvent a) < evSequence (suEvent b)) (isLog y)
    \<and> (\<forall>a \<in> set (isLog y). eventWF (suEvent a) \<and> (suMotion a \<longrightarrow> isMotion (suEvent a)))"
proof -
  have "messageInv y" using assms by (rule messageInv_reach)
  then show ?thesis
    by (simp add: messageInv_def increasing_def sameRun_def suSeq_def goodEvent_def)
qed

text \<open>The channel is opened, and two key presses arrive.\<close>

definition demoPress :: "uint64 \<Rightarrow> event" where
  "demoPress sq = (zeroEvent sq)\<lparr>evType := EventKeyboardKey, evKeycode := 30, evPressed := True\<rparr>"

definition demoCalls :: "unit inputCalls" where
  "demoCalls = \<lparr>icOwner = (\<lambda>_. True), icSubmit = (\<lambda>_ c. (None, c))\<rparr>"

definition demoInputDecode :: "string \<Rightarrow> inputRequest \<times> goerror option" where
  "demoInputDecode data = (encodeEvent (demoPress (if data = ''a'' then 1 else 2)), None)"

definition demoOpen :: "unit messageSystem" where
  "demoOpen = (newMessageSystem ())\<lparr>isPeer := (fst (setInputChannel 4 newLeaseState))\<lparr>lsConnected := True\<rparr>\<rparr>"

definition demoFirst :: "unit messageSystem" where
  "demoFirst = submitEvent demoCalls False 4 1 1 (demoPress 1) (demoOpen\<lparr>isSeen := 1, isPeer := takeSequence False 1 (isPeer demoOpen)\<rparr>)"

definition demoSecond :: "unit messageSystem" where
  "demoSecond = submitEvent demoCalls False 4 1 2 (demoPress 2) (demoFirst\<lparr>isSeen := 2, isPeer := takeSequence False 2 (isPeer demoFirst)\<rparr>)"

lemma press_open: "messageReach demoCalls demoInputDecode () demoOpen"
proof -
  let ?s = "fst (setInputChannel 4 newLeaseState)"
  have "messageReach demoCalls demoInputDecode () ((newMessageSystem ())\<lparr>isPeer := ?s\<rparr>)"
    by (rule messageReach.step [OF messageReach.init messageStep.channels]) (simp add: newMessageSystem_def channelStep.setInput [of 4 _ _ False] setInputChannel_def newLeaseState_def)
  from messageReach.step [OF this messageStep.channels [OF channelStep.connect [of _ True]]] show ?thesis
    by (simp add: demoOpen_def)
qed

lemma press_messages:
  "checkInputMessage demoInputDecode False True ''a'' = Inr (1, demoPress 1)"
  "checkInputMessage demoInputDecode False True ''b'' = Inr (2, demoPress 2)"
proof -
  have v: "utf8Valid ''a''" "utf8Valid ''b''" by (simp_all add: utf8Valid_def runesW_code runeError_def)
  have "eventWF (demoPress 1)" "eventWF (demoPress 2)" by (simp_all add: eventWF_def demoPress_def zeroEvent_def)
  with v checkInputMessage_accepts [of "''a''" demoInputDecode "demoPress 1" False] checkInputMessage_accepts [of "''b''" demoInputDecode "demoPress 2" False]
  show "checkInputMessage demoInputDecode False True ''a'' = Inr (1, demoPress 1)"
    "checkInputMessage demoInputDecode False True ''b'' = Inr (2, demoPress 2)"
    by (simp_all add: demoInputDecode_def demoPress_def zeroEvent_def)
qed

lemmas press_defs = demoOpen_def demoFirst_def newMessageSystem_def setInputChannel_def newLeaseState_def submitEvent_def demoCalls_def
  takeSequence_def toStage_def inputChannel_def inputGen_def lastSequence_def closingNow_def Let_def

lemma press_second: "messageReach demoCalls demoInputDecode () demoSecond"
proof -
  have "handleInputMessage demoCalls demoInputDecode False 4 True ''a'' demoOpen = demoFirst"
    unfolding demoFirst_def by (subst handleInputMessage_submits [OF _ _ _ _ press_messages(1)]) (simp_all add: press_defs)
  then have r: "messageReach demoCalls demoInputDecode () demoFirst"
    using messageReach_handle [OF press_open, of False 4 True "''a''"] by (simp add: press_defs)
  have "handleInputMessage demoCalls demoInputDecode False 4 True ''b'' demoFirst = demoSecond"
    unfolding demoSecond_def by (subst handleInputMessage_submits [OF _ _ _ _ press_messages(2)]) (simp_all add: press_defs)
  then show ?thesis
    using messageReach_handle [OF r, of False 4 True "''b''"] by (simp add: press_defs)
qed

theorem input_submissions_ordered_witness:
  "map suEvent (isLog demoSecond) = [demoPress 1, demoPress 2] \<and> isDone demoSecond = 2
    \<and> sorted_wrt (\<lambda>a b. suMotion a = suMotion b \<and> suGen a = suGen b \<longrightarrow> evSequence (suEvent a) < evSequence (suEvent b)) (isLog demoSecond)"
  using input_submissions_ordered [OF press_second] by (simp add: demoSecond_def press_defs demoPress_def)

end
