(* ===== verification/Application_Channels.thy ===== *)
theory Application_Channels
  imports Prelude
begin

text \<open>
  Data channels of a peer: which ones it takes (\<open>onDataChannel\<close> in \<open>src/webrtc/control.go\<close>), and the channels of an
  embedding application (\<open>src/webrtc/application.go\<close>).  Pion runs the callbacks of a channel in goroutines of
  their own, so each critical section, each atomic access and each call of the application's handler is a step.
\<close>

subsection \<open>Accepting channels\<close>

datatype appKind = ApplicationChannelReliable | ApplicationChannelRealtime

record channelParams =
  cpLabel :: string
  cpOrdered :: bool
  cpMaxPacketLifeTime :: "uint16 option"
  cpMaxRetransmits :: "uint16 option"

definition reliableOrdered :: "channelParams \<Rightarrow> bool" where
  "reliableOrdered c \<longleftrightarrow> cpOrdered c \<and> cpMaxPacketLifeTime c = None \<and> cpMaxRetransmits c = None"

definition unorderedOnce :: "channelParams \<Rightarrow> bool" where
  "unorderedOnce c \<longleftrightarrow> \<not> cpOrdered c \<and> cpMaxPacketLifeTime c = None \<and> cpMaxRetransmits c = Some 0"

definition validApplicationChannelParameters :: "channelParams \<Rightarrow> appKind \<Rightarrow> bool" where
  "validApplicationChannelParameters c kind =
    (case kind of ApplicationChannelReliable \<Rightarrow> reliableOrdered c | ApplicationChannelRealtime \<Rightarrow> unorderedOnce c)"

datatype channelRole = ControlRole | InputRole | MotionRole | ClipboardRole | ApplicationRole appKind

text \<open>The role of a new channel, or \<open>None\<close> when it is closed; the delivery checks of the setters included.\<close>

definition onDataChannel :: "bool \<Rightarrow> bool \<Rightarrow> bool \<Rightarrow> bool \<Rightarrow> channelParams \<Rightarrow> channelRole option" where
  "onDataChannel closing applicationOnly clipboardEnabled hasHandler c =
    (let label = cpLabel c
     in if closing then None
        else if applicationOnly \<and> label \<noteq> ''application'' \<and> label \<noteq> ''application-realtime'' then None
        else if label = ''control'' then (if reliableOrdered c then Some ControlRole else None)
        else if label = ''input'' then (if reliableOrdered c then Some InputRole else None)
        else if label = ''input-motion'' then (if unorderedOnce c then Some MotionRole else None)
        else if label = ''clipboard'' then (if clipboardEnabled then Some ClipboardRole else None)
        else if label = ''application'' then
          (if hasHandler \<and> validApplicationChannelParameters c ApplicationChannelReliable then Some (ApplicationRole ApplicationChannelReliable) else None)
        else if label = ''application-realtime'' then
          (if hasHandler \<and> validApplicationChannelParameters c ApplicationChannelRealtime then Some (ApplicationRole ApplicationChannelRealtime) else None)
        else None)"

subsection \<open>State\<close>

definition maxApplicationMessageBytes :: nat where "maxApplicationMessageBytes = 1024 * 1024"

record appMessage =
  amData :: "uint8 list"
  amIsString :: bool

text \<open>The calls of the application's handler.\<close>

datatype appEvent =
    AppOpened appKind nat
  | AppMessage appKind nat appMessage
  | AppClosed appKind nat

text \<open>
  A callback in the middle of its work: after the check that the channel is current, after it has marked the channel as
  opened, after it has detached the channel, and about to call the handler.
\<close>

datatype appAct =
    OpenChecked appKind nat
  | CallOpened appKind nat
  | MessageChecked appKind nat appMessage
  | Detached appKind nat
  | CallClosed appKind nat

text \<open>\<open>acSet\<close> records the channels that have been set, \<open>acLog\<close> the calls of the handler.\<close>

record appState =
  acReliable :: "nat option"
  acRealtime :: "nat option"
  acOpened :: "nat \<Rightarrow> bool"
  acClosing :: bool
  acSet :: "nat \<Rightarrow> bool"
  acActs :: "appAct list"
  acLog :: "appEvent list"

definition newAppState :: appState where
  "newAppState = \<lparr>acReliable = None, acRealtime = None, acOpened = (\<lambda>_. False), acClosing = False, acSet = (\<lambda>_. False), acActs = [], acLog = []\<rparr>"

definition appSlot :: "appKind \<Rightarrow> appState \<Rightarrow> nat option" where
  "appSlot kind s = (case kind of ApplicationChannelReliable \<Rightarrow> acReliable s | ApplicationChannelRealtime \<Rightarrow> acRealtime s)"

definition setSlot :: "appKind \<Rightarrow> nat option \<Rightarrow> appState \<Rightarrow> appState" where
  "setSlot kind c s = (case kind of ApplicationChannelReliable \<Rightarrow> s\<lparr>acReliable := c\<rparr> | ApplicationChannelRealtime \<Rightarrow> s\<lparr>acRealtime := c\<rparr>)"

definition addActs :: "appAct list \<Rightarrow> appState \<Rightarrow> appState" where
  "addActs as s = s\<lparr>acActs := acActs s @ as\<rparr>"

subsection \<open>Operations\<close>

text \<open>\<open>setApplicationChannel\<close> after its checks; an occupied slot rejects the channel.\<close>

definition setApplicationChannel :: "appKind \<Rightarrow> nat \<Rightarrow> appState \<Rightarrow> bool \<times> appState" where
  "setApplicationChannel kind ch s =
    (if appSlot kind s \<noteq> None then (False, s) else (True, (setSlot kind (Some ch) s)\<lparr>acSet := (acSet s)(ch := True)\<rparr>))"

definition applicationChannelCurrent :: "appKind \<Rightarrow> nat \<Rightarrow> appState \<Rightarrow> bool" where
  "applicationChannelCurrent kind ch s \<longleftrightarrow> \<not> acClosing s \<and> appSlot kind s = Some ch"

definition detachApplicationChannel :: "appKind \<Rightarrow> nat \<Rightarrow> appState \<Rightarrow> bool \<times> appState" where
  "detachApplicationChannel kind ch s = (if appSlot kind s = Some ch then (True, setSlot kind None s) else (False, s))"

definition onOpen :: "appKind \<Rightarrow> nat \<Rightarrow> appState \<Rightarrow> appState" where
  "onOpen kind ch s = (if applicationChannelCurrent kind ch s then addActs [OpenChecked kind ch] s else s)"

definition cleanup :: "appKind \<Rightarrow> nat \<Rightarrow> appState \<Rightarrow> appState" where
  "cleanup kind ch s = (let (owned, s') = detachApplicationChannel kind ch s in if owned then addActs [Detached kind ch] s' else s')"

text \<open>A message above the limit is dropped and its channel closed, which runs the close callback.\<close>

definition onMessage :: "appKind \<Rightarrow> nat \<Rightarrow> appMessage \<Rightarrow> appState \<Rightarrow> appState" where
  "onMessage kind ch m s =
    (if \<not> applicationChannelCurrent kind ch s \<or> length (amData m) > maxApplicationMessageBytes then s
     else addActs [MessageChecked kind ch m] s)"

definition closeApplicationChannels :: "appState \<Rightarrow> appState" where
  "closeApplicationChannels s =
    addActs ((case acReliable s of None \<Rightarrow> [] | Some c \<Rightarrow> [Detached ApplicationChannelReliable c])
       @ (case acRealtime s of None \<Rightarrow> [] | Some c \<Rightarrow> [Detached ApplicationChannelRealtime c])) (s\<lparr>acReliable := None, acRealtime := None\<rparr>)"

text \<open>The next access or call of a callback.\<close>

definition runAct :: "appAct \<Rightarrow> appState \<Rightarrow> appState" where
  "runAct a s =
    (case a of
       OpenChecked kind ch \<Rightarrow> if acOpened s ch then s else addActs [CallOpened kind ch] (s\<lparr>acOpened := (acOpened s)(ch := True)\<rparr>)
     | CallOpened kind ch \<Rightarrow> s\<lparr>acLog := acLog s @ [AppOpened kind ch]\<rparr>
     | MessageChecked kind ch m \<Rightarrow> s\<lparr>acLog := acLog s @ [AppMessage kind ch m]\<rparr>
     | Detached kind ch \<Rightarrow> if acOpened s ch then addActs [CallClosed kind ch] s else s
     | CallClosed kind ch \<Rightarrow> s\<lparr>acLog := acLog s @ [AppClosed kind ch]\<rparr>)"

definition ErrApplicationMessageLarge :: goerror where "ErrApplicationMessageLarge = errorsNew ''application message exceeds 1048576 bytes''"
definition ErrApplicationUnavailable :: goerror where "ErrApplicationUnavailable = errorsNew ''application data channel is unavailable''"

text \<open>\<open>sendApplication\<close>; the last argument is the result of the send.\<close>

definition sendApplication :: "appKind \<Rightarrow> appMessage \<Rightarrow> (nat \<Rightarrow> bool) \<Rightarrow> (nat \<Rightarrow> appMessage \<Rightarrow> goerror option) \<Rightarrow> appState \<Rightarrow> goerror option" where
  "sendApplication kind m ready send s =
    (if length (amData m) > maxApplicationMessageBytes then Some ErrApplicationMessageLarge
     else (case appSlot kind s of
             None \<Rightarrow> Some ErrApplicationUnavailable
           | Some ch \<Rightarrow> if \<not> acOpened s ch \<or> \<not> ready ch then Some ErrApplicationUnavailable else send ch m))"

section \<open>Interleavings\<close>

text \<open>Pion hands a channel over once; the callbacks of a channel exist once it has been set.\<close>

inductive appStep :: "appState \<Rightarrow> appState \<Rightarrow> bool" where
  setChannel: "\<not> acSet s ch \<Longrightarrow> setApplicationChannel kind ch s = (b, s') \<Longrightarrow> appStep s s'"
| opened: "appStep s (onOpen kind ch s)"
| gone: "appStep s (cleanup kind ch s)"
| message: "appStep s (onMessage kind ch m s)"
| run: "a \<in> set (acActs s) \<Longrightarrow> appStep s (runAct a (s\<lparr>acActs := remove1 a (acActs s)\<rparr>))"
| closing: "appStep s (s\<lparr>acClosing := True\<rparr>)"
| closeAll: "acClosing s \<Longrightarrow> appStep s (closeApplicationChannels s)"

inductive appReach :: "appState \<Rightarrow> bool" where
  init: "appReach newAppState"
| step: "appReach s \<Longrightarrow> appStep s s' \<Longrightarrow> appReach s'"

subsection \<open>Counting\<close>

fun openedEvents :: "nat \<Rightarrow> appEvent \<Rightarrow> nat" where
  "openedEvents ch (AppOpened kind c) = (if c = ch then 1 else 0)"
| "openedEvents ch e = 0"

fun closedEvents :: "nat \<Rightarrow> appEvent \<Rightarrow> nat" where
  "closedEvents ch (AppClosed kind c) = (if c = ch then 1 else 0)"
| "closedEvents ch e = 0"

fun openActs :: "nat \<Rightarrow> appAct \<Rightarrow> nat" where
  "openActs ch (CallOpened kind c) = (if c = ch then 1 else 0)"
| "openActs ch a = 0"

fun closeActs :: "nat \<Rightarrow> appAct \<Rightarrow> nat" where
  "closeActs ch (Detached kind c) = (if c = ch then 1 else 0)"
| "closeActs ch (CallClosed kind c) = (if c = ch then 1 else 0)"
| "closeActs ch a = 0"

definition attached :: "nat \<Rightarrow> appState \<Rightarrow> nat" where
  "attached ch s = (if acReliable s = Some ch then 1 else 0) + (if acRealtime s = Some ch then 1 else 0)"

definition opens :: "nat \<Rightarrow> appState \<Rightarrow> nat" where
  "opens ch s = sum_list (map (openedEvents ch) (acLog s)) + sum_list (map (openActs ch) (acActs s))"

definition closes :: "nat \<Rightarrow> appState \<Rightarrow> nat" where
  "closes ch s = sum_list (map (closedEvents ch) (acLog s)) + sum_list (map (closeActs ch) (acActs s)) + attached ch s"

fun closesOpened :: "nat \<Rightarrow> appAct \<Rightarrow> bool" where
  "closesOpened ch (CallClosed kind c) = (c = ch)"
| "closesOpened ch a = False"

fun smallMessage :: "appEvent \<Rightarrow> bool" where
  "smallMessage (AppMessage kind ch m) = (length (amData m) \<le> maxApplicationMessageBytes)"
| "smallMessage e = True"

fun smallAct :: "appAct \<Rightarrow> bool" where
  "smallAct (MessageChecked kind ch m) = (length (amData m) \<le> maxApplicationMessageBytes)"
| "smallAct a = True"

definition appInv :: "appState \<Rightarrow> bool" where
  "appInv s \<longleftrightarrow> (\<forall>ch. opens ch s = (if acOpened s ch then 1 else 0)) \<and> (\<forall>ch. closes ch s \<le> (if acSet s ch then 1 else 0))
     \<and> (\<forall>ch. (\<exists>a \<in> set (acActs s). closesOpened ch a) \<or> (\<exists>kind. AppClosed kind ch \<in> set (acLog s)) \<longrightarrow> acOpened s ch)
     \<and> list_all smallMessage (acLog s) \<and> list_all smallAct (acActs s)"

lemmas app_counts = opens_def closes_def attached_def

lemma slot_simps [simp]:
  "acOpened (setSlot kind c s) = acOpened s" "acSet (setSlot kind c s) = acSet s" "acActs (setSlot kind c s) = acActs s"
  "acLog (setSlot kind c s) = acLog s" "acClosing (setSlot kind c s) = acClosing s"
  by (cases kind; simp add: setSlot_def)+

lemma acts_simps [simp]:
  "acOpened (addActs as s) = acOpened s" "acSet (addActs as s) = acSet s" "acActs (addActs as s) = acActs s @ as"
  "acLog (addActs as s) = acLog s" "attached ch (addActs as s) = attached ch s"
  by (simp_all add: addActs_def attached_def)

lemma attached_slot: "appSlot kind s = Some c \<Longrightarrow> attached ch (setSlot kind None s) + (if c = ch then 1 else 0) = attached ch s"
  by (cases kind) (simp_all add: appSlot_def setSlot_def attached_def)

lemma attached_free: "appSlot kind s = None \<Longrightarrow> attached ch (setSlot kind (Some c) s) = attached ch s + (if c = ch then 1 else 0)"
  by (cases kind) (simp_all add: appSlot_def setSlot_def attached_def)

lemma attached_sets [simp]: "attached ch (s\<lparr>acSet := f\<rparr>) = attached ch s" "attached ch (s\<lparr>acOpened := g\<rparr>) = attached ch s"
  "attached ch (s\<lparr>acActs := as\<rparr>) = attached ch s" "attached ch (s\<lparr>acLog := l\<rparr>) = attached ch s"
  by (simp_all add: attached_def)

lemma appInv_set:
  assumes "appInv s" "\<not> acSet s ch" "setApplicationChannel kind ch s = (b, s')"
  shows "appInv s'"
proof (cases "appSlot kind s")
  case None
  with assms(3) have s': "s' = (setSlot kind (Some ch) s)\<lparr>acSet := (acSet s)(ch := True)\<rparr>" by (simp add: setApplicationChannel_def)
  have "closes c s' \<le> (if acSet s' c then 1 else 0)" for c
  proof -
    have "closes c s \<le> (if acSet s c then 1 else 0)" using assms(1) by (simp add: appInv_def)
    moreover have "closes c s' = closes c s + (if ch = c then 1 else 0)"
      using attached_free [OF None, of c ch] by (simp add: s' closes_def)
    ultimately show ?thesis using assms(2) by (auto simp: s' split: if_splits)
  qed
  then show ?thesis using assms(1) by (simp add: appInv_def opens_def s')
next
  case (Some c)
  with assms show ?thesis by (simp add: setApplicationChannel_def)
qed

lemma appInv_acts:
  assumes "appInv s" "\<And>ch. sum_list (map (openActs ch) as) = 0" "\<And>ch. sum_list (map (closeActs ch) as) = 0"
    and "list_all smallAct as" "\<And>ch. \<not> list_ex (closesOpened ch) as"
  shows "appInv (addActs as s)"
proof -
  have "opens ch (addActs as s) = opens ch s" "closes ch (addActs as s) = closes ch s" for ch
    using assms(2,3) by (simp_all add: opens_def closes_def)
  with assms(1,4,5) show ?thesis by (auto simp: appInv_def list_ex_iff)
qed

lemma appInv_opened: "appInv s \<Longrightarrow> appInv (onOpen kind ch s)"
  by (auto simp: onOpen_def intro: appInv_acts)

lemma appInv_message: "appInv s \<Longrightarrow> appInv (onMessage kind ch m s)"
  by (auto simp: onMessage_def intro: appInv_acts)

lemma appInv_detach:
  assumes "appInv s" "appSlot kind s = Some ch"
  shows "appInv (addActs [Detached kind ch] (setSlot kind None s))"
proof -
  let ?s = "addActs [Detached kind ch] (setSlot kind None s)"
  have "opens c ?s = opens c s" "closes c ?s = closes c s" for c
    using attached_slot [OF assms(2), of c] by (simp_all add: opens_def closes_def)
  with assms(1) show ?thesis by (simp add: appInv_def)
qed

lemma appInv_cleanup: "appInv s \<Longrightarrow> appInv (cleanup kind ch s)"
  by (simp add: cleanup_def detachApplicationChannel_def appInv_detach)

lemma detached_both:
  "closeApplicationChannels s = (let s1 = (case acReliable s of None \<Rightarrow> s | Some c \<Rightarrow> addActs [Detached ApplicationChannelReliable c] (setSlot ApplicationChannelReliable None s))
    in (case acRealtime s of None \<Rightarrow> s1 | Some c \<Rightarrow> addActs [Detached ApplicationChannelRealtime c] (setSlot ApplicationChannelRealtime None s1)))"
  by (cases "acReliable s"; cases "acRealtime s") (simp_all add: closeApplicationChannels_def addActs_def setSlot_def)

lemma appInv_closeAll:
  assumes "appInv s"
  shows "appInv (closeApplicationChannels s)"
proof -
  let ?s = "case acReliable s of None \<Rightarrow> s | Some c \<Rightarrow> addActs [Detached ApplicationChannelReliable c] (setSlot ApplicationChannelReliable None s)"
  have one: "appInv ?s"
    using assms appInv_detach [of s ApplicationChannelReliable] by (simp add: appSlot_def split: option.split)
  have "acRealtime ?s = acRealtime s" by (simp add: addActs_def setSlot_def split: option.split)
  then show ?thesis
    using one appInv_detach [of ?s ApplicationChannelRealtime] unfolding detached_both Let_def
    by (simp add: appSlot_def split: option.split)
qed

lemma appInv_run:
  assumes inv: "appInv s" and a: "a \<in> set (acActs s)"
  shows "appInv (runAct a (s\<lparr>acActs := remove1 a (acActs s)\<rparr>))"
proof -
  let ?as = "remove1 a (acActs s)" and ?s = "runAct a (s\<lparr>acActs := remove1 a (acActs s)\<rparr>)"
  have sums: "sum_list (map f (acActs s)) = f a + sum_list (map f ?as)" for f :: "appAct \<Rightarrow> nat"
    using a by (rule sum_list_map_remove1)
  have o: "opens ch s = (if acOpened s ch then 1 else 0)" and c: "closes ch s \<le> (if acSet s ch then 1 else 0)" for ch
    using inv by (simp_all add: appInv_def)
  have flag: "x \<in> set (acActs s) \<Longrightarrow> closesOpened ch x \<Longrightarrow> acOpened s ch" "AppClosed kind ch \<in> set (acLog s) \<Longrightarrow> acOpened s ch" for ch x kind
    using inv by (auto simp: appInv_def)
  have small: "list_all smallMessage (acLog s)" "list_all smallAct ?as" "smallAct a"
    using inv a by (auto simp: appInv_def list_all_iff dest: notin_set_remove1)
  have sub: "x \<in> set (remove1 b xs) \<Longrightarrow> x \<in> set xs" for x b and xs :: "appAct list" using set_remove1_subset by fast
  have o': "opens ch ?s = (if acOpened ?s ch then 1 else 0)" for ch
    using o [of ch] sums [of "openActs ch"] by (cases a) (auto simp: runAct_def opens_def simp del: sum_list_eq_0_iff split: if_splits)
  have c': "closes ch ?s \<le> (if acSet ?s ch then 1 else 0)" for ch
    using c [of ch] sums [of "closeActs ch"] by (cases a) (auto simp: runAct_def closes_def simp del: sum_list_eq_0_iff split: if_splits)
  have f': "(\<exists>a \<in> set (acActs ?s). closesOpened ch a) \<or> (\<exists>kind. AppClosed kind ch \<in> set (acLog ?s)) \<longrightarrow> acOpened ?s ch" for ch
    using flag(1) [OF a, of ch] by (cases a) (auto simp: runAct_def dest: flag sub)
  show ?thesis
    unfolding appInv_def using o' c' f' small by (cases a) (auto simp: runAct_def)
qed

lemma appInv_reach: "appReach s \<Longrightarrow> appInv s"
proof (induction rule: appReach.induct)
  case init
  then show ?case by (simp add: appInv_def newAppState_def app_counts)
next
  case (step s s')
  from step(2) show ?case
  proof cases
    case closing
    then show ?thesis using step(3) by (simp add: appInv_def app_counts)
  qed (use step(3) in \<open>simp_all add: appInv_set appInv_opened appInv_cleanup appInv_message appInv_run appInv_closeAll\<close>)
qed

lemma attached_slots: "attached ch s = 0 \<longleftrightarrow> (\<forall>kind. appSlot kind s \<noteq> Some ch)"
proof
  assume "attached ch s = 0"
  then show "\<forall>kind. appSlot kind s \<noteq> Some ch"
    by (auto simp: attached_def appSlot_def split: appKind.split if_splits)
next
  assume free: "\<forall>kind. appSlot kind s \<noteq> Some ch"
  from free [rule_format, of ApplicationChannelReliable] free [rule_format, of ApplicationChannelRealtime]
  show "attached ch s = 0" by (simp add: attached_def appSlot_def)
qed

lemma closedEvents_pos: "AppClosed kind ch \<in> set es \<Longrightarrow> 0 < sum_list (map (closedEvents ch) es)"
  by (induction es) auto

section \<open>Properties\<close>

text \<open>
  C27: Under any interleaving of the callbacks of the application's channels, the handler learns of each channel's
  opening and of its closing at most once each.  It learns of a closing only of a channel that has been marked as
  opened and that is out of its slot, and once all callbacks have finished, it has learnt of the opening of exactly
  the channels so marked.  No message of more than 1 MiB reaches it.
\<close>

theorem application_callbacks:
  assumes "appReach s"
  shows "sum_list (map (openedEvents ch) (acLog s)) \<le> 1 \<and> sum_list (map (closedEvents ch) (acLog s)) \<le> 1
    \<and> (AppClosed kind ch \<in> set (acLog s) \<longrightarrow> acOpened s ch \<and> (\<forall>k. appSlot k s \<noteq> Some ch))
    \<and> (acActs s = [] \<longrightarrow> (acOpened s ch \<longleftrightarrow> sum_list (map (openedEvents ch) (acLog s)) = 1))
    \<and> (\<forall>k m. AppMessage k ch m \<in> set (acLog s) \<longrightarrow> length (amData m) \<le> 1024 * 1024)"
proof -
  have inv: "appInv s" using assms by (rule appInv_reach)
  then have o: "opens ch s = (if acOpened s ch then 1 else 0)" and c: "closes ch s \<le> (if acSet s ch then 1 else 0)"
    by (simp_all add: appInv_def)
  have c1: "closes ch s \<le> 1" using c by (simp split: if_splits)
  have open1: "sum_list (map (openedEvents ch) (acLog s)) \<le> 1" using o by (simp add: opens_def del: sum_list_eq_0_iff split: if_splits)
  have close1: "sum_list (map (closedEvents ch) (acLog s)) \<le> 1" using c1 by (simp add: closes_def del: sum_list_eq_0_iff)
  have closed: "acOpened s ch \<and> (\<forall>k. appSlot k s \<noteq> Some ch)" if "AppClosed kind ch \<in> set (acLog s)"
  proof -
    have "attached ch s = 0" using closedEvents_pos [OF that] c1 by (simp add: closes_def)
    moreover have "acOpened s ch" using inv that by (auto simp: appInv_def)
    ultimately show ?thesis by (simp add: attached_slots)
  qed
  have settled: "acOpened s ch \<longleftrightarrow> sum_list (map (openedEvents ch) (acLog s)) = 1" if "acActs s = []"
    using o that by (simp add: opens_def)
  have small: "length (amData m) \<le> 1024 * 1024" if "AppMessage k ch m \<in> set (acLog s)" for k m
    using inv that by (auto simp: appInv_def list_all_iff maxApplicationMessageBytes_def)
  show ?thesis using open1 close1 closed settled small by blast
qed

section \<open>Openings and closings that cross\<close>

text \<open>
  The open callback looks at the slot, marks the channel and calls the handler in three separate accesses.  When the
  channel closes after the first, its closing is never reported; when it closes after the second, the handler may
  learn of the closing first.
\<close>

definition act :: "appAct \<Rightarrow> appState \<Rightarrow> appState" where
  "act a s = runAct a (s\<lparr>acActs := remove1 a (acActs s)\<rparr>)"

lemma act_step: "a \<in> set (acActs s) \<Longrightarrow> appReach s \<Longrightarrow> appReach (act a s)"
  unfolding act_def by (blast intro: appReach.step appStep.run)

definition appSet :: appState where
  "appSet = newAppState\<lparr>acReliable := Some 1, acSet := (\<lambda>_. False)(1 := True)\<rparr>"

lemma app_set: "appReach appSet"
proof -
  have "setApplicationChannel ApplicationChannelReliable 1 newAppState = (True, appSet)"
    by (simp add: setApplicationChannel_def appSlot_def setSlot_def newAppState_def appSet_def)
  then have "appStep newAppState appSet" by (intro appStep.setChannel [of newAppState 1]) (simp_all add: newAppState_def)
  with appReach.init show ?thesis by (rule appReach.step)
qed

definition appChecked :: appState where
  "appChecked = appSet\<lparr>acActs := [OpenChecked ApplicationChannelReliable 1]\<rparr>"

lemma app_checked: "appReach appChecked"
  using appReach.step [OF app_set appStep.opened [of _ ApplicationChannelReliable 1]]
  by (simp add: onOpen_def applicationChannelCurrent_def appSlot_def addActs_def newAppState_def appSet_def appChecked_def)

lemmas app_run_defs = act_def runAct_def addActs_def cleanup_def detachApplicationChannel_def appSlot_def setSlot_def newAppState_def appSet_def appChecked_def

text \<open>The channel closes between the check and the mark.\<close>

definition appLost :: appState where
  "appLost = act (CallOpened ApplicationChannelReliable 1) (act (OpenChecked ApplicationChannelReliable 1)
     (act (Detached ApplicationChannelReliable 1) (cleanup ApplicationChannelReliable 1 appChecked)))"

lemma application_close_lost:
  "appReach appLost \<and> acActs appLost = [] \<and> acReliable appLost = None \<and> acLog appLost = [AppOpened ApplicationChannelReliable 1]"
proof -
  have "appReach (cleanup ApplicationChannelReliable 1 appChecked)"
    using app_checked by (blast intro: appReach.step appStep.gone)
  then have "appReach appLost"
    unfolding appLost_def by (intro act_step) (simp_all add: app_run_defs)
  then show ?thesis by (simp add: appLost_def app_run_defs)
qed

text \<open>The channel closes between the mark and the call.\<close>

definition appCrossed :: appState where
  "appCrossed = act (CallOpened ApplicationChannelReliable 1) (act (CallClosed ApplicationChannelReliable 1)
     (act (Detached ApplicationChannelReliable 1) (cleanup ApplicationChannelReliable 1 (act (OpenChecked ApplicationChannelReliable 1) appChecked))))"

lemma app_crossed: "appReach appCrossed"
proof -
  have "appReach (act (OpenChecked ApplicationChannelReliable 1) appChecked)"
    using app_checked by (intro act_step) (simp_all add: appChecked_def)
  then have "appReach (cleanup ApplicationChannelReliable 1 (act (OpenChecked ApplicationChannelReliable 1) appChecked))"
    by (blast intro: appReach.step appStep.gone)
  then show ?thesis
    unfolding appCrossed_def by (intro act_step) (simp_all add: app_run_defs)
qed

theorem application_callbacks_witness:
  "acLog appCrossed = [AppClosed ApplicationChannelReliable 1, AppOpened ApplicationChannelReliable 1] \<and> acActs appCrossed = []
    \<and> acOpened appCrossed 1 \<and> appSlot ApplicationChannelReliable appCrossed \<noteq> Some 1"
proof -
  have "acLog appCrossed = [AppClosed ApplicationChannelReliable 1, AppOpened ApplicationChannelReliable 1]" "acActs appCrossed = []"
    by (simp_all add: appCrossed_def app_run_defs)
  then show ?thesis using application_callbacks [OF app_crossed, of 1 ApplicationChannelReliable] by simp
qed

end
