(* ===== verification/Startup.thy ===== *)
theory Startup
  imports Input_Controller Peer_Quality Sdp_Negotiation
begin

text \<open>
  Configuration and start of the service (\<open>src/config/config.go\<close>, \<open>New\<close> in \<open>src/internal/app/app.go\<close>): the checks of
  the configuration, those that every part makes of its own settings, and the construction of the parts.
  Parsers of addresses, URLs, durations and log levels, the template engine and gin's router are arguments.
\<close>

subsection \<open>Configuration\<close>

record serverConfig =
  svListenAddress :: string
  svShutdownTimeout :: string

record loggingConfig =
  lgLevel :: string
  lgFormat :: string

record videoConfig =
  vcSource :: string
  vcCursorMode :: string
  vcProfile :: string
  vcOption :: string
  vcProfiles :: profiles
  vcTuning :: tuning

record audioConfig =
  auEnabled :: bool
  auDevice :: string
  auBitrateKbps :: int

record webrtcConfig =
  wcSignalingPath :: string
  wcMaxPeers :: int
  wcReplaceExistingPeer :: bool
  wcICEServers :: "string list"
  wcICEUsername :: string
  wcICECredential :: string
  wcICEAdvertisedIPs :: "string list"
  wcUDPPortMin :: int
  wcUDPPortMax :: int
  wcAllowedOrigins :: "string list"

record config =
  cfServer :: serverConfig
  cfLogging :: loggingConfig
  cfTracing :: bool
  cfVideo :: videoConfig
  cfAudio :: audioConfig
  cfInput :: inputConfig
  cfClipboard :: bool
  cfWebRTC :: webrtcConfig

text \<open>
  The library functions: \<open>slRegex\<close> compiles a regular expression, \<open>slParseIP\<close> tells whether an address is an IP, and
  \<open>slConflict\<close> whether gin panics when a path is registered for GET after the given ones.
\<close>

record 't startupLibs =
  slTemplates :: "'t templateEngine"
  slKeys :: "string fset \<Rightarrow> string list"
  slRegex :: "string \<Rightarrow> goerror option"
  slSplitHostPort :: "string \<Rightarrow> goerror + string \<times> string"
  slParseDuration :: "string \<Rightarrow> goerror + int"
  slParseLevel :: "string \<Rightarrow> goerror option"
  slBuildLogger :: "loggingConfig \<Rightarrow> goerror option"
  slParseURI :: "string \<Rightarrow> goerror + stunScheme"
  slParseIP :: "string \<Rightarrow> bool"
  slParseAddr :: "string \<Rightarrow> goerror option"
  slParseURL :: "string \<Rightarrow> goerror + parsedURL"
  slConflict :: "string list \<Rightarrow> string \<Rightarrow> bool"

definition HasPrefix :: "string \<Rightarrow> string \<Rightarrow> bool" where
  "HasPrefix s pre \<longleftrightarrow> take (length pre) s = pre"

definition HasSuffix :: "string \<Rightarrow> string \<Rightarrow> bool" where
  "HasSuffix s suf \<longleftrightarrow> length suf \<le> length s \<and> drop (length s - length suf) s = suf"

text \<open>\<open>path.Clean\<close>: the parts of the path that are left, and the path they make.\<close>

definition cleanPart :: "bool \<Rightarrow> string list \<Rightarrow> string \<Rightarrow> string list" where
  "cleanPart rooted out part =
    (if part = [] \<or> part = ''.'' then out
     else if part = ''..'' then
       (if out \<noteq> [] \<and> last out \<noteq> ''..'' then butlast out else if rooted then out else out @ [''..''])
     else out @ [part])"

definition PathClean :: "string \<Rightarrow> string" where
  "PathClean p =
    (let rooted = HasPrefix p ''/'';
         parts = foldl (cleanPart rooted) [] (splitChar (CHR ''/'') p)
     in if rooted then CHR ''/'' # joinChar (CHR ''/'') parts else if parts = [] then ''.'' else joinChar (CHR ''/'') parts)"

definition ShutdownDuration :: "'t startupLibs \<Rightarrow> serverConfig \<Rightarrow> goerror + int" where
  "ShutdownDuration L cfg =
    (if svShutdownTimeout cfg \<in> {''0'', ''+0'', ''-0''} then Inl (errorsNew ''server.shutdown_timeout must be a duration string with a unit'')
     else (case slParseDuration L (svShutdownTimeout cfg) of
         Inl err \<Rightarrow> Inl (Wrap ''server.shutdown_timeout must be a duration string with a unit: %w'' err [])
       | Inr duration \<Rightarrow> if duration \<le> 0 then Inl (errorsNew ''server.shutdown_timeout must be positive'') else Inr duration))"

definition resultError :: "goerror + 'a \<Rightarrow> goerror option" where
  "resultError r = (case r of Inl err \<Rightarrow> Some err | Inr _ \<Rightarrow> None)"

text \<open>The quality that the configuration selects, as far as it is configured.\<close>

definition selectedQuality :: "videoConfig \<Rightarrow> quality" where
  "selectedQuality v =
    (case Option.bind (fmlookup (vcProfiles v) (vcProfile v)) (\<lambda>p. fmlookup (pfOptions p) (vcOption v)) of
       Some option \<Rightarrow> optionQuality option (vcProfile v) (vcOption v)
     | None \<Rightarrow> \<lparr>qProfile = vcProfile v, qOption = vcOption v, qWidth = 0, qHeight = 0, qFramerate = 0, qBitrateKbps = 0\<rparr>)"

text \<open>The port is parsed by \<open>strconv.Atoi\<close>, which accepts what \<open>ParseInt\<close> does.\<close>

definition listenErrors :: "'t startupLibs \<Rightarrow> serverConfig \<Rightarrow> goerror option" where
  "listenErrors L cfg =
    (case slSplitHostPort L (svListenAddress cfg) of
       Inl err \<Rightarrow> Some (Wrap ''server.listen_address: %w'' err [])
     | Inr (host, port) \<Rightarrow> check (case parseInt port of Inl _ \<Rightarrow> True | Inr number \<Rightarrow> number < 1 \<or> number > 65535)
         (errorsNew ''server.listen_address port must be between 1 and 65535''))"

definition videoErrors :: "'t startupLibs \<Rightarrow> videoConfig \<Rightarrow> goerror option list" where
  "videoErrors L v =
    [check (vcSource v \<noteq> ''monitor'') (errorsNew ''video.source must be monitor''),
     check (vcCursorMode v \<notin> {''hidden'', ''embedded''}) (errorsNew ''video.cursor_mode must be hidden or embedded''),
     ValidateProfiles (slTemplates L) (slKeys L) (slRegex L) (vcProfiles v) (selectedQuality v) (vcTuning v),
     check (tnThreads (vcTuning v) < 1 \<or> tnThreads (vcTuning v) > 64) (errorsNew ''video.tuning.threads must be between 1 and 64''),
     check (tnKeyframeInterval (vcTuning v) < 1 \<or> tnKeyframeInterval (vcTuning v) > 600)
       (errorsNew ''video.tuning.keyframe_interval must be between 1 and 600''),
     check (tnVP8CPUUsed (vcTuning v) < 0 \<or> tnVP8CPUUsed (vcTuning v) > 16) (errorsNew ''video.tuning.vp8_cpu_used must be between 0 and 16'')]"

definition audioErrors :: "'t startupLibs \<Rightarrow> audioConfig \<Rightarrow> profiles \<Rightarrow> goerror option list" where
  "audioErrors L a profiles =
    [check (auDevice a \<noteq> ''@DEFAULT_MONITOR@'' \<and> \<not> HasSuffix (auDevice a) ''.monitor'')
       (errorsNew ''audio.device must be @DEFAULT_MONITOR@ or a PulseAudio monitor source ending in .monitor''),
     check (auBitrateKbps a < 6 \<or> auBitrateKbps a > 510) (errorsNew ''audio.bitrate_kbps must be between 6 and 510'')]
    @ (if auEnabled a
       then concat (map (\<lambda>name. case fmlookup profiles name of None \<Rightarrow> []
              | Some p \<Rightarrow> [check (rcPayloadType (pfCodec p) = opusPayloadType) (Errorf ''video profile %q payload type conflicts with Opus'' [FStr name])])
              (slKeys L (fmdom profiles)))
       else [])"

definition inputErrors :: "inputConfig \<Rightarrow> bool \<Rightarrow> goerror option list" where
  "inputErrors i clipboard =
    [check (cfgEnabled i \<and> \<not> cfgPointer i \<and> \<not> cfgKeyboard i) (errorsNew ''input requires pointer or keyboard when enabled''),
     check (clipboard \<and> (\<not> cfgEnabled i \<or> \<not> cfgKeyboard i)) (errorsNew ''clipboard.enabled requires input.enabled and input.keyboard''),
     check (cfgQueueSize i < 16 \<or> cfgQueueSize i > 4096) (errorsNew ''input.queue_size must be between 16 and 4096'')]"

definition configServerError :: "'t startupLibs \<Rightarrow> webrtcConfig \<Rightarrow> string \<Rightarrow> goerror option" where
  "configServerError L w server =
    (case slParseURI L server of
       Inl err \<Rightarrow> Some (Wrap ''webrtc.ice_servers contains invalid URL %q: %w'' err [FStr server])
     | Inr scheme \<Rightarrow> check (scheme \<in> {SchemeTypeTURN, SchemeTypeTURNS} \<and> wcICEUsername w = [])
         (Errorf ''webrtc.ice_servers TURN URL %q requires ICE credentials'' [FStr server]))"

definition configOriginError :: "'t startupLibs \<Rightarrow> string \<Rightarrow> goerror option" where
  "configOriginError L origin =
    (if origin = ''*'' then None
     else check (case slParseURL L origin of Inl _ \<Rightarrow> True
            | Inr u \<Rightarrow> urlScheme u \<noteq> ''http'' \<and> urlScheme u \<noteq> ''https'' \<or> urlHost u = [] \<or> urlUser u \<or> urlPath u \<noteq> [] \<or> urlRawQuery u \<noteq> []
                \<or> urlFragment u \<noteq> [])
       (Errorf ''webrtc.allowed_origins contains invalid origin %q'' [FStr origin]))"

definition webrtcErrors :: "'t startupLibs \<Rightarrow> webrtcConfig \<Rightarrow> goerror option list" where
  "webrtcErrors L w =
    [check (wcSignalingPath w = [] \<or> \<not> HasPrefix (wcSignalingPath w) ''/'' \<or> PathClean (wcSignalingPath w) \<noteq> wcSignalingPath w
        \<or> wcSignalingPath w = ''/'') (errorsNew ''webrtc.signaling_path must be a clean absolute path below /''),
     check (wcSignalingPath w = ''/healthz'') (errorsNew ''webrtc.signaling_path must not replace /healthz''),
     check (wcMaxPeers w < 1 \<or> wcMaxPeers w > 64) (errorsNew ''webrtc.max_peers must be between 1 and 64''),
     check (wcReplaceExistingPeer w \<and> wcMaxPeers w \<noteq> 1) (errorsNew ''webrtc.replace_existing_peer requires webrtc.max_peers to be 1''),
     check ((wcICEUsername w = []) \<noteq> (wcICECredential w = []))
       (errorsNew ''webrtc.ice_username and webrtc.ice_credential must both be set or both be empty''),
     check (wcICEServers w = [] \<and> wcICEUsername w \<noteq> []) (errorsNew ''webrtc ICE credentials require at least one ICE server'')]
    @ map (configServerError L w) (wcICEServers w)
    @ map (\<lambda>a. check (\<not> slParseIP L a) (Errorf ''webrtc.ice_advertised_ips contains invalid IP %q'' [FStr a])) (wcICEAdvertisedIPs w)
    @ [if (wcUDPPortMin w = 0) \<noteq> (wcUDPPortMax w = 0)
       then Some (errorsNew ''webrtc.udp_port_min and webrtc.udp_port_max must both be set or both be zero'')
       else check (wcUDPPortMin w \<noteq> 0 \<and> (wcUDPPortMin w < 1 \<or> wcUDPPortMax w > 65535 \<or> wcUDPPortMax w < wcUDPPortMin w))
         (errorsNew ''webrtc UDP port range must be between 1 and 65535 with min not greater than max'')]
    @ map (configOriginError L) (wcAllowedOrigins w)"

definition configValidate :: "'t startupLibs \<Rightarrow> config \<Rightarrow> goerror option" where
  "configValidate L cfg = errorsJoin
    ([listenErrors L (cfServer cfg),
      resultError (ShutdownDuration L (cfServer cfg)),
      wrapError ''logging.level: %w'' [] (slParseLevel L (lgLevel (cfLogging cfg))),
      check (lgFormat (cfLogging cfg) \<notin> {''json'', ''console''}) (errorsNew ''logging.format must be json or console'')]
     @ videoErrors L (cfVideo cfg)
     @ audioErrors L (cfAudio cfg) (vcProfiles (cfVideo cfg))
     @ inputErrors (cfInput cfg) (cfClipboard cfg)
     @ webrtcErrors L (cfWebRTC cfg))"

subsection \<open>The parts\<close>

text \<open>\<open>Config.Validate\<close> of \<open>src/capture/portal.go\<close>, called by \<open>desktop.New\<close>, whose other arguments are not nil here.\<close>

definition captureValidate :: "videoConfig \<Rightarrow> inputConfig \<Rightarrow> bool \<Rightarrow> goerror option" where
  "captureValidate v i clipboard = errorsJoin
    [check (vcSource v \<noteq> ''monitor'') (errorsNew ''capture source must be monitor''),
     check (vcCursorMode v \<notin> {''hidden'', ''embedded''}) (errorsNew ''capture cursor mode must be hidden or embedded''),
     check (cfgEnabled i \<and> \<not> cfgPointer i \<and> \<not> cfgKeyboard i) (errorsNew ''capture input requires pointer or keyboard''),
     check (clipboard \<and> (\<not> cfgEnabled i \<or> \<not> cfgKeyboard i)) (errorsNew ''clipboard synchronization requires remote keyboard input'')]"

definition audioValidate :: "audioConfig \<Rightarrow> goerror option" where
  "audioValidate a = errorsJoin
    [check (auDevice a \<noteq> ''@DEFAULT_MONITOR@'' \<and> \<not> HasSuffix (auDevice a) ''.monitor'')
       (errorsNew ''audio device must be @DEFAULT_MONITOR@ or a PulseAudio monitor source ending in .monitor''),
     check (auBitrateKbps a < 6 \<or> auBitrateKbps a > 510) (errorsNew ''audio bitrate must be between 6 and 510 Kbit/s'')]"

definition loggingNew :: "'t startupLibs \<Rightarrow> loggingConfig \<Rightarrow> goerror option" where
  "loggingNew L cfg =
    (case slParseLevel L (lgLevel cfg) of
       Some err \<Rightarrow> Some (Wrap ''parse log level: %w'' err [])
     | None \<Rightarrow> wrapError ''build logger: %w'' [] (slBuildLogger L cfg))"

text \<open>The settings of the WebRTC service; the ports are converted to \<open>uint16\<close>.\<close>

definition appRtcConfig :: "config \<Rightarrow> rtcConfig" where
  "appRtcConfig cfg =
    (let w = cfWebRTC cfg
     in \<lparr>rcfAudioEnabled = auEnabled (cfAudio cfg), rcfICEServers = wcICEServers w, rcfICEUsername = wcICEUsername w,
         rcfICECredential = wcICECredential w, rcfICEAdvertisedIPs = wcICEAdvertisedIPs w, rcfUDPPortMin = word_of_int (wcUDPPortMin w),
         rcfUDPPortMax = word_of_int (wcUDPPortMax w), rcfMaxPeers = wcMaxPeers w, rcfReplaceExistingPeer = wcReplaceExistingPeer w,
         rcfAllowedOrigins = wcAllowedOrigins w, rcfTracingEnabled = cfTracing cfg\<rparr>)"

text \<open>The routes in the order of their registration; gin panics on the first that conflicts.\<close>

definition appRoutes :: "config \<Rightarrow> string list" where
  "appRoutes cfg = [''/healthz'', ''/api/config'', ''/api/status'', wcSignalingPath (cfWebRTC cfg)]"

fun registerRoutes :: "(string list \<Rightarrow> string \<Rightarrow> bool) \<Rightarrow> string list \<Rightarrow> string list \<Rightarrow> bool" where
  "registerRoutes conflict done [] = True"
| "registerRoutes conflict done (p # ps) = (\<not> conflict done p \<and> registerRoutes conflict (done @ [p]) ps)"

record ('s, 'cb) application =
  apInput :: "('s, 'cb) controller"
  apWebRTC :: "pipeState mediaSystem rtcService"
  apShutdown :: int

datatype 'a startup = StartError goerror | StartPanic | Started 'a

definition appNew :: "'t startupLibs \<Rightarrow> gstreamer \<Rightarrow> (nat \<Rightarrow> peerVideo) \<Rightarrow> config \<Rightarrow> ('s, 'cb) application startup" where
  "appNew L gst video cfg =
    (let v = cfVideo cfg in
     (case fmlookup (vcProfiles v) (vcProfile v) of
        None \<Rightarrow> StartError (Errorf ''video profile %q is not configured'' [FStr (vcProfile v)])
      | Some profile \<Rightarrow> (case fmlookup (pfOptions profile) (vcOption v) of
          None \<Rightarrow> StartError (Errorf ''video option %q is not configured for profile %q'' [FStr (vcOption v), FStr (vcProfile v)])
        | Some option \<Rightarrow> (case loggingNew L (cfLogging cfg) of Some err \<Rightarrow> StartError err
          | None \<Rightarrow> (case New (cfInput cfg) of Inl err \<Rightarrow> StartError err
            | Inr controller \<Rightarrow>
              (case newService (slTemplates L) (slKeys L) (slRegex L)
                  \<lparr>mcProfiles = vcProfiles v, mcQuality = optionQuality option (vcProfile v) (vcOption v), mcTuning = vcTuning v\<rparr> of Inl err \<Rightarrow> StartError err
              | Inr service \<Rightarrow> (case audioValidate (cfAudio cfg) of Some err \<Rightarrow> StartError err
                | None \<Rightarrow> (case captureValidate v (cfInput cfg) (cfClipboard cfg) of Some err \<Rightarrow> StartError err
                  | None \<Rightarrow>
                    (case newRtcService (rtcConfigValidate (slParseURI L) (slParseAddr L) (slParseURL L) (appRtcConfig cfg)) True (auEnabled (cfAudio cfg)) True
                        (appRtcConfig cfg) (mediaSourceAdapter (slTemplates L) gst) video \<lparr>sysService = service, sysPending = None\<rparr> of Inl err \<Rightarrow> StartError err
                    | Inr rtc \<Rightarrow> (case ShutdownDuration L (cfServer cfg) of Inl err \<Rightarrow> StartError err
                      | Inr duration \<Rightarrow>
                          if registerRoutes (slConflict L) [] (appRoutes cfg)
                          then Started \<lparr>apInput = controller, apWebRTC = rtc, apShutdown = duration\<rparr>
                          else StartPanic))))))))))"

section \<open>A valid configuration starts\<close>

text \<open>What is relied on: the order in which maps are visited; \<open>net.ParseIP\<close> accepts only what \<open>netip.ParseAddr\<close> accepts; zap builds
  a logger for the two formats that the configuration allows.\<close>

definition libsOK :: "'t startupLibs \<Rightarrow> bool" where
  "libsOK L \<longleftrightarrow> keyOrder (slKeys L) \<and> (\<forall>a. slParseIP L a \<longrightarrow> slParseAddr L a = None)
     \<and> (\<forall>cfg. lgFormat cfg \<in> {''json'', ''console''} \<and> slParseLevel L (lgLevel cfg) = None \<longrightarrow> slBuildLogger L cfg = None)"

lemma configValidate_None:
  "configValidate L cfg = None \<longleftrightarrow> listenErrors L (cfServer cfg) = None \<and> resultError (ShutdownDuration L (cfServer cfg)) = None
     \<and> slParseLevel L (lgLevel (cfLogging cfg)) = None \<and> lgFormat (cfLogging cfg) \<in> {''json'', ''console''}
     \<and> (\<forall>e \<in> set (videoErrors L (cfVideo cfg)). e = None) \<and> (\<forall>e \<in> set (audioErrors L (cfAudio cfg) (vcProfiles (cfVideo cfg))). e = None)
     \<and> (\<forall>e \<in> set (inputErrors (cfInput cfg) (cfClipboard cfg)). e = None) \<and> (\<forall>e \<in> set (webrtcErrors L (cfWebRTC cfg)). e = None)"
  unfolding configValidate_def errorsJoin_None_iff set_append ball_Un by simp

lemma media_settings:
  assumes "keyOrder (slKeys L)" "\<forall>e \<in> set (videoErrors L v). e = None"
  obtains profile option where "fmlookup (vcProfiles v) (vcProfile v) = Some profile" "fmlookup (pfOptions profile) (vcOption v) = Some option"
    "mediaConfigValidate (slTemplates L) (slKeys L) (slRegex L)
       \<lparr>mcProfiles = vcProfiles v, mcQuality = optionQuality option (vcProfile v) (vcOption v), mcTuning = vcTuning v\<rparr> = None"
proof -
  have val: "ValidateProfiles (slTemplates L) (slKeys L) (slRegex L) (vcProfiles v) (selectedQuality v) (vcTuning v) = None"
    and tuning: "\<not> (tnThreads (vcTuning v) < 1 \<or> tnThreads (vcTuning v) > 64)" "\<not> (tnKeyframeInterval (vcTuning v) < 1 \<or> tnKeyframeInterval (vcTuning v) > 600)"
      "\<not> (tnVP8CPUUsed (vcTuning v) < 0 \<or> tnVP8CPUUsed (vcTuning v) > 16)"
    using assms(2) by (simp_all add: videoErrors_def)
  have names: "qProfile (selectedQuality v) = vcProfile v" "qOption (selectedQuality v) = vcOption v"
    by (simp_all add: selectedQuality_def optionQuality_def split: option.split)
  have "qualityValidate (vcProfiles v) (selectedQuality v) = None"
    using val unfolding ValidateProfiles_None [OF assms(1)] by blast
  then obtain profile option where p: "fmlookup (vcProfiles v) (vcProfile v) = Some profile" "fmlookup (pfOptions profile) (vcOption v) = Some option"
    unfolding qualityValidate_def names by (auto split: option.splits if_splits)
  then have "selectedQuality v = optionQuality option (vcProfile v) (vcOption v)" by (simp add: selectedQuality_def)
  with val tuning show thesis by (intro that [OF p]) (simp add: mediaConfigValidate_def)
qed

lemma port_word:
  assumes "1 \<le> a" "a \<le> b" "b \<le> 65535"
  shows "(word_of_int a :: uint16) \<noteq> 0" "(word_of_int b :: uint16) \<noteq> 0" "\<not> (word_of_int b :: uint16) < word_of_int a"
proof -
  have "uint (word_of_int a :: uint16) = a" "uint (word_of_int b :: uint16) = b"
    using assms by (simp_all add: uint_word_of_int)
  then show "(word_of_int a :: uint16) \<noteq> 0" "(word_of_int b :: uint16) \<noteq> 0" "\<not> (word_of_int b :: uint16) < word_of_int a"
    using assms by (auto simp: word_less_def)
qed

lemma rtc_settings:
  assumes "libsOK L" "\<forall>e \<in> set (webrtcErrors L (cfWebRTC cfg)). e = None"
  shows "rtcConfigValidate (slParseURI L) (slParseAddr L) (slParseURL L) (appRtcConfig cfg) = None"
proof -
  let ?w = "cfWebRTC cfg" and ?r = "appRtcConfig cfg"
  have w: "\<not> (wcMaxPeers ?w < 1 \<or> wcMaxPeers ?w > 64)" "\<not> (wcReplaceExistingPeer ?w \<and> wcMaxPeers ?w \<noteq> 1)"
      "(wcICEUsername ?w = []) = (wcICECredential ?w = [])" "\<not> (wcICEServers ?w = [] \<and> wcICEUsername ?w \<noteq> [])"
      "\<forall>s \<in> set (wcICEServers ?w). configServerError L ?w s = None" "\<forall>a \<in> set (wcICEAdvertisedIPs ?w). slParseIP L a"
      "\<forall>a \<in> set (wcAllowedOrigins ?w). configOriginError L a = None"
    and range: "wcUDPPortMin ?w \<noteq> 0 \<or> wcUDPPortMax ?w \<noteq> 0 \<Longrightarrow> 1 \<le> wcUDPPortMin ?w \<and> wcUDPPortMin ?w \<le> wcUDPPortMax ?w \<and> wcUDPPortMax ?w \<le> 65535"
    using assms(2) unfolding webrtcErrors_def set_append ball_Un by (auto split: if_split_asm)
  have nocred: "wcICEServers ?w = [] \<longrightarrow> wcICEUsername ?w = [] \<and> wcICECredential ?w = []"
    using w(3) w(4) by blast
  have ports: "(rcfUDPPortMin ?r = 0) = (rcfUDPPortMax ?r = 0) \<and> \<not> rcfUDPPortMax ?r < rcfUDPPortMin ?r"
  proof (cases "wcUDPPortMin ?w = 0 \<and> wcUDPPortMax ?w = 0")
    case True
    then show ?thesis by (simp add: appRtcConfig_def Let_def)
  next
    case False
    with range have "1 \<le> wcUDPPortMin ?w" "wcUDPPortMin ?w \<le> wcUDPPortMax ?w" "wcUDPPortMax ?w \<le> 65535" by auto
    from port_word [OF this] show ?thesis by (simp add: appRtcConfig_def Let_def)
  qed
  have servers: "iceServerError (slParseURI L) ?r s = None" if "s \<in> set (wcICEServers ?w)" for s
    using w(5) that by (auto simp: configServerError_def iceServerError_def appRtcConfig_def Let_def split: sum.splits)
  have origins: "originError (slParseURL L) a = None" if "a \<in> set (wcAllowedOrigins ?w)" for a
    using w(7) that by (auto simp: configOriginError_def originError_def split: sum.splits if_splits)
  have addresses: "slParseAddr L a = None" if "a \<in> set (wcICEAdvertisedIPs ?w)" for a
    using w(6) that assms(1) by (simp add: libsOK_def)
  have same: "rcfMaxPeers ?r = wcMaxPeers ?w" "rcfReplaceExistingPeer ?r = wcReplaceExistingPeer ?w" "rcfICEUsername ?r = wcICEUsername ?w"
    "rcfICECredential ?r = wcICECredential ?w" "rcfICEServers ?r = wcICEServers ?w" "rcfICEAdvertisedIPs ?r = wcICEAdvertisedIPs ?w"
    "rcfAllowedOrigins ?r = wcAllowedOrigins ?w"
    by (simp_all add: appRtcConfig_def Let_def)
  show ?thesis
    unfolding rtcConfigValidate_def errorsJoin_None_iff set_append ball_Un using w nocred ports servers origins addresses by (simp add: same)
qed


lemma audio_settings:
  assumes "keyOrder (slKeys L)" "\<forall>e \<in> set (audioErrors L a profiles). e = None"
  shows "audioValidate a = None" "auEnabled a \<Longrightarrow> fmlookup profiles name = Some p \<Longrightarrow> rcPayloadType (pfCodec p) \<noteq> opusPayloadType"
proof -
  show "audioValidate a = None" using assms(2) by (simp add: audioErrors_def audioValidate_def)
  let ?f = "\<lambda>name p. [check (rcPayloadType (pfCodec p) = opusPayloadType) (Errorf ''video profile %q payload type conflicts with Opus'' [FStr name])]"
  assume "auEnabled a" and p: "fmlookup profiles name = Some p"
  then have "\<forall>e \<in> set (concat (map (\<lambda>k. case fmlookup profiles k of None \<Rightarrow> [] | Some v \<Rightarrow> ?f k v) (slKeys L (fmdom profiles)))). e = None"
    using assms(2) unfolding audioErrors_def set_append ball_Un if_P [OF \<open>auEnabled a\<close>] by blast
  then have "\<forall>k v. fmlookup profiles k = Some v \<longrightarrow> (\<forall>e \<in> set (?f k v). e = None)"
    unfolding loop_None [OF assms(1)] .
  with p show "rcPayloadType (pfCodec p) \<noteq> opusPayloadType" by simp
qed

lemma new_rtc_service:
  assumes "rtcConfigValidate (slParseURI L) (slParseAddr L) (slParseURL L) cfg = None"
    "fmlookup (mcProfiles (msCfg s)) (qProfile (msQuality s)) = Some profile"
    "rcfAudioEnabled cfg \<Longrightarrow> rcPayloadType (pfCodec profile) \<noteq> opusPayloadType"
  shows "\<exists>rtc. newRtcService (rtcConfigValidate (slParseURI L) (slParseAddr L) (slParseURL L) cfg) True (rcfAudioEnabled cfg) True cfg
      (mediaSourceAdapter tmpl gst) video \<lparr>sysService = s, sysPending = None\<rparr> = Inr rtc"
  using assms by (simp add: newRtcService_def mediaSourceAdapter_def adaptProfile_def)

lemma appNew_validated:
  assumes L: "libsOK L" and valid: "configValidate L cfg = None"
  obtains app :: "('s, 'cb) application" where
    "appNew L gst video cfg = (if registerRoutes (slConflict L) [] (appRoutes cfg) then Started app else StartPanic)"
proof -
  note v = valid [unfolded configValidate_None]
  have order: "keyOrder (slKeys L)" using L by (simp add: libsOK_def)
  obtain profile option where m: "fmlookup (vcProfiles (cfVideo cfg)) (vcProfile (cfVideo cfg)) = Some profile"
    "fmlookup (pfOptions profile) (vcOption (cfVideo cfg)) = Some option"
    "mediaConfigValidate (slTemplates L) (slKeys L) (slRegex L) \<lparr>mcProfiles = vcProfiles (cfVideo cfg),
       mcQuality = optionQuality option (vcProfile (cfVideo cfg)) (vcOption (cfVideo cfg)), mcTuning = vcTuning (cfVideo cfg)\<rparr> = None"
    using v media_settings [OF order] by metis
  have log: "loggingNew L (cfLogging cfg) = None"
    using v L by (auto simp: loggingNew_def libsOK_def)
  have input: "captureValidate (cfVideo cfg) (cfInput cfg) (cfClipboard cfg) = None" "\<not> cfgQueueSize (cfInput cfg) < 1"
    using v by (simp_all add: videoErrors_def inputErrors_def captureValidate_def)
  have audio: "audioValidate (cfAudio cfg) = None" "auEnabled (cfAudio cfg) \<Longrightarrow> rcPayloadType (pfCodec profile) \<noteq> opusPayloadType"
    using v audio_settings [OF order _, of "cfAudio cfg"] m(1) by blast+
  obtain duration where d: "ShutdownDuration L (cfServer cfg) = Inr duration"
    using v by (auto simp: resultError_def split: sum.splits)
  have rtc: "rtcConfigValidate (slParseURI L) (slParseAddr L) (slParseURL L) (appRtcConfig cfg) = None"
    using rtc_settings [OF L] v by blast
  have enabled: "rcfAudioEnabled (appRtcConfig cfg) = auEnabled (cfAudio cfg)" by (simp add: appRtcConfig_def Let_def)
  let ?s = "\<lparr>msCfg = \<lparr>mcProfiles = vcProfiles (cfVideo cfg), mcQuality = optionQuality option (vcProfile (cfVideo cfg)) (vcOption (cfVideo cfg)),
     mcTuning = vcTuning (cfVideo cfg)\<rparr>, msStarted = False, msRunning = False, msSource = False, msPipeline = None,
     msQuality = optionQuality option (vcProfile (cfVideo cfg)) (vcOption (cfVideo cfg)), msActive = False, msStopSamples = False\<rparr> :: pipeState mediaService"
  have "\<exists>r. newRtcService (rtcConfigValidate (slParseURI L) (slParseAddr L) (slParseURL L) (appRtcConfig cfg)) True (rcfAudioEnabled (appRtcConfig cfg)) True
      (appRtcConfig cfg) (mediaSourceAdapter (slTemplates L) gst) video \<lparr>sysService = ?s, sysPending = None\<rparr> = Inr r"
    by (rule new_rtc_service [OF rtc]) (use m audio in \<open>simp_all add: optionQuality_def enabled\<close>)
  then obtain r where r: "newRtcService (rtcConfigValidate (slParseURI L) (slParseAddr L) (slParseURL L) (appRtcConfig cfg)) True (auEnabled (cfAudio cfg)) True
      (appRtcConfig cfg) (mediaSourceAdapter (slTemplates L) gst) video \<lparr>sysService = ?s, sysPending = None\<rparr> = Inr r"
    unfolding enabled by blast
  show thesis
    by (rule that) (simp add: appNew_def Let_def m log New_def input newService_def audio r d)
qed

text \<open>C25.  A configuration that passes its validation starts the service: none of the parts rejects its settings, whatever the
  template engine, the encoders and the parsers do, and the only obstacle left is the router, which panics exactly when the
  signaling path conflicts with the routes registered before it.\<close>

theorem validated_config_starts:
  assumes "libsOK L" "registerRoutes (slConflict L) [] [''/healthz'', ''/api/config'', ''/api/status'']" "configValidate L cfg = None"
  shows "(\<forall>e. appNew L gst video cfg \<noteq> (StartError e :: ('s, 'cb) application startup))
    \<and> ((appNew L gst video cfg :: ('s, 'cb) application startup) = StartPanic
        \<longleftrightarrow> slConflict L [''/healthz'', ''/api/config'', ''/api/status''] (wcSignalingPath (cfWebRTC cfg)))"
proof -
  obtain app :: "('s, 'cb) application" where
    "appNew L gst video cfg = (if registerRoutes (slConflict L) [] (appRoutes cfg) then Started app else StartPanic)"
    using appNew_validated [OF assms(1,3)] by metis
  then show ?thesis using assms(2) by (simp add: appRoutes_def)
qed


text \<open>A valid configuration with a given signaling path, and a router that rejects a path registered twice.\<close>

definition demoLibs :: "string startupLibs" where
  "demoLibs = \<lparr>slTemplates = plainEngine, slKeys = sorted_list_of_fset, slRegex = (\<lambda>_. None), slSplitHostPort = (\<lambda>_. Inr ([], ''8080'')),
     slParseDuration = (\<lambda>_. Inr 10), slParseLevel = (\<lambda>_. None), slBuildLogger = (\<lambda>_. None), slParseURI = (\<lambda>_. Inr SchemeTypeSTUN),
     slParseIP = (\<lambda>_. False), slParseAddr = (\<lambda>_. None), slParseURL = (\<lambda>s. Inl (errorsNew s)), slConflict = (\<lambda>paths p. p \<in> set paths)\<rparr>"

definition demoConfigFile :: "string \<Rightarrow> config" where
  "demoConfigFile path = \<lparr>cfServer = \<lparr>svListenAddress = ''127.0.0.1:8080'', svShutdownTimeout = ''10s''\<rparr>,
     cfLogging = \<lparr>lgLevel = ''info'', lgFormat = ''json''\<rparr>, cfTracing = False,
     cfVideo = \<lparr>vcSource = ''monitor'', vcCursorMode = ''embedded'', vcProfile = ''vp8'', vcOption = ''hd'', vcProfiles = demoProfiles, vcTuning = demoTuning\<rparr>,
     cfAudio = \<lparr>auEnabled = True, auDevice = ''@DEFAULT_MONITOR@'', auBitrateKbps = 128\<rparr>,
     cfInput = \<lparr>cfgEnabled = True, cfgLocking = False, cfgPointer = True, cfgKeyboard = True, cfgQueueSize = 256\<rparr>, cfClipboard = True,
     cfWebRTC = \<lparr>wcSignalingPath = path, wcMaxPeers = 2, wcReplaceExistingPeer = False, wcICEServers = [''stun:example''], wcICEUsername = [],
       wcICECredential = [], wcICEAdvertisedIPs = [], wcUDPPortMin = 50000, wcUDPPortMax = 50100, wcAllowedOrigins = [''*'']\<rparr>\<rparr>"

lemma demo_libs: "libsOK demoLibs" by (simp add: libsOK_def demoLibs_def demo_order)

lemma demo_config_valid:
  assumes "HasPrefix path ''/''" "PathClean path = path" "path \<noteq> ''/''" "path \<noteq> ''/healthz''"
  shows "configValidate demoLibs (demoConfigFile path) = None"
proof -
  let ?v = "cfVideo (demoConfigFile path)"
  have "selectedQuality ?v = optionQuality demoOption ''vp8'' ''hd''"
    by (simp add: selectedQuality_def demoConfigFile_def demoProfiles_def demoProfile_def)
  then have "\<forall>e \<in> set (videoErrors demoLibs ?v). e = None"
    using demo_valid by (simp add: videoErrors_def demoConfigFile_def demoLibs_def) (simp add: demoTuning_def)
  moreover have "\<forall>e \<in> set (audioErrors demoLibs (cfAudio (demoConfigFile path)) (vcProfiles ?v)). e = None"
    by (simp add: audioErrors_def demoConfigFile_def demoLibs_def demoProfiles_def demoProfile_def demoCodec_def opusPayloadType_def)
  moreover have "parseInt ''8080'' = Inr 8080" by (simp add: parseInt_def isDigit_def digitsVal_def digitVal_def)
  moreover have "path \<noteq> []" using assms(1) by (auto simp: HasPrefix_def)
  ultimately show ?thesis
    using assms unfolding configValidate_None
    by (auto simp: listenErrors_def ShutdownDuration_def resultError_def inputErrors_def webrtcErrors_def configServerError_def configOriginError_def
        demoConfigFile_def demoLibs_def)
qed

lemma demo_paths: "PathClean ''/webrtc'' = ''/webrtc''" "PathClean ''/api/config'' = ''/api/config''" "HasPrefix ''/webrtc'' ''/''" "HasPrefix ''/api/config'' ''/''"
  by (simp_all add: PathClean_def HasPrefix_def Let_def cleanPart_def)

theorem validated_config_starts_witness:
  "(appNew demoLibs demoGst (\<lambda>_. demoVideo 0) (demoConfigFile ''/webrtc'') :: (nat, nat) application startup) \<noteq> StartPanic
    \<and> (appNew demoLibs demoGst (\<lambda>_. demoVideo 0) (demoConfigFile ''/api/config'') :: (nat, nat) application startup) = StartPanic"
proof -
  have routes: "registerRoutes (slConflict demoLibs) [] [''/healthz'', ''/api/config'', ''/api/status'']" by (simp add: demoLibs_def)
  have "configValidate demoLibs (demoConfigFile ''/webrtc'') = None" "configValidate demoLibs (demoConfigFile ''/api/config'') = None"
    by (simp_all add: demo_config_valid demo_paths)
  from validated_config_starts [OF demo_libs routes this(1), where 's = nat and 'cb = nat, of demoGst "\<lambda>_. demoVideo 0"]
    validated_config_starts [OF demo_libs routes this(2), where 's = nat and 'cb = nat, of demoGst "\<lambda>_. demoVideo 0"]
  moreover have "slConflict demoLibs paths p \<longleftrightarrow> p \<in> set paths" "wcSignalingPath (cfWebRTC (demoConfigFile p)) = p" for paths p
    by (simp_all add: demoLibs_def demoConfigFile_def)
  ultimately show ?thesis by simp
qed

end
