(* ===== verification/Profile_Template.thy ===== *)
theory Profile_Template
  imports Media_Quality
begin

text \<open>
  The templates of encoder profiles (\<open>renderProfileTemplate\<close> in \<open>src/media/profile.go\<close>): the part of Go's
  \<open>text/template\<close> that the built-in profiles use.  A template is text with actions between double braces; an
  action is a field of the data, a number, a quoted string, or a call of \<open>mul\<close>, \<open>ceilDiv\<close> or \<open>element\<close> whose
  arguments may be calls in parentheses.  \<open>parseTemplate\<close> is \<open>None\<close> for anything else, about which nothing is said.
\<close>

section \<open>Syntax\<close>

datatype texpr = TField string | TInt int | TString string | TCall string "texpr list"

datatype tnode = TText string | TAction texpr

datatype ttoken = LParen | RParen | Word string | Quoted string

text \<open>The source as alternating text and actions, text first; \<open>None\<close> when an action is not closed.\<close>

fun actionsOf :: "bool \<Rightarrow> string \<Rightarrow> string \<Rightarrow> (bool \<times> string) list option" where
  "actionsOf action acc [] = (if action then None else Some [(False, rev acc)])"
| "actionsOf action acc [c] = (if action then None else Some [(False, rev (c # acc))])"
| "actionsOf action acc (c # d # s) =
    (if c = d \<and> c = (if action then CHR ''}'' else CHR ''{'')
     then map_option ((#) (action, rev acc)) (actionsOf (\<not> action) [] s)
     else actionsOf action (c # acc) (d # s))"

definition wordChar :: "char \<Rightarrow> bool" where
  "wordChar c \<longleftrightarrow> isDigit c \<or> 65 \<le> byte_of c \<and> byte_of c \<le> 90 \<or> 97 \<le> byte_of c \<and> byte_of c \<le> 122 \<or> c = CHR ''.''"

definition pushWord :: "string \<Rightarrow> ttoken list \<Rightarrow> ttoken list" where
  "pushWord acc ts = (if acc = [] then ts else Word (rev acc) # ts)"

text \<open>The tokens of an action; the first argument is the string that is open, the second the word that is being read.\<close>

fun tokensOf :: "string option \<Rightarrow> string \<Rightarrow> string \<Rightarrow> ttoken list option" where
  "tokensOf None acc [] = Some (pushWord acc [])"
| "tokensOf (Some _) acc [] = None"
| "tokensOf (Some q) acc (c # s) =
    (if c = CHR 0x22 then map_option ((#) (Quoted (rev q))) (tokensOf None [] s)
     else if wordChar c \<or> c = CHR ''-'' \<or> c = CHR ''_'' then tokensOf (Some (c # q)) acc s
     else None)"
| "tokensOf None acc (c # s) =
    (if wordChar c then tokensOf None (c # acc) s
     else if c = CHR '' '' then map_option (pushWord acc) (tokensOf None [] s)
     else if c = CHR '')'' then map_option (\<lambda>ts. pushWord acc (RParen # ts)) (tokensOf None [] s)
     else if acc \<noteq> [] then None
     else if c = CHR ''('' then map_option ((#) LParen) (tokensOf None [] s)
     else if c = CHR 0x22 then tokensOf (Some []) [] s
     else None)"

text \<open>A frame is a command that is being read: its function, if any, and the arguments so far.\<close>

type_synonym frame = "string option \<times> texpr list"

definition closeFrame :: "frame \<Rightarrow> texpr option" where
  "closeFrame f =
    (case f of
       (None, [e]) \<Rightarrow> Some e
     | (Some g, args) \<Rightarrow> (if args = [] then None else Some (TCall g args))
     | _ \<Rightarrow> None)"

definition addArg :: "frame \<Rightarrow> texpr \<Rightarrow> frame" where
  "addArg f e = (fst f, snd f @ [e])"

definition numberWord :: "string \<Rightarrow> bool" where
  "numberWord w \<longleftrightarrow> w \<noteq> [] \<and> list_all isDigit w \<and> hd w \<noteq> CHR ''0'' \<and> digitsVal w < 2 ^ 63"

definition addWord :: "frame \<Rightarrow> string \<Rightarrow> frame option" where
  "addWord f w =
    (if w \<noteq> [] \<and> hd w = CHR ''.'' then Some (addArg f (TField (tl w)))
     else if numberWord w then Some (addArg f (TInt (digitsVal w)))
     else if f = (None, []) then Some (Some w, [])
     else None)"

fun parseTokens :: "frame \<Rightarrow> frame list \<Rightarrow> ttoken list \<Rightarrow> texpr option" where
  "parseTokens f [] [] = closeFrame f"
| "parseTokens f (_ # _) [] = None"
| "parseTokens f fs (Word w # ts) = (case addWord f w of None \<Rightarrow> None | Some f' \<Rightarrow> parseTokens f' fs ts)"
| "parseTokens f fs (Quoted w # ts) = parseTokens (addArg f (TString w)) fs ts"
| "parseTokens f fs (LParen # ts) = parseTokens (None, []) (f # fs) ts"
| "parseTokens f [] (RParen # ts) = None"
| "parseTokens f (g # fs) (RParen # ts) = (case closeFrame f of None \<Rightarrow> None | Some e \<Rightarrow> parseTokens (addArg g e) fs ts)"

section \<open>Types and values\<close>

datatype ttype = IntT | StrT

datatype tvalue = IntV int | StrV string

definition intField :: "string \<Rightarrow> (profileTemplateData \<Rightarrow> int) option" where
  "intField name = map_of
    [(''Width'', ptWidth), (''Height'', ptHeight), (''Framerate'', ptFramerate), (''BitrateKbps'', ptBitrateKbps), (''Threads'', ptThreads),
     (''KeyframeInterval'', ptKeyframeInterval), (''VP8CPUUsed'', ptVP8CPUUsed)] name"

text \<open>The type of an expression, \<open>None\<close> when a field or function is unknown or an argument has the wrong type.\<close>

fun typeOf :: "texpr \<Rightarrow> ttype option" where
  "typeOf (TField name) = (if intField name = None then None else Some IntT)"
| "typeOf (TInt n) = Some IntT"
| "typeOf (TString s) = Some StrT"
| "typeOf (TCall g args) =
    (if g = ''element'' then (if map typeOf args = [Some StrT] then Some StrT else None)
     else if g = ''mul'' \<or> g = ''ceilDiv'' then (if map typeOf args = [Some IntT, Some IntT] then Some IntT else None)
     else None)"

definition parseAction :: "string \<Rightarrow> tnode option" where
  "parseAction s =
    (case tokensOf None [] s of
       None \<Rightarrow> None
     | Some ts \<Rightarrow> (case parseTokens (None, []) [] ts of
           None \<Rightarrow> None
         | Some e \<Rightarrow> if typeOf e = None then None else Some (TAction e)))"

fun parseNodes :: "(bool \<times> string) list \<Rightarrow> tnode list option" where
  "parseNodes [] = Some []"
| "parseNodes ((action, s) # ns) =
    (case (if action then parseAction s else Some (TText s)) of
       None \<Rightarrow> None
     | Some n \<Rightarrow> map_option ((#) n) (parseNodes ns))"

definition parseTemplate :: "string \<Rightarrow> tnode list option" where
  "parseTemplate source = Option.bind (actionsOf False [] source) parseNodes"

section \<open>Execution\<close>

text \<open>The value of an expression; the arguments of a call are evaluated from left to right, and the first error stops.\<close>

fun applyFunc :: "(int \<Rightarrow> int \<Rightarrow> goerror + int) \<Rightarrow> (string \<Rightarrow> string) \<Rightarrow> (int \<Rightarrow> int \<Rightarrow> int) \<Rightarrow> string \<Rightarrow> tvalue list \<Rightarrow> goerror + tvalue" where
  "applyFunc ceil elem mult g [StrV s] =
    (if g = ''element'' then Inr (StrV (elem s)) else Inl (errorsNew ''wrong argument''))"
| "applyFunc ceil elem mult g [IntV a, IntV b] =
    (if g = ''mul'' then Inr (IntV (mult a b))
     else if g = ''ceilDiv'' then (case ceil a b of Inl err \<Rightarrow> Inl err | Inr n \<Rightarrow> Inr (IntV n))
     else Inl (errorsNew ''wrong argument''))"
| "applyFunc ceil elem mult g _ = Inl (errorsNew ''wrong argument'')"

fun sequenceValues :: "(goerror + tvalue) list \<Rightarrow> goerror + tvalue list" where
  "sequenceValues [] = Inr []"
| "sequenceValues (Inl err # vs) = Inl err"
| "sequenceValues (Inr v # vs) = (case sequenceValues vs of Inl err \<Rightarrow> Inl err | Inr ws \<Rightarrow> Inr (v # ws))"

fun evalExpr :: "(int \<Rightarrow> int \<Rightarrow> goerror + int) \<Rightarrow> (string \<Rightarrow> string) \<Rightarrow> (int \<Rightarrow> int \<Rightarrow> int) \<Rightarrow> profileTemplateData \<Rightarrow> texpr \<Rightarrow> goerror + tvalue" where
  "evalExpr ceil elem mult data (TField name) =
    (case intField name of None \<Rightarrow> Inl (errorsNew ''unknown field'') | Some f \<Rightarrow> Inr (IntV (f data)))"
| "evalExpr ceil elem mult data (TInt n) = Inr (IntV n)"
| "evalExpr ceil elem mult data (TString s) = Inr (StrV s)"
| "evalExpr ceil elem mult data (TCall g args) =
    (case sequenceValues (map (evalExpr ceil elem mult data) args) of
       Inl err \<Rightarrow> Inl err
     | Inr vs \<Rightarrow> applyFunc ceil elem mult g vs)"

definition printValue :: "tvalue \<Rightarrow> string" where
  "printValue v = (case v of IntV n \<Rightarrow> showInt n | StrV s \<Rightarrow> s)"

fun execTemplate :: "(int \<Rightarrow> int \<Rightarrow> goerror + int) \<Rightarrow> (string \<Rightarrow> string) \<Rightarrow> (int \<Rightarrow> int \<Rightarrow> int) \<Rightarrow> profileTemplateData \<Rightarrow> tnode list \<Rightarrow> goerror + string" where
  "execTemplate ceil elem mult data [] = Inr []"
| "execTemplate ceil elem mult data (n # ns) =
    (case (case n of TText s \<Rightarrow> Inr s | TAction e \<Rightarrow> map_sum id printValue (evalExpr ceil elem mult data e)) of
       Inl err \<Rightarrow> Inl err
     | Inr s \<Rightarrow> (case execTemplate ceil elem mult data ns of Inl err \<Rightarrow> Inl err | Inr r \<Rightarrow> Inr (s @ r)))"

text \<open>An engine that does on these templates what \<open>text/template\<close> does, and one that knows no others.\<close>

definition goTemplates :: "'t templateEngine \<Rightarrow> bool" where
  "goTemplates E \<longleftrightarrow> (\<forall>name source nodes. parseTemplate source = Some nodes \<longrightarrow>
     (\<exists>t. teParse E name source = Inr t
       \<and> (\<forall>ceil elem mult data s. execTemplate ceil elem mult data nodes = Inr s \<longrightarrow> teExecute E ceil elem mult t data = Inr s)))"

definition fragmentEngine :: "tnode list templateEngine" where
  "fragmentEngine = \<lparr>teParse = (\<lambda>name source. case parseTemplate source of None \<Rightarrow> Inl (errorsNew ''unknown template'') | Some t \<Rightarrow> Inr t),
     teExecute = (\<lambda>ceil elem mult t data. execTemplate ceil elem mult data t)\<rparr>"

lemma fragmentEngine_go: "goTemplates fragmentEngine"
  by (simp add: goTemplates_def fragmentEngine_def)

section \<open>Rendering\<close>

lemma renderProfileTemplate_go:
  assumes "goTemplates E" "parseTemplate source = Some nodes" "execTemplate ceilDiv (elementName (ptPrefix data)) mulInt data nodes = Inr s"
  shows "renderProfileTemplate E name source data = Inr s"
proof -
  obtain t where "teParse E name source = Inr t" "teExecute E ceilDiv (elementName (ptPrefix data)) mulInt t data = Inr s"
    using assms unfolding goTemplates_def by metis
  then show ?thesis by (simp add: renderProfileTemplate_def)
qed

text \<open>An expression is safe when it divides by the frame rate only; then it has a value, of its type, for any positive frame rate.\<close>

fun safeExpr :: "texpr \<Rightarrow> bool" where
  "safeExpr (TCall g args) \<longleftrightarrow> list_all safeExpr args \<and> (g = ''ceilDiv'' \<longrightarrow> list_all (\<lambda>e. e = TField ''Framerate'') (drop 1 args))"
| "safeExpr _ \<longleftrightarrow> True"

fun valueType :: "tvalue \<Rightarrow> ttype" where
  "valueType (IntV _) = IntT"
| "valueType (StrV _) = StrT"

lemma valueType_iff: "valueType v = IntT \<longleftrightarrow> (\<exists>n. v = IntV n)" "valueType v = StrT \<longleftrightarrow> (\<exists>s. v = StrV s)"
  by (cases v; simp)+

lemma typeOf_call:
  assumes "typeOf (TCall g args) = Some T"
  obtains (str) s where "g = ''element''" "args = [s]" "typeOf s = Some StrT" "T = StrT"
    | (int) a b where "g = ''mul'' \<or> g = ''ceilDiv''" "args = [a, b]" "typeOf a = Some IntT" "typeOf b = Some IntT" "T = IntT"
proof (cases "g = ''element''")
  case True
  with assms have "map typeOf args = [Some StrT]" "T = StrT" by (simp_all split: if_split_asm)
  with True str show thesis by (auto simp: map_eq_Cons_conv)
next
  case False
  with assms have "g = ''mul'' \<or> g = ''ceilDiv''" "map typeOf args = [Some IntT, Some IntT]" "T = IntT" by (simp_all split: if_split_asm)
  with int show thesis by (auto simp: map_eq_Cons_conv)
qed

lemma evalExpr_safe:
  assumes "ptFramerate data \<noteq> 0"
  shows "typeOf e = Some T \<Longrightarrow> safeExpr e \<Longrightarrow> \<exists>v. evalExpr ceilDiv elem mult data e = Inr v \<and> valueType v = T"
proof (induction e arbitrary: T)
  case (TField name)
  then obtain f where "intField name = Some f" "T = IntT" by (simp split: if_split_asm) blast
  then show ?case by simp
next
  case (TCall g args)
  have args: "\<forall>a \<in> set args. safeExpr a" using TCall.prems(2) by (simp add: list_all_iff)
  from TCall.prems(1) show ?case
  proof (cases rule: typeOf_call)
    case (str s)
    then obtain v where "evalExpr ceilDiv elem mult data s = Inr v" "valueType v = StrT"
      using TCall.IH [of s StrT] args by (metis list.set_intros(1))
    then show ?thesis unfolding str valueType_iff by auto
  next
    case (int a b)
    obtain n where n: "evalExpr ceilDiv elem mult data a = Inr (IntV n)"
      using TCall.IH [of a IntT] args int valueType_iff by (metis list.set_intros(1))
    obtain m where m: "evalExpr ceilDiv elem mult data b = Inr (IntV m)"
      using TCall.IH [of b IntT] args int valueType_iff by (metis list.set_intros)
    have div: "m \<noteq> 0" if "g = ''ceilDiv''"
    proof -
      have "b = TField ''Framerate''" using TCall.prems(2) int(2) that by simp
      with m assms show ?thesis by (simp add: intField_def)
    qed
    from int(1) show ?thesis
    proof
      assume "g = ''mul''"
      with n m int(5) show ?thesis by (simp add: int(2))
    next
      assume g: "g = ''ceilDiv''"
      with div obtain r where "ceilDiv n m = Inr r" by (simp add: ceilDiv_def)
      with g n m int(5) show ?thesis by (simp add: int(2))
    qed
  qed
qed simp_all

definition safeNodes :: "tnode list \<Rightarrow> bool" where
  "safeNodes nodes \<longleftrightarrow> (\<forall>n \<in> set nodes. case n of TText _ \<Rightarrow> True | TAction e \<Rightarrow> typeOf e \<noteq> None \<and> safeExpr e)"

lemma execTemplate_safe:
  assumes "ptFramerate data \<noteq> 0" "safeNodes nodes"
  shows "\<exists>s. execTemplate ceilDiv elem mult data nodes = Inr s"
  using assms(2)
proof (induction nodes)
  case (Cons n ns)
  obtain r where r: "execTemplate ceilDiv elem mult data ns = Inr r" using Cons by (auto simp: safeNodes_def)
  show ?case
  proof (cases n)
    case (TAction e)
    then obtain T where "typeOf e = Some T" "safeExpr e" using Cons.prems by (auto simp: safeNodes_def)
    with evalExpr_safe [OF assms(1)] obtain v where "evalExpr ceilDiv elem mult data e = Inr v" by blast
    with r TAction show ?thesis by simp
  qed (simp add: r)
qed simp

lemma render_safe:
  assumes "goTemplates E" "parseTemplate source = Some nodes" "safeNodes nodes" "ptFramerate data \<noteq> 0"
  shows "\<exists>s. renderProfileTemplate E name source data = Inr s"
  using execTemplate_safe [OF assms(4,3)] renderProfileTemplate_go [OF assms(1,2)] by metis

section \<open>Numbers as text\<close>

lemma digit_char [simp]: "n < 10 \<Longrightarrow> isDigit (char_of (48 + n))" "n < 10 \<Longrightarrow> digitVal (char_of (48 + n)) = int n"
  by (simp_all add: isDigit_def digitVal_def)

lemma digitsVal_snoc: "digitsVal (s @ [c]) = 10 * digitsVal s + digitVal c"
  by (simp add: digitsVal_def)

lemma decimal_digits: "decimal n \<noteq> [] \<and> list_all isDigit (decimal n) \<and> digitsVal (decimal n) = int n"
proof (induction n rule: decimal.induct)
  case (1 n)
  show ?case
  proof (cases "n < 10")
    case True
    then show ?thesis by (simp add: decimal.simps [of n] digitsVal_def)
  next
    case False
    have "int n = 10 * int (n div 10) + int (n mod 10)" by presburger
    with 1 False show ?thesis by (simp add: decimal.simps [of n] digitsVal_snoc)
  qed
qed

lemma runesW_ascii: "\<forall>c \<in> set s. byte_of c < (128 :: nat) \<Longrightarrow> runesW (map byte_of s) = map (\<lambda>c. (byte_of c, 1)) s"
  by (induction s) (simp_all add: runesW_code)

lemma TrimSpace_digits:
  assumes "list_all isDigit s"
  shows "TrimSpace s = s"
proof -
  have b: "byte_of c < (128 :: nat) \<and> \<not> isSpace (int (byte_of c))" if "c \<in> set s" for c
    using that assms by (auto simp: list_all_iff isDigit_def isSpace_def)
  have none: "takeWhile (\<lambda>rw. isSpace (int (fst rw))) rs = []" if "\<forall>rw \<in> set rs. \<not> isSpace (int (fst rw))" for rs :: "(nat \<times> nat) list"
    using that by (cases rs) auto
  have "runesW (map byte_of s) = map (\<lambda>c. (byte_of c, 1)) s" using b by (intro runesW_ascii) blast
  then show ?thesis using b by (simp add: TrimSpace_def none)
qed

lemma showInt_uint:
  assumes "0 \<le> n" "n < 2 ^ 64"
  shows "TrimSpace (showInt n) = showInt n" "parseUint (showInt n) = Inr n"
  using assms decimal_digits [of "nat n"] by (simp_all add: showInt_def TrimSpace_digits parseUint_def)

lemma showInt_int:
  assumes "0 \<le> n" "n < 2 ^ 63"
  shows "parseInt (showInt n) = Inr n"
proof -
  let ?s = "decimal (nat n)"
  have "isDigit (hd ?s)" using decimal_digits [of "nat n"] by (metis list.set_sel(1) list_all_iff)
  then have "hd ?s \<noteq> CHR ''-''" "hd ?s \<noteq> CHR ''+''" by (auto simp: isDigit_def)
  with assms decimal_digits [of "nat n"] show ?thesis by (simp add: showInt_def parseInt_def)
qed

end
