(* ===== verification/Default_Config.thy ===== *)
theory Default_Config
  imports Startup Profile_Template
begin

text \<open>
  The built-in configuration (\<open>Defaults\<close> and \<open>DefaultVideoProfiles\<close> in \<open>src/config/config.go\<close>): its values, that it
  passes its own validation whichever built-in profile and option is selected, and what its live bitrate templates
  set on the encoders.
\<close>

section \<open>Values\<close>

definition feedback :: "rtcpFeedback list" where
  "feedback =
    [\<lparr>rfType = ''nack'', rfParameter = []\<rparr>, \<lparr>rfType = ''nack'', rfParameter = ''pli''\<rparr>, \<lparr>rfType = ''ccm'', rfParameter = ''fir''\<rparr>,
     \<lparr>rfType = ''transport-cc'', rfParameter = []\<rparr>]"

definition vp8Codec :: rtpCodec where
  "vp8Codec = \<lparr>rcID = ''vp8'', rcMimeType = ''video/VP8'', rcClockRate = 90000, rcChannels = 0, rcPayloadType = 96, rcPayloader = ''vp8'',
     rcSDPFmtpLine = [], rcRTCPFeedback = feedback, rcSDP = \<lparr>sdpOfferFmtp = fmempty, sdpAnswerFmtp = fmempty\<rparr>\<rparr>"

definition h264Codec :: rtpCodec where
  "h264Codec = \<lparr>rcID = ''h264'', rcMimeType = ''video/H264'', rcClockRate = 90000, rcChannels = 0, rcPayloadType = 102, rcPayloader = ''h264'',
     rcSDPFmtpLine = ''level-asymmetry-allowed=1;packetization-mode=1;profile-level-id=42e033'', rcRTCPFeedback = feedback,
     rcSDP = \<lparr>sdpOfferFmtp = fmap_of_list [(''packetization-mode'', ''^1$''), (''profile-level-id'', ''(?i)^42e0[0-9a-f]{2}$'')],
       sdpAnswerFmtp = fmap_of_list [(''profile-level-id'', ''42e033'')]\<rparr>\<rparr>"

definition h264HighCodec :: rtpCodec where
  "h264HighCodec = \<lparr>rcID = ''h264-high'', rcMimeType = ''video/H264'', rcClockRate = 90000, rcChannels = 0, rcPayloadType = 102, rcPayloader = ''h264'',
     rcSDPFmtpLine = ''level-asymmetry-allowed=1;packetization-mode=1;profile-level-id=64002a'', rcRTCPFeedback = feedback,
     rcSDP = \<lparr>sdpOfferFmtp = fmap_of_list [(''packetization-mode'', ''^1$''), (''profile-level-id'', ''(?i)^640[0c][0-9a-f]{2}$'')],
       sdpAnswerFmtp = fmap_of_list [(''profile-level-id'', ''64002a'')]\<rparr>\<rparr>"

definition h264Limits :: qualityLimits where
  "h264Limits = \<lparr>qlMaxBitrateKbps = 50000, qlMaxMacroblocksPerDimension = 543, qlMaxMacroblocksPerFrame = 36864, qlMaxMacroblocksPerSecond = 983040\<rparr>"

definition h264HighLimits :: qualityLimits where
  "h264HighLimits = \<lparr>qlMaxBitrateKbps = 50000, qlMaxMacroblocksPerDimension = 263, qlMaxMacroblocksPerFrame = 8704, qlMaxMacroblocksPerSecond = 522240\<rparr>"

definition qualityOptions :: "int \<Rightarrow> int \<Rightarrow> (string, qualityOption) fmap" where
  "qualityOptions highBitrateKbps maximumBitrateKbps = fmap_of_list
    [(''low'', \<lparr>qoLabel = ''720p 30 FPS'', qoWidth = 1280, qoHeight = 720, qoFramerate = 30, qoBitrateKbps = 2500\<rparr>),
     (''balanced'', \<lparr>qoLabel = ''1080p 30 FPS'', qoWidth = 1920, qoHeight = 1080, qoFramerate = 30, qoBitrateKbps = 4000\<rparr>),
     (''high'', \<lparr>qoLabel = ''1080p 60 FPS'', qoWidth = 1920, qoHeight = 1080, qoFramerate = 60, qoBitrateKbps = highBitrateKbps\<rparr>),
     (''maximum'', \<lparr>qoLabel = ''1080p 60 FPS'', qoWidth = 1920, qoHeight = 1080, qoFramerate = 60, qoBitrateKbps = maximumBitrateKbps\<rparr>)]"

definition vp8Pipeline :: string where
  "vp8Pipeline = joinChar (CHR 0x0A)
    [''videoconvert !'', ''videoscale me'' @ ''thod=nearest-neighbour !'',
     ''video/x-raw,format=I420,width={{ .Width }},height={{ .Height }},framerate={{ .Framerate }}/1 !'',
     ''vp8enc name={{ element \"encoder\" }}'', ''  target-bitrate={{ mul .BitrateKbps 1000 }}'', ''  cpu-used={{ .VP8CPUUsed }}'',
     ''  threads={{ .Threads }}'', ''  deadline=1'', ''  buffer-initial-size=6144'', ''  buffer-optimal-size=9216'',
     ''  buffer-size=12288'', ''  undershoot=95'', ''  min-quantizer=4'', ''  max-quantizer=20'', ''  error-resilient=default'',
     ''  keyframe-max-dist={{ .KeyframeInterval }}'', ''  end-usage=cbr !'', ''video/x-vp8'']"

definition h264VAAPIPipeline :: string where
  "h264VAAPIPipeline = joinChar (CHR 0x0A)
    [''vapostproc name={{ element \"postproc\" }} qos=true scale-method=fast !'',
     ''video/x-raw(memory:VAMemory),format=NV12,width={{ .Width }},height={{ .Height }},framerate={{ .Framerate }}/1 !'',
     ''vah264enc name={{ element \"encoder\" }}'', ''  bitrate={{ .BitrateKbps }}'',
     ''  cpb-size={{ ceilDiv (mul .BitrateKbps 3) .Framerate }}'', ''  key-int-max={{ .KeyframeInterval }}'', ''  b-frames=0'',
     ''  cabac=false'', ''  dct8x8=false'', ''  mbbrc=auto'', ''  num-slices=1'', ''  ref-frames=1'', ''  target-usage=4'',
     ''  rate-control=cbr'', ''  cc-insert=false !'', ''h264parse name={{ element \"parser\" }} config-interval=-1 !'',
     ''video/x-h264,stream-format=byte-stream,alignment=au,profile=constrained-baseline'']"

definition h264VAAPIHighPipeline :: string where
  "h264VAAPIHighPipeline = joinChar (CHR 0x0A)
    [''vapostproc name={{ element \"postproc\" }} qos=true scale-method=fast !'',
     ''video/x-raw(memory:VAMemory),format=NV12,width={{ .Width }},height={{ .Height }},framerate={{ .Framerate }}/1 !'',
     ''vah264enc name={{ element \"encoder\" }}'', ''  bitrate={{ .BitrateKbps }}'',
     ''  cpb-size={{ ceilDiv (mul .BitrateKbps 3) .Framerate }}'', ''  key-int-max={{ .KeyframeInterval }}'', ''  b-frames=0'',
     ''  cabac=true'', ''  dct8x8=true'', ''  mbbrc=auto'', ''  num-slices=1'', ''  ref-frames=1'', ''  target-usage=4'',
     ''  rate-control=cbr'', ''  cc-insert=false !'', ''h264parse name={{ element \"parser\" }} config-interval=-1 !'',
     ''video/x-h264,stream-format=byte-stream,alignment=au,profile=high'']"

definition h264SoftwarePipeline :: string where
  "h264SoftwarePipeline = joinChar (CHR 0x0A)
    [''videoconvert !'', ''videoscale me'' @ ''thod=nearest-neighbour !'',
     ''video/x-raw,format=I420,width={{ .Width }},height={{ .Height }},framerate={{ .Framerate }}/1 !'',
     ''x264enc name={{ element \"encoder\" }}'', ''  option-string=level=5.1'', ''  bitrate={{ .BitrateKbps }}'',
     ''  vbv-buf-capacity={{ ceilDiv 3000 .Framerate }}'', ''  key-int-max={{ .KeyframeInterval }}'', ''  threads={{ .Threads }}'',
     ''  speed-preset=ultrafast'', ''  tune=zerolatency'', ''  pass=cbr'', ''  bframes=0'', ''  cabac=false'', ''  dct8x8=false'',
     ''  ref=1'', ''  sliced-threads=true'', ''  byte-stream=true !'', ''h264parse name={{ element \"parser\" }} config-interval=-1 !'',
     ''video/x-h264,stream-format=byte-stream,alignment=au,profile=constrained-baseline,level=(string)5.1'']"

definition encoderValue :: "string \<Rightarrow> string \<Rightarrow> string \<Rightarrow> encoderProperty" where
  "encoderValue property typ v = \<lparr>epElement = ''encoder'', epProperty = property, epType = typ, epValue = v\<rparr>"

definition vp8Profile :: encoderProfile where
  "vp8Profile = \<lparr>pfLabel = ''VP8'', pfDefaultOption = ''balanced'', pfOptions = qualityOptions 8000 10000, pfFrontendTransform = ''none'',
     pfPipeline = vp8Pipeline, pfEncoderElement = ''encoder'', pfBitrate = [encoderValue ''target-bitrate'' ''int'' ''{{ mul .BitrateKbps 1000 }}''],
     pfCodec = vp8Codec,
     pfLimits = \<lparr>qlMaxBitrateKbps = 2147483, qlMaxMacroblocksPerDimension = 0, qlMaxMacroblocksPerFrame = 0, qlMaxMacroblocksPerSecond = 0\<rparr>\<rparr>"

definition vaapiBitrate :: "encoderProperty list" where
  "vaapiBitrate = [encoderValue ''cpb-size'' ''uint'' ''{{ ceilDiv (mul .BitrateKbps 3) .Framerate }}'',
     encoderValue ''bitrate'' ''uint'' ''{{ .BitrateKbps }}'']"

definition h264VAAPIProfile :: encoderProfile where
  "h264VAAPIProfile = \<lparr>pfLabel = ''H.264 (VA-API)'', pfDefaultOption = ''balanced'', pfOptions = qualityOptions 12000 20000, pfFrontendTransform = ''none'',
     pfPipeline = h264VAAPIPipeline, pfEncoderElement = ''encoder'', pfBitrate = vaapiBitrate, pfCodec = h264Codec, pfLimits = h264Limits\<rparr>"

definition h264VAAPIHighProfile :: encoderProfile where
  "h264VAAPIHighProfile = \<lparr>pfLabel = ''H.264 High (VA-API)'', pfDefaultOption = ''balanced'', pfOptions = qualityOptions 12000 20000,
     pfFrontendTransform = ''none'', pfPipeline = h264VAAPIHighPipeline, pfEncoderElement = ''encoder'', pfBitrate = vaapiBitrate,
     pfCodec = h264HighCodec, pfLimits = h264HighLimits\<rparr>"

definition h264SoftwareProfile :: encoderProfile where
  "h264SoftwareProfile = \<lparr>pfLabel = ''H.264 (software)'', pfDefaultOption = ''balanced'', pfOptions = qualityOptions 8000 10000, pfFrontendTransform = ''none'',
     pfPipeline = h264SoftwarePipeline, pfEncoderElement = ''encoder'', pfBitrate = [encoderValue ''bitrate'' ''uint'' ''{{ .BitrateKbps }}''],
     pfCodec = h264Codec, pfLimits = h264Limits\<rparr>"

definition DefaultVideoProfiles :: profiles where
  "DefaultVideoProfiles = fmap_of_list [(''vp8'', vp8Profile), (''h264-vaapi'', h264VAAPIProfile), (''h264-vaapi-high'', h264VAAPIHighProfile),
     (''h264-software'', h264SoftwareProfile)]"

definition Defaults :: config where
  "Defaults = \<lparr>cfServer = \<lparr>svListenAddress = ''127.0.0.1:8080'', svShutdownTimeout = ''10s''\<rparr>,
     cfLogging = \<lparr>lgLevel = ''info'', lgFormat = ''json''\<rparr>, cfTracing = False,
     cfVideo = \<lparr>vcSource = ''monitor'', vcCursorMode = ''embedded'', vcProfile = ''vp8'', vcOption = ''balanced'', vcProfiles = DefaultVideoProfiles,
       vcTuning = \<lparr>tnThreads = 8, tnKeyframeInterval = 60, tnVP8CPUUsed = 16\<rparr>\<rparr>,
     cfAudio = \<lparr>auEnabled = False, auDevice = ''@DEFAULT_MONITOR@'', auBitrateKbps = 128\<rparr>,
     cfInput = \<lparr>cfgEnabled = True, cfgLocking = False, cfgPointer = True, cfgKeyboard = True, cfgQueueSize = 256\<rparr>, cfClipboard = True,
     cfWebRTC = \<lparr>wcSignalingPath = ''/webrtc'', wcMaxPeers = 2, wcReplaceExistingPeer = False, wcICEServers = [], wcICEUsername = [],
       wcICECredential = [], wcICEAdvertisedIPs = [], wcUDPPortMin = 0, wcUDPPortMax = 0, wcAllowedOrigins = []\<rparr>\<rparr>"

section \<open>Templates\<close>

lemmas template_simps = parseTemplate_def parseAction_def pushWord_def wordChar_def isDigit_def addWord_def addArg_def closeFrame_def numberWord_def
  digitsVal_def digitVal_def intField_def

lemma value_templates:
  "parseTemplate ''{{ mul .BitrateKbps 1000 }}'' = Some [TText [], TAction (TCall ''mul'' [TField ''BitrateKbps'', TInt 1000]), TText []]"
  "parseTemplate ''{{ .BitrateKbps }}'' = Some [TText [], TAction (TField ''BitrateKbps''), TText []]"
  "parseTemplate ''{{ ceilDiv (mul .BitrateKbps 3) .Framerate }}'' =
    Some [TText [], TAction (TCall ''ceilDiv'' [TCall ''mul'' [TField ''BitrateKbps'', TInt 3], TField ''Framerate'']), TText []]"
  by (simp_all add: template_simps)

definition safeTemplate :: "string \<Rightarrow> bool" where
  "safeTemplate source = (case parseTemplate source of None \<Rightarrow> False | Some nodes \<Rightarrow> safeNodes nodes)"

text \<open>A source is safe when each of its lines is.\<close>

definition safeParts :: "(bool \<times> string) list \<Rightarrow> bool" where
  "safeParts = list_all (\<lambda>(action, s). action \<longrightarrow> (case parseAction s of None \<Rightarrow> False | Some n \<Rightarrow> safeNodes [n]))"

definition safeAction :: "string \<Rightarrow> bool" where
  "safeAction s = (case parseAction s of None \<Rightarrow> False | Some n \<Rightarrow> safeNodes [n])"

fun safeFrom :: "bool \<Rightarrow> string \<Rightarrow> string \<Rightarrow> bool" where
  "safeFrom action acc [] = (\<not> action)"
| "safeFrom action acc [c] = (\<not> action)"
| "safeFrom action acc (c # d # s) =
    (if c = d \<and> c = (if action then CHR ''}'' else CHR ''{'') then (action \<longrightarrow> safeAction (rev acc)) \<and> safeFrom (\<not> action) [] s
     else safeFrom action (c # acc) (d # s))"

lemma safeParts_parse: "safeParts ns \<Longrightarrow> \<exists>nodes. parseNodes ns = Some nodes \<and> safeNodes nodes"
proof (induction ns)
  case (Cons x ns)
  then obtain nodes where "parseNodes ns = Some nodes" "safeNodes nodes" by (auto simp: safeParts_def)
  with Cons.prems show ?case by (cases x; cases "fst x") (auto simp: safeParts_def safeNodes_def split: option.splits)
qed (simp add: safeNodes_def)

lemma safeFrom_parts: "safeFrom action acc s \<Longrightarrow> \<exists>ns. actionsOf action acc s = Some ns \<and> safeParts ns"
  by (induction action acc s rule: safeFrom.induct) (auto simp: safeParts_def safeAction_def split: if_split_asm)

lemma safeFrom_template: "safeFrom False [] s \<Longrightarrow> safeTemplate s"
  using safeFrom_parts [of False "[]" s] safeParts_parse by (fastforce simp: safeTemplate_def parseTemplate_def)

lemma safeFrom_acc: "safeFrom action acc s \<Longrightarrow> \<not> action \<Longrightarrow> safeFrom action acc' s"
  by (induction action acc s arbitrary: acc' rule: safeFrom.induct) (auto split: if_split_asm)

lemma safeFrom_line:
  assumes c: "c \<noteq> CHR ''{''" "c \<noteq> CHR ''}''" and r: "safeFrom False [] r"
  shows "safeFrom action acc l \<Longrightarrow> safeFrom action acc (l @ c # r)"
proof (induction action acc l rule: safeFrom.induct)
  case (1 action acc)
  then show ?case using c safeFrom_acc [OF r] by (cases r) auto
next
  case (2 action acc d)
  have "safeFrom False acc' (c # r)" for acc' using c safeFrom_acc [OF r] by (cases r) auto
  with 2 c show ?case by auto
qed (auto split: if_split_asm)

definition safeLines :: "string list \<Rightarrow> bool" where
  "safeLines ls \<longleftrightarrow> ls \<noteq> [] \<and> list_all (safeFrom False []) ls"

lemma safeTemplate_lines:
  assumes "safeLines ls"
  shows "safeTemplate (joinChar (CHR 0x0A) ls)"
proof -
  have "ls \<noteq> [] \<Longrightarrow> list_all (safeFrom False []) ls \<Longrightarrow> safeFrom False [] (joinChar (CHR 0x0A) ls)"
    by (induction "CHR 0x0A" ls rule: joinChar.induct) (auto intro: safeFrom_line)
  then show ?thesis using assms safeFrom_template by (simp add: safeLines_def)
qed

lemma vp8Pipeline_safe: "safeTemplate vp8Pipeline"
  unfolding vp8Pipeline_def by (rule safeTemplate_lines) code_simp

lemma h264VAAPIPipeline_safe: "safeTemplate h264VAAPIPipeline"
  unfolding h264VAAPIPipeline_def by (rule safeTemplate_lines) code_simp

lemma h264VAAPIHighPipeline_safe: "safeTemplate h264VAAPIHighPipeline"
  unfolding h264VAAPIHighPipeline_def by (rule safeTemplate_lines) code_simp

lemma h264SoftwarePipeline_safe: "safeTemplate h264SoftwarePipeline"
  unfolding h264SoftwarePipeline_def by (rule safeTemplate_lines) code_simp

section \<open>Live bitrate\<close>

lemma render_values:
  assumes "goTemplates E"
  shows "renderProfileTemplate E name ''{{ mul .BitrateKbps 1000 }}'' data = Inr (showInt (mulInt (ptBitrateKbps data) 1000))"
    "renderProfileTemplate E name ''{{ .BitrateKbps }}'' data = Inr (showInt (ptBitrateKbps data))"
    "ceilDiv (mulInt (ptBitrateKbps data) 3) (ptFramerate data) = Inr n \<Longrightarrow>
      renderProfileTemplate E name ''{{ ceilDiv (mul .BitrateKbps 3) .Framerate }}'' data = Inr (showInt n)"
  by (rule renderProfileTemplate_go [OF assms value_templates(1)], simp add: intField_def printValue_def)
     (rule renderProfileTemplate_go [OF assms value_templates(2)], simp add: intField_def printValue_def,
      rule renderProfileTemplate_go [OF assms value_templates(3)], simp add: intField_def printValue_def)

lemma ceiling_div:
  assumes d: "1 \<le> (d :: int)"
  shows "\<lceil>real_of_int v / real_of_int d\<rceil> = (v + d - 1) div d"
proof -
  define q r where "q = v div d" and "r = v mod d"
  have v: "v = d * q + r" "0 \<le> r" "r < d" using d by (simp_all add: q_def r_def)
  have "- ((- v) div d) = (v + d - 1) div d"
  proof (cases "r = 0")
    case True
    have "(v + d - 1) div d = q" using v d True by (intro int_div_pos_eq [where r = "d - 1"]) auto
    moreover have "(- v) div d = - q" using v d True by (intro int_div_pos_eq [where r = 0]) auto
    ultimately show ?thesis by simp
  next
    case False
    have "(v + d - 1) div d = q + 1" using v d False by (intro int_div_pos_eq [where r = "r - 1"]) (auto simp: algebra_simps)
    moreover have "(- v) div d = - q - 1" using v d False by (intro int_div_pos_eq [where r = "d - r"]) (auto simp: algebra_simps)
    ultimately show ?thesis by simp
  qed
  then show ?thesis by (metis ceiling_divide_eq_div)
qed

text \<open>What the templates of a profile set: the bitrate, in the unit of the encoder, and three frames' worth of buffer for VA-API.\<close>

definition builtinBitrate :: "quality \<Rightarrow> propertyValue list" where
  "builtinBitrate q =
    (if qProfile q = ''vp8'' then [PropInt (1000 * qBitrateKbps q)]
     else if qProfile q = ''h264-software'' then [PropUint (qBitrateKbps q)]
     else [PropUint \<lceil>3 * qBitrateKbps q / qFramerate q\<rceil>, PropUint (qBitrateKbps q)])"

lemma builtin_properties:
  assumes E: "goTemplates E" and k: "0 \<le> ptBitrateKbps data" "ptBitrateKbps data \<le> 2147483" and f: "1 \<le> ptFramerate data" "ptFramerate data \<le> 120"
  shows "propertyRender E (encoderValue p ''int'' ''{{ mul .BitrateKbps 1000 }}'') name data = Inr (PropInt (1000 * ptBitrateKbps data))"
    "propertyRender E (encoderValue p ''uint'' ''{{ .BitrateKbps }}'') name data = Inr (PropUint (ptBitrateKbps data))"
    "propertyRender E (encoderValue p ''uint'' ''{{ ceilDiv (mul .BitrateKbps 3) .Framerate }}'') name data
      = Inr (PropUint \<lceil>3 * ptBitrateKbps data / ptFramerate data\<rceil>)"
proof -
  let ?k = "ptBitrateKbps data" and ?f = "ptFramerate data"
  show "propertyRender E (encoderValue p ''int'' ''{{ mul .BitrateKbps 1000 }}'') name data = Inr (PropInt (1000 * ?k))"
    using k by (simp add: propertyRender_def encoderValue_def render_values [OF E] mulInt_def mult.commute showInt_uint showInt_int)
  show "propertyRender E (encoderValue p ''uint'' ''{{ .BitrateKbps }}'') name data = Inr (PropUint ?k)"
    using k by (simp add: propertyRender_def encoderValue_def render_values [OF E] showInt_uint)
  have c: "\<lceil>3 * real_of_int ?k / ?f\<rceil> = (3 * ?k + ?f - 1) div ?f" using ceiling_div [OF f(1), of "3 * ?k"] by simp
  have b: "0 \<le> (3 * ?k + ?f - 1) div ?f" "(3 * ?k + ?f - 1) div ?f \<le> 3 * ?k + ?f - 1"
    using k f zdiv_mono2 [of "3 * ?k + ?f - 1" 1 ?f] by (simp_all add: pos_imp_zdiv_nonneg_iff)
  have "ceilDiv (mulInt ?k 3) ?f = Inr ((3 * ?k + ?f - 1) div ?f)"
    using k f b by (simp add: ceilDiv_def mulInt_def go_div_mod_nonneg mult.commute)
  then show "propertyRender E (encoderValue p ''uint'' ''{{ ceilDiv (mul .BitrateKbps 3) .Framerate }}'') name data = Inr (PropUint \<lceil>3 * ?k / ?f\<rceil>)"
    using b k f by (simp add: propertyRender_def encoderValue_def render_values [OF E] showInt_uint c)
qed

lemma builtin_profiles:
  assumes "fmlookup DefaultVideoProfiles name = Some p"
  obtains (vp8) "name = ''vp8''" "p = vp8Profile" | (vaapi) "name = ''h264-vaapi''" "p = h264VAAPIProfile"
    | (high) "name = ''h264-vaapi-high''" "p = h264VAAPIHighProfile" | (software) "name = ''h264-software''" "p = h264SoftwareProfile"
  using assms by (simp add: DefaultVideoProfiles_def fmlookup_of_list split: if_split_asm)

lemma builtin_render:
  assumes "goTemplates E" "fmlookup DefaultVideoProfiles (qProfile q) = Some p" "0 \<le> qBitrateKbps q" "qBitrateKbps q \<le> 2147483"
    "1 \<le> qFramerate q" "qFramerate q \<le> 120"
  shows "RenderBitrate E p (qProfile q) prefix q t = Inr (builtinBitrate q)"
proof -
  let ?data = "templateData prefix q t"
  have d: "ptBitrateKbps ?data = qBitrateKbps q" "ptFramerate ?data = qFramerate q" by (simp_all add: templateData_def)
  have r: "0 \<le> ptBitrateKbps ?data" "ptBitrateKbps ?data \<le> 2147483" "1 \<le> ptFramerate ?data" "ptFramerate ?data \<le> 120"
    using assms unfolding d by simp_all
  note render = builtin_properties [OF assms(1) r, unfolded d]
  from assms(2) show ?thesis
    by (cases rule: builtin_profiles)
      (simp_all add: RenderBitrate_def builtinBitrate_def vp8Profile_def h264VAAPIProfile_def h264VAAPIHighProfile_def h264SoftwareProfile_def vaapiBitrate_def render)
qed

lemma builtin_bitrate_range:
  assumes "qualityValidate DefaultVideoProfiles q = None" "fmlookup DefaultVideoProfiles (qProfile q) = Some p"
  shows "100 \<le> qBitrateKbps q" "qBitrateKbps q \<le> (if qProfile q = ''vp8'' then 2147483 else 50000)" "1 \<le> qFramerate q" "qFramerate q \<le> 120"
proof -
  have v: "validateQualityValues q = None" and l: "limitsValidate (pfLimits p) (qProfile q) q = None"
    using assms by (simp_all add: qualityValidate_def split: if_split_asm option.splits)
  then show "100 \<le> qBitrateKbps q" "1 \<le> qFramerate q" "qFramerate q \<le> 120" by (simp_all add: validateQualityValues_None)
  have "qlMaxBitrateKbps (pfLimits p) \<le> 0 \<or> qBitrateKbps q \<le> qlMaxBitrateKbps (pfLimits p)"
    using l unfolding limits_exact [OF v] by blast
  with assms(2) show "qBitrateKbps q \<le> (if qProfile q = ''vp8'' then 2147483 else 50000)"
    by (cases rule: builtin_profiles)
      (simp_all add: vp8Profile_def h264VAAPIProfile_def h264VAAPIHighProfile_def h264SoftwareProfile_def h264Limits_def h264HighLimits_def)
qed

text \<open>For every quality that the built-in profiles accept, the live bitrate templates render without an error to the
  bitrate of the quality in the unit of the encoder (with three frames of buffer, rounded up, for VA-API), and every value fits
  the 32-bit property it is set on: the VP8 limit of 2147483 kbit/s is the largest for which bits per second do.\<close>

theorem default_live_bitrate:
  assumes "goTemplates E" "qualityValidate DefaultVideoProfiles q = None" "fmlookup DefaultVideoProfiles (qProfile q) = Some p"
  shows "RenderBitrate E p (qProfile q) prefix q t = Inr (builtinBitrate q)
    \<and> (\<forall>v \<in> set (builtinBitrate q). case v of PropInt n \<Rightarrow> 0 < n \<and> n < 2 ^ 31 | PropUint n \<Rightarrow> 0 < n \<and> n < 2 ^ 32)"
proof -
  note r = builtin_bitrate_range [OF assms(2,3)]
  have k: "0 \<le> qBitrateKbps q" "qBitrateKbps q \<le> 2147483" using r(1,2) by (simp_all split: if_split_asm)
  have c: "\<lceil>3 * real_of_int (qBitrateKbps q) / qFramerate q\<rceil> = (3 * qBitrateKbps q + qFramerate q - 1) div qFramerate q"
    using ceiling_div [OF r(3), of "3 * qBitrateKbps q"] by simp
  have "0 < (3 * qBitrateKbps q + qFramerate q - 1) div qFramerate q"
    using r by (simp add: pos_imp_zdiv_pos_iff)
  moreover have "(3 * qBitrateKbps q + qFramerate q - 1) div qFramerate q \<le> 3 * qBitrateKbps q + qFramerate q - 1"
    using r zdiv_mono2 [of "3 * qBitrateKbps q + qFramerate q - 1" 1 "qFramerate q"] by simp
  ultimately have "\<forall>v \<in> set (builtinBitrate q). case v of PropInt n \<Rightarrow> 0 < n \<and> n < 2 ^ 31 | PropUint n \<Rightarrow> 0 < n \<and> n < 2 ^ 32"
    using r k by (simp add: builtinBitrate_def c)
  with builtin_render [OF assms(1,3) k r(3,4)] show ?thesis by blast
qed

section \<open>The built-in profiles are valid\<close>

lemma builtin_identifiers: "profileIdentifier ''low''" "profileIdentifier ''balanced''" "profileIdentifier ''high''" "profileIdentifier ''maximum''"
  by (simp_all add: profileIdentifier_def identStart_def isDigit_def)

lemma builtin_option:
  assumes "fmlookup (qualityOptions h m) n = Some op" "2500 \<le> h" "h \<le> 20000" "2500 \<le> m" "m \<le> 20000"
  shows "profileIdentifier n" "qoLabel op \<noteq> []" "2500 \<le> qoBitrateKbps op" "qoBitrateKbps op \<le> 20000" "qoFramerate op \<in> {30, 60}"
    "(qoWidth op, qoHeight op) \<in> {(1280, 720), (1920, 1080)}"
proof -
  have "n \<in> {''low'', ''balanced'', ''high'', ''maximum''}"
    using assms(1) by (simp add: qualityOptions_def fmlookup_of_list split: if_split_asm)
  then show "profileIdentifier n" using builtin_identifiers by blast
  show "qoLabel op \<noteq> []" "2500 \<le> qoBitrateKbps op" "qoBitrateKbps op \<le> 20000" "qoFramerate op \<in> {30, 60}"
    "(qoWidth op, qoHeight op) \<in> {(1280, 720), (1920, 1080)}"
    using assms unfolding qualityOptions_def fmlookup_of_list by (simp_all split: if_split_asm) auto
qed

text \<open>What the four profiles have in common.\<close>

definition builtinProfile :: "encoderProfile \<Rightarrow> bool" where
  "builtinProfile p \<longleftrightarrow> pfLabel p \<noteq> [] \<and> pfDefaultOption p = ''balanced'' \<and> pfFrontendTransform p = ''none'' \<and> pfEncoderElement p = ''encoder''
     \<and> safeTemplate (pfPipeline p) \<and> pfPipeline p \<noteq> [] \<and> pfBitrate p \<noteq> [] \<and> list_all (\<lambda>b. epElement b = ''encoder'' \<and> epProperty b \<noteq> []) (pfBitrate p)
     \<and> pfLimits p \<in> {pfLimits vp8Profile, h264Limits, h264HighLimits} \<and> pfCodec p \<in> {vp8Codec, h264Codec, h264HighCodec}"

lemma builtin_common:
  assumes "fmlookup DefaultVideoProfiles name = Some p"
  shows "builtinProfile p" "profileIdentifier name" "\<exists>h m. pfOptions p = qualityOptions h m \<and> 2500 \<le> h \<and> h \<le> 20000 \<and> 2500 \<le> m \<and> m \<le> 20000"
proof -
  show "builtinProfile p"
    using assms
  proof (cases rule: builtin_profiles)
    case vp8
    then show ?thesis using vp8Pipeline_safe by (simp add: builtinProfile_def vp8Profile_def encoderValue_def) (simp add: vp8Pipeline_def)
  next
    case vaapi
    then show ?thesis
      using h264VAAPIPipeline_safe by (simp add: builtinProfile_def h264VAAPIProfile_def vaapiBitrate_def encoderValue_def) (simp add: h264VAAPIPipeline_def)
  next
    case high
    then show ?thesis
      using h264VAAPIHighPipeline_safe by (simp add: builtinProfile_def h264VAAPIHighProfile_def vaapiBitrate_def encoderValue_def) (simp add: h264VAAPIHighPipeline_def)
  next
    case software
    then show ?thesis
      using h264SoftwarePipeline_safe by (simp add: builtinProfile_def h264SoftwareProfile_def encoderValue_def) (simp add: h264SoftwarePipeline_def)
  qed
  show "profileIdentifier name"
    using assms by (cases rule: builtin_profiles) (simp_all add: profileIdentifier_def identStart_def isDigit_def)
  show "\<exists>h m. pfOptions p = qualityOptions h m \<and> 2500 \<le> h \<and> h \<le> 20000 \<and> 2500 \<le> m \<and> m \<le> 20000"
    using assms
    by (cases rule: builtin_profiles)
      (force simp: vp8Profile_def h264VAAPIProfile_def h264VAAPIHighProfile_def h264SoftwareProfile_def)+
qed

lemma renderProperties_each:
  "renderProperties tmpl name data index ps = Inr vs \<Longrightarrow> b \<in> set ps \<Longrightarrow> \<exists>v. propertyRender tmpl b name data = Inr v"
  by (induction ps arbitrary: index vs) (auto split: sum.splits)

lemma builtin_limits:
  assumes "builtinProfile p" "validateQualityValues (optionQuality op name n) = None" "qoBitrateKbps op \<le> 20000" "qoFramerate op \<in> {30, 60}"
    "(qoWidth op, qoHeight op) \<in> {(1280, 720), (1920, 1080)}"
  shows "limitsValidate (pfLimits p) name (optionQuality op name n) = None"
proof -
  have "pfLimits p \<in> {pfLimits vp8Profile, h264Limits, h264HighLimits}" using assms(1) by (simp add: builtinProfile_def)
  then show ?thesis
    using assms(3-5) unfolding limits_exact [OF assms(2)]
    by (elim insertE emptyE) (auto simp: optionQuality_def vp8Profile_def h264Limits_def h264HighLimits_def)
qed

lemma builtin_optionErrors:
  assumes E: "goTemplates E" and p: "fmlookup DefaultVideoProfiles name = Some p" and n: "fmlookup (pfOptions p) n = Some op"
  shows "\<forall>e \<in> set (optionErrors E p name t n op). e = None"
proof -
  let ?q = "optionQuality op name n" and ?d = "templateData ''profile-validation'' (optionQuality op name n) t"
  obtain h m where "pfOptions p = qualityOptions h m" "2500 \<le> h" "h \<le> 20000" "2500 \<le> m" "m \<le> 20000" using builtin_common(3) [OF p] by blast
  note o = builtin_option [OF n [unfolded this(1)] this(2-5)]
  have v: "validateQualityValues ?q = None" using o(3-6) by (auto simp: validateQualityValues_None optionQuality_def)
  have l: "limitsValidate (pfLimits p) name ?q = None" using builtin_limits [OF builtin_common(1) [OF p] v] o(4-6) by blast
  have "safeTemplate (pfPipeline p)" using builtin_common(1) [OF p] by (simp add: builtinProfile_def)
  then obtain nodes where "parseTemplate (pfPipeline p) = Some nodes" "safeNodes nodes" by (auto simp: safeTemplate_def split: option.splits)
  moreover have "ptFramerate ?d \<noteq> 0" using o(5) by (auto simp: templateData_def optionQuality_def)
  ultimately have "\<exists>s. renderProfileTemplate E (name @ '' option '' @ n @ '' pipeline'') (pfPipeline p) ?d = Inr s"
    by (rule render_safe [OF E])
  then have pipeline: "renderError (renderProfileTemplate E (name @ '' option '' @ n @ '' pipeline'') (pfPipeline p) ?d) = None"
    by (auto simp: renderError_def)
  have "RenderBitrate E p (qProfile ?q) ''profile-validation'' ?q t = Inr (builtinBitrate ?q)"
    by (rule builtin_render [OF E]) (use p o in \<open>auto simp: optionQuality_def\<close>)
  then have "renderProperties E name ?d 0 (pfBitrate p) = Inr (builtinBitrate ?q)" by (simp add: RenderBitrate_def) (simp add: optionQuality_def)
  then have "\<exists>v. propertyRender E b name ?d = Inr v" if "b \<in> set (pfBitrate p)" for b
    using renderProperties_each that by blast
  then have "\<forall>b \<in> set (pfBitrate p). renderError (propertyRender E b name ?d) = None" by (fastforce simp: renderError_def)
  then show ?thesis
    using o(1,2) v l pipeline by (auto simp: optionErrors_def Let_def wrapError_def enumerate_eq_zip dest!: set_zip_rightD)
qed

definition builtinPatterns :: "string list" where
  "builtinPatterns = [''^1$'', ''(?i)^42e0[0-9a-f]{2}$'', ''(?i)^640[0c][0-9a-f]{2}$'']"

lemma builtin_codecs:
  assumes keys: "keyOrder keys" and regex: "\<forall>r \<in> set builtinPatterns. regex r = None" and c: "codec \<in> {vp8Codec, h264Codec, h264HighCodec}"
  shows "codecValidate keys regex name codec = None"
proof -
  have id: "profileIdentifier (rcID codec)"
    using c by (elim insertE emptyE) (simp_all add: vp8Codec_def h264Codec_def h264HighCodec_def profileIdentifier_def identStart_def isDigit_def)
  have fields: "take 6 (rcMimeType codec) = ''video/'' \<and> length (rcMimeType codec) \<noteq> 6 \<and> rcClockRate codec \<noteq> 0
      \<and> \<not> (rcPayloadType codec < 96 \<or> rcPayloadType codec > 127) \<and> (rcPayloader codec = ''vp8'' \<or> rcPayloader codec = ''h264'')"
    using c by (elim insertE emptyE) (simp_all add: vp8Codec_def h264Codec_def h264HighCodec_def)
  have fb: "\<forall>f \<in> set (rcRTCPFeedback codec). rfType f \<noteq> []"
    using c by (elim insertE emptyE) (simp_all add: vp8Codec_def h264Codec_def h264HighCodec_def feedback_def)
  have offer: "fmlookup (sdpOfferFmtp (rcSDP codec)) k = Some r \<Longrightarrow> k \<noteq> [] \<and> r \<in> set builtinPatterns" for k r
    using c by (elim insertE emptyE)
      (auto simp: vp8Codec_def h264Codec_def h264HighCodec_def fmlookup_of_list builtinPatterns_def split: if_split_asm)
  have answer: "fmlookup (sdpAnswerFmtp (rcSDP codec)) k = Some r \<Longrightarrow> k \<noteq> [] \<and> r \<noteq> []" for k r
    using c by (elim insertE emptyE) (auto simp: vp8Codec_def h264Codec_def h264HighCodec_def fmlookup_of_list split: if_split_asm)
  have ks: "k \<in> set (keys (fmdom m)) \<Longrightarrow> \<exists>r. fmlookup m k = Some r" for k and m :: "(string, string) fmap"
    using keys by (auto simp: keyOrder_def fmlookup_dom_iff)
  have "offerFmtpError regex name k (mapIndex (sdpOfferFmtp (rcSDP codec)) k) = None" if "k \<in> set (keys (fmdom (sdpOfferFmtp (rcSDP codec))))" for k
    using ks [OF that] offer regex by (fastforce simp: offerFmtpError_def mapIndex_def)
  moreover have "\<not> (k = [] \<or> mapIndex (sdpAnswerFmtp (rcSDP codec)) k = [])" if "k \<in> set (keys (fmdom (sdpAnswerFmtp (rcSDP codec))))" for k
    using ks [OF that] answer by (fastforce simp: mapIndex_def)
  ultimately show ?thesis
    unfolding codecValidate_def errorsJoin_None_iff set_append ball_Un
    using id fields fb by (auto simp: enumerate_eq_zip dest!: set_zip_rightD)
qed

lemma builtin_profile_valid:
  assumes E: "goTemplates E" and keys: "keyOrder keys" and regex: "\<forall>r \<in> set builtinPatterns. regex r = None"
    and p: "fmlookup DefaultVideoProfiles name = Some p"
  shows "profileValidate E keys regex p name t = None"
proof -
  note b = builtin_common(1) [OF p, unfolded builtinProfile_def]
  obtain h m where o: "pfOptions p = qualityOptions h m" using builtin_common(3) [OF p] by blast
  have d: "fmlookup (pfOptions p) ''balanced'' \<noteq> None" by (simp add: o qualityOptions_def fmlookup_of_list)
  then have "fmdom (pfOptions p) \<noteq> {||}" by (metis fempty_iff fmdomI not_None_eq)
  then have options: "fcard (fmdom (pfOptions p)) \<noteq> 0" by simp
  have loop: "\<forall>e \<in> set (concat (map (\<lambda>n. case fmlookup (pfOptions p) n of None \<Rightarrow> [] | Some op \<Rightarrow> optionErrors E p name t n op)
      (keys (fmdom (pfOptions p))))). e = None"
    unfolding loop_None [OF keys] using builtin_optionErrors [OF E p] by blast
  have codec: "codecValidate keys regex name (pfCodec p) = None" using builtin_codecs [OF keys regex] b by blast
  have limits: "0 \<le> qlMaxBitrateKbps (pfLimits p)" "0 \<le> qlMaxMacroblocksPerDimension (pfLimits p)" "0 \<le> qlMaxMacroblocksPerFrame (pfLimits p)"
    "0 \<le> qlMaxMacroblocksPerSecond (pfLimits p)"
    using b by (auto simp: vp8Profile_def h264Limits_def h264HighLimits_def)
  have encoder: "profileIdentifier ''encoder''" by (simp add: profileIdentifier_def identStart_def isDigit_def)
  have "epElement e = ''encoder'' \<and> epProperty e \<noteq> []" if "e \<in> set (pfBitrate p)" for e
    using b that by (simp add: list_all_iff)
  moreover have "pfLabel p \<noteq> []" "pfDefaultOption p = ''balanced''" "pfFrontendTransform p = ''none''" "pfEncoderElement p = ''encoder''"
    "pfPipeline p \<noteq> []" "pfBitrate p \<noteq> []" using b by blast+
  ultimately show ?thesis
    unfolding profileValidate_def errorsJoin_None_iff set_append ball_Un
    using builtin_common(2) [OF p] options d loop codec limits encoder builtin_identifiers
    by (auto simp: check_def enumerate_eq_zip split: if_splits dest!: set_zip_rightD)
qed

text \<open>What is relied on: \<open>text/template\<close> on the templates of \<open>Profile_Template\<close>, the order in which maps are visited, that the
  three regular expressions compile, and the parsers on the built-in address, duration and log level.\<close>

definition defaultLibs :: "'t startupLibs \<Rightarrow> bool" where
  "defaultLibs L \<longleftrightarrow> goTemplates (slTemplates L) \<and> keyOrder (slKeys L) \<and> (\<forall>r \<in> set builtinPatterns. slRegex L r = None)
     \<and> slSplitHostPort L ''127.0.0.1:8080'' = Inr (''127.0.0.1'', ''8080'') \<and> slParseDuration L ''10s'' = Inr 10000000000
     \<and> slParseLevel L ''info'' = None"

definition selectDefault :: "string \<Rightarrow> string \<Rightarrow> bool \<Rightarrow> config" where
  "selectDefault profile option audio = Defaults\<lparr>cfVideo := (cfVideo Defaults)\<lparr>vcProfile := profile, vcOption := option\<rparr>,
     cfAudio := (cfAudio Defaults)\<lparr>auEnabled := audio\<rparr>\<rparr>"

lemma selectDefault_fields:
  "cfServer (selectDefault n o' a) = cfServer Defaults" "cfLogging (selectDefault n o' a) = cfLogging Defaults" "cfInput (selectDefault n o' a) = cfInput Defaults"
  "cfClipboard (selectDefault n o' a) = cfClipboard Defaults" "cfWebRTC (selectDefault n o' a) = cfWebRTC Defaults"
  "cfVideo (selectDefault n o' a) = (cfVideo Defaults)\<lparr>vcProfile := n, vcOption := o'\<rparr>" "cfAudio (selectDefault n o' a) = (cfAudio Defaults)\<lparr>auEnabled := a\<rparr>"
  by (simp_all add: selectDefault_def)

lemma builtin_selection:
  assumes "goTemplates E" "keyOrder keys" "\<forall>r \<in> set builtinPatterns. regex r = None"
    and p: "fmlookup DefaultVideoProfiles name = Some p" and n: "fmlookup (pfOptions p) n = Some op"
  shows "ValidateProfiles E keys regex DefaultVideoProfiles (optionQuality op name n) t = None"
proof -
  have codecs: "pfCodec p1 = pfCodec p2" if "fmlookup DefaultVideoProfiles n1 = Some p1" "fmlookup DefaultVideoProfiles n2 = Some p2"
      "rcID (pfCodec p1) = rcID (pfCodec p2)" for n1 n2 p1 p2
    using builtin_common(1) [OF that(1)] builtin_common(1) [OF that(2)] that(3)
    by (auto simp: builtinProfile_def vp8Codec_def h264Codec_def h264HighCodec_def)
  obtain h m where hm: "pfOptions p = qualityOptions h m" "2500 \<le> h" "h \<le> 20000" "2500 \<le> m" "m \<le> 20000" using builtin_common(3) [OF p] by blast
  note o = builtin_option [OF n [unfolded hm(1)] hm(2-5)]
  have v: "validateQualityValues (optionQuality op name n) = None" using o(3-6) by (auto simp: validateQualityValues_None optionQuality_def)
  have "limitsValidate (pfLimits p) name (optionQuality op name n) = None" using builtin_limits [OF builtin_common(1) [OF p] v] o(4-6) by blast
  then have "qualityValidate DefaultVideoProfiles (optionQuality op name n) = None"
    using v p n by (simp add: qualityValidate_def) (simp add: optionQuality_def)
  moreover have "DefaultVideoProfiles \<noteq> fmempty" using p by auto
  ultimately show ?thesis
    unfolding ValidateProfiles_None [OF assms(2)] using builtin_profile_valid [OF assms(1-3)] codecs by blast
qed

text \<open>C39.  The built-in configuration passes its own validation, and still does when any built-in profile, any of its options, and
  audio are selected: every template parses and renders, every limit holds, the codecs are consistent, and no payload type
  is that of Opus.\<close>

theorem default_config_valid:
  assumes L: "defaultLibs L" and p: "fmlookup DefaultVideoProfiles profile = Some p" and o: "fmlookup (pfOptions p) option = Some op"
  shows "configValidate L Defaults = None \<and> configValidate L (selectDefault profile option audio) = None"
proof -
  note l = L [unfolded defaultLibs_def]
  have *: "configValidate L (selectDefault n opt a) = None"
    if "fmlookup DefaultVideoProfiles n = Some p'" "fmlookup (pfOptions p') opt = Some op'" for n opt a p' op'
  proof -
    have "parseInt ''8080'' = Inr 8080" by (simp add: parseInt_def isDigit_def digitsVal_def digitVal_def)
    then have server: "listenErrors L (cfServer Defaults) = None" "resultError (ShutdownDuration L (cfServer Defaults)) = None"
      using l by (simp_all add: listenErrors_def ShutdownDuration_def resultError_def Defaults_def)
    have sel: "ValidateProfiles (slTemplates L) (slKeys L) (slRegex L) DefaultVideoProfiles (optionQuality op' n opt) t = None" for t
      by (rule builtin_selection [OF _ _ _ that]) (use l in blast)+
    have "selectedQuality ((cfVideo Defaults)\<lparr>vcProfile := n, vcOption := opt\<rparr>) = optionQuality op' n opt"
      using that by (simp add: selectedQuality_def Defaults_def)
    then have video: "\<forall>e \<in> set (videoErrors L ((cfVideo Defaults)\<lparr>vcProfile := n, vcOption := opt\<rparr>)). e = None"
      using sel by (simp add: videoErrors_def) (simp add: Defaults_def)
    have "rcPayloadType (pfCodec q) \<noteq> opusPayloadType" if "fmlookup DefaultVideoProfiles m = Some q" for m q
      using builtin_common(1) [OF that] by (auto simp: builtinProfile_def vp8Codec_def h264Codec_def h264HighCodec_def opusPayloadType_def)
    then have opus: "\<forall>m q. fmlookup DefaultVideoProfiles m = Some q \<longrightarrow>
        (\<forall>e \<in> set [check (rcPayloadType (pfCodec q) = opusPayloadType) (Errorf ''video profile %q payload type conflicts with Opus'' [FStr m])]. e = None)"
      by simp
    have order: "keyOrder (slKeys L)" using l by blast
    have "\<forall>e \<in> set (concat (map (\<lambda>name. case fmlookup DefaultVideoProfiles name of None \<Rightarrow> []
          | Some p \<Rightarrow> [check (rcPayloadType (pfCodec p) = opusPayloadType) (Errorf ''video profile %q payload type conflicts with Opus'' [FStr name])])
        (slKeys L (fmdom DefaultVideoProfiles)))). e = None"
      unfolding loop_None [OF order] using opus by blast
    then have "\<forall>e \<in> set (audioErrors L ((cfAudio Defaults)\<lparr>auEnabled := a\<rparr>) DefaultVideoProfiles). e = None"
      unfolding audioErrors_def set_append ball_Un by (cases a) (simp_all add: Defaults_def del: set_concat)
    moreover have "\<forall>e \<in> set (inputErrors (cfInput Defaults) (cfClipboard Defaults)). e = None" by (simp add: inputErrors_def Defaults_def)
    moreover have "\<forall>e \<in> set (webrtcErrors L (cfWebRTC Defaults)). e = None"
      using demo_paths by (simp add: webrtcErrors_def Defaults_def)
    ultimately show ?thesis
      unfolding configValidate_None selectDefault_fields using server video l by (simp add: Defaults_def)
  qed
  have "Defaults = selectDefault ''vp8'' ''balanced'' False" by (simp add: selectDefault_def Defaults_def)
  moreover have "fmlookup DefaultVideoProfiles ''vp8'' = Some vp8Profile" "fmlookup (pfOptions vp8Profile) ''balanced'' \<noteq> None"
    by (simp_all add: DefaultVideoProfiles_def vp8Profile_def qualityOptions_def fmlookup_of_list)
  ultimately show ?thesis using * [OF p o] * by (metis not_None_eq)
qed

section \<open>Concrete inputs\<close>

definition defaultDemoLibs :: "tnode list startupLibs" where
  "defaultDemoLibs = \<lparr>slTemplates = fragmentEngine, slKeys = sorted_list_of_fset, slRegex = (\<lambda>_. None),
     slSplitHostPort = (\<lambda>_. Inr (''127.0.0.1'', ''8080'')), slParseDuration = (\<lambda>_. Inr 10000000000), slParseLevel = (\<lambda>_. None),
     slBuildLogger = (\<lambda>_. None), slParseURI = (\<lambda>_. Inr SchemeTypeSTUN), slParseIP = (\<lambda>_. False), slParseAddr = (\<lambda>_. None),
     slParseURL = (\<lambda>s. Inl (errorsNew s)), slConflict = (\<lambda>paths p. p \<in> set paths)\<rparr>"

lemma demo_lookups:
  "fmlookup DefaultVideoProfiles ''vp8'' = Some vp8Profile" "fmlookup DefaultVideoProfiles ''h264-vaapi-high'' = Some h264VAAPIHighProfile"
  "fmlookup (pfOptions h264VAAPIHighProfile) ''maximum'' =
    Some \<lparr>qoLabel = ''1080p 60 FPS'', qoWidth = 1920, qoHeight = 1080, qoFramerate = 60, qoBitrateKbps = 20000\<rparr>"
  "fmlookup (pfOptions vp8Profile) ''high'' = Some \<lparr>qoLabel = ''1080p 60 FPS'', qoWidth = 1920, qoHeight = 1080, qoFramerate = 60, qoBitrateKbps = 8000\<rparr>"
  by (simp_all add: DefaultVideoProfiles_def vp8Profile_def h264VAAPIHighProfile_def qualityOptions_def fmlookup_of_list)

theorem default_config_valid_witness:
  "configValidate defaultDemoLibs Defaults = None \<and> configValidate defaultDemoLibs (selectDefault ''h264-vaapi-high'' ''maximum'' True) = None"
proof -
  have "defaultLibs defaultDemoLibs" by (simp add: defaultLibs_def defaultDemoLibs_def fragmentEngine_go demo_order)
  from default_config_valid [OF this demo_lookups(2,3)] show ?thesis .
qed

theorem default_live_bitrate_witness:
  "RenderBitrate fragmentEngine vp8Profile ''vp8'' ''encoder-1'' \<lparr>qProfile = ''vp8'', qOption = ''high'', qWidth = 1920, qHeight = 1080, qFramerate = 60, qBitrateKbps = 8000\<rparr>
     (vcTuning (cfVideo Defaults)) = Inr [PropInt 8000000]"
proof -
  let ?q = "\<lparr>qProfile = ''vp8'', qOption = ''high'', qWidth = 1920, qHeight = 1080, qFramerate = 60, qBitrateKbps = 8000\<rparr> :: quality"
  have v: "validateQualityValues ?q = None" by (simp add: validateQualityValues_None)
  have "limitsValidate (pfLimits vp8Profile) ''vp8'' ?q = None" unfolding limits_exact [OF v] by (simp add: vp8Profile_def)
  then have "qualityValidate DefaultVideoProfiles ?q = None" using v demo_lookups by (simp add: qualityValidate_def)
  from default_live_bitrate [OF fragmentEngine_go this, of vp8Profile "''encoder-1''" "vcTuning (cfVideo Defaults)"]
  show ?thesis by (simp add: demo_lookups builtinBitrate_def)
qed

end
