(* ===== verification/Eis_Sender.thy ===== *)
theory Eis_Sender
  imports Input_Controller
begin

text \<open>
  The libei sender (\<open>src/input/eis/sender.go\<close>): the table of devices that the desktop has offered, the calls that emulate
  input on them, the mapping of absolute coordinates to regions, and the goroutine that dispatches the events of libei.
  Every call of libei and of the KWin text protocol is recorded in a log, on which an abstract monitor states how
  these C interfaces may be used.  The lock is held over a whole operation, so each is one step.
\<close>

section \<open>libei\<close>

type_synonym handle = nat

datatype eisCap = CapPointer | CapPointerAbsolute | CapKeyboard | CapScroll | CapButton | CapText

text \<open>A region as libei describes it; the mapping id may be nil.\<close>

record eiRegion =
  erX :: uint32
  erY :: uint32
  erWidth :: uint32
  erHeight :: uint32
  erMappingID :: "string option"

text \<open>What libei and KWin answer: the capabilities and regions of a device, and whether a code point could be sent.\<close>

record eisLib =
  elHasCapability :: "handle \<Rightarrow> eisCap \<Rightarrow> bool"
  elRegions :: "handle \<Rightarrow> eiRegion list"
  elKwinSend :: "nat \<Rightarrow> bool"
  elHypot :: "float64 \<Rightarrow> float64 \<Rightarrow> float64"

datatype eiEvent = EvConnect | EvDisconnect | EvSeatAdded bool | EvDeviceAdded "handle option" | EvDeviceResumed "handle option"
  | EvDevicePaused "handle option" | EvDeviceRemoved "handle option" | EvOther

text \<open>The calls, and the pausing of a device, which ends its emulation without a call.\<close>

datatype eisCall = CallBind bool bool | CallRef handle | CallUnref handle | CallStart handle uint32 | CallStop handle | Paused handle
  | CallMotionAbsolute handle float64 float64 | CallMotion handle float64 float64 | CallButton handle uint32 bool
  | CallScrollDelta handle float64 float64 | CallScrollStop handle bool bool | CallKey handle uint32 bool | CallText handle string
  | CallFrame handle | CallKwinSend nat | CallKwinClose | CallContextUnref

section \<open>State\<close>

record eisConfig =
  ecName :: string
  ecPointer :: bool
  ecKeyboard :: bool
  ecMappingID :: string

record eisRegion =
  rgX :: uint32
  rgY :: uint32
  rgWidth :: uint32
  rgHeight :: uint32
  rgMappingID :: string

record eisDevice =
  dvHandle :: handle
  dvActive :: bool

text \<open>\<open>esEi\<close> and \<open>esKwin\<close> tell whether the pointers are not nil, \<open>esNotified\<close> whether the channel of changes holds its signal.\<close>

record eisSender =
  esCfg :: eisConfig
  esEi :: bool
  esKwin :: bool
  esDevices :: "eisDevice list"
  esConnected :: bool
  esClosed :: bool
  esSequence :: uint32
  esReset :: uint64
  esErr :: "goerror option"
  esNotified :: bool
  esStop :: bool
  esDone :: bool
  esLog :: "eisCall list"

definition ErrEisClosed :: goerror where "ErrEisClosed = Sentinel ''EIS sender is closed''"
definition ErrEisNotReady :: goerror where "ErrEisNotReady = Sentinel ''EIS device is not ready''"

definition logCall :: "eisCall \<Rightarrow> eisSender \<Rightarrow> eisSender" where
  "logCall c s = s\<lparr>esLog := esLog s @ [c]\<rparr>"

text \<open>\<open>created\<close> and \<open>kwin\<close> tell whether the C constructors succeeded, \<open>result\<close> is what \<open>ei_setup_backend_fd\<close> returned.\<close>

definition eisNew :: "int \<Rightarrow> eisConfig \<Rightarrow> bool \<Rightarrow> int \<Rightarrow> bool \<Rightarrow> goerror + eisSender" where
  "eisNew backendFD cfg created result kwin =
    (if backendFD < 0 then Inl (errorsNew ''EIS backend file is required'')
     else if \<not> ecPointer cfg \<and> \<not> ecKeyboard cfg then Inl (errorsNew ''EIS sender requires pointer or keyboard'')
     else if ecName cfg = [] then Inl (errorsNew ''EIS sender name is required'')
     else if \<not> created then Inl (errorsNew ''create libei sender'')
     else if result < 0 then Inl (Errorf ''set up libei backend fd: %d'' [FInt result])
     else Inr \<lparr>esCfg = cfg, esEi = True, esKwin = (ecKeyboard cfg \<and> kwin), esDevices = [], esConnected = False, esClosed = False,
       esSequence = 0, esReset = 0, esErr = None, esNotified = False, esStop = False, esDone = False, esLog = []\<rparr>)"

section \<open>Devices\<close>

definition findDeviceLocked :: "handle \<Rightarrow> eisSender \<Rightarrow> eisDevice option" where
  "findDeviceLocked h s = find (\<lambda>d. dvHandle d = h) (esDevices s)"

fun setActive :: "handle \<Rightarrow> bool \<Rightarrow> eisDevice list \<Rightarrow> eisDevice list" where
  "setActive h b [] = []"
| "setActive h b (d # ds) = (if dvHandle d = h then d\<lparr>dvActive := b\<rparr> # ds else d # setActive h b ds)"

fun dropDevice :: "handle \<Rightarrow> eisDevice list \<Rightarrow> eisDevice list" where
  "dropDevice h [] = []"
| "dropDevice h (d # ds) = (if dvHandle d = h then ds else d # dropDevice h ds)"

definition startEmulating :: "handle \<Rightarrow> eisSender \<Rightarrow> eisSender" where
  "startEmulating h s = logCall (CallStart h (esSequence s + 1)) (s\<lparr>esSequence := esSequence s + 1\<rparr>)"

definition addDeviceLocked :: "handle option \<Rightarrow> bool \<Rightarrow> eisSender \<Rightarrow> eisSender" where
  "addDeviceLocked device active s =
    (case device of
       None \<Rightarrow> s
     | Some h \<Rightarrow> (case findDeviceLocked h s of
           Some existing \<Rightarrow>
             if active \<and> \<not> dvActive existing
             then (startEmulating h s)\<lparr>esDevices := setActive h True (esDevices s)\<rparr>
             else s
         | None \<Rightarrow>
             let added = (logCall (CallRef h) s)\<lparr>esDevices := esDevices s @ [\<lparr>dvHandle = h, dvActive = active\<rparr>]\<rparr>
             in if active then startEmulating h added else added))"

definition removeDeviceLocked :: "handle option \<Rightarrow> eisSender \<Rightarrow> eisSender" where
  "removeDeviceLocked device s =
    (case device of
       None \<Rightarrow> s
     | Some h \<Rightarrow> (case findDeviceLocked h s of
           None \<Rightarrow> s
         | Some _ \<Rightarrow> (logCall (CallUnref h) s)\<lparr>esDevices := dropDevice h (esDevices s)\<rparr>))"

text \<open>The result tells whether dispatch stops.\<close>

definition handleEventLocked :: "eiEvent \<Rightarrow> eisSender \<Rightarrow> bool \<times> eisSender" where
  "handleEventLocked event s =
    (case event of
       EvConnect \<Rightarrow> (False, s\<lparr>esConnected := True\<rparr>)
     | EvDisconnect \<Rightarrow>
         (True, s\<lparr>esConnected := False, esReset := esReset s + 1,
            esErr := (if esErr s = None then Some (errorsNew ''EIS disconnected'') else esErr s)\<rparr>)
     | EvSeatAdded seat \<Rightarrow> (False, if seat then logCall (CallBind (ecPointer (esCfg s)) (ecKeyboard (esCfg s))) s else s)
     | EvDeviceAdded h \<Rightarrow> (False, addDeviceLocked h False s)
     | EvDeviceResumed h \<Rightarrow>
         (False,
          let s' = addDeviceLocked h True s
          in case h of None \<Rightarrow> s'
             | Some k \<Rightarrow> (case findDeviceLocked k s' of
                   Some d \<Rightarrow> if dvActive d then s' else (startEmulating k s')\<lparr>esDevices := setActive k True (esDevices s')\<rparr>
                 | None \<Rightarrow> s'))
     | EvDevicePaused h \<Rightarrow>
         (False,
          case h of None \<Rightarrow> s
          | Some k \<Rightarrow> (case findDeviceLocked k s of
                None \<Rightarrow> s
              | Some _ \<Rightarrow> (logCall (Paused k) s)\<lparr>esDevices := setActive k False (esDevices s), esReset := esReset s + 1\<rparr>))
     | EvDeviceRemoved h \<Rightarrow> (False, removeDeviceLocked h (s\<lparr>esReset := esReset s + 1\<rparr>))
     | EvOther \<Rightarrow> (False, s))"

fun handleEvents :: "eiEvent list \<Rightarrow> bool \<Rightarrow> eisSender \<Rightarrow> bool \<times> eisSender" where
  "handleEvents [] stopping s = (stopping, s)"
| "handleEvents (e # es) stopping s = (case handleEventLocked e s of (stop, s') \<Rightarrow> handleEvents es (stop \<or> stopping) s')"

definition deviceLocked :: "eisLib \<Rightarrow> eisCap \<Rightarrow> eisSender \<Rightarrow> handle option" where
  "deviceLocked L cap s =
    (if esClosed s \<or> \<not> esConnected s then None
     else map_option dvHandle (find (\<lambda>d. dvActive d \<and> elHasCapability L (dvHandle d) cap) (rev (esDevices s))))"

section \<open>Regions\<close>

definition regionOf :: "eiRegion \<Rightarrow> eisRegion" where
  "regionOf r = \<lparr>rgX = erX r, rgY = erY r, rgWidth = erWidth r, rgHeight = erHeight r,
     rgMappingID = (case erMappingID r of None \<Rightarrow> [] | Some v \<Rightarrow> v)\<rparr>"

definition regionsLocked :: "eisLib \<Rightarrow> eisSender \<Rightarrow> (handle \<times> eisRegion) list" where
  "regionsLocked L s = concat (map (\<lambda>d.
     if \<not> dvActive d \<or> \<not> elHasCapability L (dvHandle d) CapPointerAbsolute then []
     else map (Pair (dvHandle d))
       (filter (\<lambda>r. ecMappingID (esCfg s) = [] \<or> rgMappingID r = ecMappingID (esCfg s)) (map regionOf (elRegions L (dvHandle d)))))
     (esDevices s))"

definition fmax :: "float64 \<Rightarrow> float64 \<Rightarrow> float64" where
  "fmax a b = (if a = NaN \<or> b = NaN then NaN else if flt a b then b else a)"

definition fge :: "float64 \<Rightarrow> float64 \<Rightarrow> bool" where
  "fge a b \<longleftrightarrow> flt b a \<or> feq a b"

definition fofUint :: "uint32 \<Rightarrow> float64" where
  "fofUint w = fofInt (uint w)"

definition clampToRegion :: "float64 \<Rightarrow> float64 \<Rightarrow> eisRegion \<Rightarrow> float64 \<times> float64" where
  "clampToRegion x y region =
    (let maxX = fofUint (rgX region + max (rgWidth region) 1 - 1);
         maxY = fofUint (rgY region + max (rgHeight region) 1 - 1)
     in (fmin (fmax x (fofUint (rgX region))) maxX, fmin (fmax y (fofUint (rgY region))) maxY))"

definition contains :: "float64 \<Rightarrow> float64 \<Rightarrow> eisRegion \<Rightarrow> bool" where
  "contains x y r \<longleftrightarrow> fge x (fofUint (rgX r)) \<and> flt x (fofUint (rgX r + rgWidth r)) \<and> fge y (fofUint (rgY r)) \<and> flt y (fofUint (rgY r + rgHeight r))"

text \<open>The target in the bounding box of all regions.\<close>

definition spanTarget :: "float64 \<Rightarrow> uint32 list \<Rightarrow> uint32 list \<Rightarrow> float64" where
  "spanTarget t lows highs =
    (let low = foldl min (hd lows) (tl lows); high = foldl max (hd highs) (tl highs)
     in fadd (fofUint low) (fmul t (fofUint (max (high - low) 1 - 1))))"

text \<open>The loop over the other regions: the region, the point in it, and its distance.\<close>

fun nearestRegion :: "eisLib \<Rightarrow> float64 \<Rightarrow> float64 \<Rightarrow> (handle \<times> eisRegion) \<times> float64 \<times> float64 \<Rightarrow> float64
    \<Rightarrow> (handle \<times> eisRegion) list \<Rightarrow> (handle \<times> eisRegion) \<times> float64 \<times> float64" where
  "nearestRegion L x y best distance [] = best"
| "nearestRegion L x y best distance (r # rs) =
    (let (cx, cy) = clampToRegion x y (snd r); d = elHypot L (fsub x cx) (fsub y cy)
     in if flt d distance then nearestRegion L x y (r, cx, cy) d rs else nearestRegion L x y best distance rs)"

definition absoluteRegionLocked :: "eisLib \<Rightarrow> float64 \<Rightarrow> float64 \<Rightarrow> eisSender \<Rightarrow> goerror + (handle \<times> eisRegion) \<times> float64 \<times> float64" where
  "absoluteRegionLocked L x y s =
    (if esClosed s then Inl ErrEisClosed
     else if \<not> esConnected s then Inl (Wrap ''%w: absolute pointer'' ErrEisNotReady [])
     else let regions = regionsLocked L s in
       if regions = [] then Inl (Wrap ''%w: absolute pointer region'' ErrEisNotReady [])
       else if length regions = 1 \<or> ecMappingID (esCfg s) \<noteq> []
       then let region = last regions; r = snd region
            in Inr (region, fadd (fofUint (rgX r)) (fmul x (fofUint (max (rgWidth r) 1 - 1))),
                 fadd (fofUint (rgY r)) (fmul y (fofUint (max (rgHeight r) 1 - 1))))
       else
         let rs = map snd regions;
             targetX = spanTarget x (map rgX rs) (map (\<lambda>r. rgX r + rgWidth r) rs);
             targetY = spanTarget y (map rgY rs) (map (\<lambda>r. rgY r + rgHeight r) rs)
         in case find (\<lambda>r. contains targetX targetY (snd r)) regions of
              Some region \<Rightarrow> Inr (region, targetX, targetY)
            | None \<Rightarrow>
                let (nx, ny) = clampToRegion targetX targetY (snd (hd regions))
                in Inr (nearestRegion L targetX targetY (hd regions, nx, ny) (elHypot L (fsub targetX nx) (fsub targetY ny)) (tl regions)))"

section \<open>The sender interface\<close>

definition eisStatus :: "eisLib \<Rightarrow> eisSender \<Rightarrow> senderStatus" where
  "eisStatus L s = \<lparr>ssConnected = (esConnected s \<and> \<not> esClosed s),
     ssPointer = (ecPointer (esCfg s) \<and> deviceLocked L CapPointer s \<noteq> None \<and> deviceLocked L CapButton s \<noteq> None
       \<and> deviceLocked L CapScroll s \<noteq> None \<and> regionsLocked L s \<noteq> []),
     ssKeyboard = (ecKeyboard (esCfg s) \<and> deviceLocked L CapKeyboard s \<noteq> None),
     ssText = (ecKeyboard (esCfg s) \<and> (deviceLocked L CapText s \<noteq> None \<or> esKwin s)),
     ssReset = esReset s, ssErr = esErr s\<rparr>"

definition notFinite :: "float64 \<Rightarrow> bool" where
  "notFinite a \<longleftrightarrow> isNaN a \<or> isInf a"

definition eisPointerAbsolute :: "eisLib \<Rightarrow> float64 \<Rightarrow> float64 \<Rightarrow> eisSender call" where
  "eisPointerAbsolute L x y s =
    (if notFinite x \<or> flt x (Fin 0) \<or> flt (Fin 1) x \<or> notFinite y \<or> flt y (Fin 0) \<or> flt (Fin 1) y
     then (Some (errorsNew ''absolute pointer coordinates must be finite and between 0 and 1''), s)
     else case absoluteRegionLocked L x y s of
         Inl err \<Rightarrow> (Some err, s)
       | Inr (region, mappedX, mappedY) \<Rightarrow> (None, logCall (CallFrame (fst region)) (logCall (CallMotionAbsolute (fst region) mappedX mappedY) s)))"

definition withDevice :: "eisLib \<Rightarrow> eisCap \<Rightarrow> string \<Rightarrow> (handle \<Rightarrow> eisCall list) \<Rightarrow> eisSender call" where
  "withDevice L cap what calls s =
    (case deviceLocked L cap s of
       None \<Rightarrow> (Some (Wrap what ErrEisNotReady []), s)
     | Some h \<Rightarrow> (None, fold logCall (calls h @ [CallFrame h]) s))"

definition eisPointerRelative :: "eisLib \<Rightarrow> float64 \<Rightarrow> float64 \<Rightarrow> eisSender call" where
  "eisPointerRelative L dx dy s =
    (if notFinite dx \<or> notFinite dy then (Some (errorsNew ''relative pointer deltas must be finite''), s)
     else withDevice L CapPointer ''%w: relative pointer'' (\<lambda>h. [CallMotion h dx dy]) s)"

definition eisButton :: "eisLib \<Rightarrow> uint32 \<Rightarrow> bool \<Rightarrow> eisSender call" where
  "eisButton L code pressed s = withDevice L CapButton ''%w: pointer button'' (\<lambda>h. [CallButton h code pressed]) s"

definition eisScroll :: "eisLib \<Rightarrow> float64 \<Rightarrow> float64 \<Rightarrow> bool \<Rightarrow> bool \<Rightarrow> eisSender call" where
  "eisScroll L horizontal vertical stopH stopV s =
    (if notFinite horizontal \<or> notFinite vertical then (Some (errorsNew ''scroll deltas must be finite''), s)
     else if horizontal = Fin 0 \<and> vertical = Fin 0 \<and> \<not> stopH \<and> \<not> stopV then (Some (errorsNew ''scroll requires a delta or an axis stop''), s)
     else withDevice L CapScroll ''%w: pointer scroll''
       (\<lambda>h. (if horizontal \<noteq> Fin 0 \<or> vertical \<noteq> Fin 0 then [CallScrollDelta h horizontal vertical] else [])
          @ (if stopH \<or> stopV then [CallScrollStop h stopH stopV] else [])) s)"

definition eisKeyboardKey :: "eisLib \<Rightarrow> uint32 \<Rightarrow> bool \<Rightarrow> eisSender call" where
  "eisKeyboardKey L keycode pressed s = withDevice L CapKeyboard ''%w: keyboard'' (\<lambda>h. [CallKey h keycode pressed]) s"

text \<open>The code points are sent one by one until one fails.\<close>

fun kwinSend :: "eisLib \<Rightarrow> nat list \<Rightarrow> eisSender call" where
  "kwinSend L [] s = (None, s)"
| "kwinSend L (c # cs) s =
    (if \<not> elKwinSend L c then (Some (errorsNew ''send keyboard text through KWin''), logCall (CallKwinSend c) s)
     else kwinSend L cs (logCall (CallKwinSend c) s))"

definition eisKeyboardText :: "eisLib \<Rightarrow> string \<Rightarrow> eisSender call" where
  "eisKeyboardText L t s =
    (case deviceLocked L CapText s of
       Some h \<Rightarrow> (None, logCall (CallFrame h) (logCall (CallText h t) s))
     | None \<Rightarrow> if \<not> esKwin s then (Some (Wrap ''%w: keyboard text'' ErrEisNotReady []), s) else kwinSend L (runes t) s)"

section \<open>The dispatching goroutine\<close>

definition notifyLocked :: "eisSender \<Rightarrow> eisSender" where
  "notifyLocked s = s\<lparr>esNotified := True\<rparr>"

definition eisFail :: "goerror \<Rightarrow> eisSender \<Rightarrow> eisSender" where
  "eisFail err s = notifyLocked (s\<lparr>esErr := errorsJoin [esErr s, Some err], esConnected := False, esReset := esReset s + 1\<rparr>)"

text \<open>The end of \<open>run\<close>: every device is stopped and released, then the context and the KWin connection.\<close>

definition releaseCalls :: "eisDevice list \<Rightarrow> eisCall list" where
  "releaseCalls ds = concat (map (\<lambda>d. (if dvActive d then [CallStop (dvHandle d)] else []) @ [CallUnref (dvHandle d)]) ds)"

definition eisFinish :: "eisSender \<Rightarrow> eisSender" where
  "eisFinish s = notifyLocked (s\<lparr>esLog := esLog s @ releaseCalls (esDevices s) @ (if esEi s then [CallContextUnref] else [])
       @ (if esKwin s then [CallKwinClose] else []),
     esDevices := [], esConnected := False, esClosed := True, esEi := False, esKwin := False\<rparr>)"

text \<open>Between two polls; after a dispatch, with whether to stop and whether the descriptor reported a hang-up; after the loop; at the end.\<close>

datatype runPhase = Polling | Dispatched bool bool | Leaving | Ended

inductive eisStep :: "eisSender \<times> runPhase \<Rightarrow> eisSender \<times> runPhase \<Rightarrow> bool" where
  absolute: "eisStep (s, p) (snd (eisPointerAbsolute L x y s), p)"
| relative: "eisStep (s, p) (snd (eisPointerRelative L x y s), p)"
| button: "eisStep (s, p) (snd (eisButton L code pressed s), p)"
| scroll: "eisStep (s, p) (snd (eisScroll L x y h v s), p)"
| key: "eisStep (s, p) (snd (eisKeyboardKey L code pressed s), p)"
| committed: "eisStep (s, p) (snd (eisKeyboardText L t s), p)"
| changes: "eisStep (s, p) (s\<lparr>esNotified := False\<rparr>, p)"
| close: "eisStep (s, p) (s\<lparr>esStop := True\<rparr>, p)"
| stopped: "esStop s \<Longrightarrow> eisStep (s, Polling) (s, Leaving)"
| poll_error: "eisStep (s, Polling) (eisFail (Wrap ''poll EIS fd: %w'' err []) s, Leaving)"
| dispatch: "handleEvents es False s = (stopping, s') \<Longrightarrow> eisStep (s, Polling) (notifyLocked s', Dispatched stopping hup)"
| hup: "eisStep (s, Dispatched stopping True) (eisFail (errorsNew ''EIS connection closed'') s, Leaving)"
| again: "eisStep (s, Dispatched stopping False) (s, if stopping then Leaving else Polling)"
| finish: "eisStep (s, Leaving) (eisFinish s, Ended)"
| exited: "eisStep (s, Ended) (s\<lparr>esDone := True\<rparr>, Ended)"

inductive eisReach :: "eisSender \<Rightarrow> eisSender \<times> runPhase \<Rightarrow> bool" for s0 where
  init: "eisReach s0 (s0, Polling)"
| step: "eisReach s0 c \<Longrightarrow> eisStep c c' \<Longrightarrow> eisReach s0 c'"

section \<open>The use of libei\<close>

text \<open>
  What the C interfaces allow: a handle is used only between its reference and its release, emulated input is sent only to a
  device that is emulating, the sequence number of an emulation follows the one before, and nothing is used after the
  context or the KWin connection is gone.  The context is released last, when no handle is left.
\<close>

record monitor =
  mnLive :: "handle set"
  mnEmulating :: "handle set"
  mnContext :: bool
  mnKwin :: bool
  mnSequence :: uint32

definition guarded :: "bool \<Rightarrow> monitor \<Rightarrow> monitor option" where
  "guarded ok m = (if ok then Some m else None)"

fun monitorStep :: "eisCall \<Rightarrow> monitor \<Rightarrow> monitor option" where
  "monitorStep (CallBind _ _) m = guarded (mnContext m) m"
| "monitorStep (CallRef h) m = guarded (mnContext m \<and> h \<notin> mnLive m) (m\<lparr>mnLive := insert h (mnLive m)\<rparr>)"
| "monitorStep (CallUnref h) m = guarded (mnContext m \<and> h \<in> mnLive m) (m\<lparr>mnLive := mnLive m - {h}, mnEmulating := mnEmulating m - {h}\<rparr>)"
| "monitorStep (CallStart h n) m = guarded (mnContext m \<and> h \<in> mnLive m - mnEmulating m \<and> n = mnSequence m + 1)
     (m\<lparr>mnEmulating := insert h (mnEmulating m), mnSequence := n\<rparr>)"
| "monitorStep (CallStop h) m = guarded (mnContext m \<and> h \<in> mnEmulating m) (m\<lparr>mnEmulating := mnEmulating m - {h}\<rparr>)"
| "monitorStep (Paused h) m = Some (m\<lparr>mnEmulating := mnEmulating m - {h}\<rparr>)"
| "monitorStep (CallMotionAbsolute h _ _) m = guarded (mnContext m \<and> h \<in> mnEmulating m) m"
| "monitorStep (CallMotion h _ _) m = guarded (mnContext m \<and> h \<in> mnEmulating m) m"
| "monitorStep (CallButton h _ _) m = guarded (mnContext m \<and> h \<in> mnEmulating m) m"
| "monitorStep (CallScrollDelta h _ _) m = guarded (mnContext m \<and> h \<in> mnEmulating m) m"
| "monitorStep (CallScrollStop h _ _) m = guarded (mnContext m \<and> h \<in> mnEmulating m) m"
| "monitorStep (CallKey h _ _) m = guarded (mnContext m \<and> h \<in> mnEmulating m) m"
| "monitorStep (CallText h _) m = guarded (mnContext m \<and> h \<in> mnEmulating m) m"
| "monitorStep (CallFrame h) m = guarded (mnContext m \<and> h \<in> mnEmulating m) m"
| "monitorStep (CallKwinSend _) m = guarded (mnKwin m) m"
| "monitorStep CallKwinClose m = guarded (mnKwin m) (m\<lparr>mnKwin := False\<rparr>)"
| "monitorStep CallContextUnref m = guarded (mnContext m \<and> mnLive m = {}) (m\<lparr>mnContext := False\<rparr>)"

fun monitorRun :: "eisCall list \<Rightarrow> monitor \<Rightarrow> monitor option" where
  "monitorRun [] m = Some m"
| "monitorRun (c # cs) m = (case monitorStep c m of None \<Rightarrow> None | Some m' \<Rightarrow> monitorRun cs m')"

lemma monitorRun_append:
  "monitorRun (xs @ ys) m = (case monitorRun xs m of None \<Rightarrow> None | Some m' \<Rightarrow> monitorRun ys m')"
  by (induction xs arbitrary: m) (auto split: option.splits)

lemma guarded_True [simp]: "ok \<Longrightarrow> guarded ok m = Some m" by (simp add: guarded_def)

definition handlesOf :: "eisSender \<Rightarrow> handle set" where
  "handlesOf s = dvHandle ` set (esDevices s)"

definition activeOf :: "eisDevice list \<Rightarrow> handle set" where
  "activeOf ds = {h. \<exists>d \<in> set ds. dvActive d \<and> dvHandle d = h}"

definition monitorOf :: "eisSender \<Rightarrow> monitor" where
  "monitorOf s = \<lparr>mnLive = handlesOf s, mnEmulating = activeOf (esDevices s), mnContext = esEi s, mnKwin = esKwin s, mnSequence = esSequence s\<rparr>"

text \<open>The log has led the monitor to the state of the sender.\<close>

definition follows :: "monitor \<Rightarrow> eisSender \<Rightarrow> bool" where
  "follows m0 s \<longleftrightarrow> monitorRun (esLog s) m0 = Some (monitorOf s) \<and> distinct (map dvHandle (esDevices s))"

lemma follows_log:
  assumes "follows m0 s" "esLog s' = esLog s @ cs" "monitorRun cs (monitorOf s) = Some (monitorOf s')" "distinct (map dvHandle (esDevices s'))"
  shows "follows m0 s'"
  using assms by (simp add: follows_def monitorRun_append)

lemma follows_same:
  assumes "follows m0 s" "esLog s' = esLog s" "monitorOf s' = monitorOf s" "esDevices s' = esDevices s"
  shows "follows m0 s'"
  using assms by (simp add: follows_def)

lemma setActive_handles [simp]: "map dvHandle (setActive h b ds) = map dvHandle ds"
  by (induction ds) auto

lemma setActive_handle_set [simp]: "dvHandle ` set (setActive h b ds) = dvHandle ` set ds"
  by (induction ds) auto

lemma activeOf_simps [simp]:
  "activeOf [] = {}"
  "activeOf (d # ds) = (if dvActive d then insert (dvHandle d) (activeOf ds) else activeOf ds)"
  "activeOf (ds @ es) = activeOf ds \<union> activeOf es"
  by (auto simp: activeOf_def)

lemma activeOf_sub: "activeOf ds \<subseteq> dvHandle ` set ds"
  by (auto simp: activeOf_def)

lemma setActive_active:
  assumes "distinct (map dvHandle ds)" "h \<in> dvHandle ` set ds"
  shows "activeOf (setActive h b ds) = (if b then insert h (activeOf ds) else activeOf ds - {h})"
  using assms
proof (induction ds)
  case (Cons d ds)
  then have "h = dvHandle d \<Longrightarrow> h \<notin> activeOf ds" using activeOf_sub by fastforce
  with Cons show ?case by (cases "dvHandle d = h") auto
qed simp

lemma dropDevice_facts:
  assumes "distinct (map dvHandle ds)" "h \<in> dvHandle ` set ds"
  shows "dvHandle ` set (dropDevice h ds) = dvHandle ` set ds - {h}" "activeOf (dropDevice h ds) = activeOf ds - {h}"
    "distinct (map dvHandle (dropDevice h ds))"
proof -
  obtain xs d ys where ds: "ds = xs @ d # ys" "dvHandle d = h" using assms(2) by (auto dest: split_list)
  have x: "h \<notin> dvHandle ` set xs" and y: "h \<notin> dvHandle ` set ys" using assms(1) ds by auto
  have "dropDevice h (xs @ d # ys) = xs @ ys" using x ds(2) by (induction xs) auto
  then have drop: "dropDevice h ds = xs @ ys" by (simp add: ds(1))
  show "dvHandle ` set (dropDevice h ds) = dvHandle ` set ds - {h}" using x y ds(2) unfolding drop unfolding ds(1) by (simp add: image_Un)
  show "activeOf (dropDevice h ds) = activeOf ds - {h}"
    using x y ds(2) activeOf_sub [of xs] activeOf_sub [of ys] unfolding drop unfolding ds(1) by auto
  show "distinct (map dvHandle (dropDevice h ds))" using assms(1) unfolding drop unfolding ds(1) by auto
qed

lemma find_device:
  "findDeviceLocked h s = Some d \<Longrightarrow> d \<in> set (esDevices s) \<and> dvHandle d = h"
  "findDeviceLocked h s = None \<Longrightarrow> h \<notin> handlesOf s"
  by (auto simp: findDeviceLocked_def find_Some_iff find_None_iff handlesOf_def)

lemma logCall_simps [simp]:
  "esLog (logCall c s) = esLog s @ [c]" "esDevices (logCall c s) = esDevices s" "esEi (logCall c s) = esEi s" "esKwin (logCall c s) = esKwin s"
  "esSequence (logCall c s) = esSequence s" "esConnected (logCall c s) = esConnected s" "esClosed (logCall c s) = esClosed s" "esReset (logCall c s) = esReset s"
  "esCfg (logCall c s) = esCfg s" "monitorOf (logCall c s) = monitorOf s"
  by (simp_all add: logCall_def monitorOf_def handlesOf_def)

lemma fold_logCall: "fold logCall cs s = s\<lparr>esLog := esLog s @ cs\<rparr>"
  by (induction cs arbitrary: s) (simp_all add: logCall_def)

lemma startEmulating_simps [simp]:
  "esLog (startEmulating h s) = esLog s @ [CallStart h (esSequence s + 1)]" "esDevices (startEmulating h s) = esDevices s"
  "esEi (startEmulating h s) = esEi s" "esKwin (startEmulating h s) = esKwin s" "esSequence (startEmulating h s) = esSequence s + 1"
  "esConnected (startEmulating h s) = esConnected s" "esClosed (startEmulating h s) = esClosed s" "esReset (startEmulating h s) = esReset s"
  by (simp_all add: startEmulating_def)

lemma follows_start:
  assumes "follows m0 s" "esEi s" "h \<in> handlesOf s" "h \<notin> activeOf (esDevices s)"
  shows "follows m0 ((startEmulating h s)\<lparr>esDevices := setActive h True (esDevices s)\<rparr>)"
proof -
  have "distinct (map dvHandle (esDevices s))" using assms(1) by (simp add: follows_def)
  moreover have "h \<in> dvHandle ` set (esDevices s)" using assms(3) by (simp add: handlesOf_def)
  ultimately show ?thesis
    by (intro follows_log [OF assms(1), where cs = "[CallStart h (esSequence s + 1)]"]) (use assms in \<open>simp_all add: monitorOf_def handlesOf_def setActive_active\<close>)
qed

lemma follows_add:
  assumes "follows m0 s" "esEi s"
  shows "follows m0 (addDeviceLocked device active s)"
proof (cases device)
  case (Some h)
  show ?thesis
  proof (cases "findDeviceLocked h s")
    case None
    then have new: "h \<notin> handlesOf s" by (rule find_device)
    then have "h \<notin> activeOf (esDevices s)" using activeOf_sub by (fastforce simp: handlesOf_def)
    then show ?thesis
      by (intro follows_log [OF assms(1), where cs = "CallRef h # (if active then [CallStart h (esSequence s + 1)] else [])"])
        (use assms new None Some in \<open>simp_all add: addDeviceLocked_def Let_def monitorOf_def handlesOf_def follows_def\<close>)
  next
    case (Some d)
    note d = find_device(1) [OF this]
    have "h \<notin> activeOf (esDevices s)" if "\<not> dvActive d"
    proof
      assume "h \<in> activeOf (esDevices s)"
      then obtain e where e: "e \<in> set (esDevices s)" "dvActive e" "dvHandle e = h" by (auto simp: activeOf_def)
      have "distinct (map dvHandle (esDevices s))" using assms(1) by (simp add: follows_def)
      then have "e = d" using e d by (auto simp: distinct_map inj_on_def)
      then show False using e that by simp
    qed
    moreover have "h \<in> handlesOf s" using d by (auto simp: handlesOf_def)
    ultimately show ?thesis
      using follows_start [OF assms] assms Some \<open>device = Some h\<close> by (simp add: addDeviceLocked_def)
  qed
qed (simp add: addDeviceLocked_def assms)

lemma follows_remove:
  assumes "follows m0 s" "esEi s"
  shows "follows m0 (removeDeviceLocked device s)"
proof (cases device)
  case (Some h)
  show ?thesis
  proof (cases "findDeviceLocked h s")
    case (Some d)
    note d = find_device(1) [OF this]
    have x: "distinct (map dvHandle (esDevices s))" "h \<in> dvHandle ` set (esDevices s)" using assms(1) d by (auto simp: follows_def)
    show ?thesis
      by (intro follows_log [OF assms(1), where cs = "[CallUnref h]"])
        (use assms Some \<open>device = Some h\<close> x dropDevice_facts [OF x] in \<open>simp_all add: removeDeviceLocked_def monitorOf_def handlesOf_def\<close>)
  qed (use assms \<open>device = Some h\<close> in \<open>simp add: removeDeviceLocked_def\<close>)
qed (simp add: removeDeviceLocked_def assms)

definition eisInv :: "monitor \<Rightarrow> eisSender \<Rightarrow> runPhase \<Rightarrow> bool" where
  "eisInv m0 s p \<longleftrightarrow> follows m0 s \<and> (esEi s \<longleftrightarrow> \<not> esClosed s) \<and> (esClosed s \<longleftrightarrow> p = Ended)
     \<and> (esClosed s \<longrightarrow> esDevices s = [] \<and> \<not> esKwin s \<and> \<not> esConnected s)"

lemma addDeviceLocked_open [simp]: "esEi (addDeviceLocked d a s) = esEi s" "esClosed (addDeviceLocked d a s) = esClosed s"
  by (simp_all add: addDeviceLocked_def Let_def split: option.split)

lemma removeDeviceLocked_open [simp]: "esEi (removeDeviceLocked d s) = esEi s" "esClosed (removeDeviceLocked d s) = esClosed s"
  by (simp_all add: removeDeviceLocked_def split: option.split)

lemma resumed_active:
  assumes "findDeviceLocked h (addDeviceLocked (Some h) True s) = Some d" "distinct (map dvHandle (esDevices s))"
  shows "dvActive d"
proof (cases "findDeviceLocked h s")
  case None
  then have "find (\<lambda>d. dvHandle d = h) (esDevices s @ [\<lparr>dvHandle = h, dvActive = True\<rparr>]) = Some d"
    using assms(1) by (simp add: addDeviceLocked_def findDeviceLocked_def Let_def)
  moreover have "find (\<lambda>d. dvHandle d = h) (xs @ [e]) = (if \<exists>x \<in> set xs. dvHandle x = h then find (\<lambda>d. dvHandle d = h) xs else find (\<lambda>d. dvHandle d = h) [e])"
    for xs and e :: eisDevice by (induction xs) auto
  ultimately show ?thesis using None by (auto simp: findDeviceLocked_def find_None_iff split: if_splits)
next
  case (Some e)
  have "find (\<lambda>d. dvHandle d = h) (setActive h True ds) = Some d \<Longrightarrow> dvActive d" for ds
    by (induction ds) (auto split: if_splits)
  with Some assms(1) show ?thesis by (cases "dvActive e") (simp_all add: addDeviceLocked_def findDeviceLocked_def)
qed

lemma follows_event:
  assumes "follows m0 s" "esEi s"
  shows "follows m0 (snd (handleEventLocked e s)) \<and> esEi (snd (handleEventLocked e s)) \<and> esClosed (snd (handleEventLocked e s)) = esClosed s"
proof (cases e)
  case (EvSeatAdded seat)
  have "follows m0 (logCall (CallBind p k) s)" for p k
    by (intro follows_log [OF assms(1), where cs = "[CallBind p k]"]) (use assms in \<open>simp_all add: follows_def monitorOf_def handlesOf_def\<close>)
  then show ?thesis using assms EvSeatAdded by (simp add: handleEventLocked_def)
next
  case (EvDeviceResumed h)
  have "distinct (map dvHandle (esDevices s))" using assms(1) by (simp add: follows_def)
  then have "snd (handleEventLocked e s) = addDeviceLocked h True s"
    using EvDeviceResumed resumed_active by (auto simp: handleEventLocked_def Let_def split: option.split)
  then show ?thesis using follows_add [OF assms] assms by simp
next
  case (EvDevicePaused h)
  show ?thesis
  proof (cases "Option.bind h (\<lambda>k. findDeviceLocked k s)")
    case None
    then show ?thesis using assms EvDevicePaused by (cases h) (simp_all add: handleEventLocked_def)
  next
    case (Some d)
    then obtain k where k: "h = Some k" "findDeviceLocked k s = Some d" by (cases h) auto
    then have x: "distinct (map dvHandle (esDevices s))" "k \<in> dvHandle ` set (esDevices s)"
      using assms(1) find_device(1) [OF k(2)] by (auto simp: follows_def)
    have "follows m0 ((logCall (Paused k) s)\<lparr>esDevices := setActive k False (esDevices s), esReset := esReset s + 1\<rparr>)"
      by (intro follows_log [OF assms(1), where cs = "[Paused k]"])
        (use assms x in \<open>simp_all add: monitorOf_def handlesOf_def setActive_active\<close>)
    then show ?thesis using assms EvDevicePaused k by (simp add: handleEventLocked_def)
  qed
next
  case (EvDeviceRemoved h)
  have "follows m0 (s\<lparr>esReset := esReset s + 1\<rparr>)" by (rule follows_same [OF assms(1)]) (simp_all add: monitorOf_def handlesOf_def)
  from follows_remove [OF this] show ?thesis using assms EvDeviceRemoved by (simp add: handleEventLocked_def)
next
  case EvConnect
  have "follows m0 (s\<lparr>esConnected := True\<rparr>)" by (rule follows_same [OF assms(1)]) (simp_all add: monitorOf_def handlesOf_def)
  then show ?thesis using assms EvConnect by (simp add: handleEventLocked_def)
next
  case EvDisconnect
  have "follows m0 (s\<lparr>esConnected := False, esReset := esReset s + 1, esErr := x\<rparr>)" for x
    by (rule follows_same [OF assms(1)]) (simp_all add: monitorOf_def handlesOf_def)
  then show ?thesis using assms EvDisconnect by (simp add: handleEventLocked_def)
qed (use assms follows_add [OF assms] in \<open>simp_all add: handleEventLocked_def\<close>)

lemma follows_events:
  "follows m0 s \<Longrightarrow> esEi s \<Longrightarrow> handleEvents es stopping s = (stop, s') \<Longrightarrow> follows m0 s' \<and> esEi s' \<and> esClosed s' = esClosed s"
proof (induction es arbitrary: stopping s)
  case (Cons e es)
  obtain b t where t: "handleEventLocked e s = (b, t)" by fastforce
  with follows_event [OF Cons.prems(1,2), of e] have "follows m0 t \<and> esEi t \<and> esClosed t = esClosed s" by simp
  moreover have "handleEvents es (b \<or> stopping) t = (stop, s')" using Cons.prems(3) t by simp
  ultimately show ?case using Cons.IH by metis
qed simp

text \<open>An operation only adds calls that the monitor accepts.\<close>

definition onlyCalls :: "eisSender \<Rightarrow> eisSender \<Rightarrow> bool" where
  "onlyCalls s s' \<longleftrightarrow> (\<exists>cs. s' = s\<lparr>esLog := esLog s @ cs\<rparr> \<and> monitorRun cs (monitorOf s) = Some (monitorOf s))"

lemma onlyCalls_refl: "onlyCalls s s"
  unfolding onlyCalls_def by (rule exI [of _ "[]"]) simp

lemma eisInv_calls:
  assumes "eisInv m0 s p" "onlyCalls s s'"
  shows "eisInv m0 s' p"
proof -
  obtain cs where cs: "s' = s\<lparr>esLog := esLog s @ cs\<rparr>" "monitorRun cs (monitorOf s) = Some (monitorOf s)"
    using assms(2) by (auto simp: onlyCalls_def)
  have "monitorOf s' = monitorOf s" by (simp add: cs(1) monitorOf_def handlesOf_def)
  then have "follows m0 s'"
    using assms(1) cs by (intro follows_log [of m0 s s' cs]) (simp_all add: eisInv_def follows_def)
  then show ?thesis using assms(1) by (simp add: eisInv_def cs(1))
qed

lemma find_SomeD: "find P xs = Some x \<Longrightarrow> x \<in> set xs \<and> P x"
  by (induction xs) (auto split: if_split_asm)

lemma deviceLocked_active:
  assumes "deviceLocked L cap s = Some h"
  shows "h \<in> activeOf (esDevices s)" "\<not> esClosed s" "elHasCapability L h cap"
proof -
  obtain d where "find (\<lambda>d. dvActive d \<and> elHasCapability L (dvHandle d) cap) (rev (esDevices s)) = Some d" "h = dvHandle d" "\<not> esClosed s"
    using assms by (auto simp: deviceLocked_def split: if_split_asm)
  then show "h \<in> activeOf (esDevices s)" "\<not> esClosed s" "elHasCapability L h cap" using find_SomeD by (fastforce simp: activeOf_def)+
qed

text \<open>The calls that emulate input on one device.\<close>

fun emulates :: "handle \<Rightarrow> eisCall \<Rightarrow> bool" where
  "emulates h (CallMotionAbsolute k _ _) = (k = h)"
| "emulates h (CallMotion k _ _) = (k = h)"
| "emulates h (CallButton k _ _) = (k = h)"
| "emulates h (CallScrollDelta k _ _) = (k = h)"
| "emulates h (CallScrollStop k _ _) = (k = h)"
| "emulates h (CallKey k _ _) = (k = h)"
| "emulates h (CallText k _) = (k = h)"
| "emulates h (CallFrame k) = (k = h)"
| "emulates h _ = False"

lemma emulates_step: "emulates h c \<Longrightarrow> mnContext m \<Longrightarrow> h \<in> mnEmulating m \<Longrightarrow> monitorStep c m = Some m"
  by (cases c) simp_all

lemma emulates_run: "\<forall>c \<in> set cs. emulates h c \<Longrightarrow> mnContext m \<Longrightarrow> h \<in> mnEmulating m \<Longrightarrow> monitorRun cs m = Some m"
  by (induction cs) (simp_all add: emulates_step [of h])

lemma onlyCalls_emulates:
  assumes "\<forall>c \<in> set cs. emulates h c" "esEi s" "h \<in> activeOf (esDevices s)"
  shows "onlyCalls s (s\<lparr>esLog := esLog s @ cs\<rparr>)"
  unfolding onlyCalls_def using emulates_run [OF assms(1), of "monitorOf s"] assms(2,3) by (auto simp: monitorOf_def)

lemma withDevice_calls:
  assumes "esEi s \<longleftrightarrow> \<not> esClosed s" "\<And>h. \<forall>c \<in> set (calls h). emulates h c"
  shows "onlyCalls s (snd (withDevice L cap what calls s))"
proof (cases "deviceLocked L cap s")
  case (Some h)
  have "onlyCalls s (s\<lparr>esLog := esLog s @ (calls h @ [CallFrame h])\<rparr>)"
    by (rule onlyCalls_emulates [of _ h]) (use assms deviceLocked_active [OF Some] in auto)
  then show ?thesis by (simp add: withDevice_def Some fold_logCall del: append.append_Cons fold_append)
qed (simp add: withDevice_def onlyCalls_refl)

lemma onlyCalls_if: "onlyCalls s (snd a) \<Longrightarrow> onlyCalls s (snd b) \<Longrightarrow> onlyCalls s (snd (if c then a else b))"
  by simp

lemma scroll_calls:
  assumes "esEi s \<longleftrightarrow> \<not> esClosed s"
  shows "onlyCalls s (snd (eisScroll L x y h v s))"
  unfolding eisScroll_def by (intro onlyCalls_if withDevice_calls [OF assms]) (auto simp: onlyCalls_refl)

lemma kwinSend_calls: "esKwin s \<Longrightarrow> onlyCalls s (snd (kwinSend L cs s))"
proof -
  have "esKwin s \<Longrightarrow> \<exists>ks. snd (kwinSend L cs s) = s\<lparr>esLog := esLog s @ map CallKwinSend ks\<rparr>" for s
  proof (induction cs arbitrary: s)
    case Nil
    show ?case by (rule exI [of _ "[]"]) simp
  next
    case (Cons c cs)
    show ?case
    proof (cases "elKwinSend L c")
      case True
      obtain ks where "snd (kwinSend L cs (logCall (CallKwinSend c) s))
          = (logCall (CallKwinSend c) s)\<lparr>esLog := esLog (logCall (CallKwinSend c) s) @ map CallKwinSend ks\<rparr>"
        using Cons.IH [of "logCall (CallKwinSend c) s"] Cons.prems by auto
      then show ?thesis using True by (intro exI [of _ "c # ks"]) (simp add: logCall_def)
    next
      case False
      then show ?thesis by (intro exI [of _ "[c]"]) (simp add: logCall_def)
    qed
  qed
  moreover have "mnKwin m \<Longrightarrow> monitorRun (map CallKwinSend ks) m = Some m" for m ks by (induction ks) simp_all
  ultimately show "esKwin s \<Longrightarrow> onlyCalls s (snd (kwinSend L cs s))"
    unfolding onlyCalls_def by (metis monitor.select_convs(4) monitorOf_def)
qed

lemma nearestRegion_clamped:
  assumes "snd best = clampToRegion x y (snd (fst best))"
  shows "fst (nearestRegion L x y best d rs) \<in> insert (fst best) (set rs)
    \<and> snd (nearestRegion L x y best d rs) = clampToRegion x y (snd (fst (nearestRegion L x y best d rs)))"
  using assms
proof (induction rs arbitrary: best d)
  case (Cons r rs)
  obtain cx cy where c: "clampToRegion x y (snd r) = (cx, cy)" by fastforce
  show ?case
    using Cons.IH [of "(r, cx, cy)" "elHypot L (fsub x cx) (fsub y cy)"] Cons.IH [of best d] Cons.prems by (auto simp: c Let_def)
qed simp

lemma absoluteRegion_cases:
  assumes "absoluteRegionLocked L x y s = Inr (region, px, py)"
  obtains (single) "region = last (regionsLocked L s)" "px = fadd (fofUint (rgX (snd region))) (fmul x (fofUint (max (rgWidth (snd region)) 1 - 1)))"
      "py = fadd (fofUint (rgY (snd region))) (fmul y (fofUint (max (rgHeight (snd region)) 1 - 1)))"
    | (inside) "contains px py (snd region)" "region \<in> set (regionsLocked L s)"
    | (near) tx ty where "region \<in> set (regionsLocked L s)" "(px, py) = clampToRegion tx ty (snd region)"
        "tx = spanTarget x (map rgX (map snd (regionsLocked L s))) (map (\<lambda>r. rgX r + rgWidth r) (map snd (regionsLocked L s)))"
        "ty = spanTarget y (map rgY (map snd (regionsLocked L s))) (map (\<lambda>r. rgY r + rgHeight r) (map snd (regionsLocked L s)))"
proof -
  let ?rs = "regionsLocked L s"
  define tx where "tx = spanTarget x (map rgX (map snd ?rs)) (map (\<lambda>r. rgX r + rgWidth r) (map snd ?rs))"
  define ty where "ty = spanTarget y (map rgY (map snd ?rs)) (map (\<lambda>r. rgY r + rgHeight r) (map snd ?rs))"
  have ne: "?rs \<noteq> []" using assms by (auto simp: absoluteRegionLocked_def Let_def split: if_split_asm)
  show thesis
  proof (cases "length ?rs = 1 \<or> ecMappingID (esCfg s) \<noteq> []")
    case True
    then show thesis
      using assms ne by (intro single) (auto simp: absoluteRegionLocked_def Let_def split: if_split_asm)
  next
    case False
    have open': "\<not> esClosed s" "esConnected s" using assms by (auto simp: absoluteRegionLocked_def split: if_split_asm)
    have "absoluteRegionLocked L x y s = (case find (\<lambda>r. contains tx ty (snd r)) ?rs of Some region \<Rightarrow> Inr (region, tx, ty)
        | None \<Rightarrow> let (nx, ny) = clampToRegion tx ty (snd (hd ?rs))
            in Inr (nearestRegion L tx ty (hd ?rs, nx, ny) (elHypot L (fsub tx nx) (fsub ty ny)) (tl ?rs)))"
      unfolding absoluteRegionLocked_def Let_def tx_def ty_def using False ne open' by simp
    note * = this [unfolded assms, symmetric]
    show thesis
    proof (cases "find (\<lambda>r. contains tx ty (snd r)) ?rs")
      case (Some r)
      with * find_SomeD [OF Some] show thesis by (intro inside) auto
    next
      case None
      obtain nx ny where n: "clampToRegion tx ty (snd (hd ?rs)) = (nx, ny)" by fastforce
      define d where "d = elHypot L (fsub tx nx) (fsub ty ny)"
      have "nearestRegion L tx ty (hd ?rs, nx, ny) d (tl ?rs) = (region, px, py)"
        using * by (simp add: None n d_def)
      moreover have "insert (hd ?rs) (set (tl ?rs)) = set ?rs" using ne by (cases ?rs) auto
      ultimately show thesis
        using nearestRegion_clamped [of "(hd ?rs, nx, ny)" tx ty L d "tl ?rs"] n by (intro near [of tx ty]) (simp_all add: tx_def ty_def)
    qed
  qed
qed

lemma absoluteRegion_in:
  assumes "absoluteRegionLocked L x y s = Inr (region, px, py)"
  shows "region \<in> set (regionsLocked L s)" "\<not> esClosed s"
proof -
  have ne: "regionsLocked L s \<noteq> []" using assms by (auto simp: absoluteRegionLocked_def Let_def split: if_split_asm)
  show "\<not> esClosed s" using assms by (auto simp: absoluteRegionLocked_def split: if_split_asm)
  show "region \<in> set (regionsLocked L s)" using assms ne by (cases rule: absoluteRegion_cases) simp_all
qed

lemma regionsLocked_active: "r \<in> set (regionsLocked L s) \<Longrightarrow> fst r \<in> activeOf (esDevices s) \<and> elHasCapability L (fst r) CapPointerAbsolute"
  by (auto simp: regionsLocked_def activeOf_def split: if_split_asm)

lemma absolute_calls:
  assumes "esEi s \<longleftrightarrow> \<not> esClosed s"
  shows "onlyCalls s (snd (eisPointerAbsolute L x y s))"
proof (cases "absoluteRegionLocked L x y s")
  case (Inr r)
  obtain region px py where r: "r = (region, px, py)" by (cases r) auto
  note a = absoluteRegion_in [OF Inr [unfolded r]]
  have "onlyCalls s (s\<lparr>esLog := esLog s @ [CallMotionAbsolute (fst region) px py, CallFrame (fst region)]\<rparr>)"
    by (rule onlyCalls_emulates [of _ "fst region"]) (use assms a regionsLocked_active in auto)
  then show ?thesis using Inr r by (simp add: eisPointerAbsolute_def logCall_def onlyCalls_refl)
qed (simp add: eisPointerAbsolute_def onlyCalls_refl)

lemma text_calls:
  assumes "esEi s \<longleftrightarrow> \<not> esClosed s"
  shows "onlyCalls s (snd (eisKeyboardText L t s))"
proof (cases "deviceLocked L CapText s")
  case None
  then show ?thesis using kwinSend_calls [of s L] by (simp add: eisKeyboardText_def onlyCalls_refl)
next
  case (Some h)
  have "onlyCalls s (s\<lparr>esLog := esLog s @ [CallText h t, CallFrame h]\<rparr>)"
    by (rule onlyCalls_emulates [of _ h]) (use assms deviceLocked_active [OF Some] in auto)
  then show ?thesis using Some by (simp add: eisKeyboardText_def logCall_def)
qed

lemma releaseCalls_run:
  "distinct (map dvHandle ds) \<Longrightarrow> mnContext m \<Longrightarrow> mnLive m = dvHandle ` set ds \<Longrightarrow> mnEmulating m = activeOf ds
    \<Longrightarrow> monitorRun (releaseCalls ds) m = Some (m\<lparr>mnLive := {}, mnEmulating := {}\<rparr>)"
proof (induction ds arbitrary: m)
  case (Cons d ds)
  let ?m = "m\<lparr>mnLive := dvHandle ` set ds, mnEmulating := activeOf ds\<rparr>"
  have h: "dvHandle d \<notin> dvHandle ` set ds" "dvHandle d \<notin> activeOf ds" using Cons.prems(1) activeOf_sub [of ds] by auto
  then have "monitorRun ((if dvActive d then [CallStop (dvHandle d)] else []) @ [CallUnref (dvHandle d)]) m = Some ?m"
    using Cons.prems by (auto simp: monitorRun_append)
  moreover have "releaseCalls (d # ds) = ((if dvActive d then [CallStop (dvHandle d)] else []) @ [CallUnref (dvHandle d)]) @ releaseCalls ds"
    by (simp add: releaseCalls_def)
  ultimately have "monitorRun (releaseCalls (d # ds)) m = monitorRun (releaseCalls ds) ?m"
    by (simp only: monitorRun_append [of _ "releaseCalls ds"] option.case)
  also have "\<dots> = Some (?m\<lparr>mnLive := {}, mnEmulating := {}\<rparr>)"
    using Cons.prems by (intro Cons.IH) simp_all
  finally show ?case by simp
qed (simp add: releaseCalls_def)

lemma finish_inv:
  assumes "eisInv m0 s Leaving"
  shows "eisInv m0 (eisFinish s) Ended"
proof -
  have f: "follows m0 s" and ei: "esEi s" using assms by (auto simp: eisInv_def)
  have d: "distinct (map dvHandle (esDevices s))" using f by (simp add: follows_def)
  have "monitorRun (releaseCalls (esDevices s)) (monitorOf s) = Some ((monitorOf s)\<lparr>mnLive := {}, mnEmulating := {}\<rparr>)"
    by (rule releaseCalls_run [OF d]) (simp_all add: monitorOf_def handlesOf_def ei)
  then have "monitorRun (releaseCalls (esDevices s) @ [CallContextUnref] @ (if esKwin s then [CallKwinClose] else [])) (monitorOf s) = Some (monitorOf (eisFinish s))"
    by (simp add: monitorRun_append monitorOf_def handlesOf_def eisFinish_def notifyLocked_def ei)
  then have "follows m0 (eisFinish s)"
    by (intro follows_log [OF f]) (simp_all add: eisFinish_def notifyLocked_def ei)
  then show ?thesis by (simp add: eisInv_def eisFinish_def notifyLocked_def)
qed

lemma eisInv_same:
  assumes "eisInv m0 s p" "esLog s' = esLog s" "monitorOf s' = monitorOf s" "esDevices s' = esDevices s" "esClosed s' = esClosed s"
    "esConnected s' \<longrightarrow> esConnected s" "(p' = Ended) = (p = Ended)"
  shows "eisInv m0 s' p'"
proof -
  have "esEi s' = esEi s" "esKwin s' = esKwin s" using assms(3) by (simp_all add: monitorOf_def)
  then show ?thesis using assms follows_same [of m0 s s'] by (auto simp: eisInv_def)
qed

lemma eisInv_step:
  assumes "eisStep (s, p) (s', p')" "eisInv m0 s p"
  shows "eisInv m0 s' p'"
proof -
  have ei: "esEi s \<longleftrightarrow> \<not> esClosed s" using assms(2) by (simp add: eisInv_def)
  have calls: "onlyCalls s s'' \<Longrightarrow> eisInv m0 s'' p" for s'' by (rule eisInv_calls [OF assms(2)])
  note same = eisInv_same [OF assms(2)]
  from assms(1) show ?thesis
  proof (cases rule: eisStep.cases)
    case (absolute L x y)
    then show ?thesis using calls absolute_calls [OF ei] by simp
  next
    case (relative L x y)
    then show ?thesis using calls withDevice_calls [OF ei] by (simp add: eisPointerRelative_def onlyCalls_refl)
  next
    case (button L code pressed)
    then show ?thesis using calls withDevice_calls [OF ei] by (simp add: eisButton_def)
  next
    case (scroll L x y h v)
    then show ?thesis using calls scroll_calls [OF ei] by simp
  next
    case (key L code pressed)
    then show ?thesis using calls withDevice_calls [OF ei] by (simp add: eisKeyboardKey_def)
  next
    case (committed L t)
    then show ?thesis using calls text_calls [OF ei] by simp
  next
    case (dispatch es stopping t hup)
    have "follows m0 s" "esEi s" "\<not> esClosed s" using assms(2) dispatch by (auto simp: eisInv_def)
    with follows_events [OF this(1,2) dispatch(4)] have f: "follows m0 t" "esEi t" "\<not> esClosed t" by simp_all
    have "follows m0 (notifyLocked t)" by (rule follows_same [OF f(1)]) (simp_all add: notifyLocked_def monitorOf_def handlesOf_def)
    then show ?thesis using dispatch f by (simp add: eisInv_def notifyLocked_def)
  next
    case finish
    then show ?thesis using finish_inv assms(2) by simp
  qed (use ei in \<open>auto intro!: same simp: monitorOf_def handlesOf_def eisFail_def notifyLocked_def\<close>)
qed

lemma eisNew_inv:
  assumes "eisNew fd cfg created result kwin = Inr s0"
  shows "eisInv (monitorOf s0) s0 Polling" "monitorOf s0 = \<lparr>mnLive = {}, mnEmulating = {}, mnContext = True, mnKwin = esKwin s0, mnSequence = 0\<rparr>"
  using assms by (auto simp: eisNew_def eisInv_def follows_def monitorOf_def handlesOf_def split: if_split_asm)

lemma eisReach_inv:
  assumes "eisReach s0 c" "eisInv m0 s0 Polling"
  shows "eisInv m0 (fst c) (snd c)"
  using assms(1)
proof induction
  case (step c c')
  then show ?case using eisInv_step by (cases c; cases c') auto
qed (simp add: assms(2))

section \<open>Readiness\<close>

lemma find_exists: "find P xs \<noteq> None \<longleftrightarrow> (\<exists>x \<in> set xs. P x)"
  by (auto simp: find_None_iff)

lemma deviceLocked_iff:
  "deviceLocked L cap s \<noteq> None \<longleftrightarrow> \<not> esClosed s \<and> esConnected s \<and> (\<exists>h \<in> activeOf (esDevices s). elHasCapability L h cap)"
proof -
  have "find (\<lambda>d. dvActive d \<and> elHasCapability L (dvHandle d) cap) (rev (esDevices s)) \<noteq> None
      \<longleftrightarrow> (\<exists>h \<in> activeOf (esDevices s). elHasCapability L h cap)"
    unfolding find_exists by (auto simp: activeOf_def)
  then show ?thesis by (auto simp: deviceLocked_def)
qed

lemma regionsLocked_iff:
  "regionsLocked L s \<noteq> [] \<longleftrightarrow> (\<exists>h \<in> activeOf (esDevices s). elHasCapability L h CapPointerAbsolute
     \<and> (\<exists>r \<in> set (map regionOf (elRegions L h)). ecMappingID (esCfg s) = [] \<or> rgMappingID r = ecMappingID (esCfg s)))"
proof -
  let ?ok = "\<lambda>h. elHasCapability L h CapPointerAbsolute
      \<and> (\<exists>r \<in> set (map regionOf (elRegions L h)). ecMappingID (esCfg s) = [] \<or> rgMappingID r = ecMappingID (esCfg s))"
  have "regionsLocked L s \<noteq> [] \<longleftrightarrow> (\<exists>d \<in> set (esDevices s). dvActive d \<and> ?ok (dvHandle d))"
  proof -
    have c: "concat (map f ds) \<noteq> [] \<longleftrightarrow> (\<exists>d \<in> set ds. f d \<noteq> [])" for f :: "eisDevice \<Rightarrow> (handle \<times> eisRegion) list" and ds
      by (induction ds) auto
    have e: "(if \<not> dvActive d \<or> \<not> elHasCapability L (dvHandle d) CapPointerAbsolute then []
        else map (Pair (dvHandle d)) (filter (\<lambda>r. ecMappingID (esCfg s) = [] \<or> rgMappingID r = ecMappingID (esCfg s)) (map regionOf (elRegions L (dvHandle d))))) \<noteq> []
      \<longleftrightarrow> dvActive d \<and> ?ok (dvHandle d)" for d :: eisDevice
      by (simp add: filter_empty_conv) blast
    show ?thesis unfolding regionsLocked_def c e ..
  qed
  also have "\<dots> \<longleftrightarrow> (\<exists>h \<in> activeOf (esDevices s). ?ok h)" unfolding activeOf_def by blast
  finally show ?thesis .
qed

lemma setActive_mono: "activeOf ds \<subseteq> activeOf (setActive h True ds)"
  by (induction ds) auto

text \<open>An event that does not count as a reset takes nothing away.\<close>

definition keeps :: "eisSender \<Rightarrow> eisSender \<Rightarrow> bool" where
  "keeps s s' \<longleftrightarrow> activeOf (esDevices s) \<subseteq> activeOf (esDevices s') \<and> (esConnected s \<longrightarrow> esConnected s') \<and> esClosed s' = esClosed s
     \<and> esCfg s' = esCfg s \<and> esKwin s' = esKwin s"

lemma keeps_refl: "keeps s s" by (simp add: keeps_def)

lemma keeps_trans: "keeps s t \<Longrightarrow> keeps t u \<Longrightarrow> keeps s u" by (auto simp: keeps_def)

lemma keeps_start: "keeps s (startEmulating h s)" "keeps s ((startEmulating h s)\<lparr>esDevices := setActive h True (esDevices s)\<rparr>)"
  using setActive_mono by (simp_all add: keeps_def startEmulating_def)

lemma keeps_add: "keeps s (addDeviceLocked h a s)"
proof (cases h)
  case (Some k)
  have "keeps s ((logCall (CallRef k) s)\<lparr>esDevices := esDevices s @ [\<lparr>dvHandle = k, dvActive = a\<rparr>]\<rparr>)" by (simp add: keeps_def)
  with Some show ?thesis
    using keeps_start keeps_trans by (auto simp: addDeviceLocked_def Let_def keeps_refl split: option.split)
qed (simp add: addDeviceLocked_def keeps_refl)

lemma event_keeps:
  assumes "esReset (snd (handleEventLocked e s)) \<noteq> esReset s + 1"
  shows "keeps s (snd (handleEventLocked e s))"
proof (cases e)
  case (EvDeviceAdded h)
  then show ?thesis using keeps_add by (simp add: handleEventLocked_def)
next
  case (EvDeviceResumed h)
  have "keeps s ((startEmulating k (addDeviceLocked g True s))\<lparr>esDevices := setActive k True (esDevices (addDeviceLocked g True s))\<rparr>)" for k g
    by (rule keeps_trans [OF keeps_add keeps_start(2)])
  then show ?thesis using EvDeviceResumed keeps_add by (simp add: handleEventLocked_def Let_def split: option.split)
next
  case (EvDevicePaused h)
  then show ?thesis using assms by (auto simp: handleEventLocked_def keeps_refl split: option.splits)
next
  case (EvDeviceRemoved h)
  then show ?thesis using assms by (auto simp: handleEventLocked_def removeDeviceLocked_def keeps_refl split: option.splits)
qed (use assms in \<open>simp_all add: handleEventLocked_def keeps_def\<close>)

section \<open>Coordinates\<close>

text \<open>Rounding a value above a representable bound stays above it.\<close>

lemma round64_ge:
  assumes t: "representable t" "0 < t" "t \<le> x" and v: "round64 x = Fin v"
  shows "t \<le> v"
proof -
  define q where "q = ulpExp x"
  have x: "0 < x" using t by simp
  have v': "v = of_int (rne (x / 2 powi q)) * 2 powi q"
    using v x by (simp add: round64_def Let_def q_def split: if_split_asm)
  have pos: "0 < (2 :: rat) powi q" by (rule two_powi_pos)
  have above: "u \<le> v" if "u = of_int m * 2 powi q" "u \<le> x" for u m
  proof -
    have "of_int m \<le> x / 2 powi q" using that pos by (simp add: pos_le_divide_eq)
    then have "m \<le> rne (x / 2 powi q)" by (rule rne_ge)
    then show ?thesis using that(1) pos v' by (simp add: mult_right_mono)
  qed
  show ?thesis
  proof (cases "ulpExp t = q")
    case True
    then show ?thesis using representable_multiple [OF t(1,2)] above t(3) by metis
  next
    case False
    then have less: "ulpExp t < q" using ulpExp_mono [OF t(2,3)] by (simp add: q_def)
    then have f: "flog2 t < flog2 x" and q: "q = flog2 x - 52" by (auto simp: ulpExp_def q_def)
    have "t < 2 powi (flog2 t + 1)" by (rule flog2_bounds(2) [OF t(2)])
    also have "\<dots> \<le> 2 powi (flog2 x)" using f by (intro two_powi_mono) simp
    also have "\<dots> = of_int (2 ^ 52) * 2 powi q"
      by (simp add: q power_int_diff)
    also have "\<dots> \<le> v"
    proof (rule above [of _ "2 ^ 52"])
      show "of_int (2 ^ 52) * 2 powi q \<le> x" using flog2_bounds(1) [OF x] by (simp add: q power_int_diff)
    qed simp
    finally show ?thesis by simp
  qed
qed

lemma representable_upto: "0 \<le> n \<Longrightarrow> n \<le> 2 ^ 53 \<Longrightarrow> representable (of_int n)"
  using representable_nat [of n] by (cases "n = 0") (simp_all add: representable_def)

lemma fofUint_exact: "fofUint w = Fin (of_int (uint w))"
proof -
  have "uint w < 2 ^ 32" using uint_bounded [of w] by simp
  then show ?thesis unfolding fofUint_def by (intro fofInt_exact) simp
qed

text \<open>One axis: the origin plus a fraction of the extent.\<close>

lemma map_axis_int:
  assumes "0 \<le> t" "t \<le> 1" "0 \<le> l" "l < 2 ^ 32" "0 \<le> n" "n < 2 ^ 32"
  shows "\<exists>v. fadd (Fin (of_int l)) (fmul (Fin t) (Fin (of_int n))) = Fin v \<and> of_int l \<le> v \<and> v \<le> of_int (l + n)"
proof -
  have tn: "0 \<le> t * of_int n" "t * of_int n \<le> of_int n" using assms by (simp_all add: mult_left_le_one_le)
  have rn: "representable (of_int n)" using assms by (intro representable_upto) simp_all
  obtain w where w: "round64 (t * of_int n) = Fin w" "0 \<le> w" "w \<le> of_int n"
    using round64_nonneg [OF tn(1)] round64_fle [OF rn _ tn(2)] assms by (auto simp: fle_def)
  have r: "representable (of_int (l + n))" using assms by (intro representable_upto) simp_all
  have lw: "0 \<le> of_int l + w" "of_int l + w \<le> of_int (l + n)" using assms w by simp_all
  have ln: "(0 :: rat) \<le> of_int (l + n)" using assms by simp
  obtain v where v: "round64 (of_int l + w) = Fin v" "0 \<le> v" "v \<le> of_int (l + n)"
    using round64_nonneg [OF lw(1)] round64_fle [OF r ln lw(2)] by (auto simp: fle_def)
  have "of_int l \<le> v"
  proof (cases "l = 0")
    case False
    have "representable (of_int l)" using assms by (intro representable_upto) simp_all
    then show ?thesis using round64_ge [OF _ _ _ v(1)] False assms w by simp
  qed (use v in simp)
  then show ?thesis using v w by simp
qed

lemma map_axis:
  assumes "0 \<le> t" "t \<le> 1"
  shows "\<exists>v. fadd (fofUint low) (fmul (Fin t) (fofUint n)) = Fin v \<and> of_int (uint low) \<le> v \<and> v \<le> of_int (uint low + uint n)"
  unfolding fofUint_exact
  by (rule map_axis_int [OF assms]) (use uint_bounded [of low] uint_bounded [of n] in simp_all)

text \<open>A coordinate of a region whose extent does not overflow: at least the origin, and less than the end.\<close>

definition inExtent :: "uint32 \<Rightarrow> uint32 \<Rightarrow> float64 \<Rightarrow> bool" where
  "inExtent low extent p \<longleftrightarrow> (\<exists>v. p = Fin v \<and> of_int (uint low) \<le> v \<and> v < of_int (uint low + max (uint extent) 1))"

definition axisFits :: "uint32 \<Rightarrow> uint32 \<Rightarrow> bool" where
  "axisFits low extent \<longleftrightarrow> uint low + uint extent < 2 ^ 32"

definition regionFits :: "eisRegion \<Rightarrow> bool" where
  "regionFits r \<longleftrightarrow> axisFits (rgX r) (rgWidth r) \<and> axisFits (rgY r) (rgHeight r)"

lemma uint_plus: "uint a + uint b < 2 ^ 32 \<Longrightarrow> uint (a + b) = uint a + uint (b :: uint32)"
  using uint_bounded [of a] uint_bounded [of b] by (simp add: uint_word_ariths)

lemma uint_extent: "uint (max w 1 - 1 :: uint32) = max (uint w) 1 - 1"
proof (cases "w = 0")
  case False
  then have "uint w \<noteq> 0" by (simp add: uint_0_iff)
  then have w: "1 \<le> uint w" "uint w < 2 ^ 32" using uint_ge_0 [of w] uint_bounded [of w] by (linarith, simp)
  then have "1 \<le> w" by (simp add: word_le_def)
  moreover have "uint (w - 1) = uint w - 1" using w by (simp add: uint_word_ariths)
  ultimately show ?thesis using w by (simp add: max_def)
qed (simp add: max_def)

lemma uint_last:
  assumes "axisFits low extent"
  shows "uint (low + max extent 1 - 1) = uint low + max (uint extent) 1 - 1"
proof -
  have "uint low + (max (uint extent) 1 - 1) < 2 ^ 32"
    using assms uint_bounded [of low] by (auto simp: axisFits_def max_def)
  then have "uint (low + (max extent 1 - 1)) = uint low + (max (uint extent) 1 - 1)"
    using uint_plus [of low "max extent 1 - 1"] unfolding uint_extent by blast
  then show ?thesis by (simp only: add_diff_eq)
qed

lemma within_single:
  assumes "0 \<le> t" "t \<le> 1"
  shows "inExtent low extent (fadd (fofUint low) (fmul (Fin t) (fofUint (max extent 1 - 1))))"
proof -
  obtain v where "fadd (fofUint low) (fmul (Fin t) (fofUint (max extent 1 - 1))) = Fin v" "of_int (uint low) \<le> v"
      "v \<le> of_int (uint low + uint (max extent 1 - 1))"
    using map_axis [OF assms] by blast
  moreover have "(of_int (uint low + uint (max extent 1 - 1)) :: rat) < of_int (uint low + max (uint extent) 1)"
    unfolding of_int_less_iff uint_extent by simp
  ultimately show ?thesis unfolding inExtent_def using le_less_trans by blast
qed

lemma within_inside:
  assumes "fge p (fofUint low)" "flt p (fofUint (low + extent))" "axisFits low extent"
  shows "inExtent low extent p"
proof -
  have "uint (low + extent) = uint low + uint extent" using assms(3) by (intro uint_plus) (simp add: axisFits_def)
  then have e: "fofUint (low + extent) = Fin (of_int (uint low + uint extent))" unfolding fofUint_exact by simp
  obtain v where v: "p = Fin v" "of_int (uint low) \<le> v"
    using assms(1,2) unfolding e unfolding fofUint_exact by (cases p) (auto simp: fge_def feq_def)
  have "v < of_int (uint low + uint extent)" using assms(2) unfolding e v(1) by simp
  also have "\<dots> \<le> of_int (uint low + max (uint extent) 1)" unfolding of_int_le_iff by simp
  finally show ?thesis using v by (auto simp: inExtent_def)
qed

lemma within_clamp:
  assumes "axisFits low extent"
  shows "inExtent low extent (fmin (fmax (Fin a) (fofUint low)) (fofUint (low + max extent 1 - 1)))"
proof -
  define l where "l = (of_int (uint low) :: rat)"
  define h where "h = (of_int (uint low + max (uint extent) 1 - 1) :: rat)"
  have "l \<le> h" unfolding l_def h_def of_int_le_iff by simp
  moreover have "fofUint (low + max extent 1 - 1) = Fin h" unfolding fofUint_exact h_def uint_last [OF assms] ..
  moreover have "fofUint low = Fin l" unfolding fofUint_exact l_def ..
  moreover have "h < of_int (uint low + max (uint extent) 1)" unfolding h_def of_int_less_iff by simp
  ultimately show ?thesis unfolding inExtent_def l_def [symmetric] by (auto simp: fmin_def fmax_def)
qed

lemma span_finite: "0 \<le> t \<Longrightarrow> t \<le> 1 \<Longrightarrow> \<exists>a. spanTarget (Fin t) lows highs = Fin a"
  unfolding spanTarget_def Let_def using map_axis by blast

section \<open>Properties\<close>

text \<open>C9.  In every interleaving of the sender's operations with its dispatching goroutine, libei and the KWin protocol are used as they
  must be: input is emulated only on a device that the sender holds and that is emulating, every emulation has the next
  sequence number, no handle is referenced twice or used after its release, and nothing is called after the context is gone.
  The table of devices lists exactly the handles that are held, each once, and when the goroutine has ended every handle, the context
  and the KWin connection have been released.\<close>

theorem eis_calls_legal:
  assumes "eisNew backendFD cfg created result kwin = Inr s0" "eisReach s0 (s, p)"
  shows "\<exists>m. monitorRun (esLog s) \<lparr>mnLive = {}, mnEmulating = {}, mnContext = True, mnKwin = esKwin s0, mnSequence = 0\<rparr> = Some m
    \<and> mnLive m = handlesOf s \<and> mnEmulating m = activeOf (esDevices s) \<and> mnSequence m = esSequence s \<and> distinct (map dvHandle (esDevices s))
    \<and> (p = Ended \<longrightarrow> mnLive m = {} \<and> \<not> mnContext m \<and> \<not> mnKwin m)"
proof -
  have "eisInv (monitorOf s0) s p" using eisReach_inv [OF assms(2) eisNew_inv(1) [OF assms(1)]] by simp
  then show ?thesis
    using eisNew_inv(2) [OF assms(1)] by (intro exI [of _ "monitorOf s"]) (auto simp: eisInv_def follows_def monitorOf_def handlesOf_def)
qed

text \<open>C21.  An accepted absolute motion goes to an active device with an absolute pointer, at a finite point inside one of the
  regions that it advertises, whether there is one region, the target lies in one of several, or it is moved to the
  nearest; the rounding of float64 does not push it outside.  The regions' ends must fit in 32 bits.\<close>

theorem eis_pointer_in_region:
  assumes "fst (eisPointerAbsolute L x y s) = None" "\<forall>r \<in> set (regionsLocked L s). regionFits (snd r)"
  shows "\<exists>h r px py. (h, r) \<in> set (regionsLocked L s) \<and> h \<in> activeOf (esDevices s) \<and> elHasCapability L h CapPointerAbsolute
    \<and> snd (eisPointerAbsolute L x y s) = s\<lparr>esLog := esLog s @ [CallMotionAbsolute h px py, CallFrame h]\<rparr>
    \<and> inExtent (rgX r) (rgWidth r) px \<and> inExtent (rgY r) (rgHeight r) py"
proof -
  have ok: "\<not> (notFinite x \<or> flt x (Fin 0) \<or> flt (Fin 1) x \<or> notFinite y \<or> flt y (Fin 0) \<or> flt (Fin 1) y)"
    using assms(1) by (auto simp: eisPointerAbsolute_def split: if_split_asm)
  then obtain a b where xy: "x = Fin a" "0 \<le> a" "a \<le> 1" "y = Fin b" "0 \<le> b" "b \<le> 1"
    by (cases x; cases y) (auto simp: notFinite_def isNaN_def isInf_def)
  obtain h r px py where R: "absoluteRegionLocked L x y s = Inr ((h, r), px, py)"
    using assms(1) ok by (cases "absoluteRegionLocked L x y s") (auto simp: eisPointerAbsolute_def)
  note m = absoluteRegion_in(1) [OF R]
  then have "regionFits r" using assms(2) by fastforce
  then have fits: "axisFits (rgX r) (rgWidth r)" "axisFits (rgY r) (rgHeight r)" by (simp_all add: regionFits_def)
  have "inExtent (rgX r) (rgWidth r) px \<and> inExtent (rgY r) (rgHeight r) py"
    using R
  proof (cases rule: absoluteRegion_cases)
    case single
    show ?thesis unfolding single(2,3) snd_conv unfolding xy(1,4) using within_single xy(2,3,5,6) by blast
  next
    case inside
    then show ?thesis using within_inside fits by (simp add: contains_def)
  next
    case (near tx ty)
    obtain u where u: "tx = Fin u" using span_finite [OF xy(2,3)] unfolding near(3) xy(1) by blast
    obtain v where v: "ty = Fin v" using span_finite [OF xy(5,6)] unfolding near(4) xy(4) by blast
    from near(2) u v have "px = fmin (fmax (Fin u) (fofUint (rgX r))) (fofUint (rgX r + max (rgWidth r) 1 - 1))"
      "py = fmin (fmax (Fin v) (fofUint (rgY r))) (fofUint (rgY r + max (rgHeight r) 1 - 1))"
      by (simp_all add: clampToRegion_def Let_def)
    then show ?thesis using within_clamp fits by blast
  qed
  moreover have "snd (eisPointerAbsolute L x y s) = s\<lparr>esLog := esLog s @ [CallMotionAbsolute h px py, CallFrame h]\<rparr>"
    using ok R by (simp add: eisPointerAbsolute_def logCall_def)
  moreover have "h \<in> activeOf (esDevices s) \<and> elHasCapability L h CapPointerAbsolute" using regionsLocked_active [OF m] by simp
  ultimately show ?thesis using m by blast
qed

definition unitInterval :: "float64 \<Rightarrow> bool" where
  "unitInterval x \<longleftrightarrow> (\<exists>t. x = Fin t \<and> 0 \<le> t \<and> t \<le> 1)"

definition notLost :: "senderStatus \<Rightarrow> senderStatus \<Rightarrow> bool" where
  "notLost st st' \<longleftrightarrow> (ssConnected st \<longrightarrow> ssConnected st') \<and> (ssPointer st \<longrightarrow> ssPointer st') \<and> (ssKeyboard st \<longrightarrow> ssKeyboard st') \<and> (ssText st \<longrightarrow> ssText st')"

text \<open>C30.  The status of the sender can be relied on: while it reports a pointer or a keyboard, no valid event of that kind is refused
  (text can only fail in KWin), and an event of libei that takes anything away from the status counts as a reset, which
  makes the controller revoke its leases.\<close>

theorem eis_ready:
  shows "(ssPointer (eisStatus L s) \<longrightarrow>
        fst (eisButton L code pressed s) = None
        \<and> (\<not> notFinite dx \<and> \<not> notFinite dy \<longrightarrow> fst (eisPointerRelative L dx dy s) = None
             \<and> (dx \<noteq> Fin 0 \<or> dy \<noteq> Fin 0 \<or> stopH \<or> stopV \<longrightarrow> fst (eisScroll L dx dy stopH stopV s) = None))
        \<and> (unitInterval x \<and> unitInterval y \<longrightarrow> fst (eisPointerAbsolute L x y s) = None))
    \<and> (ssKeyboard (eisStatus L s) \<longrightarrow> fst (eisKeyboardKey L code pressed s) = None)
    \<and> (ssText (eisStatus L s) \<longrightarrow> fst (eisKeyboardText L t s) \<in> {None, Some (errorsNew ''send keyboard text through KWin'')})
    \<and> (notLost (eisStatus L s) (eisStatus L (snd (handleEventLocked e s)))
       \<or> ssReset (eisStatus L (snd (handleEventLocked e s))) = ssReset (eisStatus L s) + 1)"
proof (intro conjI impI)
  show "fst (eisButton L code pressed s) = None" if "ssPointer (eisStatus L s)"
    using that by (auto simp: eisStatus_def eisButton_def withDevice_def)
  show "fst (eisPointerRelative L dx dy s) = None" if "ssPointer (eisStatus L s)" "\<not> notFinite dx \<and> \<not> notFinite dy"
    using that by (auto simp: eisStatus_def eisPointerRelative_def withDevice_def)
  show "fst (eisScroll L dx dy stopH stopV s) = None"
    if "ssPointer (eisStatus L s)" "\<not> notFinite dx \<and> \<not> notFinite dy" "dx \<noteq> Fin 0 \<or> dy \<noteq> Fin 0 \<or> stopH \<or> stopV"
    using that by (auto simp: eisStatus_def eisScroll_def withDevice_def)
  show "fst (eisKeyboardKey L code pressed s) = None" if "ssKeyboard (eisStatus L s)"
    using that by (auto simp: eisStatus_def eisKeyboardKey_def withDevice_def)
  have kwin: "fst (kwinSend L cs u) \<in> {None, Some (errorsNew ''send keyboard text through KWin'')}" for cs u
    by (induction cs arbitrary: u) auto
  show "fst (eisKeyboardText L t s) \<in> {None, Some (errorsNew ''send keyboard text through KWin'')}" if "ssText (eisStatus L s)"
    using that kwin by (auto simp: eisStatus_def eisKeyboardText_def split: option.split)
  show "fst (eisPointerAbsolute L x y s) = None" if p: "ssPointer (eisStatus L s)" and u: "unitInterval x \<and> unitInterval y"
  proof -
    have "\<not> esClosed s" "esConnected s" "regionsLocked L s \<noteq> []"
      using p by (auto simp: eisStatus_def deviceLocked_def split: if_split_asm)
    then obtain r where "absoluteRegionLocked L x y s = Inr r"
      by (cases "absoluteRegionLocked L x y s") (auto simp: absoluteRegionLocked_def Let_def split: if_split_asm option.splits prod.splits)
    then show ?thesis using u
      by (cases r) (auto simp: eisPointerAbsolute_def unitInterval_def notFinite_def isNaN_def isInf_def)
  qed
  let ?s = "snd (handleEventLocked e s)"
  show "notLost (eisStatus L s) (eisStatus L ?s) \<or> ssReset (eisStatus L ?s) = ssReset (eisStatus L s) + 1"
  proof (cases "esReset ?s = esReset s + 1")
    case False
    note k = event_keeps [OF False, unfolded keeps_def]
    have d: "deviceLocked L cap s \<noteq> None \<longrightarrow> deviceLocked L cap ?s \<noteq> None" for cap
      using k unfolding deviceLocked_iff by blast
    have "regionsLocked L s \<noteq> [] \<longrightarrow> regionsLocked L ?s \<noteq> []"
      using k unfolding regionsLocked_iff by auto
    then have regions: "regionsLocked L s \<noteq> [] \<longrightarrow> regionsLocked L ?s \<noteq> []" .
    have cfg: "esCfg ?s = esCfg s" using k by blast
    have "ssConnected (eisStatus L s) \<longrightarrow> ssConnected (eisStatus L ?s)" using k by (simp add: eisStatus_def)
    moreover have "ssPointer (eisStatus L s) \<longrightarrow> ssPointer (eisStatus L ?s)"
      unfolding eisStatus_def senderStatus.select_convs cfg using d [of CapPointer] d [of CapButton] d [of CapScroll] regions by blast
    moreover have "ssKeyboard (eisStatus L s) \<longrightarrow> ssKeyboard (eisStatus L ?s)"
      unfolding eisStatus_def senderStatus.select_convs using d [of CapKeyboard] k by simp
    moreover have "ssText (eisStatus L s) \<longrightarrow> ssText (eisStatus L ?s)"
      unfolding eisStatus_def senderStatus.select_convs using d [of CapText] k by auto
    ultimately have "notLost (eisStatus L s) (eisStatus L ?s)" by (simp add: notLost_def)
    then show ?thesis ..
  qed (simp add: eisStatus_def)
qed

section \<open>Concrete inputs\<close>

definition demoEisLib :: eisLib where
  "demoEisLib = \<lparr>elHasCapability = (\<lambda>_ _. True),
     elRegions = (\<lambda>_. [\<lparr>erX = 100, erY = 0, erWidth = 1920, erHeight = 1080, erMappingID = None\<rparr>]),
     elKwinSend = (\<lambda>_. True), elHypot = (\<lambda>_ _. Fin 0)\<rparr>"

definition demoEis0 :: eisSender where
  "demoEis0 = \<lparr>esCfg = \<lparr>ecName = ''webdesktop'', ecPointer = True, ecKeyboard = True, ecMappingID = []\<rparr>, esEi = True, esKwin = True, esDevices = [],
     esConnected = False, esClosed = False, esSequence = 0, esReset = 0, esErr = None, esNotified = False, esStop = False, esDone = False, esLog = []\<rparr>"

definition demoEis1 :: eisSender where
  "demoEis1 = demoEis0\<lparr>esDevices := [\<lparr>dvHandle = 7, dvActive = True\<rparr>], esConnected := True, esSequence := 1, esNotified := True,
     esLog := [CallBind True True, CallRef 7, CallStart 7 1]\<rparr>"

lemmas demo_eis_defs = demoEis0_def demoEis1_def demoEisLib_def

lemma demo_eis_new: "eisNew 3 (esCfg demoEis0) True 0 True = Inr demoEis0"
  by (simp add: eisNew_def demoEis0_def)

lemma demo_events: "handleEvents [EvConnect, EvSeatAdded True, EvDeviceAdded (Some 7), EvDeviceResumed (Some 7)] False demoEis0 = (False, demoEis1\<lparr>esNotified := False\<rparr>)"
  by (simp add: handleEventLocked_def addDeviceLocked_def findDeviceLocked_def startEmulating_def logCall_def Let_def demo_eis_defs)

lemma demo_eis_reach: "eisReach demoEis0 (demoEis1, Dispatched False False)"
proof -
  have "eisStep (demoEis0, Polling) (notifyLocked (demoEis1\<lparr>esNotified := False\<rparr>), Dispatched False False)" by (rule eisStep.dispatch [OF demo_events])
  moreover have "notifyLocked (demoEis1\<lparr>esNotified := False\<rparr>) = demoEis1" by (simp add: notifyLocked_def demo_eis_defs)
  ultimately show ?thesis using eisReach.step [OF eisReach.init] by simp
qed

theorem eis_calls_legal_witness:
  "\<exists>m. monitorRun [CallBind True True, CallRef 7, CallStart 7 1, CallButton 7 272 True, CallFrame 7, CallStop 7, CallUnref 7, CallContextUnref, CallKwinClose]
      \<lparr>mnLive = {}, mnEmulating = {}, mnContext = True, mnKwin = True, mnSequence = 0\<rparr> = Some m \<and> mnLive m = {} \<and> \<not> mnContext m \<and> \<not> mnKwin m"
proof -
  let ?s = "snd (eisButton demoEisLib 272 True demoEis1)"
  have s: "?s = demoEis1\<lparr>esLog := esLog demoEis1 @ [CallButton 7 272 True, CallFrame 7]\<rparr>"
    by (simp add: eisButton_def withDevice_def deviceLocked_def logCall_def demo_eis_defs)
  have "eisReach demoEis0 (?s, Dispatched False False)" using eisReach.step [OF demo_eis_reach eisStep.button] .
  from eisReach.step [OF this eisStep.close] have "eisReach demoEis0 (?s\<lparr>esStop := True\<rparr>, Dispatched False False)" .
  from eisReach.step [OF this eisStep.again] have "eisReach demoEis0 (?s\<lparr>esStop := True\<rparr>, Polling)" by simp
  from eisReach.step [OF this eisStep.stopped] have "eisReach demoEis0 (?s\<lparr>esStop := True\<rparr>, Leaving)" by simp
  from eisReach.step [OF this eisStep.finish] have "eisReach demoEis0 (eisFinish (?s\<lparr>esStop := True\<rparr>), Ended)" .
  from eis_calls_legal [OF demo_eis_new this]
  show ?thesis by (auto simp: s eisFinish_def notifyLocked_def releaseCalls_def demo_eis_defs)
qed

theorem eis_pointer_in_region_witness:
  "\<exists>px py. esLog (snd (eisPointerAbsolute demoEisLib (Fin (1 / 2)) (Fin 1) demoEis1)) = esLog demoEis1 @ [CallMotionAbsolute 7 px py, CallFrame 7]
     \<and> inExtent 100 1920 px \<and> inExtent 0 1080 py"
proof -
  have r: "regionsLocked demoEisLib demoEis1 = [(7, \<lparr>rgX = 100, rgY = 0, rgWidth = 1920, rgHeight = 1080, rgMappingID = []\<rparr>)]"
    by (simp add: regionsLocked_def regionOf_def demo_eis_defs)
  have "ssPointer (eisStatus demoEisLib demoEis1)" using r by (simp add: eisStatus_def deviceLocked_def) (simp add: demo_eis_defs)
  moreover have "absoluteRegionLocked demoEisLib (Fin (1 / 2)) (Fin 1) demoEis1 \<noteq> Inl e" for e
    using r by (auto simp: absoluteRegionLocked_def Let_def demoEis1_def demoEis0_def)
  ultimately have "fst (eisPointerAbsolute demoEisLib (Fin (1 / 2)) (Fin 1) demoEis1) = None"
    by (auto simp: eisPointerAbsolute_def notFinite_def isNaN_def isInf_def split: sum.split)
  from eis_pointer_in_region [OF this] r show ?thesis by (auto simp: regionFits_def axisFits_def)
qed

theorem eis_ready_witness:
  "fst (eisButton demoEisLib 272 True demoEis1) = None \<and> fst (eisKeyboardKey demoEisLib 30 True demoEis1) = None"
proof -
  have r: "regionsLocked demoEisLib demoEis1 \<noteq> []" by (simp add: regionsLocked_def demo_eis_defs)
  have "ssPointer (eisStatus demoEisLib demoEis1)" "ssKeyboard (eisStatus demoEisLib demoEis1)"
    using r by (simp_all add: eisStatus_def deviceLocked_def) (simp_all add: demo_eis_defs)
  then show ?thesis using eis_ready [of demoEisLib demoEis1] by blast
qed

end
