(* ===== verification/Portal_Session.thy ===== *)
theory Portal_Session
  imports Clipboard_Controller "HOL-Library.Multiset"
begin

text \<open>
  The portal session after it has been opened (\<open>Session\<close> in \<open>src/capture/portal.go\<close>): streams and EIS connections are acquired
  from it, clipboard transfers run beside each other, one goroutine follows the signals of the portal, and the
  session is closed once, by its owner or by the portal.  Every access of shared state under a lock, every call on the
  D-Bus connection and every wait is a step.  \<open>psBad\<close> records a call on a closed connection or a use of a closed EIS connection.
\<close>

section \<open>State\<close>

definition ErrSessionClosed :: goerror where "ErrSessionClosed = Sentinel ''desktop portal screen cast session closed''"

definition portalClipboardBytes :: int where "portalClipboardBytes = 32 * 1024 * 1024"

datatype fdState = NoFd | OpenFd | ClosedFd

text \<open>
  A transfer that the session has admitted: \<open>Read\<close> before the check of the generation, its call, and the file; \<open>Write\<close> before it has the
  write lock, before and after its call; the goroutine that serves a selection, before its call and before it reports; and
  the release at the end.
\<close>

datatype transfer = Reading uint64 string | ReadCalling string | ReadFile | Writing clipContent | WriteBased clipContent uint64
  | WriteSet clipContent uint64 | Serving string uint32 clipContent | ServeDone uint32 bool | Releasing

text \<open>The goroutine that follows the signals.\<close>

datatype watcher = Watching | WatchWantsLock string uint32 | WatchAdmits string uint32 clipContent | WatchEnds goerror | WatchOver

text \<open>How far \<open>finish\<close> is; the flag tells whether it closes the portal session.\<close>

datatype finishPhase = FinIdle | FinMarked bool | FinStopped bool | FinPortal | FinEis | FinUnmatched | FinWaited | FinDisconnected | FinFinished

record portalSession =
  psPath :: string
  psClipboard :: bool
  psEis :: fdState
  psConn :: bool
  psMatched :: bool
  psPortalOpen :: bool
  psGeneration :: uint64
  psContent :: clipContent
  psChanges :: "selection option"
  psWriteLocked :: bool
  psWaitGroup :: nat
  psTransfers :: "transfer multiset"
  psWatcher :: watcher
  psClosing :: bool
  psErr :: "goerror option"
  psStop :: bool
  psCancelled :: bool
  psCleanup :: "goerror option"
  psDone :: bool
  psFinish :: finishPhase
  psBad :: bool

text \<open>The session that \<open>Open\<close> returns.\<close>

definition newSession :: "string \<Rightarrow> bool \<Rightarrow> bool \<Rightarrow> portalSession" where
  "newSession path eis clipboard = \<lparr>psPath = path, psClipboard = clipboard, psEis = (if eis then OpenFd else NoFd), psConn = True, psMatched = True,
     psPortalOpen = True, psGeneration = 0, psContent = [], psChanges = None, psWriteLocked = False, psWaitGroup = 0, psTransfers = {#},
     psWatcher = Watching, psClosing = False, psErr = None, psStop = False, psCancelled = False, psCleanup = None, psDone = False,
     psFinish = FinIdle, psBad = False\<rparr>"

definition usePortal :: "portalSession \<Rightarrow> portalSession" where
  "usePortal s = s\<lparr>psBad := psBad s \<or> \<not> psConn s\<rparr>"

section \<open>Operations\<close>

definition closedError :: "portalSession \<Rightarrow> goerror" where
  "closedError s = (case psErr s of Some err \<Rightarrow> err | None \<Rightarrow> ErrSessionClosed)"

text \<open>\<open>AcquireStream\<close> returns the descriptor of the stream; \<open>opened\<close> is the reply of the portal, \<open>file\<close> whether it could be opened.\<close>

definition AcquireStream :: "goerror + int \<Rightarrow> bool \<Rightarrow> portalSession \<Rightarrow> (goerror + int) \<times> portalSession" where
  "AcquireStream opened file s =
    (if psClosing s then (Inl (closedError s), s)
     else case opened of
         Inl err \<Rightarrow> (Inl (Wrap ''open portal PipeWire remote: %w'' err []), usePortal s)
       | Inr remoteFD \<Rightarrow>
           if remoteFD < 0 then (Inl (Errorf ''portal returned invalid PipeWire file descriptor %d'' [FInt remoteFD]), usePortal s)
           else if \<not> file then (Inl (Errorf ''open portal PipeWire file descriptor %d'' [FInt remoteFD]), usePortal s)
           else (Inr remoteFD, usePortal s))"

definition AcquireEIS :: "goerror + int \<Rightarrow> portalSession \<Rightarrow> (goerror + int) \<times> portalSession" where
  "AcquireEIS duplicated s =
    (if psClosing s then (Inl (closedError s), s)
     else if psEis s = NoFd then (Inl (errorsNew ''portal session does not have an EIS connection''), s)
     else (case duplicated of
         Inl err \<Rightarrow> (Inl (Wrap ''duplicate portal EIS file descriptor: %w'' err []), s\<lparr>psBad := psBad s \<or> psEis s \<noteq> OpenFd\<rparr>)
       | Inr fd \<Rightarrow> (Inr fd, s\<lparr>psBad := psBad s \<or> psEis s \<noteq> OpenFd\<rparr>)))"

definition admitTransfer :: "transfer \<Rightarrow> portalSession \<Rightarrow> bool \<times> portalSession" where
  "admitTransfer t s =
    (if psClosing s then (False, s)
     else (True, s\<lparr>psWaitGroup := psWaitGroup s + 1, psTransfers := add_mset t (psTransfers s)\<rparr>))"

definition advanceTransfer :: "transfer \<Rightarrow> transfer \<Rightarrow> portalSession \<Rightarrow> portalSession" where
  "advanceTransfer t t' s = s\<lparr>psTransfers := add_mset t' (psTransfers s - {#t#})\<rparr>"

definition release :: "portalSession \<Rightarrow> portalSession" where
  "release s = s\<lparr>psWaitGroup := psWaitGroup s - 1, psTransfers := psTransfers s - {#Releasing#}\<rparr>"

text \<open>The start of \<open>Read\<close> and of \<open>Write\<close>: an error, or the transfer.\<close>

definition ReadStart :: "uint64 \<Rightarrow> string \<Rightarrow> portalSession \<Rightarrow> goerror option \<times> portalSession" where
  "ReadStart generation mimeType s =
    (if \<not> psClipboard s then (Some (errorsNew ''portal session does not have clipboard access''), s)
     else case admitTransfer (Reading generation mimeType) s of (ok, s') \<Rightarrow> (if ok then None else Some ErrSessionClosed, s'))"

definition WriteStart :: "clipContent \<Rightarrow> portalSession \<Rightarrow> goerror option \<times> portalSession" where
  "WriteStart content s =
    (if \<not> psClipboard s then (Some (errorsNew ''portal session does not have clipboard access''), s)
     else case admitTransfer (Writing content) s of (ok, s') \<Rightarrow> (if ok then None else Some ErrSessionClosed, s'))"

text \<open>What \<open>Read\<close> returns for the reply to its call and the bytes it got from the file.\<close>

definition portalReadResult :: "string \<Rightarrow> goerror + int \<Rightarrow> bool \<Rightarrow> goerror + uint8 list \<Rightarrow> goerror + uint8 list" where
  "portalReadResult mimeType reply file transferred =
    (case reply of
       Inl err \<Rightarrow> Inl (Wrap ''read portal clipboard selection %q: %w'' err [FStr mimeType])
     | Inr selectionFD \<Rightarrow>
         if selectionFD < 0 then Inl (Errorf ''portal returned invalid clipboard file descriptor %d'' [FInt selectionFD])
         else if \<not> file then Inl (Errorf ''open portal clipboard file descriptor %d'' [FInt selectionFD])
         else (case transferred of
             Inl err \<Rightarrow> Inl (Wrap ''transfer portal clipboard selection %q: %w'' err [FStr mimeType])
           | Inr data \<Rightarrow>
               if int (length data) > portalClipboardBytes
               then Inl (Errorf ''portal clipboard selection %q exceeds %d bytes'' [FStr mimeType, FInt portalClipboardBytes])
               else Inr data))"

fun findFormat :: "string \<Rightarrow> clipContent \<Rightarrow> uint8 list option" where
  "findFormat mimeType [] = None"
| "findFormat mimeType (f # fs) = (if cfMIME f = mimeType then Some (cfData f) else findFormat mimeType fs)"

text \<open>The loop that writes a selection: the outcomes of the writes, and whether all was written without an error.\<close>

fun writeAll :: "nat \<Rightarrow> nat \<Rightarrow> (nat \<times> goerror option) list \<Rightarrow> bool" where
  "writeAll bytes written [] = (written = bytes)"
| "writeAll bytes written ((amount, err) # outcomes) =
    (if bytes \<le> written then written = bytes
     else if err \<noteq> None then False
     else if amount = 0 then False
     else writeAll bytes (written + amount) outcomes)"

definition serveSuccess :: "string \<Rightarrow> clipContent \<Rightarrow> goerror + int \<Rightarrow> bool \<Rightarrow> (nat \<times> goerror option) list \<Rightarrow> goerror option \<Rightarrow> bool" where
  "serveSuccess mimeType content reply file outcomes closeErr =
    (case findFormat mimeType content of
       None \<Rightarrow> False
     | Some data \<Rightarrow> (case reply of
           Inl _ \<Rightarrow> False
         | Inr fd \<Rightarrow> 0 \<le> fd \<and> file \<and> writeAll (length data) 0 outcomes \<and> closeErr = None))"

section \<open>Signals\<close>

text \<open>
  The signals with what could be decoded of them: the owner flag and the offered MIME types of a new selection are absent,
  not decodable, or there.
\<close>

datatype 'a decoded = Absent | Undecodable | Decoded 'a

datatype portalSignal = SigClosed string | SigSelectionChanged "(string \<times> bool decoded \<times> string list decoded) option"
  | SigSelectionTransfer "(string \<times> string \<times> uint32) option" | SigOther

text \<open>The channel of selections holds one; its only sender drains it first when it is full.\<close>

definition publishSelection :: "selection \<Rightarrow> portalSession \<Rightarrow> portalSession" where
  "publishSelection selection s = s\<lparr>psChanges := Some selection\<rparr>"

definition selectionChanged :: "bool decoded \<Rightarrow> string list decoded \<Rightarrow> portalSession \<Rightarrow> portalSession" where
  "selectionChanged owner offered s =
    (if owner = Undecodable \<or> owner = Decoded True then s
     else
       let s' = s\<lparr>psGeneration := psGeneration s + 1\<rparr>
       in (case offered of
             Undecodable \<Rightarrow> s'
           | Absent \<Rightarrow> publishSelection \<lparr>selGeneration = psGeneration s', selMIMETypes = []\<rparr> s'
           | Decoded mimeTypes \<Rightarrow> publishSelection \<lparr>selGeneration = psGeneration s', selMIMETypes = mimeTypes\<rparr> s'))"

definition watchSignal :: "portalSignal \<Rightarrow> portalSession \<Rightarrow> portalSession" where
  "watchSignal sig s =
    (case sig of
       SigClosed path \<Rightarrow> if path = psPath s then s\<lparr>psWatcher := WatchEnds ErrSessionClosed\<rparr> else s
     | SigSelectionChanged body \<Rightarrow>
         (case body of None \<Rightarrow> s
          | Some (path, owner, offered) \<Rightarrow> if path \<noteq> psPath s then s else selectionChanged owner offered s)
     | SigSelectionTransfer body \<Rightarrow>
         (case body of None \<Rightarrow> s
          | Some (path, mimeType, serial) \<Rightarrow> if path \<noteq> psPath s then s else s\<lparr>psWatcher := WatchWantsLock mimeType serial\<rparr>)
     | SigOther \<Rightarrow> s)"

section \<open>Closing\<close>

definition finishBegin :: "bool \<Rightarrow> goerror option \<Rightarrow> portalSession \<Rightarrow> portalSession" where
  "finishBegin closePortal cause s = s\<lparr>psClosing := True, psErr := errorsJoin [psErr s, cause], psFinish := FinMarked closePortal\<rparr>"

text \<open>The rest of \<open>finish\<close>, with the error of each call.\<close>

definition finishPortal :: "bool \<Rightarrow> goerror option \<Rightarrow> portalSession \<Rightarrow> portalSession" where
  "finishPortal closePortal err s =
    (if closePortal then (usePortal s)\<lparr>psPortalOpen := False, psCleanup := errorsJoin [psCleanup s, err], psFinish := FinPortal\<rparr>
     else s\<lparr>psFinish := FinPortal\<rparr>)"

definition finishEis :: "goerror option \<Rightarrow> portalSession \<Rightarrow> portalSession" where
  "finishEis err s =
    (if psEis s = NoFd then s\<lparr>psFinish := FinEis\<rparr>
     else s\<lparr>psBad := psBad s \<or> psEis s \<noteq> OpenFd, psEis := ClosedFd, psCleanup := errorsJoin [psCleanup s, err], psFinish := FinEis\<rparr>)"

definition finishMatches :: "goerror option \<Rightarrow> goerror option \<Rightarrow> portalSession \<Rightarrow> portalSession" where
  "finishMatches sessionErr clipboardErr s =
    (usePortal s)\<lparr>psMatched := False,
       psCleanup := (if psClipboard s then errorsJoin [errorsJoin [psCleanup s, sessionErr], clipboardErr] else errorsJoin [psCleanup s, sessionErr]),
       psFinish := FinUnmatched\<rparr>"

definition finishConn :: "goerror option \<Rightarrow> portalSession \<Rightarrow> portalSession" where
  "finishConn err s = (usePortal s)\<lparr>psConn := False, psCleanup := errorsJoin [psCleanup s, err], psFinish := FinDisconnected\<rparr>"

definition finishEnd :: "portalSession \<Rightarrow> portalSession" where
  "finishEnd s = s\<lparr>psErr := errorsJoin [psErr s, psCleanup s], psDone := True, psFinish := FinFinished\<rparr>"

section \<open>Steps\<close>

inductive portalStep :: "portalSession \<Rightarrow> portalSession \<Rightarrow> bool" where
  stream: "portalStep s (snd (AcquireStream opened file s))"
| eis: "portalStep s (snd (AcquireEIS duplicated s))"
| read: "portalStep s (snd (ReadStart generation mimeType s))"
| readCheck: "Reading g m \<in># psTransfers s \<Longrightarrow>
    portalStep s (advanceTransfer (Reading g m) (if psGeneration s = g then ReadCalling m else Releasing) s)"
| readCall: "ReadCalling m \<in># psTransfers s \<Longrightarrow> portalStep s (advanceTransfer (ReadCalling m) (if ok then ReadFile else Releasing) (usePortal s))"
| readFile: "ReadFile \<in># psTransfers s \<Longrightarrow> portalStep s (advanceTransfer ReadFile Releasing s)"
| writeStart: "portalStep s (snd (WriteStart content s))"
| writeLock: "Writing c \<in># psTransfers s \<Longrightarrow> \<not> psWriteLocked s \<Longrightarrow>
    portalStep s ((advanceTransfer (Writing c) (WriteBased c (psGeneration s)) s)\<lparr>psWriteLocked := True\<rparr>)"
| writeCall: "WriteBased c b \<in># psTransfers s \<Longrightarrow> portalStep s (advanceTransfer (WriteBased c b) (WriteSet c b) (usePortal s))"
| writeFail: "WriteBased c b \<in># psTransfers s \<Longrightarrow>
    portalStep s ((advanceTransfer (WriteBased c b) Releasing (usePortal s))\<lparr>psWriteLocked := False\<rparr>)"
| writeStore: "WriteSet c b \<in># psTransfers s \<Longrightarrow>
    portalStep s ((advanceTransfer (WriteSet c b) Releasing s)\<lparr>psWriteLocked := False,
      psGeneration := (if psGeneration s = b then psGeneration s + 1 else psGeneration s), psContent := (if psGeneration s = b then c else psContent s)\<rparr>)"
| serve: "Serving m n c \<in># psTransfers s \<Longrightarrow>
    portalStep s (advanceTransfer (Serving m n c) (ServeDone n (serveSuccess m c reply opened outcomes closeErr)) (if findFormat m c = None then s else usePortal s))"
| serveDone: "ServeDone n success \<in># psTransfers s \<Longrightarrow> portalStep s (advanceTransfer (ServeDone n success) Releasing (usePortal s))"
| released: "Releasing \<in># psTransfers s \<Longrightarrow> portalStep s (release s)"
| received: "portalStep s (s\<lparr>psChanges := None\<rparr>)"
| signal: "psWatcher s = Watching \<Longrightarrow> portalStep s (watchSignal sig s)"
| signalsClosed: "psWatcher s = Watching \<Longrightarrow>
    portalStep s (s\<lparr>psWatcher := WatchEnds (errorsNew ''desktop portal D-Bus connection closed'')\<rparr>)"
| watchStop: "psWatcher s = Watching \<Longrightarrow> psStop s \<Longrightarrow> portalStep s (s\<lparr>psWatcher := WatchOver\<rparr>)"
| watchLock: "psWatcher s = WatchWantsLock m n \<Longrightarrow> \<not> psWriteLocked s \<Longrightarrow> portalStep s (s\<lparr>psWatcher := WatchAdmits m n (psContent s)\<rparr>)"
| watchAdmit: "psWatcher s = WatchAdmits m n c \<Longrightarrow> portalStep s ((snd (admitTransfer (Serving m n c) s))\<lparr>psWatcher := Watching\<rparr>)"
| watchFinish: "psWatcher s = WatchEnds cause \<Longrightarrow> psFinish s = FinIdle \<Longrightarrow>
    portalStep s ((finishBegin False (Some cause) s)\<lparr>psWatcher := WatchOver\<rparr>)"
| watchJoin: "psWatcher s = WatchEnds cause \<Longrightarrow> psFinish s = FinFinished \<Longrightarrow> portalStep s (s\<lparr>psWatcher := WatchOver\<rparr>)"
| closeBegin: "psFinish s = FinIdle \<Longrightarrow> portalStep s (finishBegin True None s)"
| finStop: "psFinish s = FinMarked p \<Longrightarrow> portalStep s (s\<lparr>psStop := True, psCancelled := True, psFinish := FinStopped p\<rparr>)"
| finPortal: "psFinish s = FinStopped p \<Longrightarrow> portalStep s (finishPortal p err s)"
| finEis: "psFinish s = FinPortal \<Longrightarrow> portalStep s (finishEis err s)"
| finMatches: "psFinish s = FinEis \<Longrightarrow> portalStep s (finishMatches err err' s)"
| finWait: "psFinish s = FinUnmatched \<Longrightarrow> psWaitGroup s = 0 \<Longrightarrow> portalStep s (s\<lparr>psFinish := FinWaited\<rparr>)"
| finConn: "psFinish s = FinWaited \<Longrightarrow> portalStep s (finishConn err s)"
| finEnd: "psFinish s = FinDisconnected \<Longrightarrow> portalStep s (finishEnd s)"

inductive portalReach :: "portalSession \<Rightarrow> portalSession \<Rightarrow> bool" for s0 where
  init: "portalReach s0 s0"
| step: "portalReach s0 s \<Longrightarrow> portalStep s s' \<Longrightarrow> portalReach s0 s'"

section \<open>The invariant\<close>

text \<open>The phases of \<open>finish\<close> in their order, and the transfers that hold the lock of the writers.\<close>

fun finRank :: "finishPhase \<Rightarrow> nat" where
  "finRank FinIdle = 0"
| "finRank (FinMarked closePortal) = 1"
| "finRank (FinStopped closePortal) = 2"
| "finRank FinPortal = 3"
| "finRank FinEis = 4"
| "finRank FinUnmatched = 5"
| "finRank FinWaited = 6"
| "finRank FinDisconnected = 7"
| "finRank FinFinished = 8"

lemma finRank_max: "finRank p \<le> 8"
  by (cases p) simp_all

fun holdsWriteLock :: "transfer \<Rightarrow> bool" where
  "holdsWriteLock (WriteBased content base) = True"
| "holdsWriteLock (WriteSet content base) = True"
| "holdsWriteLock t = False"

definition writers :: "transfer multiset \<Rightarrow> nat" where
  "writers ts = size (filter_mset holdsWriteLock ts)"

lemma writers_simps [simp]:
  "writers {#} = 0"
  "writers (add_mset t ts) = (if holdsWriteLock t then Suc (writers ts) else writers ts)"
  by (simp_all add: writers_def)

definition portalInv :: "portalSession \<Rightarrow> bool" where
  "portalInv s \<longleftrightarrow>
     psWaitGroup s = size (psTransfers s) \<and>
     writers (psTransfers s) = (if psWriteLocked s then 1 else 0) \<and>
     (psClosing s \<longleftrightarrow> 1 \<le> finRank (psFinish s)) \<and>
     (psStop s \<longleftrightarrow> 2 \<le> finRank (psFinish s)) \<and>
     (psCancelled s \<longleftrightarrow> 2 \<le> finRank (psFinish s)) \<and>
     (psEis s = OpenFd \<longrightarrow> finRank (psFinish s) \<le> 3) \<and>
     (psEis s = ClosedFd \<longrightarrow> 4 \<le> finRank (psFinish s)) \<and>
     (psMatched s \<longleftrightarrow> finRank (psFinish s) \<le> 4) \<and>
     (6 \<le> finRank (psFinish s) \<longrightarrow> psTransfers s = {#}) \<and>
     (psConn s \<longleftrightarrow> finRank (psFinish s) \<le> 6) \<and>
     (psDone s \<longleftrightarrow> finRank (psFinish s) = 8) \<and>
     (psWatcher s = WatchOver \<longrightarrow> 1 \<le> finRank (psFinish s)) \<and>
     \<not> psBad s"

named_theorems session_defs

lemmas session_operations [session_defs] = AcquireStream_def AcquireEIS_def usePortal_def admitTransfer_def ReadStart_def WriteStart_def advanceTransfer_def
  release_def publishSelection_def selectionChanged_def watchSignal_def finishBegin_def finishPortal_def finishEis_def finishMatches_def
  finishConn_def finishEnd_def Let_def

inductive_cases portalReachE: "portalReach s0 s"

lemma newSession_inv: "portalInv (newSession path eis clipboard)"
  by (simp add: portalInv_def newSession_def)

text \<open>A transfer in progress keeps the connection open, because \<open>finish\<close> waits for it.\<close>

lemma portalInv_conn:
  assumes inv: "portalInv s" and "t \<in># psTransfers s"
  shows "psConn s \<and> finRank (psFinish s) \<le> 5"
proof -
  have "psTransfers s \<noteq> {#}"
    using assms(2) by auto
  then have "\<not> 6 \<le> finRank (psFinish s)"
    using inv unfolding portalInv_def by blast
  moreover have "psConn s \<longleftrightarrow> finRank (psFinish s) \<le> 6"
    using inv unfolding portalInv_def by blast
  ultimately show ?thesis
    by simp
qed

text \<open>The steps by the part of the state they touch: transfers only, the watcher only, or \<open>finish\<close>.\<close>

lemma portalInv_advance:
  assumes "portalInv s" and "t \<in># psTransfers s" and "holdsWriteLock t' = holdsWriteLock t"
  shows "portalInv (advanceTransfer t t' s)"
proof -
  obtain T where T: "psTransfers s = add_mset t T"
    using assms(2) by (blast dest: multi_member_split)
  show ?thesis
    using assms(1,3) portalInv_conn [OF assms(1,2)] by (auto simp: portalInv_def advanceTransfer_def T split: if_splits)
qed

lemma portalInv_use: "portalInv s \<Longrightarrow> psConn s \<Longrightarrow> portalInv (usePortal s)"
  by (simp add: portalInv_def usePortal_def)

lemma portalInv_admit:
  assumes "portalInv s" and "\<not> holdsWriteLock t"
  shows "portalInv (snd (admitTransfer t s))"
  using assms by (auto simp: portalInv_def admitTransfer_def)

lemma portalInv_lock:
  assumes "portalInv s" and "Writing c \<in># psTransfers s" and "\<not> psWriteLocked s"
  shows "portalInv ((advanceTransfer (Writing c) (WriteBased c b) s)\<lparr>psWriteLocked := True\<rparr>)"
proof -
  obtain T where T: "psTransfers s = add_mset (Writing c) T"
    using assms(2) by (blast dest: multi_member_split)
  show ?thesis
    using assms(1,3) portalInv_conn [OF assms(1,2)] by (simp add: portalInv_def advanceTransfer_def T)
qed

lemma portalInv_unlock:
  assumes "portalInv s" and "t \<in># psTransfers s" and "holdsWriteLock t"
  shows "portalInv ((advanceTransfer t Releasing s)\<lparr>psWriteLocked := False\<rparr>)"
proof -
  obtain T where T: "psTransfers s = add_mset t T"
    using assms(2) by (blast dest: multi_member_split)
  show ?thesis
    using assms(1,3) portalInv_conn [OF assms(1,2)] by (simp add: portalInv_def advanceTransfer_def T split: if_splits)
qed

lemma portalInv_release:
  assumes "portalInv s" and "Releasing \<in># psTransfers s"
  shows "portalInv (release s)"
proof -
  obtain T where T: "psTransfers s = add_mset Releasing T"
    using assms(2) by (blast dest: multi_member_split)
  show ?thesis
    using assms(1) portalInv_conn [OF assms(1,2)] by (simp add: portalInv_def release_def T)
qed

text \<open>What the invariant does not mention may change.\<close>

lemma portalInv_content [simp]:
  "portalInv (s\<lparr>psGeneration := g\<rparr>) = portalInv s"
  "portalInv (s\<lparr>psContent := c\<rparr>) = portalInv s"
  "portalInv (s\<lparr>psChanges := sel\<rparr>) = portalInv s"
  "portalInv (s\<lparr>psErr := e\<rparr>) = portalInv s"
  "portalInv (s\<lparr>psCleanup := e\<rparr>) = portalInv s"
  by (simp_all add: portalInv_def)

lemma portalInv_watch: "portalInv s \<Longrightarrow> w \<noteq> WatchOver \<or> psClosing s \<Longrightarrow> portalInv (s\<lparr>psWatcher := w\<rparr>)"
  by (auto simp: portalInv_def)

lemma transfers_usePortal [simp]: "psTransfers (usePortal s) = psTransfers s"
  by (simp add: usePortal_def)

lemma watchSignal_inv: "portalInv s \<Longrightarrow> portalInv (watchSignal sig s)"
  by (simp add: watchSignal_def selectionChanged_def publishSelection_def Let_def portalInv_watch
      split: portalSignal.split option.split decoded.split prod.split)

lemma AcquireStream_inv: "portalInv s \<Longrightarrow> portalInv (snd (AcquireStream opened file s))"
  by (auto simp: AcquireStream_def portalInv_def usePortal_def split: sum.split)

lemma portalInv_eis: "portalInv s \<Longrightarrow> psEis s = ClosedFd \<Longrightarrow> psClosing s"
  by (simp add: portalInv_def)

lemma portalInv_good: "portalInv s \<Longrightarrow> s\<lparr>psBad := False\<rparr> = s"
  by (cases s) (simp add: portalInv_def)

text \<open>The connection to EIS is open whenever the session duplicates it, so that the state does not change.\<close>

lemma AcquireEIS_state:
  assumes "portalInv s"
  shows "snd (AcquireEIS duplicated s) = s"
proof -
  have "\<not> psBad s"
    using assms by (simp add: portalInv_def)
  then show ?thesis
    using portalInv_good [OF assms] portalInv_eis [OF assms]
    by (cases "psEis s") (simp_all add: AcquireEIS_def split: sum.split)
qed

lemma ReadStart_inv: "portalInv s \<Longrightarrow> portalInv (snd (ReadStart generation mimeType s))"
  using portalInv_admit [of s "Reading generation mimeType"] by (simp add: ReadStart_def split_beta)

lemma WriteStart_inv: "portalInv s \<Longrightarrow> portalInv (snd (WriteStart content s))"
  using portalInv_admit [of s "Writing content"] by (simp add: WriteStart_def split_beta)

text \<open>The phases of \<open>finish\<close>.\<close>

lemma finishBegin_inv: "portalInv s \<Longrightarrow> psFinish s = FinIdle \<Longrightarrow> portalInv (finishBegin p cause s)"
  by (simp add: portalInv_def finishBegin_def)

lemma finishStop_inv: "portalInv s \<Longrightarrow> psFinish s = FinMarked p \<Longrightarrow>
    portalInv (s\<lparr>psStop := True, psCancelled := True, psFinish := FinStopped p\<rparr>)"
  by (simp add: portalInv_def)

lemma finishPortal_inv: "portalInv s \<Longrightarrow> psFinish s = FinStopped p \<Longrightarrow> portalInv (finishPortal p err s)"
  by (simp add: portalInv_def finishPortal_def usePortal_def)

lemma finishEis_inv: "portalInv s \<Longrightarrow> psFinish s = FinPortal \<Longrightarrow> portalInv (finishEis err s)"
  by (cases "psEis s") (simp_all add: portalInv_def finishEis_def)

lemma finishMatches_inv: "portalInv s \<Longrightarrow> psFinish s = FinEis \<Longrightarrow> portalInv (finishMatches err err' s)"
  by (simp add: portalInv_def finishMatches_def usePortal_def)

lemma finishWait_inv: "portalInv s \<Longrightarrow> psFinish s = FinUnmatched \<Longrightarrow> psWaitGroup s = 0 \<Longrightarrow> portalInv (s\<lparr>psFinish := FinWaited\<rparr>)"
  by (auto simp: portalInv_def split: if_splits)

lemma finishConn_inv: "portalInv s \<Longrightarrow> psFinish s = FinWaited \<Longrightarrow> portalInv (finishConn err s)"
  by (auto simp: portalInv_def finishConn_def usePortal_def split: if_splits)

lemma finishEnd_inv: "portalInv s \<Longrightarrow> psFinish s = FinDisconnected \<Longrightarrow> portalInv (finishEnd s)"
  by (auto simp: portalInv_def finishEnd_def split: if_splits)

lemmas session_finish_inv = finishBegin_inv finishStop_inv finishPortal_inv finishEis_inv finishMatches_inv finishWait_inv finishConn_inv
  finishEnd_inv

lemma advance_usePortal: "advanceTransfer t t' (usePortal s) = usePortal (advanceTransfer t t' s)"
  by (simp add: advanceTransfer_def usePortal_def)

lemma conn_advance [simp]: "psConn (advanceTransfer t t' s) = psConn s"
  by (simp add: advanceTransfer_def)

text \<open>A step of a transfer that calls the portal, with or without the lock.\<close>

lemma portalInv_call:
  assumes "portalInv s" and "t \<in># psTransfers s" and "holdsWriteLock t' = holdsWriteLock t"
  shows "portalInv (advanceTransfer t t' (usePortal s))"
  using portalInv_advance [OF assms] portalInv_conn [OF assms(1,2)] by (simp add: advance_usePortal portalInv_use)

lemma portalInv_callUnlock:
  assumes "portalInv s" and "t \<in># psTransfers s" and "holdsWriteLock t"
  shows "portalInv ((advanceTransfer t Releasing (usePortal s))\<lparr>psWriteLocked := False\<rparr>)"
  using portalInv_unlock [OF portalInv_use, of s t] assms portalInv_conn [OF assms(1,2)] by simp

lemma portalInv_store:
  assumes "portalInv s" and "WriteSet c b \<in># psTransfers s"
  shows "portalInv ((advanceTransfer (WriteSet c b) Releasing s)\<lparr>psWriteLocked := False, psGeneration := g, psContent := d\<rparr>)"
  using portalInv_unlock [OF assms] by simp

lemma AcquireStream_state:
  assumes "portalInv s"
  shows "snd (AcquireStream opened file s) = s"
proof -
  have "\<not> psBad s"
    using assms by (simp add: portalInv_def)
  moreover have "\<not> psClosing s \<Longrightarrow> psConn s"
    using assms by (simp add: portalInv_def)
  ultimately show ?thesis
    using portalInv_good [OF assms] by (simp add: AcquireStream_def usePortal_def split: sum.split)
qed

lemma portalInv_closing: "portalInv s \<Longrightarrow> psClosing s \<longleftrightarrow> psFinish s \<noteq> FinIdle"
  by (cases "psFinish s") (simp_all add: portalInv_def)

lemma portalStep_inv: "portalStep s s' \<Longrightarrow> portalInv s \<Longrightarrow> portalInv s'"
proof (induction rule: portalStep.induct)
  case (read s generation mimeType)
  then show ?case by (rule ReadStart_inv)
next
  case (writeStart s content)
  then show ?case by (rule WriteStart_inv)
next
  case (serve m n c s reply opened outcomes closeErr)
  then show ?case by (simp add: portalInv_call portalInv_advance)
next
  case (writeStore c b s)
  then show ?case by (simp add: portalInv_unlock)
next
  case (signal s sig)
  then show ?case by (simp add: watchSignal_inv)
next
  case (watchStop s)
  then show ?case by (simp add: portalInv_def)
next
  case (watchAdmit s m n c)
  then show ?case by (simp add: portalInv_watch portalInv_admit)
next
  case (watchFinish s cause)
  then have "portalInv (finishBegin False (Some cause) s)"
    by (simp add: finishBegin_inv)
  then show ?case by (rule portalInv_watch) (simp add: finishBegin_def)
next
  case (watchJoin s cause)
  then show ?case by (simp add: portalInv_watch portalInv_closing)
qed (simp_all add: AcquireStream_state AcquireEIS_state portalInv_advance portalInv_call portalInv_lock portalInv_callUnlock
    portalInv_release portalInv_watch session_finish_inv)

lemma portalReach_inv: "portalReach (newSession path eis clipboard) s \<Longrightarrow> portalInv s"
  by (induction rule: portalReach.induct) (auto intro: newSession_inv portalStep_inv)

section \<open>Closing comes to its end\<close>

text \<open>The steps a transfer has left, and those of the session.\<close>

fun transferSteps :: "transfer \<Rightarrow> nat" where
  "transferSteps (Reading generation mimeType) = 4"
| "transferSteps (ReadCalling mimeType) = 3"
| "transferSteps ReadFile = 2"
| "transferSteps (Writing content) = 4"
| "transferSteps (WriteBased content base) = 3"
| "transferSteps (WriteSet content base) = 2"
| "transferSteps (Serving mimeType serial content) = 3"
| "transferSteps (ServeDone serial success) = 2"
| "transferSteps Releasing = 1"

definition closeSteps :: "portalSession \<Rightarrow> nat" where
  "closeSteps s = sum_mset (image_mset transferSteps (psTransfers s)) + (8 - finRank (psFinish s))"

text \<open>No step of a closing session takes it further from its end, and none loses the cause of the close.\<close>

definition keepsErr :: "portalSession \<Rightarrow> portalSession \<Rightarrow> bool" where
  "keepsErr s s' \<longleftrightarrow> (\<forall>e target. psErr s = Some e \<and> errorsIs e target \<longrightarrow> (\<exists>e'. psErr s' = Some e' \<and> errorsIs e' target))"

definition closer :: "portalSession \<Rightarrow> portalSession \<Rightarrow> bool" where
  "closer s s' \<longleftrightarrow> psClosing s' \<and> closeSteps s' \<le> closeSteps s \<and> keepsErr s s'"

lemma closer_refl: "psClosing s \<Longrightarrow> closer s s"
  by (simp add: closer_def keepsErr_def)

lemma closer_trans: "closer s s' \<Longrightarrow> closer s' s'' \<Longrightarrow> closer s s''"
  unfolding closer_def keepsErr_def by (metis order_trans)

lemma closeSteps_advance: "t \<in># psTransfers s \<Longrightarrow>
    closeSteps (advanceTransfer t t' s) + transferSteps t = closeSteps s + transferSteps t'"
  by (auto simp: closeSteps_def advanceTransfer_def dest!: multi_member_split)

lemma closer_advance: "psClosing s \<Longrightarrow> t \<in># psTransfers s \<Longrightarrow> transferSteps t' \<le> transferSteps t \<Longrightarrow> closer s (advanceTransfer t t' s)"
  using closeSteps_advance [of t s t'] by (simp add: closer_def keepsErr_def) (simp add: advanceTransfer_def)

lemma closer_use [simp]: "closer s (usePortal s') = closer s s'"
  by (simp add: closer_def keepsErr_def closeSteps_def usePortal_def)

lemma session_closer_frame [simp]:
  "closer s (s'\<lparr>psWriteLocked := b\<rparr>) = closer s s'"
  "closer s (s'\<lparr>psGeneration := g\<rparr>) = closer s s'"
  "closer s (s'\<lparr>psContent := c\<rparr>) = closer s s'"
  "closer s (s'\<lparr>psChanges := sel\<rparr>) = closer s s'"
  "closer s (s'\<lparr>psWatcher := w\<rparr>) = closer s s'"
  by (simp_all add: closer_def keepsErr_def closeSteps_def)

lemma closer_release: "psClosing s \<Longrightarrow> Releasing \<in># psTransfers s \<Longrightarrow> closer s (release s)"
  by (auto simp: closer_def keepsErr_def closeSteps_def release_def dest!: multi_member_split)

lemma watchSignal_closer: "psClosing s \<Longrightarrow> closer s (watchSignal sig s)"
  by (simp add: watchSignal_def selectionChanged_def publishSelection_def Let_def closer_refl
      split: portalSignal.split option.split decoded.split prod.split)

lemma admitTransfer_closing [simp]: "psClosing s \<Longrightarrow> admitTransfer t s = (False, s)"
  by (simp add: admitTransfer_def)

lemma finishEnd_closer: "psClosing s \<Longrightarrow> closer s (finishEnd s)"
proof -
  assume closing: "psClosing s"
  have "keepsErr s (finishEnd s)"
    unfolding keepsErr_def
  proof (intro allI impI)
    fix e target assume e: "psErr s = Some e \<and> errorsIs e target"
    then obtain e' where e': "errorsJoin [psErr s, psCleanup s] = Some e'"
      by (cases "errorsJoin [psErr s, psCleanup s]") auto
    then have "errorsIs e' target"
      using e errorsJoin_SomeD [OF e', of target] by auto
    then show "\<exists>e'. psErr (finishEnd s) = Some e' \<and> errorsIs e' target"
      using e' by (simp add: finishEnd_def)
  qed
  then show ?thesis
    using closing by (simp add: closer_def closeSteps_def finishEnd_def)
qed

lemma finish_closer:
  assumes "psClosing s"
  shows "psFinish s = FinMarked p \<Longrightarrow> closer s (s\<lparr>psStop := True, psCancelled := True, psFinish := FinStopped p\<rparr>)"
    and "psFinish s = FinStopped p \<Longrightarrow> closer s (finishPortal p err s)"
    and "psFinish s = FinPortal \<Longrightarrow> closer s (finishEis err s)"
    and "psFinish s = FinEis \<Longrightarrow> closer s (finishMatches err err' s)"
    and "psFinish s = FinUnmatched \<Longrightarrow> closer s (s\<lparr>psFinish := FinWaited\<rparr>)"
    and "psFinish s = FinWaited \<Longrightarrow> closer s (finishConn err s)"
  using assms by (simp_all add: closer_def keepsErr_def closeSteps_def finishPortal_def finishEis_def finishMatches_def finishConn_def usePortal_def)

lemma portalStep_closer: "portalStep s s' \<Longrightarrow> portalInv s \<Longrightarrow> psClosing s \<Longrightarrow> closer s s'"
proof (induction rule: portalStep.induct)
  case (signal s sig)
  then show ?case by (simp add: watchSignal_closer)
next
  case (watchFinish s cause)
  then show ?case by (simp add: portalInv_closing)
next
  case (closeBegin s)
  then show ?case by (simp add: portalInv_closing)
qed (simp_all add: AcquireStream_state AcquireEIS_state ReadStart_def WriteStart_def closer_refl closer_advance closer_release
    advance_usePortal finish_closer finishEnd_closer)

lemma portalReach_closer:
  assumes "portalReach s s'" and "portalInv s" and "psClosing s"
  shows "portalInv s' \<and> closer s s'"
  using assms
proof (induction rule: portalReach.induct)
  case init
  then show ?case by (simp add: closer_refl)
next
  case (step s' s'')
  then have "portalInv s'" and "closer s s'" by simp_all
  moreover from \<open>closer s s'\<close> have "psClosing s'" by (simp add: closer_def)
  ultimately show ?case
    using step.hyps portalStep_inv portalStep_closer closer_trans by blast
qed

text \<open>Until it is done, a closing session has a step that takes it closer: a transfer, or \<open>finish\<close> itself.\<close>

lemma writers_0: "writers ts \<noteq> 0 \<Longrightarrow> \<exists>t. t \<in># ts \<and> holdsWriteLock t"
  by (induction ts) (auto split: if_splits)

lemma closeSteps_less:
  assumes "t \<in># psTransfers s" and "transferSteps t' < transferSteps t"
  shows "closeSteps (advanceTransfer t t' s) < closeSteps s"
  using closeSteps_advance [OF assms(1), of t'] assms(2) by simp

lemma closeSteps_frame [simp]:
  "closeSteps (usePortal s) = closeSteps s"
  "closeSteps (s\<lparr>psWriteLocked := b\<rparr>) = closeSteps s"
  by (simp_all add: closeSteps_def usePortal_def)

lemma progressI: "portalStep s s' \<Longrightarrow> closeSteps s' < closeSteps s \<Longrightarrow> \<exists>s'. portalStep s s' \<and> closeSteps s' < closeSteps s"
  by blast

lemma writer_progress:
  assumes t: "t \<in># psTransfers s" and "holdsWriteLock t"
  shows "\<exists>s'. portalStep s s' \<and> closeSteps s' < closeSteps s"
proof (cases t)
  case (WriteBased c b)
  then have "WriteBased c b \<in># psTransfers s" using t by simp
  from progressI [OF portalStep.writeFail [OF this]] this show ?thesis
    by (simp add: advance_usePortal closeSteps_less)
next
  case (WriteSet c b)
  then have set: "WriteSet c b \<in># psTransfers s" using t by simp
  have "closeSteps (s'\<lparr>psGeneration := g, psContent := d\<rparr>) = closeSteps s'" for s' g d
    by (simp add: closeSteps_def)
  with progressI [OF portalStep.writeStore [OF set]] set show ?thesis
    by (simp add: closeSteps_less)
qed (use assms in simp_all)

lemma transfer_progress:
  assumes inv: "portalInv s" and t: "t \<in># psTransfers s"
  shows "\<exists>s'. portalStep s s' \<and> closeSteps s' < closeSteps s"
proof (cases "holdsWriteLock t")
  case True
  with t show ?thesis by (rule writer_progress)
next
  case False
  show ?thesis
  proof (cases t)
    case (Writing c)
    then have c: "Writing c \<in># psTransfers s" using t by simp
    show ?thesis
    proof (cases "psWriteLocked s")
      case True
      then have "writers (psTransfers s) \<noteq> 0" using inv by (simp add: portalInv_def)
      then show ?thesis using writer_progress writers_0 by blast
    next
      case False
      from progressI [OF portalStep.writeLock [OF c False]] c show ?thesis
        by (simp add: closeSteps_less)
    qed
  next
    case (Reading g m)
    then have "Reading g m \<in># psTransfers s" using t by simp
    from progressI [OF portalStep.readCheck [OF this]] this show ?thesis
      by (simp add: closeSteps_less split: if_splits)
  next
    case (ReadCalling m)
    then have "ReadCalling m \<in># psTransfers s" using t by simp
    from progressI [OF portalStep.readCall [OF this, of False]] this show ?thesis
      by (simp add: advance_usePortal closeSteps_less)
  next
    case ReadFile
    then have "ReadFile \<in># psTransfers s" using t by simp
    from progressI [OF portalStep.readFile [OF this]] this show ?thesis
      by (simp add: closeSteps_less)
  next
    case (Serving m n c)
    then have "Serving m n c \<in># psTransfers s" using t by simp
    from progressI [OF portalStep.serve [OF this]] this show ?thesis
      by (simp add: advance_usePortal closeSteps_less split: if_splits)
  next
    case (ServeDone n b)
    then have "ServeDone n b \<in># psTransfers s" using t by simp
    from progressI [OF portalStep.serveDone [OF this]] this show ?thesis
      by (simp add: advance_usePortal closeSteps_less)
  next
    case Releasing
    then have rel: "Releasing \<in># psTransfers s" using t by simp
    have "closeSteps (release s) < closeSteps s"
      using rel by (auto simp: closeSteps_def release_def dest!: multi_member_split)
    with portalStep.released [OF rel] show ?thesis by (rule progressI)
  qed (use False in simp_all)
qed

text \<open>Each phase of \<open>finish\<close> goes on by itself, but for the wait.\<close>

lemma finish_progress:
  assumes "psTransfers s = {#}" and "psWaitGroup s = 0" and "psClosing s" and "psFinish s \<noteq> FinIdle" and "psFinish s \<noteq> FinFinished"
  shows "\<exists>s'. portalStep s s' \<and> closeSteps s' < closeSteps s"
proof (cases "psFinish s")
  case (FinMarked p)
  show ?thesis by (rule progressI [OF portalStep.finStop [OF FinMarked]]) (simp add: closeSteps_def FinMarked)
next
  case (FinStopped p)
  show ?thesis
    by (rule progressI [OF portalStep.finPortal [OF FinStopped]]) (simp add: closeSteps_def FinStopped finishPortal_def usePortal_def)
next
  case FinPortal
  show ?thesis by (rule progressI [OF portalStep.finEis [OF FinPortal]]) (simp add: closeSteps_def FinPortal finishEis_def)
next
  case FinEis
  show ?thesis
    by (rule progressI [OF portalStep.finMatches [OF FinEis]]) (simp add: closeSteps_def FinEis finishMatches_def usePortal_def)
next
  case FinUnmatched
  show ?thesis by (rule progressI [OF portalStep.finWait [OF FinUnmatched assms(2)]]) (simp add: closeSteps_def FinUnmatched)
next
  case FinWaited
  show ?thesis
    by (rule progressI [OF portalStep.finConn [OF FinWaited]]) (simp add: closeSteps_def FinWaited finishConn_def usePortal_def)
next
  case FinDisconnected
  show ?thesis by (rule progressI [OF portalStep.finEnd [OF FinDisconnected]]) (simp add: closeSteps_def FinDisconnected finishEnd_def)
qed (use assms in simp_all)

lemma close_progress:
  assumes inv: "portalInv s" and "psClosing s" and "\<not> psDone s"
  shows "\<exists>s'. portalStep s s' \<and> closeSteps s' < closeSteps s"
proof (cases "psTransfers s = {#}")
  case True
  then have "psWaitGroup s = 0" using inv by (simp add: portalInv_def)
  moreover have "psFinish s \<noteq> FinIdle" using inv assms(2) by (simp add: portalInv_closing)
  moreover have "psFinish s \<noteq> FinFinished" using inv assms(3) by (auto simp: portalInv_def)
  ultimately show ?thesis using True assms(2) finish_progress by blast
next
  case False
  then obtain t where "t \<in># psTransfers s" by (auto simp: multiset_nonemptyE)
  with inv show ?thesis by (rule transfer_progress)
qed

lemma close_reaches:
  "portalInv s \<Longrightarrow> psClosing s \<Longrightarrow> \<exists>n s'. n \<le> closeSteps s \<and> (portalStep ^^ n) s s' \<and> psDone s'"
proof (induction "closeSteps s" arbitrary: s rule: less_induct)
  case less
  show ?case
  proof (cases "psDone s")
    case True
    then show ?thesis by (intro exI [of _ 0] exI [of _ s]) simp
  next
    case False
    then obtain s1 where step: "portalStep s s1" and lt: "closeSteps s1 < closeSteps s"
      using close_progress less.prems by blast
    then have "portalInv s1" and "psClosing s1"
      using portalStep_inv portalStep_closer less.prems unfolding closer_def by blast+
    with less.hyps [OF lt] obtain n s' where n: "n \<le> closeSteps s1" and run: "(portalStep ^^ n) s1 s'" and "psDone s'"
      by blast
    moreover from step run have "(portalStep ^^ Suc n) s s'"
      by (rule relpowp_Suc_I2)
    ultimately show ?thesis using lt by (intro exI [of _ "Suc n"] exI [of _ s']) simp
  qed
qed

lemma relpowp_reach: "(portalStep ^^ n) s s' \<Longrightarrow> portalReach s s'"
  by (induction n arbitrary: s') (auto intro: portalReach.intros)

section \<open>What the parts return\<close>

text \<open>A read returns at most the bound, whatever the owner of the selection writes.\<close>

lemma readResult_bound: "portalReadResult mimeType reply file transferred = Inr data \<Longrightarrow> int (length data) \<le> portalClipboardBytes"
  by (auto simp: portalReadResult_def split: sum.splits if_splits)

text \<open>A write loop that succeeds has written every byte, each write without an error.\<close>

lemma writeAll_complete: "writeAll bytes written outcomes \<Longrightarrow> \<exists>k\<le>length outcomes.
    written + sum_list (map fst (take k outcomes)) = bytes \<and> (\<forall>(amount, err)\<in>set (take k outcomes). err = None)"
proof (induction bytes written outcomes rule: writeAll.induct)
  case (1 bytes written)
  then show ?case by (auto intro: exI [of _ 0])
next
  case (2 bytes written amount err outcomes)
  show ?case
  proof (cases "bytes \<le> written")
    case True
    then show ?thesis using 2(2) by (auto intro!: exI [of _ 0])
  next
    case False
    then have err: "err = None" and "amount \<noteq> 0" and "writeAll bytes (written + amount) outcomes"
      using 2(2) by (simp_all split: if_splits)
    then obtain k where "k \<le> length outcomes" and "written + amount + sum_list (map fst (take k outcomes)) = bytes"
      and "\<forall>(amount, err)\<in>set (take k outcomes). err = None"
      using 2(1) False by blast
    then show ?thesis using err by (intro exI [of _ "Suc k"]) simp
  qed
qed

text \<open>A selection that is announced during a write wins over it, and one of the session itself changes nothing.\<close>

lemma selectionChanged_own: "selectionChanged (Decoded True) offered s = s"
  by (simp add: selectionChanged_def)

lemma selectionChanged_generation: "owner = Absent \<or> owner = Decoded False \<Longrightarrow>
    psGeneration (selectionChanged owner offered s) = psGeneration s + 1 \<and> psContent (selectionChanged owner offered s) = psContent s"
  by (auto simp: selectionChanged_def publishSelection_def Let_def split: decoded.split)

section \<open>Properties\<close>

text \<open>
  C16: In every interleaving of the operations of the portal session, the signals and the close, no call goes out on a closed D-Bus
  connection and no closed EIS connection is used: the wait group counts exactly the admitted transfers, at most one
  of them holds the lock of the writers, a closing session refuses streams, EIS connections and transfers, the signals are followed until
  the session closes, and when it is done every transfer is over and the connection, the EIS connection and the matches are released.
\<close>

theorem portal_session_safe:
  assumes "portalReach (newSession path eis clipboard) s"
  shows "\<not> psBad s \<and> psWaitGroup s = size (psTransfers s) \<and> writers (psTransfers s) \<le> 1 \<and>
     (psClosing s \<longrightarrow> (\<forall>opened file. AcquireStream opened file s = (Inl (closedError s), s)) \<and>
        (\<forall>duplicated. AcquireEIS duplicated s = (Inl (closedError s), s)) \<and> (\<forall>t. admitTransfer t s = (False, s))) \<and>
     (psWatcher s = WatchOver \<longrightarrow> psClosing s) \<and>
     (psDone s \<longrightarrow> psClosing s \<and> psStop s \<and> psCancelled s \<and> \<not> psConn s \<and> psEis s \<noteq> OpenFd \<and> \<not> psMatched s \<and>
        psTransfers s = {#} \<and> psWaitGroup s = 0)"
proof -
  have inv: "portalInv s"
    using assms by (rule portalReach_inv)
  then have "\<not> psBad s" and "psWaitGroup s = size (psTransfers s)" and "writers (psTransfers s) \<le> 1"
      and "psWatcher s = WatchOver \<Longrightarrow> psClosing s"
    by (simp_all add: portalInv_def split: if_splits)
  moreover have "psDone s \<Longrightarrow> psClosing s \<and> psStop s \<and> psCancelled s \<and> \<not> psConn s \<and> psEis s \<noteq> OpenFd \<and> \<not> psMatched s \<and>
      psTransfers s = {#} \<and> psWaitGroup s = 0"
    using inv by (auto simp: portalInv_def)
  ultimately show ?thesis
    by (simp add: AcquireStream_def AcquireEIS_def)
qed

text \<open>
  C7: Closing comes to an end: from every reachable state of a closing session at most \<open>closeSteps\<close> steps lead to a
  state that is done, whatever transfers are under way; and no step that is taken instead, by a transfer, a caller or the portal, leads
  further away from it or loses the error that the session closed with.
\<close>

theorem portal_session_closes:
  assumes "portalReach (newSession path eis clipboard) s" and "psClosing s"
  shows "(\<exists>n s'. n \<le> closeSteps s \<and> (portalStep ^^ n) s s' \<and> psDone s') \<and>
     (\<forall>s'. portalReach s s' \<longrightarrow> psClosing s' \<and> closeSteps s' \<le> closeSteps s \<and>
        (\<forall>e target. psErr s = Some e \<and> errorsIs e target \<longrightarrow> (\<exists>e'. psErr s' = Some e' \<and> errorsIs e' target)))"
proof -
  have inv: "portalInv s"
    using assms(1) by (rule portalReach_inv)
  then have "closer s s'" if "portalReach s s'" for s'
    using portalReach_closer [OF that] assms(2) by blast
  then show ?thesis
    using close_reaches [OF inv assms(2)] unfolding closer_def keepsErr_def by blast
qed

section \<open>Witnesses\<close>

text \<open>A session with a selection to serve that the portal closes.\<close>

definition demoSession :: portalSession where
  "demoSession = newSession ''/session/1'' True True"

definition demoServing :: portalSession where
  "demoServing = demoSession\<lparr>psWaitGroup := 1, psTransfers := {#Serving ''text/plain'' 7 []#}\<rparr>"

definition demoClosing :: portalSession where
  "demoClosing = demoServing\<lparr>psWatcher := WatchOver, psClosing := True, psErr := errorsJoin [None, Some ErrSessionClosed],
     psFinish := FinMarked False\<rparr>"

lemmas demo_session_defs = demoClosing_def demoServing_def demoSession_def newSession_def

lemma demoServing_reach: "portalReach demoSession demoServing"
proof -
  let ?wants = "demoSession\<lparr>psWatcher := WatchWantsLock ''text/plain'' 7\<rparr>"
  let ?admits = "?wants\<lparr>psWatcher := WatchAdmits ''text/plain'' 7 []\<rparr>"
  have "portalStep demoSession ?wants"
    using portalStep.signal [of demoSession "SigSelectionTransfer (Some (''/session/1'', ''text/plain'', 7))"]
    by (simp add: demoSession_def newSession_def watchSignal_def)
  moreover have "portalStep ?wants ?admits"
    using portalStep.watchLock [of ?wants "''text/plain''" 7] by (simp add: demoSession_def newSession_def)
  moreover have "portalStep ?admits demoServing"
    using portalStep.watchAdmit [of ?admits "''text/plain''" 7 "[]"] by (simp add: demoServing_def demoSession_def newSession_def admitTransfer_def)
  ultimately show ?thesis
    by (meson portalReach.intros)
qed

lemma demoClosing_reach: "portalReach demoSession demoClosing"
proof -
  let ?ends = "demoServing\<lparr>psWatcher := WatchEnds ErrSessionClosed\<rparr>"
  have "portalStep demoServing ?ends"
    using portalStep.signal [of demoServing "SigClosed ''/session/1''"] by (simp add: demoServing_def demoSession_def newSession_def watchSignal_def)
  moreover have "portalStep ?ends demoClosing"
    using portalStep.watchFinish [of ?ends ErrSessionClosed] by (simp add: demo_session_defs finishBegin_def)
  ultimately show ?thesis
    using demoServing_reach by (meson portalReach.intros)
qed

lemma portal_session_safe_witness:
  "\<not> psBad demoServing \<and> psWaitGroup demoServing = 1 \<and> admitTransfer Releasing demoClosing = (False, demoClosing)"
  using portal_session_safe [OF demoServing_reach [unfolded demoSession_def]] portal_session_safe [OF demoClosing_reach [unfolded demoSession_def]]
  by (simp add: demo_session_defs)

lemma portal_session_closes_witness: "\<exists>n s'. n \<le> 10 \<and> (portalStep ^^ n) demoClosing s' \<and> psDone s'"
proof -
  have "closeSteps demoClosing = 10" and "psClosing demoClosing"
    by (simp_all add: demo_session_defs closeSteps_def)
  then show ?thesis
    using portal_session_closes [OF demoClosing_reach [unfolded demoSession_def]] by simp
qed

end
