(* ===== verification/Portal_Open.thy ===== *)
theory Portal_Open
  imports Portal_Session Startup "HOL-Library.Sublist"
begin

text \<open>
  The opening of the portal session (\<open>Open\<close> in \<open>src/capture/portal.go\<close>): the requests to the portal in their order with every
  check of a reply, the clean-up after an error, and the restore token that is kept in a file between launches.  The
  replies of the portal, the decoding of their values and the JSON codec are arguments; faults of the file system are an
  argument too.
\<close>

section \<open>Configuration\<close>

record captureInput =
  ciEnabled :: bool
  ciPointer :: bool
  ciKeyboard :: bool

record captureConfig =
  ccSource :: string
  ccCursorMode :: string
  ccInput :: captureInput
  ccClipboard :: bool

definition portalConfig :: "videoConfig \<Rightarrow> inputConfig \<Rightarrow> bool \<Rightarrow> captureConfig" where
  "portalConfig v i clipboard = \<lparr>ccSource = vcSource v, ccCursorMode = vcCursorMode v,
     ccInput = \<lparr>ciEnabled = cfgEnabled i, ciPointer = cfgPointer i, ciKeyboard = cfgKeyboard i\<rparr>, ccClipboard = clipboard\<rparr>"

definition captureCheck :: "captureConfig \<Rightarrow> goerror option" where
  "captureCheck cfg = errorsJoin
    [check (ccSource cfg \<noteq> ''monitor'') (errorsNew ''capture source must be monitor''),
     check (ccCursorMode cfg \<notin> {''hidden'', ''embedded''}) (errorsNew ''capture cursor mode must be hidden or embedded''),
     check (ciEnabled (ccInput cfg) \<and> \<not> ciPointer (ccInput cfg) \<and> \<not> ciKeyboard (ccInput cfg))
       (errorsNew ''capture input requires pointer or keyboard''),
     check (ccClipboard cfg \<and> (\<not> ciEnabled (ccInput cfg) \<or> \<not> ciKeyboard (ccInput cfg)))
       (errorsNew ''clipboard synchronization requires remote keyboard input'')]"

text \<open>The check is the one that \<open>Startup\<close> makes of the whole configuration.\<close>

lemma captureValidate_portalConfig: "captureValidate v i clipboard = captureCheck (portalConfig v i clipboard)"
  by (simp add: captureValidate_def captureCheck_def portalConfig_def)

section \<open>The restore token\<close>

definition ErrNotExist :: goerror where "ErrNotExist = Sentinel ''file does not exist''"

definition ApplicationID :: string where "ApplicationID = ''io.github.tarik02.webdesktop''"

definition restoreStateVersion :: int where "restoreStateVersion = 1"

record restoreState =
  rsVersion :: int
  rsApplicationID :: string
  rsSource :: string
  rsScreenShare :: bool
  rsInput :: captureInput
  rsClipboard :: bool
  rsRestoreToken :: string

text \<open>What follows the first JSON value of a file.\<close>

datatype trailing = EndOfFile | AnotherValue | TrailingError goerror

record jsonCodec =
  jcMarshal :: "restoreState \<Rightarrow> goerror + uint8 list"
  jcDecode :: "uint8 list \<Rightarrow> (goerror + restoreState) \<times> trailing"

record fileNode =
  fnRegular :: bool
  fnPerm :: int
  fnData :: "uint8 list"

type_synonym files = "string \<rightharpoonup> fileNode"

text \<open>The errors of the calls to the file system, where they fail.\<close>

record fileFaults =
  ffOpen :: "goerror option"
  ffStat :: "goerror option"
  ffDiscard :: "goerror option"
  ffMkdir :: "goerror option"
  ffChmodDir :: "goerror option"
  ffCreate :: "goerror option"
  ffChmod :: "goerror option"
  ffWrite :: "goerror option"
  ffSync :: "goerror option"
  ffClose :: "goerror option"
  ffRename :: "goerror option"
  ffRemove :: "goerror option"

definition PathJoin :: "string list \<Rightarrow> string" where
  "PathJoin parts =
    (let parts' = dropWhile (\<lambda>p. p = []) parts in if parts' = [] then [] else PathClean (joinChar (CHR ''/'') parts'))"

definition restoreTokenPath :: "string \<Rightarrow> goerror + string \<Rightarrow> goerror + string" where
  "restoreTokenPath stateHome home =
    (if stateHome \<noteq> [] then
       (if \<not> HasPrefix stateHome ''/'' then Inl (errorsNew ''XDG_STATE_HOME must be an absolute path'')
        else Inr (PathJoin [stateHome, ''webdesktop'', ''portal-restore.json'']))
     else (case home of
         Inl err \<Rightarrow> Inl err
       | Inr dir \<Rightarrow> Inr (PathJoin [dir, ''.local'', ''state'', ''webdesktop'', ''portal-restore.json''])))"

definition osOpen :: "fileFaults \<Rightarrow> files \<Rightarrow> string \<Rightarrow> goerror + fileNode" where
  "osOpen F fs path = (case ffOpen F of Some err \<Rightarrow> Inl err
     | None \<Rightarrow> (case fs path of None \<Rightarrow> Inl (Wrap ''open %s: %w'' ErrNotExist [FStr path]) | Some file \<Rightarrow> Inr file))"

definition restoreMatches :: "captureConfig \<Rightarrow> restoreState \<Rightarrow> bool" where
  "restoreMatches cfg state \<longleftrightarrow>
     rsVersion state = restoreStateVersion \<and> rsApplicationID state = ApplicationID \<and> rsSource state = ccSource cfg \<and>
     rsScreenShare state \<and> rsInput state = ccInput cfg \<and> rsClipboard state = ccClipboard cfg \<and> rsRestoreToken state \<noteq> []"

text \<open>The token, the path of the file, and whether there is a token to try.\<close>

definition loadRestoreToken :: "jsonCodec \<Rightarrow> fileFaults \<Rightarrow> goerror + string \<Rightarrow> captureConfig \<Rightarrow> files \<Rightarrow>
    (goerror + string \<times> string \<times> bool) \<times> files" where
  "loadRestoreToken J F statePathOf cfg fs =
    (case statePathOf of Inl err \<Rightarrow> (Inl err, fs)
     | Inr statePath \<Rightarrow>
       (case osOpen F fs statePath of
          Inl err \<Rightarrow> if errorsIs err ''file does not exist'' then (Inr ([], statePath, False), fs) else (Inl err, fs)
        | Inr file \<Rightarrow>
          (case ffStat F of Some err \<Rightarrow> (Inl err, fs)
           | None \<Rightarrow>
             if \<not> fnRegular file then (Inl (errorsNew ''restore token state is not a regular file''), fs)
             else if fnPerm file \<noteq> 384 then (Inl (Errorf ''restore token state permissions are %04o, want 0600'' [FInt (fnPerm file)]), fs)
             else (case jcDecode J (fnData file) of
                 (Inl err, _) \<Rightarrow> (Inl err, fs)
               | (Inr _, AnotherValue) \<Rightarrow> (Inl (errorsNew ''restore token state contains multiple JSON values''), fs)
               | (Inr _, TrailingError err) \<Rightarrow> (Inl err, fs)
               | (Inr state, EndOfFile) \<Rightarrow>
                   if \<not> restoreMatches cfg state then
                     (case ffDiscard F of
                        Some err \<Rightarrow> (Inl (Wrap ''discard incompatible restore token state: %w'' err []), fs)
                      | None \<Rightarrow> (Inr ([], statePath, False), fs(statePath := None)))
                   else (Inr (rsRestoreToken state, statePath, True), fs)))))"

definition restoreStateOf :: "captureConfig \<Rightarrow> string \<Rightarrow> restoreState" where
  "restoreStateOf cfg token = \<lparr>rsVersion = restoreStateVersion, rsApplicationID = ApplicationID, rsSource = ccSource cfg, rsScreenShare = True,
     rsInput = ccInput cfg, rsClipboard = ccClipboard cfg, rsRestoreToken = token\<rparr>"

text \<open>The deferred removal of the temporary file.\<close>

definition removeTemp :: "fileFaults \<Rightarrow> string \<Rightarrow> files \<Rightarrow> files" where
  "removeTemp F tempPath fs = (if ffRemove F = None then fs(tempPath := None) else fs)"

fun firstError :: "goerror option list \<Rightarrow> goerror option" where
  "firstError [] = None"
| "firstError (Some err # errs) = Some err"
| "firstError (None # errs) = firstError errs"

definition storeRestoreToken :: "jsonCodec \<Rightarrow> fileFaults \<Rightarrow> string \<Rightarrow> string \<Rightarrow> captureConfig \<Rightarrow> string \<Rightarrow> files \<Rightarrow>
    goerror option \<times> files" where
  "storeRestoreToken J F tempPath statePath cfg token fs =
    (case jcMarshal J (restoreStateOf cfg token) of
       Inl err \<Rightarrow> (Some err, fs)
     | Inr data \<Rightarrow>
       (case firstError [ffMkdir F, ffChmodDir F, ffCreate F] of Some err \<Rightarrow> (Some err, fs)
        | None \<Rightarrow>
          let fs1 = fs(tempPath \<mapsto> \<lparr>fnRegular = True, fnPerm = 384, fnData = []\<rparr>)
          in (case firstError [ffChmod F, ffWrite F] of Some err \<Rightarrow> (Some err, removeTemp F tempPath fs1)
              | None \<Rightarrow>
                let fs2 = fs1(tempPath \<mapsto> \<lparr>fnRegular = True, fnPerm = 384, fnData = data @ [10]\<rparr>)
                in (case firstError [ffSync F, ffClose F] of Some err \<Rightarrow> (Some err, removeTemp F tempPath fs2)
                    | None \<Rightarrow>
                      (case ffRename F of Some err \<Rightarrow> (Some err, removeTemp F tempPath fs2)
                       | None \<Rightarrow> (None, removeTemp F tempPath (fs2(statePath := fs2 tempPath, tempPath := None))))))))"

text \<open>A store that fails leaves the old state in its place; one that succeeds replaces all of it.\<close>

lemma firstError_None [simp]: "firstError errs = None \<longleftrightarrow> (\<forall>e\<in>set errs. e = None)"
  by (induction errs rule: firstError.induct) auto

lemma removeTemp_other [simp]: "p \<noteq> tempPath \<Longrightarrow> removeTemp F tempPath fs p = fs p"
  by (simp add: removeTemp_def)

lemma storeRestoreToken_other: "p \<noteq> tempPath \<Longrightarrow> p \<noteq> statePath \<Longrightarrow> snd (storeRestoreToken J F tempPath statePath cfg token fs) p = fs p"
  by (simp add: storeRestoreToken_def Let_def split: sum.split option.split)

lemma storeRestoreToken_failed:
  assumes "storeRestoreToken J F tempPath statePath cfg token fs = (Some err, fs')" and "tempPath \<noteq> statePath"
  shows "fs' statePath = fs statePath"
  using assms by (auto simp: storeRestoreToken_def Let_def split: sum.splits option.splits)

lemma storeRestoreToken_stored:
  assumes "storeRestoreToken J F tempPath statePath cfg token fs = (None, fs')" and "tempPath \<noteq> statePath"
  obtains data where "jcMarshal J (restoreStateOf cfg token) = Inr data"
    and "fs' statePath = Some \<lparr>fnRegular = True, fnPerm = 384, fnData = data @ [10]\<rparr>" and "fs' tempPath = None"
proof -
  from assms(1) obtain data where data: "jcMarshal J (restoreStateOf cfg token) = Inr data"
    by (auto simp: storeRestoreToken_def split: sum.splits)
  let ?node = "\<lparr>fnRegular = True, fnPerm = 384, fnData = data @ [10]\<rparr>"
  from assms data have "fs' = removeTemp F tempPath (fs(tempPath \<mapsto> ?node, statePath \<mapsto> ?node, tempPath := None))"
    by (auto simp: storeRestoreToken_def Let_def split: option.splits)
  then have "fs' statePath = Some ?node" and "fs' tempPath = None"
    using assms(2) by (simp_all add: removeTemp_def)
  with data show thesis by (rule that)
qed

lemma restoreMatches_of: "restoreMatches cfg' (restoreStateOf cfg token) \<longleftrightarrow>
    ccSource cfg = ccSource cfg' \<and> ccInput cfg = ccInput cfg' \<and> ccClipboard cfg = ccClipboard cfg' \<and> token \<noteq> []"
  by (auto simp: restoreMatches_def restoreStateOf_def)

section \<open>Requests\<close>

definition ErrRequestCancelled :: goerror where "ErrRequestCancelled = Sentinel ''desktop capture authorization was cancelled''"

text \<open>\<open>portalToken\<close> over the random bytes, and the path of the request object that the portal is to use.\<close>

definition hexDigit :: "nat \<Rightarrow> char" where
  "hexDigit d = (if d < 10 then char_of (48 + d) else char_of (87 + d))"

definition hexEncode :: "uint8 list \<Rightarrow> string" where
  "hexEncode bytes = concat (map (\<lambda>b. [hexDigit (unat b div 16), hexDigit (unat b mod 16)]) bytes)"

definition portalToken :: "goerror + uint8 list \<Rightarrow> goerror + string" where
  "portalToken random = (case random of Inl err \<Rightarrow> Inl err | Inr bytes \<Rightarrow> Inr (''webdesktop_'' @ hexEncode bytes))"

definition expectedPath :: "string \<Rightarrow> string \<Rightarrow> string" where
  "expectedPath name token =
    ''/org/freedesktop/portal/desktop/request/''
      @ map (\<lambda>c. if c = CHR ''.'' then CHR ''_'' else c) (if HasPrefix name '':'' then drop 1 name else name) @ ''/'' @ token"

text \<open>
  What a request meets: its token, the reply to its call with the error of the context at that time, then the
  signals in their order, after which the context ends with \<open>rqDone\<close>.
\<close>

datatype 'v requestEvent = SignalsEnd | RequestSignal string string "goerror + uint32 \<times> (string \<rightharpoonup> 'v)"

record 'v requestReply =
  rqRandom :: "goerror + uint8 list"
  rqCall :: "goerror + string"
  rqCtxErr :: "goerror option"
  rqEvents :: "'v requestEvent list"
  rqDone :: goerror
  rqClose :: "goerror option"

definition joinWith :: "goerror \<Rightarrow> goerror option \<Rightarrow> goerror" where
  "joinWith err other = (case errorsJoin [Some err, other] of Some e \<Rightarrow> e | None \<Rightarrow> err)"

definition responseResult :: "goerror + uint32 \<times> (string \<rightharpoonup> 'v) \<Rightarrow> goerror + (string \<rightharpoonup> 'v)" where
  "responseResult body =
    (case body of
       Inl err \<Rightarrow> Inl (Wrap ''decode portal request response: %w'' err [])
     | Inr (response, results) \<Rightarrow>
         if response = 0 then Inr results
         else if response = 1 then Inl ErrRequestCancelled
         else if response = 2 then Inl (errorsNew ''desktop portal request failed'')
         else Inl (Errorf ''desktop portal returned unknown response code %d'' [FInt (uint response)]))"

text \<open>The loop: the result, and whether the request object is to be closed.\<close>

fun awaitResponse :: "(string \<Rightarrow> bool) \<Rightarrow> goerror \<Rightarrow> string \<Rightarrow> string \<Rightarrow> 'v requestEvent list \<Rightarrow> (goerror + (string \<rightharpoonup> 'v)) \<times> bool" where
  "awaitResponse isValid ctxErr requestPath sessionPath [] = (Inl ctxErr, True)"
| "awaitResponse isValid ctxErr requestPath sessionPath (SignalsEnd # events) =
    (Inl (errorsNew ''desktop portal D-Bus connection closed''), False)"
| "awaitResponse isValid ctxErr requestPath sessionPath (RequestSignal path name body # events) =
    (if isValid sessionPath \<and> path = sessionPath \<and> name = ''org.freedesktop.portal.Session.Closed'' then (Inl ErrSessionClosed, False)
     else if path \<noteq> requestPath \<or> name \<noteq> ''org.freedesktop.portal.Request.Response''
       then awaitResponse isValid ctxErr requestPath sessionPath events
     else (responseResult body, False))"

text \<open>\<open>portalClient.request\<close>: the result, whether the call was made, and the request object that was closed.\<close>

definition portalRequest :: "(string \<Rightarrow> bool) \<Rightarrow> string \<Rightarrow> string \<Rightarrow> 'v requestReply \<Rightarrow>
    (goerror + (string \<rightharpoonup> 'v)) \<times> bool \<times> string option" where
  "portalRequest isValid name sessionPath R =
    (case portalToken (rqRandom R) of
       Inl err \<Rightarrow> (Inl (Wrap ''create request token: %w'' err []), False, None)
     | Inr token \<Rightarrow>
       (case rqCall R of
          Inl err \<Rightarrow>
            (case rqCtxErr R of
               Some ctxErr \<Rightarrow> (Inl (joinWith ctxErr (rqClose R)), True, Some (expectedPath name token))
             | None \<Rightarrow> (Inl err, True, None))
        | Inr requestPath \<Rightarrow>
            if \<not> isValid requestPath then (Inl (Errorf ''portal returned invalid request object path %q'' [FStr requestPath]), True, None)
            else (case awaitResponse isValid (joinWith (rqDone R) (rqClose R)) requestPath sessionPath (rqEvents R) of
                (result, closes) \<Rightarrow> (result, True, if closes then Some requestPath else None))))"

text \<open>A request that succeeds got the response 0 to its own object, before the session was closed.\<close>

lemma awaitResponse_Inr:
  "fst (awaitResponse isValid ctxErr requestPath sessionPath events) = Inr results \<Longrightarrow>
   RequestSignal requestPath ''org.freedesktop.portal.Request.Response'' (Inr (0, results)) \<in> set events"
proof (induction isValid ctxErr requestPath sessionPath events rule: awaitResponse.induct)
  case (3 isValid ctxErr requestPath sessionPath path name body events)
  then show ?case by (auto simp: responseResult_def split: if_splits sum.splits)
qed simp_all

lemma joinWith_errorsIs: "errorsIs (joinWith err other) target \<longleftrightarrow> errorsIs err target \<or> (\<exists>e. other = Some e \<and> errorsIs e target)"
  by (cases other) (auto simp: joinWith_def errorsJoin_def)

lemma awaitResponse_closes: "awaitResponse isValid ctxErr requestPath sessionPath events = (Inr results, closes) \<Longrightarrow> \<not> closes"
  by (induction isValid ctxErr requestPath sessionPath events rule: awaitResponse.induct) (auto split: if_splits)

lemma portalRequest_Inr: "portalRequest isValid name sessionPath R = (Inr results, called, shut) \<Longrightarrow> called \<and> shut = None"
  by (auto simp: portalRequest_def dest: awaitResponse_closes split: sum.splits option.splits if_splits prod.splits)

section \<open>Open: the calls and what they acquire\<close>

datatype matchRule = RequestResponses | SessionClosures | ClipboardSignals

text \<open>
  The calls to the bus and the portal: a match rule is added or removed, the application registers, a property is read, a request
  is made (interface, operation, session and options) or closed, and the session, the EIS connection and the bus connection are closed.
\<close>

datatype 'v openCall = AddMatch matchRule | RemoveMatch matchRule | RegisterApp string | GetProperty string string
  | PortalRequest string string string "(string \<times> 'v) list" | CloseRequest string | RequestClipboard string | ConnectToEIS string
  | CloseSession string | CloseEis | CloseConn

record held =
  hdConn :: bool
  hdRequestMatch :: bool
  hdSessionMatch :: bool
  hdClipboardMatch :: bool
  hdSession :: "string option"
  hdEis :: "int option"

record 'v openState =
  opHeld :: held
  opCalls :: "'v openCall list"
  opFiles :: files

record 'v openEnv =
  oeConnect :: "goerror option"
  oeUnixFDs :: bool
  oeName :: string
  oeIsValid :: "string \<Rightarrow> bool"
  oeMatch :: "matchRule \<Rightarrow> goerror option"
  oeUnmatch :: "goerror option"
  oeRegister :: "goerror option"
  oeStatePath :: "goerror + string"
  oeCodec :: jsonCodec
  oeFaults :: fileFaults
  oeTemp :: string
  oeRandom :: "goerror + uint8 list"
  oeRequest :: "string \<Rightarrow> 'v requestReply"
  oeProperty :: "string \<Rightarrow> string \<Rightarrow> goerror + 'v"
  oeClipboardAccess :: "goerror option"
  oeConnectEIS :: "goerror + int"
  oeFile :: "int \<Rightarrow> bool"
  oeStoreString :: "'v \<Rightarrow> goerror + string"
  oeStoreU32 :: "'v \<Rightarrow> goerror + uint32"
  oeStoreU64 :: "'v \<Rightarrow> goerror + uint64"
  oeStoreBool :: "'v \<Rightarrow> goerror + bool"
  oeStoreStreams :: "'v \<Rightarrow> goerror + (uint32 \<times> (string \<rightharpoonup> 'v)) list"
  oeMakeString :: "string \<Rightarrow> 'v"
  oeMakeU32 :: "uint32 \<Rightarrow> 'v"
  oeMakeBool :: "bool \<Rightarrow> 'v"
  oeCleanup :: "'v openCall \<Rightarrow> goerror option"

type_synonym ('v, 'a) opener = "'v openState \<Rightarrow> (goerror + 'a) \<times> 'v openState"

text \<open>An early return with an error skips the rest.\<close>

definition andThen :: "('v, 'a) opener \<Rightarrow> ('a \<Rightarrow> ('v, 'b) opener) \<Rightarrow> ('v, 'b) opener" where
  "andThen m f s = (case m s of (Inl err, s') \<Rightarrow> (Inl err, s') | (Inr x, s') \<Rightarrow> f x s')"

definition succeed :: "'a \<Rightarrow> ('v, 'a) opener" where
  "succeed x s = (Inr x, s)"

definition failWith :: "goerror \<Rightarrow> ('v, 'a) opener" where
  "failWith err s = (Inl err, s)"

definition require :: "bool \<Rightarrow> goerror \<Rightarrow> ('v, unit) opener" where
  "require ok err = (if ok then succeed () else failWith err)"

definition orWrap :: "string \<Rightarrow> goerror + 'a \<Rightarrow> ('v, 'a) opener" where
  "orWrap format r = (case r of Inl err \<Rightarrow> failWith (Wrap format err []) | Inr x \<Rightarrow> succeed x)"

definition perform :: "'v openCall \<Rightarrow> ('v, unit) opener" where
  "perform c s = (Inr (), s\<lparr>opCalls := opCalls s @ [c]\<rparr>)"

definition hold :: "(held \<Rightarrow> held) \<Rightarrow> ('v, unit) opener" where
  "hold u s = (Inr (), s\<lparr>opHeld := u (opHeld s)\<rparr>)"

definition failed :: "goerror option \<Rightarrow> goerror + unit" where
  "failed r = (case r of Some err \<Rightarrow> Inl err | None \<Rightarrow> Inr ())"

section \<open>Open: its parts\<close>

definition setMatch :: "matchRule \<Rightarrow> bool \<Rightarrow> held \<Rightarrow> held" where
  "setMatch m b h = (case m of RequestResponses \<Rightarrow> h\<lparr>hdRequestMatch := b\<rparr> | SessionClosures \<Rightarrow> h\<lparr>hdSessionMatch := b\<rparr>
     | ClipboardSignals \<Rightarrow> h\<lparr>hdClipboardMatch := b\<rparr>)"

definition addMatch :: "'v openEnv \<Rightarrow> matchRule \<Rightarrow> string \<Rightarrow> ('v, unit) opener" where
  "addMatch E m format = andThen (perform (AddMatch m)) (\<lambda>_. andThen (orWrap format (failed (oeMatch E m))) (\<lambda>_. hold (setMatch m True)))"

definition openMatches :: "'v openEnv \<Rightarrow> captureConfig \<Rightarrow> ('v, unit) opener" where
  "openMatches E cfg = andThen (addMatch E RequestResponses ''subscribe to portal request responses: %w'') (\<lambda>_.
     andThen (addMatch E SessionClosures ''subscribe to portal session closure: %w'') (\<lambda>_.
       if ccClipboard cfg then addMatch E ClipboardSignals ''subscribe to portal clipboard signals: %w'' else succeed ()))"

definition openRegister :: "'v openEnv \<Rightarrow> ('v, unit) opener" where
  "openRegister E = andThen (perform (RegisterApp ApplicationID)) (\<lambda>_.
     orWrap ''register portal application identity %q: %w'' (failed (oeRegister E)))"

definition openToken :: "'v openEnv \<Rightarrow> captureConfig \<Rightarrow> ('v, string \<times> string \<times> bool) opener" where
  "openToken E cfg s =
    (case loadRestoreToken (oeCodec E) (oeFaults E) (oeStatePath E) cfg (opFiles s) of
       (r, fs) \<Rightarrow> orWrap ''load portal restore token: %w'' r (s\<lparr>opFiles := fs\<rparr>))"

definition request :: "'v openEnv \<Rightarrow> string \<Rightarrow> string \<Rightarrow> string \<Rightarrow> (string \<times> 'v) list \<Rightarrow> string \<Rightarrow> ('v, string \<rightharpoonup> 'v) opener" where
  "request E iface operation sessionPath options format s =
    (case portalRequest (oeIsValid E) (oeName E) sessionPath (oeRequest E operation) of
       (r, called, shut) \<Rightarrow> orWrap format r
         (s\<lparr>opCalls := opCalls s @ (if called then [PortalRequest iface operation sessionPath options] else [])
              @ (case shut of Some path \<Rightarrow> [CloseRequest path] | None \<Rightarrow> [])\<rparr>))"

definition getProperty :: "'v openEnv \<Rightarrow> string \<Rightarrow> string \<Rightarrow> string \<Rightarrow> ('v, uint32) opener" where
  "getProperty E iface name what = andThen (perform (GetProperty iface name)) (\<lambda>_.
     andThen (orWrap (''read '' @ what @ '': %w'') (oeProperty E iface name)) (\<lambda>v.
       orWrap (''decode '' @ what @ '': %w'') (oeStoreU32 E v)))"

definition lookupResult :: "(string \<rightharpoonup> 'v) \<Rightarrow> string \<Rightarrow> goerror \<Rightarrow> ('v, 'v) opener" where
  "lookupResult results key err = (case results key of None \<Rightarrow> failWith err | Some v \<Rightarrow> succeed v)"

definition screenCast :: string where "screenCast = ''org.freedesktop.portal.ScreenCast''"
definition remoteDesktop :: string where "remoteDesktop = ''org.freedesktop.portal.RemoteDesktop''"
definition clipboardInterface :: string where "clipboardInterface = ''org.freedesktop.portal.Clipboard''"

definition createInterface :: "captureConfig \<Rightarrow> string" where
  "createInterface cfg = (if ciEnabled (ccInput cfg) then remoteDesktop else screenCast)"

definition openCreate :: "'v openEnv \<Rightarrow> captureConfig \<Rightarrow> ('v, string) opener" where
  "openCreate E cfg = andThen (orWrap ''create portal session token: %w'' (portalToken (oeRandom E))) (\<lambda>token.
     andThen (request E (createInterface cfg) ''CreateSession'' [] [(''session_handle_token'', oeMakeString E token)] ''create portal session: %w'')
       (\<lambda>results.
     andThen (lookupResult results ''session_handle'' (errorsNew ''create screen cast session response did not contain session_handle'')) (\<lambda>v.
     andThen (orWrap ''decode screen cast session handle: %w'' (oeStoreString E v)) (\<lambda>path.
     andThen (require (oeIsValid E path) (Errorf ''portal returned invalid session object path %q'' [FStr path])) (\<lambda>_.
     andThen (hold (\<lambda>h. h\<lparr>hdSession := Some path\<rparr>)) (\<lambda>_. succeed path))))))"

text \<open>The bits of the portal: monitors, cursor modes, device types and persistence.\<close>

definition sourceTypeMonitor :: uint32 where "sourceTypeMonitor = 1"
definition cursorModeHidden :: uint32 where "cursorModeHidden = 1"
definition cursorModeEmbedded :: uint32 where "cursorModeEmbedded = 2"
definition deviceTypeKeyboard :: uint32 where "deviceTypeKeyboard = 1"
definition deviceTypePointer :: uint32 where "deviceTypePointer = 2"
definition persistUntilRevoked :: uint32 where "persistUntilRevoked = 2"

definition cursorMode :: "captureConfig \<Rightarrow> uint32" where
  "cursorMode cfg = (if ccCursorMode cfg = ''embedded'' then cursorModeEmbedded else cursorModeHidden)"

definition checkSources :: "'v openEnv \<Rightarrow> captureConfig \<Rightarrow> ('v, unit) opener" where
  "checkSources E cfg = andThen (getProperty E screenCast ''AvailableSourceTypes'' ''available portal source types'') (\<lambda>sourceTypes.
     andThen (require (and sourceTypes sourceTypeMonitor \<noteq> 0) (errorsNew ''desktop portal does not advertise monitor capture'')) (\<lambda>_.
     andThen (getProperty E screenCast ''AvailableCursorModes'' ''available portal cursor modes'') (\<lambda>cursorModes.
       require (and cursorModes (cursorMode cfg) \<noteq> 0)
         (Errorf ''desktop portal does not advertise requested %s cursor mode'' [FStr (ccCursorMode cfg)]))))"

definition tokenOption :: "'v openEnv \<Rightarrow> string \<Rightarrow> (string \<times> 'v) list" where
  "tokenOption E token = (if token \<noteq> [] then [(''restore_token'', oeMakeString E token)] else [])"

definition sourceOptions :: "'v openEnv \<Rightarrow> captureConfig \<Rightarrow> string \<Rightarrow> (string \<times> 'v) list" where
  "sourceOptions E cfg token =
    [(''types'', oeMakeU32 E sourceTypeMonitor), (''multiple'', oeMakeBool E False), (''cursor_mode'', oeMakeU32 E (cursorMode cfg))]
      @ (if \<not> ciEnabled (ccInput cfg) then (''persist_mode'', oeMakeU32 E persistUntilRevoked) # tokenOption E token else [])"

definition openSources :: "'v openEnv \<Rightarrow> captureConfig \<Rightarrow> string \<Rightarrow> string \<Rightarrow> ('v, unit) opener" where
  "openSources E cfg token path =
     andThen (request E screenCast ''SelectSources'' path (sourceOptions E cfg token) ''select screen cast source: %w'') (\<lambda>_. succeed ())"

definition requestedDevices :: "captureConfig \<Rightarrow> uint32" where
  "requestedDevices cfg = or (if ciPointer (ccInput cfg) then deviceTypePointer else 0) (if ciKeyboard (ccInput cfg) then deviceTypeKeyboard else 0)"

definition deviceOptions :: "'v openEnv \<Rightarrow> captureConfig \<Rightarrow> string \<Rightarrow> (string \<times> 'v) list" where
  "deviceOptions E cfg token =
    [(''types'', oeMakeU32 E (requestedDevices cfg)), (''persist_mode'', oeMakeU32 E persistUntilRevoked)] @ tokenOption E token"

definition openDevices :: "'v openEnv \<Rightarrow> captureConfig \<Rightarrow> string \<Rightarrow> string \<Rightarrow> ('v, unit) opener" where
  "openDevices E cfg token path = andThen (getProperty E remoteDesktop ''version'' ''remote desktop portal version'') (\<lambda>version.
     andThen (require (2 \<le> version) (Errorf ''remote desktop portal version %d does not support ConnectToEIS'' [FInt (uint version)])) (\<lambda>_.
     andThen (getProperty E remoteDesktop ''AvailableDeviceTypes'' ''available remote desktop device types'') (\<lambda>available.
     andThen (require (and (requestedDevices cfg) (not available) = 0)
         (Errorf ''desktop portal does not advertise requested input device types 0x%x'' [FInt (uint (and (requestedDevices cfg) (not available)))]))
       (\<lambda>_.
     andThen (request E remoteDesktop ''SelectDevices'' path (deviceOptions E cfg token) ''select remote desktop devices: %w'')
       (\<lambda>_. succeed ())))))"

definition openClipboard :: "'v openEnv \<Rightarrow> string \<Rightarrow> ('v, unit) opener" where
  "openClipboard E path = andThen (getProperty E clipboardInterface ''version'' ''clipboard portal version'') (\<lambda>version.
     andThen (require (1 \<le> version) (Errorf ''clipboard portal version %d is not supported'' [FInt (uint version)])) (\<lambda>_.
     andThen (perform (RequestClipboard path)) (\<lambda>_.
       orWrap ''request portal clipboard access: %w'' (failed (oeClipboardAccess E)))))"

definition openInput :: "'v openEnv \<Rightarrow> captureConfig \<Rightarrow> string \<Rightarrow> string \<Rightarrow> ('v, unit) opener" where
  "openInput E cfg token path =
    (if ciEnabled (ccInput cfg) then andThen (openDevices E cfg token path) (\<lambda>_. if ccClipboard cfg then openClipboard E path else succeed ())
     else succeed ())"

definition openStart :: "'v openEnv \<Rightarrow> captureConfig \<Rightarrow> string \<Rightarrow> ('v, string \<rightharpoonup> 'v) opener" where
  "openStart E cfg path = request E (createInterface cfg) ''Start'' path [] ''start screen cast session: %w''"

definition storeToken :: "'v openEnv \<Rightarrow> captureConfig \<Rightarrow> string \<Rightarrow> string \<Rightarrow> ('v, unit) opener" where
  "storeToken E cfg statePath token s =
    (case storeRestoreToken (oeCodec E) (oeFaults E) (oeTemp E) statePath cfg token (opFiles s) of
       (r, fs) \<Rightarrow> orWrap ''store portal restore token: %w'' (failed r) (s\<lparr>opFiles := fs\<rparr>))"

definition openRotate :: "'v openEnv \<Rightarrow> captureConfig \<Rightarrow> string \<Rightarrow> (string \<rightharpoonup> 'v) \<Rightarrow> ('v, bool) opener" where
  "openRotate E cfg statePath results =
    (case results ''restore_token'' of
       None \<Rightarrow> succeed False
     | Some v \<Rightarrow> andThen (orWrap ''decode portal restore token: %w'' (oeStoreString E v)) (\<lambda>token.
         andThen (require (token \<noteq> []) (errorsNew ''portal returned an empty restore token'')) (\<lambda>_.
         andThen (storeToken E cfg statePath token) (\<lambda>_. succeed True))))"

text \<open>The one stream: its node, its serial where there is one, and the region it is mapped to.\<close>

record streamMetadata =
  smNodeID :: uint32
  smSerial :: "uint64 option"
  smMappingID :: string

definition streamSerial :: "'v openEnv \<Rightarrow> (string \<rightharpoonup> 'v) \<Rightarrow> ('v, uint64 option) opener" where
  "streamSerial E properties = (case properties ''pipewire-serial'' of None \<Rightarrow> succeed None
     | Some v \<Rightarrow> andThen (orWrap ''decode screen cast pipewire-serial: %w'' (oeStoreU64 E v)) (\<lambda>n. succeed (Some n)))"

definition streamMapping :: "'v openEnv \<Rightarrow> (string \<rightharpoonup> 'v) \<Rightarrow> ('v, string) opener" where
  "streamMapping E properties = (case properties ''mapping_id'' of None \<Rightarrow> succeed []
     | Some v \<Rightarrow> orWrap ''decode screen cast mapping_id: %w'' (oeStoreString E v))"

definition openStream :: "'v openEnv \<Rightarrow> (string \<rightharpoonup> 'v) \<Rightarrow> ('v, streamMetadata) opener" where
  "openStream E results = andThen (lookupResult results ''streams'' (errorsNew ''start screen cast response did not contain streams'')) (\<lambda>v.
     andThen (orWrap ''decode screen cast streams: %w'' (oeStoreStreams E v)) (\<lambda>streams.
     andThen (require (length streams = 1) (Errorf ''portal returned %d streams for a single-source request'' [FInt (int (length streams))])) (\<lambda>_.
     andThen (streamSerial E (snd (hd streams))) (\<lambda>serial.
     andThen (streamMapping E (snd (hd streams))) (\<lambda>mapping.
       succeed \<lparr>smNodeID = fst (hd streams), smSerial = serial, smMappingID = mapping\<rparr>)))))"

definition authorizedDevices :: "'v openEnv \<Rightarrow> captureConfig \<Rightarrow> (string \<rightharpoonup> 'v) \<Rightarrow> ('v, uint32) opener" where
  "authorizedDevices E cfg results =
    (if ciEnabled (ccInput cfg) then
       andThen (lookupResult results ''devices'' (errorsNew ''start remote desktop response did not contain devices'')) (\<lambda>v.
         orWrap ''decode authorized remote desktop devices: %w'' (oeStoreU32 E v))
     else succeed 0)"

definition authorizedClipboard :: "'v openEnv \<Rightarrow> captureConfig \<Rightarrow> (string \<rightharpoonup> 'v) \<Rightarrow> ('v, bool) opener" where
  "authorizedClipboard E cfg results =
    (if ccClipboard cfg then
       andThen (lookupResult results ''clipboard_enabled'' (errorsNew ''start remote desktop response did not contain clipboard_enabled'')) (\<lambda>v.
       andThen (orWrap ''decode authorized clipboard state: %w'' (oeStoreBool E v)) (\<lambda>enabled.
       andThen (require enabled (errorsNew ''desktop portal did not authorize clipboard access'')) (\<lambda>_. succeed enabled)))
     else succeed False)"

definition openUnmatch :: "'v openEnv \<Rightarrow> ('v, unit) opener" where
  "openUnmatch E = andThen (perform (RemoveMatch RequestResponses)) (\<lambda>_.
     andThen (orWrap ''unsubscribe from portal request responses: %w'' (failed (oeUnmatch E))) (\<lambda>_. hold (setMatch RequestResponses False)))"

definition openEis :: "'v openEnv \<Rightarrow> captureConfig \<Rightarrow> string \<Rightarrow> ('v, unit) opener" where
  "openEis E cfg path =
    (if ciEnabled (ccInput cfg) then
       andThen (perform (ConnectToEIS path)) (\<lambda>_.
       andThen (orWrap ''connect portal session to EIS: %w'' (oeConnectEIS E)) (\<lambda>fd.
       andThen (require (0 \<le> fd) (Errorf ''portal returned invalid EIS file descriptor %d'' [FInt fd])) (\<lambda>_.
       andThen (require (oeFile E fd) (Errorf ''open portal EIS file descriptor %d'' [FInt fd])) (\<lambda>_.
         hold (\<lambda>h. h\<lparr>hdEis := Some fd\<rparr>)))))
     else succeed ())"

section \<open>Open\<close>

record openedSession =
  odPath :: string
  odStream :: streamMetadata
  odPointer :: bool
  odKeyboard :: bool
  odClipboard :: bool
  odStatePath :: string
  odTokenAttempted :: bool
  odTokenRotated :: bool

text \<open>The requests after the session has been created, and everything that needs it.\<close>

definition openSession :: "'v openEnv \<Rightarrow> captureConfig \<Rightarrow> string \<times> string \<times> bool \<Rightarrow> string \<Rightarrow> ('v, openedSession) opener" where
  "openSession E cfg restore path = (case restore of (token, statePath, attempted) \<Rightarrow>
     andThen (checkSources E cfg) (\<lambda>_.
     andThen (openSources E cfg token path) (\<lambda>_.
     andThen (openInput E cfg token path) (\<lambda>_.
     andThen (openStart E cfg path) (\<lambda>results.
     andThen (openRotate E cfg statePath results) (\<lambda>rotated.
     andThen (openStream E results) (\<lambda>stream.
     andThen (authorizedDevices E cfg results) (\<lambda>devices.
     andThen (authorizedClipboard E cfg results) (\<lambda>clipboard.
     andThen (openUnmatch E) (\<lambda>_.
     andThen (openEis E cfg path) (\<lambda>_.
       succeed \<lparr>odPath = path, odStream = stream, odPointer = (and devices deviceTypePointer \<noteq> 0),
         odKeyboard = (and devices deviceTypeKeyboard \<noteq> 0), odClipboard = clipboard, odStatePath = statePath,
         odTokenAttempted = attempted, odTokenRotated = rotated\<rparr>)))))))))))"

definition openBody :: "'v openEnv \<Rightarrow> captureConfig \<Rightarrow> ('v, openedSession) opener" where
  "openBody E cfg = andThen (openMatches E cfg) (\<lambda>_. andThen (openRegister E) (\<lambda>_. andThen (openToken E cfg) (\<lambda>restore.
     andThen (openCreate E cfg) (openSession E cfg restore))))"

text \<open>The deferred clean-up: the calls for all that is held, and the error with theirs joined to it.\<close>

definition cleanupCalls :: "held \<Rightarrow> 'v openCall list" where
  "cleanupCalls h =
    (case hdSession h of Some path \<Rightarrow> [CloseSession path] | None \<Rightarrow> [])
      @ (if hdEis h \<noteq> None then [CloseEis] else [])
      @ (if hdRequestMatch h then [RemoveMatch RequestResponses] else [])
      @ (if hdSessionMatch h then [RemoveMatch SessionClosures] else [])
      @ (if hdClipboardMatch h then [RemoveMatch ClipboardSignals] else [])
      @ [CloseConn]"

definition nothingHeld :: held where
  "nothingHeld = \<lparr>hdConn = False, hdRequestMatch = False, hdSessionMatch = False, hdClipboardMatch = False, hdSession = None, hdEis = None\<rparr>"

fun releaseCall :: "'v openCall \<Rightarrow> held \<Rightarrow> held" where
  "releaseCall (CloseSession path) h = h\<lparr>hdSession := None\<rparr>"
| "releaseCall CloseEis h = h\<lparr>hdEis := None\<rparr>"
| "releaseCall (RemoveMatch m) h = setMatch m False h"
| "releaseCall CloseConn h = h\<lparr>hdConn := False\<rparr>"
| "releaseCall c h = h"

definition openCleanup :: "'v openEnv \<Rightarrow> goerror \<Rightarrow> 'v openState \<Rightarrow> goerror \<times> 'v openState" where
  "openCleanup E err s =
    (let calls = cleanupCalls (opHeld s);
         cleanupErr = foldl (\<lambda>acc c. errorsJoin [acc, oeCleanup E c]) None calls
     in (joinWith err cleanupErr, s\<lparr>opCalls := opCalls s @ calls, opHeld := fold releaseCall calls (opHeld s)\<rparr>))"

definition portalOpen :: "'v openEnv \<Rightarrow> captureConfig \<Rightarrow> files \<Rightarrow> (goerror + openedSession) \<times> 'v openState" where
  "portalOpen E cfg fs =
    (let s0 = \<lparr>opHeld = nothingHeld, opCalls = [], opFiles = fs\<rparr>
     in case captureCheck cfg of Some err \<Rightarrow> (Inl err, s0)
      | None \<Rightarrow>
        (case oeConnect E of Some err \<Rightarrow> (Inl (Wrap ''connect to session D-Bus: %w'' err []), s0)
         | None \<Rightarrow>
           if \<not> oeUnixFDs E then (Inl (errorsNew ''session D-Bus connection does not support Unix file descriptors''), s0\<lparr>opCalls := [CloseConn]\<rparr>)
           else (case openBody E cfg (s0\<lparr>opHeld := nothingHeld\<lparr>hdConn := True\<rparr>\<rparr>) of
               (Inr session, s) \<Rightarrow> (Inr session, s)
             | (Inl err, s) \<Rightarrow> (case openCleanup E err s of (err', s') \<Rightarrow> (Inl err', s')))))"

text \<open>The session as \<open>Portal_Session\<close> follows it.\<close>

definition runningSession :: "openedSession \<Rightarrow> held \<Rightarrow> portalSession" where
  "runningSession d h = newSession (odPath d) (hdEis h \<noteq> None) (odClipboard d)"

section \<open>The protocol of Open\<close>

text \<open>The calls of a successful opening, with the restore token that is tried and the session that is created.\<close>

definition sessionCalls :: "'v openEnv \<Rightarrow> captureConfig \<Rightarrow> string \<Rightarrow> string \<Rightarrow> 'v openCall list" where
  "sessionCalls E cfg token path =
    [GetProperty screenCast ''AvailableSourceTypes'', GetProperty screenCast ''AvailableCursorModes'',
     PortalRequest screenCast ''SelectSources'' path (sourceOptions E cfg token)]
     @ (if ciEnabled (ccInput cfg) then
          [GetProperty remoteDesktop ''version'', GetProperty remoteDesktop ''AvailableDeviceTypes'',
           PortalRequest remoteDesktop ''SelectDevices'' path (deviceOptions E cfg token)]
          @ (if ccClipboard cfg then [GetProperty clipboardInterface ''version'', RequestClipboard path] else [])
        else [])
     @ [PortalRequest (createInterface cfg) ''Start'' path [], RemoveMatch RequestResponses]
     @ (if ciEnabled (ccInput cfg) then [ConnectToEIS path] else [])"

definition createOptions :: "'v openEnv \<Rightarrow> (string \<times> 'v) list" where
  "createOptions E = (case portalToken (oeRandom E) of Inl err \<Rightarrow> [] | Inr token \<Rightarrow> [(''session_handle_token'', oeMakeString E token)])"

definition preludeCalls :: "captureConfig \<Rightarrow> 'v openCall list" where
  "preludeCalls cfg = [AddMatch RequestResponses, AddMatch SessionClosures] @ (if ccClipboard cfg then [AddMatch ClipboardSignals] else [])
     @ [RegisterApp ApplicationID]"

definition createCalls :: "'v openEnv \<Rightarrow> captureConfig \<Rightarrow> 'v openCall list" where
  "createCalls E cfg = [PortalRequest (createInterface cfg) ''CreateSession'' [] (createOptions E)]"

definition openingCalls :: "'v openEnv \<Rightarrow> captureConfig \<Rightarrow> string \<Rightarrow> string \<Rightarrow> 'v openCall list" where
  "openingCalls E cfg token path = preludeCalls cfg @ createCalls E cfg @ sessionCalls E cfg token path"

text \<open>
  A stage makes its calls in order, and tells what it returns and what is held afterwards; when it fails it has made the
  first of its calls, and has perhaps closed the request it gave up.
\<close>

definition madeSome :: "'v openCall list \<Rightarrow> 'v openCall list \<Rightarrow> 'v openCall list \<Rightarrow> bool" where
  "madeSome before planned now \<longleftrightarrow> (\<exists>made closes. prefix made planned \<and> now = before @ made @ map CloseRequest closes \<and> length closes \<le> 1)"

definition stage :: "('v, 'a) opener \<Rightarrow> 'v openCall list \<Rightarrow> ('a \<Rightarrow> held \<Rightarrow> held \<Rightarrow> bool) \<Rightarrow> bool" where
  "stage m planned P \<longleftrightarrow>
     (\<forall>s x s'. m s = (Inr x, s') \<longrightarrow> opCalls s' = opCalls s @ planned \<and> P x (opHeld s) (opHeld s')) \<and>
     (\<forall>s err s'. m s = (Inl err, s') \<longrightarrow> madeSome (opCalls s) planned (opCalls s'))"

named_theorems stages "stages of the opening"

lemma madeSome_none [simp]: "madeSome before planned before"
  unfolding madeSome_def by (rule exI [of _ "[]"], rule exI [of _ "[]"]) simp

lemma madeSome_all [simp]: "madeSome before planned (before @ planned)"
  unfolding madeSome_def by (rule exI [of _ planned], rule exI [of _ "[]"]) simp

lemma madeSome_closed: "madeSome before planned (before @ planned @ [CloseRequest path])"
  unfolding madeSome_def by (rule exI [of _ planned], rule exI [of _ "[path]"]) simp

lemma madeSome_append1: "madeSome before planned now \<Longrightarrow> madeSome before (planned @ further) now"
  unfolding madeSome_def using prefix_prefix by blast

lemma madeSome_append2:
  assumes "madeSome (before @ done1) planned now"
  shows "madeSome before (done1 @ planned) now"
proof -
  obtain made closes where "prefix made planned" "now = (before @ done1) @ made @ map CloseRequest closes" "length closes \<le> 1"
    using assms unfolding madeSome_def by blast
  then show ?thesis
    unfolding madeSome_def by (intro exI [of _ "done1 @ made"] exI [of _ closes]) simp
qed

lemma stageI:
  assumes "\<And>s x s'. m s = (Inr x, s') \<Longrightarrow> opCalls s' = opCalls s @ planned \<and> P x (opHeld s) (opHeld s')"
    and "\<And>s err s'. m s = (Inl err, s') \<Longrightarrow> madeSome (opCalls s) planned (opCalls s')"
  shows "stage m planned P"
  using assms unfolding stage_def by blast

lemma stage_Inr: "stage m planned P \<Longrightarrow> m s = (Inr x, s') \<Longrightarrow> opCalls s' = opCalls s @ planned \<and> P x (opHeld s) (opHeld s')"
  unfolding stage_def by blast

lemma stage_Inl: "stage m planned P \<Longrightarrow> m s = (Inl err, s') \<Longrightarrow> madeSome (opCalls s) planned (opCalls s')"
  unfolding stage_def by blast

lemma andThen_Inr: "andThen m f s = (Inr y, s'') \<Longrightarrow> (\<And>x s'. m s = (Inr x, s') \<Longrightarrow> f x s' = (Inr y, s'') \<Longrightarrow> thesis) \<Longrightarrow> thesis"
  by (auto simp: andThen_def split: prod.splits sum.splits)

lemma andThen_Inl: "andThen m f s = (Inl err, s'') \<Longrightarrow> (m s = (Inl err, s'') \<Longrightarrow> thesis) \<Longrightarrow>
    (\<And>x s'. m s = (Inr x, s') \<Longrightarrow> f x s' = (Inl err, s'') \<Longrightarrow> thesis) \<Longrightarrow> thesis"
  by (auto simp: andThen_def split: prod.splits sum.splits)

lemma stage_andThen:
  assumes m: "stage m planned P" and f: "\<And>x h h'. P x h h' \<Longrightarrow> stage (f x) further (R x)"
  shows "stage (andThen m f) (planned @ further) (\<lambda>y h h''. \<exists>x h'. P x h h' \<and> R x y h' h'')"
proof (rule stageI)
  fix s y s'' assume "andThen m f s = (Inr y, s'')"
  then show "opCalls s'' = opCalls s @ planned @ further \<and> (\<exists>x h'. P x (opHeld s) h' \<and> R x y h' (opHeld s''))"
  proof (rule andThen_Inr)
    fix x s' assume 1: "m s = (Inr x, s')" and 2: "f x s' = (Inr y, s'')"
    have P: "opCalls s' = opCalls s @ planned" "P x (opHeld s) (opHeld s')"
      using stage_Inr [OF m 1] by auto
    show ?thesis
      using stage_Inr [OF f [OF P(2)] 2] P by auto
  qed
next
  fix s err s'' assume "andThen m f s = (Inl err, s'')"
  then show "madeSome (opCalls s) (planned @ further) (opCalls s'')"
  proof (rule andThen_Inl)
    assume "m s = (Inl err, s'')"
    then show ?thesis using stage_Inl [OF m] madeSome_append1 by blast
  next
    fix x s' assume 1: "m s = (Inr x, s')" and 2: "f x s' = (Inl err, s'')"
    have P: "opCalls s' = opCalls s @ planned" "P x (opHeld s) (opHeld s')"
      using stage_Inr [OF m 1] by auto
    show ?thesis
      using stage_Inl [OF f [OF P(2)] 2] P(1) by (simp add: madeSome_append2)
  qed
qed

lemma stage_weaken:
  assumes "stage m planned P" and "planned = planned'" and "\<And>x h h'. P x h h' \<Longrightarrow> R x h h'"
  shows "stage m planned' R"
  using assms unfolding stage_def by blast

lemma stage_succeed [stages]: "stage (succeed x) [] (\<lambda>y h h'. y = x \<and> h' = h)"
  by (simp add: stage_def succeed_def)

lemma stage_require [stages]: "stage (require ok err) [] (\<lambda>y h h'. ok \<and> h' = h)"
  by (simp add: stage_def require_def succeed_def failWith_def)

lemma stage_orWrap [stages]: "stage (orWrap format r) [] (\<lambda>y h h'. r = Inr y \<and> h' = h)"
  by (simp add: stage_def orWrap_def succeed_def failWith_def split: sum.split)

lemma stage_perform [stages]: "stage (perform c) [c] (\<lambda>y h h'. h' = h)"
  by (simp add: stage_def perform_def)

lemma stage_hold [stages]: "stage (hold u) [] (\<lambda>y h h'. h' = u h)"
  by (simp add: stage_def hold_def)

lemma stage_lookupResult [stages]: "stage (lookupResult results key err) [] (\<lambda>y h h'. results key = Some y \<and> h' = h)"
  by (simp add: stage_def lookupResult_def succeed_def failWith_def split: option.split)

lemma stage_request [stages]: "stage (request E iface operation path options format) [PortalRequest iface operation path options]
    (\<lambda>results h h'. h' = h)"
proof (rule stageI)
  fix s results s' assume run: "request E iface operation path options format s = (Inr results, s')"
  then show "opCalls s' = opCalls s @ [PortalRequest iface operation path options] \<and> opHeld s' = opHeld s"
    by (auto dest!: portalRequest_Inr simp: request_def orWrap_def succeed_def failWith_def split: prod.splits sum.splits)
next
  fix s err s' assume "request E iface operation path options format s = (Inl err, s')"
  then obtain r called shut where parts: "portalRequest (oeIsValid E) (oeName E) path (oeRequest E operation) = (r, called, shut)"
    and s': "opCalls s' = opCalls s @ (if called then [PortalRequest iface operation path options] else [])
        @ (case shut of Some path \<Rightarrow> [CloseRequest path] | None \<Rightarrow> [])"
    by (auto simp: request_def orWrap_def succeed_def failWith_def split: prod.splits sum.splits)
  have "called \<or> shut = None"
    using parts by (auto simp: portalRequest_def split: sum.splits option.splits if_splits prod.splits)
  then show "madeSome (opCalls s) [PortalRequest iface operation path options] (opCalls s')"
    using s' madeSome_closed [of "opCalls s" "[PortalRequest iface operation path options]"]
      madeSome_all [of "opCalls s" "[PortalRequest iface operation path options]"]
    by (auto split: option.splits)
qed

lemma stage_addMatch [stages]: "stage (addMatch E m format) [AddMatch m] (\<lambda>y h h'. h' = setMatch m True h)"
  unfolding addMatch_def by (rule stage_weaken, (rule stages stage_andThen)+) auto

lemma stage_getProperty [stages]: "stage (getProperty E iface name what) [GetProperty iface name]
    (\<lambda>n h h'. h' = h \<and> (\<exists>v. oeProperty E iface name = Inr v \<and> oeStoreU32 E v = Inr n))"
  unfolding getProperty_def by (rule stage_weaken, (rule stages stage_andThen)+) auto

lemma stage_if [stages]: "stage m p P \<Longrightarrow> stage m' p' P' \<Longrightarrow>
    stage (if c then m else m') (if c then p else p') (\<lambda>x h h'. if c then P x h h' else P' x h h')"
  by simp

lemma stage_openMatches [stages]: "stage (openMatches E cfg)
    ([AddMatch RequestResponses, AddMatch SessionClosures] @ (if ccClipboard cfg then [AddMatch ClipboardSignals] else []))
    (\<lambda>y h h'. h' = h\<lparr>hdRequestMatch := True, hdSessionMatch := True, hdClipboardMatch := ccClipboard cfg \<or> hdClipboardMatch h\<rparr>)"
  unfolding openMatches_def by (rule stage_weaken, (rule stages stage_andThen)+) (auto simp: setMatch_def split: if_splits)

lemma stage_openRegister [stages]: "stage (openRegister E) [RegisterApp ApplicationID] (\<lambda>y h h'. h' = h)"
  unfolding openRegister_def by (rule stage_weaken, (rule stages stage_andThen)+) auto

lemma stage_openToken [stages]: "stage (openToken E cfg) [] (\<lambda>y h h'. h' = h)"
  by (auto simp: stage_def openToken_def orWrap_def succeed_def failWith_def split: prod.splits sum.splits)

lemma andThen_orWrap: "andThen (orWrap format (Inr x)) f = f x"
  by (rule ext) (simp add: andThen_def orWrap_def succeed_def)

lemma stage_openCreate [stages]: "stage (openCreate E cfg) (createCalls E cfg)
    (\<lambda>path h h'. h' = h\<lparr>hdSession := Some path\<rparr> \<and> oeIsValid E path)"
proof (cases "portalToken (oeRandom E)")
  case (Inl err)
  then show ?thesis
    by (simp add: stage_def openCreate_def andThen_def orWrap_def failWith_def)
next
  case (Inr token)
  show ?thesis
    unfolding openCreate_def createCalls_def createOptions_def Inr andThen_orWrap sum.case
    by (rule stage_weaken, (rule stages stage_andThen)+) auto
qed

lemma stage_checkSources [stages]: "stage (checkSources E cfg)
    [GetProperty screenCast ''AvailableSourceTypes'', GetProperty screenCast ''AvailableCursorModes''] (\<lambda>y h h'. h' = h)"
  unfolding checkSources_def by (rule stage_weaken, (rule stages stage_andThen)+) auto

lemma stage_openSources [stages]: "stage (openSources E cfg token path)
    [PortalRequest screenCast ''SelectSources'' path (sourceOptions E cfg token)] (\<lambda>y h h'. h' = h)"
  unfolding openSources_def by (rule stage_weaken, (rule stages stage_andThen)+) auto

lemma stage_openDevices [stages]: "stage (openDevices E cfg token path)
    [GetProperty remoteDesktop ''version'', GetProperty remoteDesktop ''AvailableDeviceTypes'',
     PortalRequest remoteDesktop ''SelectDevices'' path (deviceOptions E cfg token)] (\<lambda>y h h'. h' = h)"
  unfolding openDevices_def by (rule stage_weaken, (rule stages stage_andThen)+) auto

lemma stage_openClipboard [stages]: "stage (openClipboard E path)
    [GetProperty clipboardInterface ''version'', RequestClipboard path] (\<lambda>y h h'. h' = h)"
  unfolding openClipboard_def by (rule stage_weaken, (rule stages stage_andThen)+) auto

lemma stage_openInput [stages]: "stage (openInput E cfg token path)
    (if ciEnabled (ccInput cfg) then
       [GetProperty remoteDesktop ''version'', GetProperty remoteDesktop ''AvailableDeviceTypes'',
        PortalRequest remoteDesktop ''SelectDevices'' path (deviceOptions E cfg token)]
       @ (if ccClipboard cfg then [GetProperty clipboardInterface ''version'', RequestClipboard path] else [])
     else []) (\<lambda>y h h'. h' = h)"
  unfolding openInput_def by (rule stage_weaken, (rule stages stage_andThen)+) (auto split: if_splits)

lemma stage_openStart [stages]: "stage (openStart E cfg path) [PortalRequest (createInterface cfg) ''Start'' path []] (\<lambda>y h h'. h' = h)"
  unfolding openStart_def by (rule stages)

lemma stage_storeToken [stages]: "stage (storeToken E cfg statePath token) [] (\<lambda>y h h'. h' = h)"
  by (auto simp: stage_def storeToken_def orWrap_def succeed_def failWith_def split: prod.splits sum.splits)

lemma stage_openRotate [stages]: "stage (openRotate E cfg statePath results) [] (\<lambda>y h h'. h' = h)"
proof (cases "results ''restore_token''")
  case None
  then show ?thesis by (simp add: openRotate_def stage_def succeed_def)
next
  case (Some v)
  show ?thesis
    unfolding openRotate_def Some option.case by (rule stage_weaken, (rule stages stage_andThen)+) auto
qed

lemma stage_streamSerial [stages]: "stage (streamSerial E properties) [] (\<lambda>y h h'. h' = h)"
  by (auto simp: stage_def streamSerial_def andThen_def orWrap_def succeed_def failWith_def split: option.splits sum.splits)

lemma stage_streamMapping [stages]: "stage (streamMapping E properties) [] (\<lambda>y h h'. h' = h)"
  by (auto simp: stage_def streamMapping_def orWrap_def succeed_def failWith_def split: option.splits sum.splits)

lemma stage_openStream [stages]: "stage (openStream E results) [] (\<lambda>y h h'. h' = h)"
  unfolding openStream_def by (rule stage_weaken, (rule stages stage_andThen)+) auto

lemma stage_authorizedDevices [stages]: "stage (authorizedDevices E cfg results) [] (\<lambda>y h h'. h' = h)"
  unfolding authorizedDevices_def by (rule stage_weaken, (rule stages stage_andThen)+) (auto split: if_splits)

lemma stage_authorizedClipboard [stages]: "stage (authorizedClipboard E cfg results) [] (\<lambda>y h h'. h' = h \<and> y = ccClipboard cfg)"
  unfolding authorizedClipboard_def by (rule stage_weaken, (rule stages stage_andThen)+) (auto split: if_splits)

lemma stage_openUnmatch [stages]: "stage (openUnmatch E) [RemoveMatch RequestResponses] (\<lambda>y h h'. h' = h\<lparr>hdRequestMatch := False\<rparr>)"
  unfolding openUnmatch_def by (rule stage_weaken, (rule stages stage_andThen)+) (auto simp: setMatch_def)

lemma stage_openEis [stages]: "stage (openEis E cfg path) (if ciEnabled (ccInput cfg) then [ConnectToEIS path] else [])
    (\<lambda>y h h'. if ciEnabled (ccInput cfg) then \<exists>fd\<ge>0. h' = h\<lparr>hdEis := Some fd\<rparr> else h' = h)"
  unfolding openEis_def by (rule stage_weaken, (rule stages stage_andThen)+) (auto split: if_splits)

lemma stage_openSession:
  "stage (openSession E cfg (token, statePath, attempted) path) (sessionCalls E cfg token path)
    (\<lambda>d h h'. odPath d = path \<and> odClipboard d = ccClipboard cfg \<and> odStatePath d = statePath \<and> odTokenAttempted d = attempted \<and>
       (if ciEnabled (ccInput cfg) then \<exists>fd\<ge>0. h' = h\<lparr>hdRequestMatch := False, hdEis := Some fd\<rparr> else h' = h\<lparr>hdRequestMatch := False\<rparr>))"
  unfolding openSession_def prod.case
  by (rule stage_weaken, (rule stages stage_andThen)+) (auto simp: sessionCalls_def split: if_splits)

text \<open>The clean-up releases everything that is held, whatever that is.\<close>

lemma cleanup_releases: "fold releaseCall (cleanupCalls h) h = nothingHeld"
  by (cases h) (simp add: cleanupCalls_def nothingHeld_def setMatch_def split: option.split)

lemma joinWith_is: "errorsIs err target \<Longrightarrow> errorsIs (joinWith err other) target"
  by (simp add: joinWith_errorsIs)

definition openPrelude :: "'v openEnv \<Rightarrow> captureConfig \<Rightarrow> ('v, unit) opener" where
  "openPrelude E cfg = andThen (openMatches E cfg) (\<lambda>_. openRegister E)"

definition loadedToken :: "'v openEnv \<Rightarrow> captureConfig \<Rightarrow> files \<Rightarrow> goerror + string \<times> string \<times> bool" where
  "loadedToken E cfg fs = fst (loadRestoreToken (oeCodec E) (oeFaults E) (oeStatePath E) cfg fs)"

text \<open>The files are as they were when the token is loaded.\<close>

definition filesKept :: "('v, 'a) opener \<Rightarrow> bool" where
  "filesKept m \<longleftrightarrow> (\<forall>s. opFiles (snd (m s)) = opFiles s)"

lemma filesKept_andThen: "filesKept m \<Longrightarrow> (\<And>x. filesKept (f x)) \<Longrightarrow> filesKept (andThen m f)"
  by (simp add: filesKept_def andThen_def split: prod.split sum.split) (metis snd_conv)

lemma filesKept_basic: "filesKept (perform c)" "filesKept (orWrap format r)" "filesKept (hold u)" "filesKept (succeed x)"
  by (simp_all add: filesKept_def perform_def orWrap_def succeed_def failWith_def hold_def split: sum.split)

lemma filesKept_openPrelude: "filesKept (openPrelude E cfg)"
  by (simp add: openPrelude_def openMatches_def openRegister_def addMatch_def filesKept_andThen filesKept_basic)

lemma openPrelude_files: "openPrelude E cfg s = (r, s') \<Longrightarrow> opFiles s' = opFiles s"
  using filesKept_openPrelude [of E cfg] unfolding filesKept_def by (metis snd_conv)

lemma openToken_loaded: "openToken E cfg s = (Inr restore, s') \<Longrightarrow> loadedToken E cfg (opFiles s) = Inr restore"
  by (auto simp: openToken_def loadedToken_def orWrap_def succeed_def failWith_def split: prod.splits sum.splits)

lemma andThen_assoc: "andThen (andThen m f) g = andThen m (\<lambda>x. andThen (f x) g)"
  by (rule ext) (auto simp: andThen_def split: prod.split sum.split)

lemma openBody_alt: "openBody E cfg =
    andThen (openPrelude E cfg) (\<lambda>_. andThen (openToken E cfg) (\<lambda>restore. andThen (openCreate E cfg) (openSession E cfg restore)))"
  by (simp add: openBody_def openPrelude_def andThen_assoc)

lemma stage_openPrelude: "stage (openPrelude E cfg) (preludeCalls cfg)
    (\<lambda>y h h'. h' = h\<lparr>hdRequestMatch := True, hdSessionMatch := True, hdClipboardMatch := ccClipboard cfg \<or> hdClipboardMatch h\<rparr>)"
  unfolding openPrelude_def preludeCalls_def by (rule stage_weaken, (rule stages stage_andThen)+) auto

text \<open>A successful opening made every call of the protocol, with the token that was loaded and the session that it returns.\<close>

lemma openBody_Inr:
  assumes "openBody E cfg s = (Inr d, s')"
  obtains token where "opCalls s' = opCalls s @ openingCalls E cfg token (odPath d)"
    and "loadedToken E cfg (opFiles s) = Inr (token, odStatePath d, odTokenAttempted d)"
    and "oeIsValid E (odPath d)" and "odClipboard d = ccClipboard cfg"
    and "opHeld s' = (opHeld s)\<lparr>hdRequestMatch := False, hdSessionMatch := True,
        hdClipboardMatch := ccClipboard cfg \<or> hdClipboardMatch (opHeld s), hdSession := Some (odPath d), hdEis := hdEis (opHeld s')\<rparr>"
    and "if ciEnabled (ccInput cfg) then \<exists>fd\<ge>0. hdEis (opHeld s') = Some fd else hdEis (opHeld s') = hdEis (opHeld s)"
proof -
  obtain x s1 restore s2 path s3 where 1: "openPrelude E cfg s = (Inr x, s1)" and 2: "openToken E cfg s1 = (Inr restore, s2)"
    and 3: "openCreate E cfg s2 = (Inr path, s3)" and 4: "openSession E cfg restore path s3 = (Inr d, s')"
    using assms unfolding openBody_alt by (auto elim!: andThen_Inr)
  obtain token statePath attempted where restore: "restore = (token, statePath, attempted)"
    by (cases restore)
  have loaded: "loadedToken E cfg (opFiles s) = Inr restore"
    using openToken_loaded [OF 2] openPrelude_files [OF 1] by simp
  note p1 = stage_Inr [OF stage_openPrelude 1] and p2 = stage_Inr [OF stage_openToken 2] and p3 = stage_Inr [OF stage_openCreate 3]
    and p4 = stage_Inr [OF stage_openSession 4 [unfolded restore]]
  have calls: "opCalls s' = opCalls s @ openingCalls E cfg token (odPath d)"
    using p1 p2 p3 p4 by (simp add: openingCalls_def)
  have held: "opHeld s3 = (opHeld s)\<lparr>hdRequestMatch := True, hdSessionMatch := True,
      hdClipboardMatch := ccClipboard cfg \<or> hdClipboardMatch (opHeld s), hdSession := Some path\<rparr>"
    using p1 p2 p3 by simp
  have eis: "if ciEnabled (ccInput cfg) then \<exists>fd\<ge>0. opHeld s' = (opHeld s3)\<lparr>hdRequestMatch := False, hdEis := Some fd\<rparr>
      else opHeld s' = (opHeld s3)\<lparr>hdRequestMatch := False\<rparr>"
    using p4 by blast
  show thesis
  proof (rule that [OF calls])
    show "loadedToken E cfg (opFiles s) = Inr (token, odStatePath d, odTokenAttempted d)"
      using p4 loaded restore by simp
    show "oeIsValid E (odPath d)" and "odClipboard d = ccClipboard cfg"
      using p3 p4 by simp_all
    show "opHeld s' = (opHeld s)\<lparr>hdRequestMatch := False, hdSessionMatch := True,
        hdClipboardMatch := ccClipboard cfg \<or> hdClipboardMatch (opHeld s), hdSession := Some (odPath d), hdEis := hdEis (opHeld s')\<rparr>"
      using eis held p4 by (cases "opHeld s") (auto split: if_splits)
    show "if ciEnabled (ccInput cfg) then \<exists>fd\<ge>0. hdEis (opHeld s') = Some fd else hdEis (opHeld s') = hdEis (opHeld s)"
      using eis held by (auto split: if_splits)
  qed
qed

text \<open>One that fails made the first calls of it.\<close>

lemma openBody_Inl:
  assumes "openBody E cfg s = (Inl err, s')"
  obtains token path where "madeSome (opCalls s) (openingCalls E cfg token path) (opCalls s')"
proof -
  from assms [unfolded openBody_alt] show thesis
  proof (rule andThen_Inl)
    assume "openPrelude E cfg s = (Inl err, s')"
    from stage_Inl [OF stage_openPrelude this] show thesis
      by (intro that) (unfold openingCalls_def, rule madeSome_append1)
  next
    fix x s1 assume 1: "openPrelude E cfg s = (Inr x, s1)"
      and rest: "andThen (openToken E cfg) (\<lambda>restore. andThen (openCreate E cfg) (openSession E cfg restore)) s1 = (Inl err, s')"
    note one = stage_Inr [OF stage_openPrelude 1, THEN conjunct1]
    from rest show thesis
    proof (rule andThen_Inl)
      assume "openToken E cfg s1 = (Inl err, s')"
      from stage_Inl [OF stage_openToken this] have "madeSome (opCalls s @ preludeCalls cfg) [] (opCalls s')"
        by (simp add: one)
      from madeSome_append1 [OF madeSome_append2 [OF this]] show thesis
        by (intro that) (simp add: openingCalls_def)
    next
      fix restore s2 assume 2: "openToken E cfg s1 = (Inr restore, s2)" and rest: "andThen (openCreate E cfg) (openSession E cfg restore) s2 = (Inl err, s')"
      obtain token statePath attempted where restore: "restore = (token, statePath, attempted)"
        by (cases restore)
      have two: "opCalls s2 = opCalls s @ preludeCalls cfg"
        using stage_Inr [OF stage_openToken 2] one by simp
      from rest show thesis
      proof (rule andThen_Inl)
        assume "openCreate E cfg s2 = (Inl err, s')"
        from stage_Inl [OF stage_openCreate this] have "madeSome (opCalls s @ preludeCalls cfg) (createCalls E cfg) (opCalls s')"
          by (simp add: two)
        from madeSome_append1 [OF madeSome_append2 [OF this]] show thesis
          by (intro that) (simp add: openingCalls_def)
      next
        fix path s3 assume 3: "openCreate E cfg s2 = (Inr path, s3)" and 4: "openSession E cfg restore path s3 = (Inl err, s')"
        from stage_Inl [OF stage_openSession 4 [unfolded restore]] stage_Inr [OF stage_openCreate 3, THEN conjunct1]
        have "madeSome (opCalls s @ preludeCalls cfg @ createCalls E cfg) (sessionCalls E cfg token path) (opCalls s')"
          by (simp add: two)
        from madeSome_append2 [OF this] show thesis
          by (intro that [of token path]) (simp add: openingCalls_def)
      qed
    qed
  qed
qed

section \<open>A stream\<close>

text \<open>The PipeWire remote of a stream is closed once; later calls get the error of the first.\<close>

record captureStream =
  stRemoteOpen :: bool
  stCloseOnce :: bool
  stCloseErr :: "goerror option"

definition StreamClose :: "goerror option \<Rightarrow> captureStream \<Rightarrow> goerror option \<times> captureStream" where
  "StreamClose err s =
    (let s' = (if stCloseOnce s then s else s\<lparr>stRemoteOpen := False, stCloseOnce := True, stCloseErr := err\<rparr>) in (stCloseErr s', s'))"

lemma StreamClose_again: "StreamClose err' (snd (StreamClose err s)) = StreamClose err s"
  by (simp add: StreamClose_def Let_def)

section \<open>Properties\<close>

text \<open>
  C29: Opening the portal session takes all or nothing.  If \<open>Open\<close> returns a session, it has made exactly the calls of the
  protocol in their order, with the restore token that was stored and the session that it returns; it holds the connection, the
  session and the matches the session needs and no other, an EIS connection exactly if input is configured, and clipboard access exactly
  if it is configured, which is how \<open>Portal_Session\<close> starts.  If it returns an error, whichever call or
  reply is to blame, it has made the first calls of the protocol, has perhaps closed the request it gave up, and then
  releases everything that it held.
\<close>

theorem portal_open_correct:
  "case portalOpen E cfg fs of
     (Inr d, s) \<Rightarrow> captureCheck cfg = None \<and> oeIsValid E (odPath d)
       \<and> (\<exists>token. opCalls s = openingCalls E cfg token (odPath d) \<and>
            loadedToken E cfg fs = Inr (token, odStatePath d, odTokenAttempted d))
       \<and> (\<exists>eis. opHeld s = \<lparr>hdConn = True, hdRequestMatch = False, hdSessionMatch = True, hdClipboardMatch = ccClipboard cfg,
              hdSession = Some (odPath d), hdEis = eis\<rparr> \<and> (eis \<noteq> None) = ciEnabled (ccInput cfg))
       \<and> runningSession d (opHeld s) = newSession (odPath d) (ciEnabled (ccInput cfg)) (ccClipboard cfg)
   | (Inl err, s) \<Rightarrow> opHeld s = nothingHeld \<and> (opCalls s = [] \<or> (\<exists>token path made closes h.
         prefix made (openingCalls E cfg token path) \<and> length closes \<le> 1 \<and>
         opCalls s = made @ map CloseRequest closes @ cleanupCalls h))"
proof -
  let ?s0 = "\<lparr>opHeld = nothingHeld\<lparr>hdConn := True\<rparr>, opCalls = [], opFiles = fs\<rparr>  "
  consider err where "captureCheck cfg = Some err" | err where "captureCheck cfg = None" "oeConnect E = Some err"
    | "captureCheck cfg = None" "oeConnect E = None" "\<not> oeUnixFDs E" | "captureCheck cfg = None" "oeConnect E = None" "oeUnixFDs E"
    by (cases "captureCheck cfg"; cases "oeConnect E") auto
  then show ?thesis
  proof cases
    case 3
    have "\<exists>token path made closes h. prefix made (openingCalls E cfg token path) \<and> length closes \<le> 1 \<and>
        [CloseConn] = made @ map CloseRequest closes @ cleanupCalls h"
      by (intro exI [of _ "[]"] exI [of _ "[]"] exI [of _ nothingHeld]) (simp add: cleanupCalls_def nothingHeld_def)
    then show ?thesis
      using 3 by (simp add: portalOpen_def)
  next
    case 4
    obtain r s where body: "openBody E cfg ?s0 = (r, s)"
      by (cases "openBody E cfg ?s0")
    show ?thesis
    proof (cases r)
      case (Inr d)
      obtain token where "opCalls s = openingCalls E cfg token (odPath d)" "loadedToken E cfg fs = Inr (token, odStatePath d, odTokenAttempted d)"
        "oeIsValid E (odPath d)" "odClipboard d = ccClipboard cfg"
        and held: "opHeld s = \<lparr>hdConn = True, hdRequestMatch = False, hdSessionMatch = True, hdClipboardMatch = ccClipboard cfg,
            hdSession = Some (odPath d), hdEis = hdEis (opHeld s)\<rparr>"
        and "(hdEis (opHeld s) \<noteq> None) = ciEnabled (ccInput cfg)"
        using body unfolding Inr by (elim openBody_Inr) (auto simp: nothingHeld_def split: if_splits)
      moreover from held have "\<exists>eis. opHeld s = \<lparr>hdConn = True, hdRequestMatch = False, hdSessionMatch = True, hdClipboardMatch = ccClipboard cfg,
          hdSession = Some (odPath d), hdEis = eis\<rparr> \<and> (eis \<noteq> None) = (hdEis (opHeld s) \<noteq> None)"
        by blast
      ultimately show ?thesis
        using 4 body Inr by (simp add: portalOpen_def runningSession_def)
    next
      case (Inl err)
      obtain token path where made: "madeSome [] (openingCalls E cfg token path) (opCalls s)"
        using body unfolding Inl by (elim openBody_Inl) simp
      then have "\<exists>token path made closes h. prefix made (openingCalls E cfg token path) \<and> length closes \<le> 1 \<and>
          opCalls s @ cleanupCalls (opHeld s) = made @ map CloseRequest closes @ cleanupCalls h"
        unfolding madeSome_def by fastforce
      then show ?thesis
        using 4 body Inl by (simp add: portalOpen_def openCleanup_def Let_def cleanup_releases)
    qed
  qed (simp_all add: portalOpen_def)
qed

text \<open>The error of the call that failed can still be recognised after the clean-up.\<close>

lemma openCleanup_keeps: "errorsIs err target \<Longrightarrow> errorsIs (fst (openCleanup E err s)) target"
  by (simp add: openCleanup_def Let_def joinWith_is)

text \<open>
  C6: The restore token survives to the next launch.  A store that fails, at whichever call, leaves the state file as it
  was; after one that succeeds, a launch with the same source, input and clipboard settings gets the token, and one with other
  settings gets none and discards the file.
\<close>

theorem restore_token_kept:
  assumes "tempPath \<noteq> statePath" and "token \<noteq> []" and "ffOpen G = None" and "ffStat G = None" and "ffDiscard G = None"
    and codec: "\<And>data. jcMarshal J (restoreStateOf cfg token) = Inr data \<Longrightarrow> jcDecode J (data @ [10]) = (Inr (restoreStateOf cfg token), EndOfFile)"
  shows "case storeRestoreToken J F tempPath statePath cfg token fs of
      (Some err, fs') \<Rightarrow> fs' statePath = fs statePath
    | (None, fs') \<Rightarrow>
        loadRestoreToken J G (Inr statePath) cfg' fs' =
          (if ccSource cfg' = ccSource cfg \<and> ccInput cfg' = ccInput cfg \<and> ccClipboard cfg' = ccClipboard cfg
           then (Inr (token, statePath, True), fs')
           else (Inr ([], statePath, False), fs'(statePath := None)))"
proof (cases "storeRestoreToken J F tempPath statePath cfg token fs")
  case (Pair r fs')
  show ?thesis
  proof (cases r)
    case (Some err)
    then show ?thesis using Pair assms(1) by (simp add: storeRestoreToken_failed)
  next
    case None
    from Pair [unfolded None] assms(1) obtain data where "jcMarshal J (restoreStateOf cfg token) = Inr data"
      and stored: "fs' statePath = Some \<lparr>fnRegular = True, fnPerm = 384, fnData = data @ [10]\<rparr>"
      by (rule storeRestoreToken_stored)
    then have "jcDecode J (data @ [10]) = (Inr (restoreStateOf cfg token), EndOfFile)"
      by (simp add: codec)
    then have "loadRestoreToken J G (Inr statePath) cfg' fs' =
        (if restoreMatches cfg' (restoreStateOf cfg token) then (Inr (token, statePath, True), fs')
         else (Inr ([], statePath, False), fs'(statePath := None)))"
      using assms stored by (simp add: loadRestoreToken_def osOpen_def restoreStateOf_def)
    then show ?thesis
      using Pair None assms(2) by (auto simp: restoreMatches_of)
  qed
qed

section \<open>Witnesses\<close>

definition demoCaptureConfig :: captureConfig where
  "demoCaptureConfig = \<lparr>ccSource = ''monitor'', ccCursorMode = ''embedded'', ccInput = \<lparr>ciEnabled = True, ciPointer = True, ciKeyboard = True\<rparr>,
     ccClipboard = True\<rparr>"

text \<open>A codec that writes the token alone, which is enough for one configuration.\<close>

definition demoJsonCodec :: jsonCodec where
  "demoJsonCodec = \<lparr>jcMarshal = (\<lambda>st. Inr (map of_char (rsRestoreToken st))),
     jcDecode = (\<lambda>bytes. (Inr (restoreStateOf demoCaptureConfig (map (\<lambda>b. char_of (unat b)) (butlast bytes))), EndOfFile))\<rparr>"

definition noFaults :: fileFaults where
  "noFaults = \<lparr>ffOpen = None, ffStat = None, ffDiscard = None, ffMkdir = None, ffChmodDir = None, ffCreate = None, ffChmod = None,
     ffWrite = None, ffSync = None, ffClose = None, ffRename = None, ffRemove = None\<rparr>"

lemma restore_token_kept_witness:
  "case storeRestoreToken demoJsonCodec noFaults ''/s/.portal-restore-1'' ''/s/portal-restore.json'' demoCaptureConfig ''tok'' Map.empty of
      (Some err, fs') \<Rightarrow> False
    | (None, fs') \<Rightarrow> loadRestoreToken demoJsonCodec noFaults (Inr ''/s/portal-restore.json'') demoCaptureConfig fs' =
        (Inr (''tok'', ''/s/portal-restore.json'', True), fs')"
proof -
  have ok: "fst (storeRestoreToken demoJsonCodec noFaults ''/s/.portal-restore-1'' ''/s/portal-restore.json'' demoCaptureConfig ''tok'' Map.empty) = None"
    by (simp add: storeRestoreToken_def demoJsonCodec_def noFaults_def)
  have "case storeRestoreToken demoJsonCodec noFaults ''/s/.portal-restore-1'' ''/s/portal-restore.json'' demoCaptureConfig ''tok'' Map.empty of
      (Some err, fs') \<Rightarrow> fs' ''/s/portal-restore.json'' = Map.empty ''/s/portal-restore.json''
    | (None, fs') \<Rightarrow> loadRestoreToken demoJsonCodec noFaults (Inr ''/s/portal-restore.json'') demoCaptureConfig fs' =
        (if ccSource demoCaptureConfig = ccSource demoCaptureConfig \<and> ccInput demoCaptureConfig = ccInput demoCaptureConfig \<and> ccClipboard demoCaptureConfig = ccClipboard demoCaptureConfig
         then (Inr (''tok'', ''/s/portal-restore.json'', True), fs')
         else (Inr ([], ''/s/portal-restore.json'', False), fs'(''/s/portal-restore.json'' := None)))"
    by (rule restore_token_kept) (simp_all add: demoJsonCodec_def noFaults_def restoreStateOf_def char_of_def bit_0)
  then show ?thesis
    using ok by (simp split: prod.splits option.splits)
qed

text \<open>A portal that grants everything, and one whose user refuses to start the session.\<close>

definition demoRequest :: "uint32 \<Rightarrow> (string \<rightharpoonup> nat) \<Rightarrow> nat requestReply" where
  "demoRequest response results = \<lparr>rqRandom = Inr [1], rqCall = Inr ''/r'', rqCtxErr = None,
     rqEvents = [RequestSignal ''/r'' ''org.freedesktop.portal.Request.Response'' (Inr (response, results))],
     rqDone = errorsNew ''context canceled'', rqClose = None\<rparr>"

definition demoPortal :: "uint32 \<Rightarrow> nat openEnv" where
  "demoPortal started = \<lparr>oeConnect = None, oeUnixFDs = True, oeName = '':1.42'', oeIsValid = (\<lambda>path. path \<noteq> []), oeMatch = (\<lambda>m. None), oeUnmatch = None,
     oeRegister = None, oeStatePath = Inr ''/s/portal-restore.json'', oeCodec = demoJsonCodec, oeFaults = noFaults, oeTemp = ''/s/.portal-restore-1'',
     oeRandom = Inr [2],
     oeRequest = (\<lambda>operation. if operation = ''CreateSession'' then demoRequest 0 [''session_handle'' \<mapsto> 1]
        else if operation = ''Start'' then demoRequest started [''restore_token'' \<mapsto> 1, ''streams'' \<mapsto> 1, ''devices'' \<mapsto> 3, ''clipboard_enabled'' \<mapsto> 1]
        else demoRequest 0 Map.empty),
     oeProperty = (\<lambda>iface name. Inr 3), oeClipboardAccess = None, oeConnectEIS = Inr 9, oeFile = (\<lambda>fd. True),
     oeStoreString = (\<lambda>v. Inr ''/session''), oeStoreU32 = (\<lambda>v. Inr (of_nat v)), oeStoreU64 = (\<lambda>v. Inr (of_nat v)), oeStoreBool = (\<lambda>v. Inr True),
     oeStoreStreams = (\<lambda>v. Inr [(7, Map.empty)]), oeMakeString = length, oeMakeU32 = unat, oeMakeBool = (\<lambda>b. if b then 1 else 0),
     oeCleanup = (\<lambda>c. None)\<rparr>"

lemmas open_eval = portalOpen_def openBody_def openMatches_def addMatch_def openRegister_def openToken_def openCreate_def openSession_def
  checkSources_def openSources_def openInput_def openDevices_def openClipboard_def openStart_def openRotate_def storeToken_def openStream_def
  streamSerial_def streamMapping_def authorizedDevices_def authorizedClipboard_def openUnmatch_def openEis_def
  request_def getProperty_def lookupResult_def andThen_def succeed_def failWith_def require_def orWrap_def perform_def hold_def
  failed_def setMatch_def portalRequest_def portalToken_def responseResult_def captureCheck_def check_def

lemma demo_open_granted: "\<exists>d s. portalOpen (demoPortal 0) demoCaptureConfig Map.empty = (Inr d, s) \<and> odPath d = ''/session'' \<and> odPointer d \<and> odKeyboard d \<and>
    odTokenRotated d \<and> hdEis (opHeld s) = Some 9"
  by (simp add: open_eval demoPortal_def demoCaptureConfig_def demoRequest_def nothingHeld_def loadRestoreToken_def osOpen_def noFaults_def ErrNotExist_def
      storeRestoreToken_def demoJsonCodec_def restoreStateOf_def requestedDevices_def deviceTypeKeyboard_def deviceTypePointer_def sourceTypeMonitor_def
      cursorMode_def cursorModeEmbedded_def errorsJoin_def)

lemma demo_open_refused: "\<exists>err s. portalOpen (demoPortal 1) demoCaptureConfig Map.empty = (Inl err, s) \<and> errorsIs err ''desktop capture authorization was cancelled'' \<and>
    drop 14 (opCalls s) = [CloseSession ''/session'', RemoveMatch RequestResponses, RemoveMatch SessionClosures, RemoveMatch ClipboardSignals, CloseConn]"
  by (simp add: open_eval demoPortal_def demoCaptureConfig_def demoRequest_def nothingHeld_def loadRestoreToken_def osOpen_def noFaults_def ErrNotExist_def
      requestedDevices_def deviceTypeKeyboard_def deviceTypePointer_def sourceTypeMonitor_def
      cursorMode_def cursorModeEmbedded_def errorsJoin_def openCleanup_def cleanupCalls_def ErrRequestCancelled_def joinWith_def)

end
