(* ===== verification/App_Run.thy ===== *)
theory App_Run
  imports Portal_Open Startup
begin

text \<open>
  The running service: \<open>Service\<close> in \<open>src/desktop/service.go\<close> opens the portal session and hands it to the clipboard, the
  input and the media; \<open>App\<close> in \<open>src/internal/app/app.go\<close> runs the components beside each other and stops them all when one fails;
  \<open>Server.Serve\<close> in \<open>src/httpserver/server.go\<close> is one of them.  libei's sender and the media pipeline are arguments; the
  controllers of input and clipboard are those of \<open>Input_Controller\<close> and \<open>Clipboard_Controller\<close>.
\<close>

section \<open>The desktop service\<close>

text \<open>\<open>New\<close>: which of the parts are there.\<close>

definition desktopNew :: "captureConfig \<Rightarrow> bool \<Rightarrow> bool \<Rightarrow> bool \<Rightarrow> bool \<Rightarrow> goerror option" where
  "desktopNew cfg media inputController clipboardController logger =
    (case captureCheck cfg of
       Some err \<Rightarrow> Some err
     | None \<Rightarrow>
         if \<not> media then Some (errorsNew ''desktop media service is required'')
         else if \<not> inputController then Some (errorsNew ''desktop input controller is required'')
         else if \<not> clipboardController then Some (errorsNew ''desktop clipboard controller is required'')
         else if \<not> logger then Some (errorsNew ''desktop logger is required'')
         else None)"

text \<open>The calls of \<open>Run\<close> that other parts notice.\<close>

datatype desktopCall = OpenSession | AttachClipboard | AcquireEISCall | NewSender int | AttachInput | CloseReady | StartMedia | CancelMedia
  | AwaitMedia | CloseInput | CloseSession

record ('s, 'cb) desktopState =
  dtInput :: "('s, 'cb) controller"
  dtClipboard :: clipController
  dtReady :: bool
  dtCalls :: "desktopCall list"

text \<open>
  What \<open>Run\<close> meets: the result of opening the session, of duplicating its EIS connection and of starting a sender; which of
  the media and the sender ends first, with the error of the media and the status of the sender; what the peers do with the input
  controller meanwhile; and the error of closing the session.
\<close>

datatype mediaRace = MediaFirst "goerror option" "senderStatus option" | SenderFirst senderStatus "goerror option"

record ('s, 'cb) desktopEnv =
  deOps :: "'s senderOps"
  deOpen :: "goerror + bool \<times> bool \<times> bool"
  deBackend :: nat
  deAcquireEIS :: "goerror + int"
  deNewSender :: "int \<Rightarrow> goerror + 's"
  deRace :: mediaRace
  deMedia :: "goerror option"
  deDuring :: "('s, 'cb) controller \<Rightarrow> ('s, 'cb) controller"
  deCloseSession :: "goerror option"

definition called :: "desktopCall list \<Rightarrow> ('s, 'cb) desktopState \<Rightarrow> ('s, 'cb) desktopState" where
  "called cs d = d\<lparr>dtCalls := dtCalls d @ cs\<rparr>"

text \<open>The channel of \<open>Ready\<close> is closed once.\<close>

definition closeReady :: "('s, 'cb) desktopState \<Rightarrow> ('s, 'cb) desktopState" where
  "closeReady d = (if dtReady d then d else called [CloseReady] (d\<lparr>dtReady := True\<rparr>))"

definition stoppedError :: "senderStatus \<Rightarrow> goerror" where
  "stoppedError status = Wrap ''EIS input stopped: %w'' (case ssErr status of Some err \<Rightarrow> err | None \<Rightarrow> errorsNew ''EIS sender stopped'') []"

text \<open>The media run beside the sender until one of them ends; when it is the sender, the media are cancelled and awaited.\<close>

definition runBeside :: "mediaRace \<Rightarrow> goerror option \<times> desktopCall list" where
  "runBeside race =
    (case race of
       MediaFirst mediaErr sender \<Rightarrow>
         ((case sender of Some status \<Rightarrow> errorsJoin [mediaErr, Some (stoppedError status)] | None \<Rightarrow> mediaErr), [StartMedia, AwaitMedia, CancelMedia])
     | SenderFirst status mediaErr \<Rightarrow> (errorsJoin [Some (stoppedError status), mediaErr], [StartMedia, CancelMedia, AwaitMedia, CancelMedia]))"

definition runWithInput :: "('s, 'cb) desktopEnv \<Rightarrow> bool \<Rightarrow> bool \<Rightarrow> ('s, 'cb) desktopState \<Rightarrow> goerror option \<times> ('s, 'cb) desktopState" where
  "runWithInput E pointer keyboard d =
    (case deAcquireEIS E of
       Inl err \<Rightarrow> (Some (Wrap ''acquire portal EIS connection: %w'' err []), called [AcquireEISCall] d)
     | Inr backend \<Rightarrow>
       (case deNewSender E backend of
          Inl err \<Rightarrow> (Some (Wrap ''start EIS sender: %w'' err []), called [AcquireEISCall, NewSender backend] d)
        | Inr sender \<Rightarrow>
          (let d1 = called [AcquireEISCall, NewSender backend, AttachInput] d
           in case Attach (deOps E) \<lparr>authPointer = pointer, authKeyboard = keyboard\<rparr> (Some sender) (dtInput d1) of
                (Some err, _, c) \<Rightarrow> (Some (Wrap ''attach EIS sender: %w'' err []), d1\<lparr>dtInput := c\<rparr>)
              | (None, _, c) \<Rightarrow>
                  (let d2 = closeReady (d1\<lparr>dtInput := c\<rparr>); (err, calls) = runBeside (deRace E)
                   in (err, called calls (d2\<lparr>dtInput := deDuring E (dtInput d2)\<rparr>))))))"

definition runOpened :: "('s, 'cb) desktopEnv \<Rightarrow> bool \<Rightarrow> bool \<Rightarrow> bool \<Rightarrow> ('s, 'cb) desktopState \<Rightarrow> goerror option \<times> ('s, 'cb) desktopState" where
  "runOpened E enabled pointer keyboard d =
    (let (clipErr, d1) =
         (if ccEnabled (dtClipboard d) then
            (case AttachBackend (Some (deBackend E)) (dtClipboard d) of (err, c) \<Rightarrow> (err, called [AttachClipboard] (d\<lparr>dtClipboard := c\<rparr>)))
          else (None, d))
     in case clipErr of
          Some err \<Rightarrow> (Some (Wrap ''attach portal clipboard: %w'' err []), d1)
        | None \<Rightarrow>
            if enabled then runWithInput E pointer keyboard d1
            else (let d2 = closeReady d1 in (deMedia E, called [StartMedia, AwaitMedia] (d2\<lparr>dtInput := deDuring E (dtInput d2)\<rparr>))))"

text \<open>\<open>Controller.Close\<close>: the leases are revoked, then the sender is closed when the worker has stopped.\<close>

definition closeInput :: "'s senderOps \<Rightarrow> ('s, 'cb) controller \<Rightarrow> goerror option \<times> ('s, 'cb) controller" where
  "closeInput ops c = CloseSender ops (snd (CloseLocked ops c))"

definition desktopRun :: "('s, 'cb) desktopEnv \<Rightarrow> ('s, 'cb) desktopState \<Rightarrow> goerror option \<times> ('s, 'cb) desktopState" where
  "desktopRun E d =
    (case deOpen E of
       Inl err \<Rightarrow> (Some (Wrap ''open desktop portal session: %w'' err []), called [OpenSession] d)
     | Inr (enabled, pointer, keyboard) \<Rightarrow>
         (let (runErr, d1) = runOpened E enabled pointer keyboard (called [OpenSession] d);
              (inputErr, c) = closeInput (deOps E) (dtInput d1)
          in (errorsJoin [errorsJoin [runErr, inputErr], deCloseSession E], called [CloseInput, CloseSession] (d1\<lparr>dtInput := c\<rparr>))))"

section \<open>The application\<close>

text \<open>
  The results of the components in the order they arrive, each with whether the context of \<open>Serve\<close> has been cancelled from
  outside by then; the state is whether the run has been cancelled, and the error so far.
\<close>

definition serveResult :: "string \<times> goerror option \<times> bool \<Rightarrow> bool \<times> goerror option \<Rightarrow> bool \<times> goerror option" where
  "serveResult r st =
    (case (r, st) of ((component, err, outside), (cancelled, runErr)) \<Rightarrow>
       let over = (cancelled \<or> outside)
       in if (\<exists>e. err = Some e \<and> over \<and> errorsIs e ''context canceled'') then (over, runErr)
          else (case (if err = None \<and> \<not> over then Some (errorsNew ''stopped unexpectedly'') else err) of
              None \<Rightarrow> (over, runErr)
            | Some e \<Rightarrow> (True, errorsJoin [runErr, Some (Wrap (component @ '': %w'') e [])])))"

definition componentNames :: "bool \<Rightarrow> string list" where
  "componentNames audioEnabled = [''http server'', ''desktop'', ''WebRTC''] @ (if audioEnabled then [''audio''] else [])"

definition appServe :: "(string \<times> goerror option \<times> bool) list \<Rightarrow> goerror option" where
  "appServe results =
    (case snd (fold serveResult results (False, None)) of
       None \<Rightarrow> None
     | Some runErr \<Rightarrow> Some (Wrap ''run service: %w'' runErr []))"

text \<open>\<open>Server.Serve\<close>: the listener fails first, or the context ends and the server is shut down in time, or not.\<close>

datatype httpEnd = ListenFails goerror | ShutdownFails goerror | ShutdownThen goerror

definition httpServe :: "httpEnd \<Rightarrow> goerror option \<times> bool" where
  "httpServe e =
    (case e of
       ListenFails err \<Rightarrow> (if errorsIs err ''http: Server closed'' then None else Some (Wrap ''serve http: %w'' err []), False)
     | ShutdownFails err \<Rightarrow> (Some (Wrap ''shutdown http: %w'' err []), True)
     | ShutdownThen err \<Rightarrow> (if errorsIs err ''http: Server closed'' then None else Some (Wrap ''serve http: %w'' err []), False))"

section \<open>How a run ends\<close>

text \<open>The calls between opening the session and closing it, when all goes well.\<close>

definition clipboardCalls :: "('s, 'cb) desktopState \<Rightarrow> desktopCall list" where
  "clipboardCalls d = (if ccEnabled (dtClipboard d) then [AttachClipboard] else [])"

definition readyCalls :: "('s, 'cb) desktopState \<Rightarrow> desktopCall list" where
  "readyCalls d = (if dtReady d then [] else [CloseReady])"

definition inputCalls :: "int \<Rightarrow> desktopCall list" where
  "inputCalls backend = [AcquireEISCall, NewSender backend, AttachInput]"

text \<open>A run starts the media only when everything before has succeeded, and not without waiting for their end.\<close>

definition runCalls :: "('s, 'cb) desktopEnv \<Rightarrow> bool \<Rightarrow> ('s, 'cb) desktopState \<Rightarrow> desktopCall list \<Rightarrow> bool" where
  "runCalls E enabled d cs \<longleftrightarrow>
     (\<exists>made backend. prefix made (clipboardCalls d @ (if enabled then inputCalls backend else [])) \<and> cs = made) \<or>
     (\<exists>backend. cs = clipboardCalls d @ (if enabled then inputCalls backend else []) @ readyCalls d
        @ (if enabled then snd (runBeside (deRace E)) else [StartMedia, AwaitMedia]))"

lemma called_simps [simp]:
  "dtInput (called cs d) = dtInput d" "dtClipboard (called cs d) = dtClipboard d" "dtReady (called cs d) = dtReady d"
  "dtCalls (called cs d) = dtCalls d @ cs"
  by (simp_all add: called_def)

lemma closeReady_simps [simp]:
  "dtInput (closeReady d) = dtInput d" "dtClipboard (closeReady d) = dtClipboard d" "dtReady (closeReady d)"
  "dtCalls (closeReady d) = dtCalls d @ readyCalls d"
  by (simp_all add: closeReady_def readyCalls_def)

lemma closeInput_closed:
  assumes "ctlInv c"
  shows "ctlInv (snd (closeInput ops c)) \<and> ctlClosed (snd (closeInput ops c)) \<and> ctlOwners (snd (closeInput ops c)) = fmempty"
proof -
  have inv: "ctlInv (snd (closeInput ops c))"
    using assms by (simp add: closeInput_def CloseLocked_inv CloseSender_inv)
  moreover have "ctlClosed (snd (closeInput ops c))"
    by (simp add: closeInput_def ops_closed)
  ultimately show ?thesis
    by (auto simp: ctlInv_def leasesOK_def)
qed

lemma runCalls_prefix: "prefix made (clipboardCalls d @ (if enabled then inputCalls backend else [])) \<Longrightarrow> runCalls E enabled d made"
  unfolding runCalls_def by blast

lemma runWithInput_calls:
  assumes "ctlInv (dtInput d)" and during: "\<And>c. ctlInv c \<Longrightarrow> ctlInv (deDuring E c)"
  shows "ctlInv (dtInput (snd (runWithInput E pointer keyboard d))) \<and>
    (\<exists>backend cs. dtCalls (snd (runWithInput E pointer keyboard d)) = dtCalls d @ cs \<and>
       (prefix cs (inputCalls backend) \<or> cs = inputCalls backend @ readyCalls d @ snd (runBeside (deRace E))))"
proof (cases "deAcquireEIS E")
  case (Inl err)
  then show ?thesis
    using assms(1) by (auto simp: runWithInput_def inputCalls_def intro!: exI [of _ "[AcquireEISCall]"])
next
  case (Inr backend)
  show ?thesis
  proof (cases "deNewSender E backend")
    case (Inl err)
    then show ?thesis
      using assms(1) Inr
      by (auto simp: runWithInput_def inputCalls_def intro!: exI [of _ backend] exI [of _ "[AcquireEISCall, NewSender backend]"])
  next
    case sender: (Inr sender)
    let ?auth = "\<lparr>authPointer = pointer, authKeyboard = keyboard\<rparr>"
    obtain err s' c where attach: "Attach (deOps E) ?auth (Some sender) (dtInput d) = (err, s', c)"
      by (cases "Attach (deOps E) ?auth (Some sender) (dtInput d)")
    then have "ctlInv c"
      using Attach_inv [OF assms(1), of "deOps E" ?auth "Some sender"] by simp
    show ?thesis
    proof (cases err)
      case (Some e)
      then show ?thesis
        using Inr sender attach \<open>ctlInv c\<close>
        by (auto simp: runWithInput_def inputCalls_def Let_def intro!: exI [of _ backend] exI [of _ "[AcquireEISCall, NewSender backend, AttachInput]"])
    next
      case None
      have "readyCalls (called cs (d\<lparr>dtInput := c\<rparr>)) = readyCalls d" for cs
        by (simp add: readyCalls_def called_def)
      then have "readyCalls ((called cs d)\<lparr>dtInput := c\<rparr>) = readyCalls d" for cs
        by (simp add: readyCalls_def called_def)
      then have "snd (runWithInput E pointer keyboard d) = called (snd (runBeside (deRace E)))
          ((closeReady ((called (inputCalls backend) d)\<lparr>dtInput := c\<rparr>))\<lparr>dtInput := deDuring E c\<rparr>)"
        using None Inr sender attach by (simp add: runWithInput_def inputCalls_def Let_def split: prod.split)
      then show ?thesis
        using during [OF \<open>ctlInv c\<close>] \<open>readyCalls ((called _ d)\<lparr>dtInput := c\<rparr>) = readyCalls d\<close>
        by (auto simp: closeReady_def readyCalls_def called_def
            intro!: exI [of _ backend] exI [of _ "inputCalls backend @ readyCalls d @ snd (runBeside (deRace E))"])
    qed
  qed
qed

lemma runOpened_calls:
  assumes inv: "ctlInv (dtInput d)" and during: "\<And>c. ctlInv c \<Longrightarrow> ctlInv (deDuring E c)"
  shows "ctlInv (dtInput (snd (runOpened E enabled pointer keyboard d))) \<and>
    (\<exists>cs. runCalls E enabled d cs \<and> dtCalls (snd (runOpened E enabled pointer keyboard d)) = dtCalls d @ cs)"
proof -
  let ?clip = "if ccEnabled (dtClipboard d)
      then (case AttachBackend (Some (deBackend E)) (dtClipboard d) of (err, c) \<Rightarrow> (err, called [AttachClipboard] (d\<lparr>dtClipboard := c\<rparr>)))
      else (None, d)"
  obtain clipErr d1 where clip: "?clip = (clipErr, d1)"
    by (cases ?clip)
  have d1: "dtInput d1 = dtInput d" "dtReady d1 = dtReady d" "dtCalls d1 = dtCalls d @ clipboardCalls d"
    using clip by (auto simp: clipboardCalls_def called_def split: if_splits prod.splits)
  have ready: "readyCalls d1 = readyCalls d"
    by (simp add: readyCalls_def d1)
  show ?thesis
  proof (cases clipErr)
    case (Some err)
    have "snd (runOpened E enabled pointer keyboard d) = d1"
      by (simp add: runOpened_def clip Some)
    moreover have "runCalls E enabled d (clipboardCalls d)"
      by (rule runCalls_prefix [of _ _ _ 0]) simp
    ultimately show ?thesis
      using inv d1 by auto
  next
    case None
    show ?thesis
    proof (cases enabled)
      case True
      have run: "runOpened E enabled pointer keyboard d = runWithInput E pointer keyboard d1"
        by (simp add: runOpened_def clip None True)
      have "ctlInv (dtInput d1)"
        using inv d1 by simp
      from runWithInput_calls [of d1 E pointer keyboard, OF this during] obtain backend cs
        where inv': "ctlInv (dtInput (snd (runWithInput E pointer keyboard d1)))"
          and cs: "dtCalls (snd (runWithInput E pointer keyboard d1)) = dtCalls d1 @ cs"
          and "prefix cs (inputCalls backend) \<or> cs = inputCalls backend @ readyCalls d1 @ snd (runBeside (deRace E))"
        by blast
      then have "runCalls E enabled d (clipboardCalls d @ cs)"
        unfolding runCalls_def using True ready by auto
      then show ?thesis
        using inv' cs d1 unfolding run by auto
    next
      case False
      have run: "snd (runOpened E enabled pointer keyboard d)
          = called [StartMedia, AwaitMedia] ((closeReady d1)\<lparr>dtInput := deDuring E (dtInput d1)\<rparr>)"
        by (simp add: runOpened_def clip None False Let_def)
      have "runCalls E enabled d (clipboardCalls d @ readyCalls d @ [StartMedia, AwaitMedia])"
        unfolding runCalls_def using False by auto
      then show ?thesis
        using during [OF inv] d1 ready unfolding run by (auto simp: called_def)
    qed
  qed
qed

section \<open>Properties\<close>


section \<open>The results of the components\<close>

definition resultOver :: "(string \<times> goerror option \<times> bool) list \<Rightarrow> bool" where
  "resultOver rs \<longleftrightarrow> (\<exists>r\<in>set rs. snd (snd r))"

definition cleanResult :: "goerror option \<Rightarrow> bool" where
  "cleanResult err \<longleftrightarrow> (case err of None \<Rightarrow> True | Some e \<Rightarrow> errorsIs e ''context canceled'')"

lemma serveResult_snd_None:
  "snd (serveResult (component, err, outside) (cancelled, runErr)) = None \<longleftrightarrow> runErr = None \<and> (cancelled \<or> outside) \<and> cleanResult err"
  by (cases err) (auto simp: serveResult_def cleanResult_def Let_def)

lemma serveResult_clean: "cancelled \<or> outside \<Longrightarrow> cleanResult err \<Longrightarrow> serveResult (component, err, outside) (cancelled, runErr) = (True, runErr)"
  by (cases err) (auto simp: serveResult_def cleanResult_def Let_def)

lemma serveResult_keeps:
  assumes "runErr = Some e" and "errorsIs e target"
  shows "\<exists>e'. snd (serveResult r (cancelled, runErr)) = Some e' \<and> errorsIs e' target"
proof -
  obtain component err outside where "r = (component, err, outside)"
    by (cases r)
  then show ?thesis
    using assms by (cases err) (auto simp: serveResult_def Let_def errorsJoin_def)
qed

lemma serve_keeps:
  "snd st = Some e \<Longrightarrow> errorsIs e target \<Longrightarrow> \<exists>e'. snd (fold serveResult rs st) = Some e' \<and> errorsIs e' target"
proof (induction rs arbitrary: st e)
  case (Cons r rs)
  obtain cancelled runErr where st: "st = (cancelled, runErr)"
    by (cases st)
  then obtain e' where "snd (serveResult r st) = Some e'" "errorsIs e' target"
    using serveResult_keeps [of runErr e target r cancelled] Cons.prems by auto
  then show ?case using Cons.IH by simp
qed simp

lemma serve_fails: "snd st \<noteq> None \<Longrightarrow> snd (fold serveResult rs st) \<noteq> None"
proof (induction rs arbitrary: st)
  case (Cons r rs)
  obtain component err outside cancelled runErr where "r = (component, err, outside)" "st = (cancelled, runErr)"
    by (cases r; cases st)
  then have "snd (serveResult r st) \<noteq> None"
    using Cons.prems by (simp add: serveResult_snd_None)
  then show ?case using Cons.IH by simp
qed simp

text \<open>The results that leave no error: each arrives when the run is over and is clean.\<close>

fun cleanResults :: "bool \<Rightarrow> (string \<times> goerror option \<times> bool) list \<Rightarrow> bool" where
  "cleanResults cancelled [] = True"
| "cleanResults cancelled ((component, err, outside) # rs) = ((cancelled \<or> outside) \<and> cleanResult err \<and> cleanResults True rs)"

lemma serve_None: "snd (fold serveResult rs (cancelled, None)) = None \<longleftrightarrow> cleanResults cancelled rs"
proof (induction cancelled rs rule: cleanResults.induct)
  case (2 cancelled component err outside rs)
  show ?case
  proof (cases "(cancelled \<or> outside) \<and> cleanResult err")
    case True
    then have "serveResult (component, err, outside) (cancelled, None) = (True, None)"
      by (simp add: serveResult_clean)
    then show ?thesis using True 2 by simp
  next
    case False
    then have "snd (serveResult (component, err, outside) (cancelled, None)) \<noteq> None"
      by (auto simp: serveResult_snd_None)
    then have "snd (fold serveResult rs (serveResult (component, err, outside) (cancelled, None))) \<noteq> None"
      by (rule serve_fails)
    then show ?thesis using False by (simp only: fold.simps comp_apply cleanResults.simps) blast
  qed
qed simp

lemma cleanResults_nth: "cleanResults cancelled rs \<longleftrightarrow>
    (\<forall>r\<in>set rs. cleanResult (fst (snd r))) \<and> (rs = [] \<or> cancelled \<or> snd (snd (hd rs)))"
  by (induction cancelled rs rule: cleanResults.induct) auto

text \<open>
  C24: \<open>Serve\<close> returns without an error exactly if the context was cancelled from outside before the first
  component ended and every component then ended cleanly, with no error or with the cancellation; and an error
  of a component that is not the cancellation is part of the result, whichever component it is from and whenever it arrives.
\<close>

theorem serve_reports:
  "(appServe results = None) = ((\<forall>r\<in>set results. cleanResult (fst (snd r))) \<and> (results = [] \<or> snd (snd (hd results))))
   \<and> (\<forall>component e outside target. (component, Some e, outside) \<in> set results \<and> \<not> errorsIs e ''context canceled'' \<and> errorsIs e target
        \<longrightarrow> (\<exists>err. appServe results = Some err \<and> errorsIs err target))"
proof (intro conjI allI impI)
  have none: "(appServe results = None) = (snd (fold serveResult results (False, None)) = None)"
    by (simp add: appServe_def split: option.split)
  show "(appServe results = None) = ((\<forall>r\<in>set results. cleanResult (fst (snd r))) \<and> (results = [] \<or> snd (snd (hd results))))"
    unfolding none serve_None cleanResults_nth by simp
next
  fix component e outside target
  assume r: "(component, Some e, outside) \<in> set results \<and> \<not> errorsIs e ''context canceled'' \<and> errorsIs e target"
  then obtain before after where results: "results = before @ (component, Some e, outside) # after"
    by (meson split_list)
  obtain cancelled runErr where st: "fold serveResult before (False, None) = (cancelled, runErr)"
    by (cases "fold serveResult before (False, None)")
  have "\<exists>e'. snd (serveResult (component, Some e, outside) (cancelled, runErr)) = Some e' \<and> errorsIs e' target"
    using r by (cases runErr) (auto simp: serveResult_def Let_def errorsJoin_def)
  then obtain e1 where first: "snd (serveResult (component, Some e, outside) (cancelled, runErr)) = Some e1" and "errorsIs e1 target"
    by blast
  from serve_keeps [OF this, of after] obtain e' where "snd (fold serveResult results (False, None)) = Some e'" "errorsIs e' target"
    unfolding results by (auto simp: st)
  then show "\<exists>err. appServe results = Some err \<and> errorsIs err target"
    by (simp add: appServe_def)
qed

section \<open>Witnesses\<close>

text \<open>The sender ends first; the controller is that of \<open>Input_Controller\<close>.\<close>

definition demoDesktop :: "(unit, nat) desktopState" where
  "demoDesktop = \<lparr>dtInput = projr (New demoCfg), dtClipboard = NewClipboard True, dtReady = False, dtCalls = []\<rparr>"

definition demoDesktopEnv :: "(unit, nat) desktopEnv" where
  "demoDesktopEnv = \<lparr>deOps = demoOps, deOpen = Inr (True, True, True), deBackend = 1, deAcquireEIS = Inr 9, deNewSender = (\<lambda>fd. Inr ()),
     deRace = SenderFirst (demoStatus\<lparr>ssErr := None\<rparr>) None, deMedia = None, deDuring = (\<lambda>c. c), deCloseSession = None\<rparr>"


lemma serve_reports_witness:
  "\<exists>err. appServe [(''desktop'', Some ErrSessionClosed, False), (''WebRTC'', None, False), (''http server'', None, False)] = Some err \<and>
     errorsIs err ''desktop portal screen cast session closed''"
  by (rule serve_reports [THEN conjunct2, rule_format, of "''desktop''" ErrSessionClosed False]) (simp add: ErrSessionClosed_def)

end
