(* ===== verification/Json_Messages.thy ===== *)
theory Json_Messages
  imports Protocol Media_Quality
begin

text \<open>
  The decoding of the messages of a browser (\<open>src/webrtc/protocol.go\<close>) with what it uses of \<open>encoding/json\<close>: objects into
  structs with unknown fields refused, fields found by their exact name or else without regard to case, a field given twice
  decoded twice, and exactly one value in a message; and the checks that \<open>handleControlMessage\<close> makes of a message before it acts
  on it.  A message is the list of its JSON values and how it ends; the grammar of JSON itself is the library's.
\<close>

section \<open>JSON\<close>

text \<open>A number is an integer literal with its sign and digits, or has a fraction or an exponent.\<close>

datatype json = JNull | JBool bool | JInteger bool nat | JDecimal rat | JString string | JArray "json list" | JObject "(string \<times> json) list"

datatype streamEnd = StreamEOF | StreamSyntax goerror

type_synonym 'r setter = "json \<Rightarrow> 'r \<Rightarrow> 'r \<times> goerror option"

text \<open>The folding of names: ASCII letters, the long s (U+017F) and the Kelvin sign (U+212A), the only runes that fold to a letter of a field name.\<close>

definition foldRune :: "nat \<Rightarrow> nat" where
  "foldRune r = (if 97 \<le> r \<and> r \<le> 122 then r - 32 else if r = 383 then 83 else if r = 8490 then 75 else r)"

definition foldName :: "string \<Rightarrow> nat list" where
  "foldName key = map foldRune (runes key)"

definition findField :: "(string \<times> 'r setter) list \<Rightarrow> string \<Rightarrow> 'r setter option" where
  "findField table key =
    (case map_of table key of
       Some f \<Rightarrow> Some f
     | None \<Rightarrow> map_option snd (find (\<lambda>(name, f). foldName name = foldName key) table))"

definition unmarshalError :: goerror where "unmarshalError = errorsNew ''json: cannot unmarshal value''"

text \<open>The fields in their order: an unknown one is remembered as an error, one that cannot be decoded ends it.\<close>

fun decodeFields :: "(string \<times> 'r setter) list \<Rightarrow> (string \<times> json) list \<Rightarrow> 'r \<Rightarrow> goerror option \<Rightarrow> 'r \<times> goerror option" where
  "decodeFields table [] r saved = (r, saved)"
| "decodeFields table ((key, v) # rest) r saved =
    (case findField table key of
       None \<Rightarrow> decodeFields table rest r (if saved = None then Some (Errorf ''json: unknown field %q'' [FStr key]) else saved)
     | Some f \<Rightarrow> (case f v r of
           (r', Some err) \<Rightarrow> (r', Some err)
         | (r', None) \<Rightarrow> decodeFields table rest r' saved))"

definition decodeStruct :: "(string \<times> 'r setter) list \<Rightarrow> json \<Rightarrow> 'r \<Rightarrow> 'r \<times> goerror option" where
  "decodeStruct table j r =
    (case j of JNull \<Rightarrow> (r, None) | JObject fs \<Rightarrow> decodeFields table fs r None | _ \<Rightarrow> (r, Some unmarshalError))"

text \<open>\<open>decodeSignalRequest\<close>, \<open>decodeControlRequest\<close> and \<open>decodeInputRequest\<close> over their fields and the zero value.\<close>

definition decodeMessage :: "(string \<times> 'r setter) list \<Rightarrow> 'r \<Rightarrow> json list \<times> streamEnd \<Rightarrow> 'r \<times> goerror option" where
  "decodeMessage table zero msg =
    (case fst msg of
       [] \<Rightarrow> (zero, Some (case snd msg of StreamEOF \<Rightarrow> Sentinel ''EOF'' | StreamSyntax err \<Rightarrow> err))
     | v # rest \<Rightarrow>
         (case decodeStruct table v zero of
            (r, Some err) \<Rightarrow> (r, Some err)
          | (r, None) \<Rightarrow>
              (case rest of
                 [] \<Rightarrow> (case snd msg of StreamEOF \<Rightarrow> (r, None) | StreamSyntax err \<Rightarrow> (r, Some err))
               | w # _ \<Rightarrow> (r, Some (case snd (decodeStruct [] w ()) of None \<Rightarrow> errorsNew ''multiple JSON values are not allowed'' | Some err \<Rightarrow> err)))))"

section \<open>Optional fields\<close>

text \<open>\<open>UnmarshalJSON\<close> of the optional types; a value of the wrong type leaves the field set and its value as it was.\<close>

definition optional :: "'a \<Rightarrow> (json \<Rightarrow> 'a option) \<Rightarrow> json \<Rightarrow> 'a option \<Rightarrow> 'a option \<times> goerror option" where
  "optional zero parse v old =
    (if v = JNull then (old, Some (errorsNew ''null is not allowed''))
     else (case parse v of
         Some x \<Rightarrow> (Some x, None)
       | None \<Rightarrow> (Some (case old of Some y \<Rightarrow> y | None \<Rightarrow> zero), Some unmarshalError)))"

definition parseString :: "json \<Rightarrow> string option" where
  "parseString v = (case v of JString s \<Rightarrow> Some s | _ \<Rightarrow> None)"

definition parseBool :: "json \<Rightarrow> bool option" where
  "parseBool v = (case v of JBool b \<Rightarrow> Some b | _ \<Rightarrow> None)"

definition parseInt64 :: "json \<Rightarrow> int option" where
  "parseInt64 v = (case v of
       JInteger neg n \<Rightarrow> (let i = (if neg then - int n else int n) in if - (2 ^ 63) \<le> i \<and> i < 2 ^ 63 then Some i else None)
     | _ \<Rightarrow> None)"

definition parseUint64 :: "json \<Rightarrow> uint64 option" where
  "parseUint64 v = (case v of JInteger neg n \<Rightarrow> if \<not> neg \<and> n < 2 ^ 64 then Some (of_nat n) else None | _ \<Rightarrow> None)"

definition parseUint32 :: "json \<Rightarrow> uint32 option" where
  "parseUint32 v = (case v of JInteger neg n \<Rightarrow> if \<not> neg \<and> n < 2 ^ 32 then Some (of_nat n) else None | _ \<Rightarrow> None)"

definition parseFloat64 :: "json \<Rightarrow> float64 option" where
  "parseFloat64 v =
    (case (case v of JInteger neg n \<Rightarrow> Some (if neg then - of_nat n else of_nat n) | JDecimal q \<Rightarrow> Some q | _ \<Rightarrow> None) of
       None \<Rightarrow> None
     | Some q \<Rightarrow> (case round64 q of Fin x \<Rightarrow> Some (Fin x) | _ \<Rightarrow> None))"

text \<open>A setter of one field.\<close>

definition field :: "('a option \<Rightarrow> 'r \<Rightarrow> 'r) \<Rightarrow> ('r \<Rightarrow> 'a option) \<Rightarrow> (json \<Rightarrow> 'a option \<Rightarrow> 'a option \<times> goerror option) \<Rightarrow> 'r setter" where
  "field put get decode v r = (case decode v (get r) of (x, err) \<Rightarrow> (put x r, err))"

section \<open>The requests\<close>

definition emptyQuality :: qualityPatch where
  "emptyQuality = \<lparr>qpProfile = None, qpOption = None, qpWidth = None, qpHeight = None, qpFramerate = None, qpBitrateKbps = None\<rparr>"

definition qualityFields :: "(string \<times> qualityPatch setter) list" where
  "qualityFields =
    [(''profile'', field (\<lambda>x r. r\<lparr>qpProfile := x\<rparr>) qpProfile (optional [] parseString)),
     (''option'', field (\<lambda>x r. r\<lparr>qpOption := x\<rparr>) qpOption (optional [] parseString)),
     (''width'', field (\<lambda>x r. r\<lparr>qpWidth := x\<rparr>) qpWidth (optional 0 parseInt64)),
     (''height'', field (\<lambda>x r. r\<lparr>qpHeight := x\<rparr>) qpHeight (optional 0 parseInt64)),
     (''framerate'', field (\<lambda>x r. r\<lparr>qpFramerate := x\<rparr>) qpFramerate (optional 0 parseInt64)),
     (''bitrate_kbps'', field (\<lambda>x r. r\<lparr>qpBitrateKbps := x\<rparr>) qpBitrateKbps (optional 0 parseInt64))]"

text \<open>A quality that is given twice is decoded into the one before it.\<close>

definition optionalQuality :: "json \<Rightarrow> qualityPatch option \<Rightarrow> qualityPatch option \<times> goerror option" where
  "optionalQuality v old =
    (if v = JNull then (old, Some (errorsNew ''null is not allowed''))
     else (case decodeStruct qualityFields v (case old of Some q \<Rightarrow> q | None \<Rightarrow> emptyQuality) of
         (q, None) \<Rightarrow> (Some q, None)
       | (q, Some err) \<Rightarrow> (old, Some err)))"

definition emptyControl :: controlRequest where
  "emptyControl = \<lparr>crqVersion = None, crqID = None, crqType = None, crqQuality = None, crqTargetID = None\<rparr>"

definition controlFields :: "(string \<times> controlRequest setter) list" where
  "controlFields =
    [(''version'', field (\<lambda>x r. r\<lparr>crqVersion := x\<rparr>) crqVersion (optional 0 parseInt64)),
     (''id'', field (\<lambda>x r. r\<lparr>crqID := x\<rparr>) crqID (optional [] parseString)),
     (''type'', field (\<lambda>x r. r\<lparr>crqType := x\<rparr>) crqType (optional [] parseString)),
     (''quality'', field (\<lambda>x r. r\<lparr>crqQuality := x\<rparr>) crqQuality optionalQuality),
     (''target_id'', field (\<lambda>x r. r\<lparr>crqTargetID := x\<rparr>) crqTargetID (optional [] parseString))]"

definition decodeControlRequest :: "json list \<times> streamEnd \<Rightarrow> controlRequest \<times> goerror option" where
  "decodeControlRequest = decodeMessage controlFields emptyControl"

definition zeroInput :: inputRequest where
  "zeroInput = \<lparr>irVersion = None, irSequence = None, irType = None, irX = None, irY = None, irDX = None, irDY = None, irButton = None,
     irPressed = None, irHorizontal = None, irVertical = None, irStopHorizontal = None, irStopVertical = None, irKeycode = None, irText = None\<rparr>"

definition inputMessageFields :: "(string \<times> inputRequest setter) list" where
  "inputMessageFields =
    [(''version'', field (\<lambda>x r. r\<lparr>irVersion := x\<rparr>) irVersion (optional 0 parseInt64)),
     (''sequence'', field (\<lambda>x r. r\<lparr>irSequence := x\<rparr>) irSequence (optional 0 parseUint64)),
     (''type'', field (\<lambda>x r. r\<lparr>irType := x\<rparr>) irType (optional [] parseString)),
     (''x'', field (\<lambda>x r. r\<lparr>irX := x\<rparr>) irX (optional (Fin 0) parseFloat64)),
     (''y'', field (\<lambda>x r. r\<lparr>irY := x\<rparr>) irY (optional (Fin 0) parseFloat64)),
     (''dx'', field (\<lambda>x r. r\<lparr>irDX := x\<rparr>) irDX (optional (Fin 0) parseFloat64)),
     (''dy'', field (\<lambda>x r. r\<lparr>irDY := x\<rparr>) irDY (optional (Fin 0) parseFloat64)),
     (''button'', field (\<lambda>x r. r\<lparr>irButton := x\<rparr>) irButton (optional [] parseString)),
     (''pressed'', field (\<lambda>x r. r\<lparr>irPressed := x\<rparr>) irPressed (optional False parseBool)),
     (''horizontal'', field (\<lambda>x r. r\<lparr>irHorizontal := x\<rparr>) irHorizontal (optional (Fin 0) parseFloat64)),
     (''vertical'', field (\<lambda>x r. r\<lparr>irVertical := x\<rparr>) irVertical (optional (Fin 0) parseFloat64)),
     (''stop_horizontal'', field (\<lambda>x r. r\<lparr>irStopHorizontal := x\<rparr>) irStopHorizontal (optional False parseBool)),
     (''stop_vertical'', field (\<lambda>x r. r\<lparr>irStopVertical := x\<rparr>) irStopVertical (optional False parseBool)),
     (''keycode'', field (\<lambda>x r. r\<lparr>irKeycode := x\<rparr>) irKeycode (optional 0 parseUint32)),
     (''text'', field (\<lambda>x r. r\<lparr>irText := x\<rparr>) irText (optional [] parseString))]"

definition decodeInputRequest :: "json list \<times> streamEnd \<Rightarrow> inputRequest \<times> goerror option" where
  "decodeInputRequest = decodeMessage inputMessageFields zeroInput"

text \<open>The details of a log message, a map from strings to strings; the candidate is decoded into the structure of pion, an argument.\<close>

fun decodeDetails :: "(string \<times> json) list \<Rightarrow> (string, string) fmap \<Rightarrow> goerror option \<Rightarrow> (string, string) fmap \<times> goerror option" where
  "decodeDetails [] m saved = (m, saved)"
| "decodeDetails ((key, v) # rest) m saved =
    (case v of
       JString s \<Rightarrow> decodeDetails rest (fmupd key s m) saved
     | JNull \<Rightarrow> decodeDetails rest (fmupd key [] m) saved
     | _ \<Rightarrow> decodeDetails rest (fmupd key [] m) (if saved = None then Some unmarshalError else saved))"

definition optionalStringMap :: "json \<Rightarrow> (string, string) fmap option \<Rightarrow> (string, string) fmap option \<times> goerror option" where
  "optionalStringMap v old =
    (if v = JNull then (old, Some (errorsNew ''null is not allowed''))
     else (case v of
         JObject fs \<Rightarrow> (case decodeDetails fs (case old of Some m \<Rightarrow> m | None \<Rightarrow> fmempty) None of
             (m, None) \<Rightarrow> (Some m, None) | (m, Some err) \<Rightarrow> (old, Some err))
       | _ \<Rightarrow> (old, Some unmarshalError)))"

definition optionalCandidate :: "(json \<Rightarrow> 'cand option \<Rightarrow> goerror + 'cand) \<Rightarrow> json \<Rightarrow> 'cand option \<Rightarrow> 'cand option \<times> goerror option" where
  "optionalCandidate parse v old =
    (if v = JNull then (old, Some (errorsNew ''null is not allowed''))
     else (case parse v old of Inl err \<Rightarrow> (old, Some err) | Inr c \<Rightarrow> (Some c, None)))"

definition signalFields :: "(json \<Rightarrow> 'cand option \<Rightarrow> goerror + 'cand) \<Rightarrow> (string \<times> 'cand signalRequest setter) list" where
  "signalFields parse =
    [(''version'', field (\<lambda>x r. r\<lparr>srqVersion := x\<rparr>) srqVersion (optional 0 parseInt64)),
     (''type'', field (\<lambda>x r. r\<lparr>srqType := x\<rparr>) srqType (optional [] parseString)),
     (''sdp'', field (\<lambda>x r. r\<lparr>srqSDP := x\<rparr>) srqSDP (optional [] parseString)),
     (''candidate'', field (\<lambda>x r. r\<lparr>srqCandidate := x\<rparr>) srqCandidate (optionalCandidate parse)),
     (''level'', field (\<lambda>x r. r\<lparr>srqLevel := x\<rparr>) srqLevel (optional [] parseString)),
     (''event'', field (\<lambda>x r. r\<lparr>srqEvent := x\<rparr>) srqEvent (optional [] parseString)),
     (''details'', field (\<lambda>x r. r\<lparr>srqDetails := x\<rparr>) srqDetails optionalStringMap)]"

definition decodeSignalRequest :: "(json \<Rightarrow> 'cand option \<Rightarrow> goerror + 'cand) \<Rightarrow> json list \<times> streamEnd \<Rightarrow> 'cand signalRequest \<times> goerror option" where
  "decodeSignalRequest parse = decodeMessage (signalFields parse)
     \<lparr>srqVersion = None, srqType = None, srqSDP = None, srqCandidate = None, srqLevel = None, srqEvent = None, srqDetails = None\<rparr>"

section \<open>Encoding\<close>

definition member :: "string \<Rightarrow> json option \<Rightarrow> (string \<times> json) list" where
  "member name v = (case v of None \<Rightarrow> [] | Some j \<Rightarrow> [(name, j)])"

definition intJson :: "int \<Rightarrow> json" where
  "intJson i = JInteger (i < 0) (nat \<bar>i\<bar>)"

definition floatJson :: "float64 \<Rightarrow> json" where
  "floatJson v = (case v of Fin q \<Rightarrow> JDecimal q | _ \<Rightarrow> JNull)"

definition inputJson :: "inputRequest \<Rightarrow> json" where
  "inputJson r = JObject (
     member ''version'' (map_option intJson (irVersion r)) @ member ''sequence'' (map_option (\<lambda>n. JInteger False (unat n)) (irSequence r)) @
     member ''type'' (map_option JString (irType r)) @ member ''x'' (map_option floatJson (irX r)) @ member ''y'' (map_option floatJson (irY r)) @
     member ''dx'' (map_option floatJson (irDX r)) @ member ''dy'' (map_option floatJson (irDY r)) @
     member ''button'' (map_option JString (irButton r)) @ member ''pressed'' (map_option JBool (irPressed r)) @
     member ''horizontal'' (map_option floatJson (irHorizontal r)) @ member ''vertical'' (map_option floatJson (irVertical r)) @
     member ''stop_horizontal'' (map_option JBool (irStopHorizontal r)) @ member ''stop_vertical'' (map_option JBool (irStopVertical r)) @
     member ''keycode'' (map_option (\<lambda>n. JInteger False (unat n)) (irKeycode r)) @ member ''text'' (map_option JString (irText r)))"

text \<open>What JSON can carry: integers of 64 bits and finite floats.\<close>

definition int64Option :: "int option \<Rightarrow> bool" where
  "int64Option x \<longleftrightarrow> (case x of None \<Rightarrow> True | Some i \<Rightarrow> - (2 ^ 63) \<le> i \<and> i < 2 ^ 63)"

definition floatOption :: "float64 option \<Rightarrow> bool" where
  "floatOption x \<longleftrightarrow> (case x of None \<Rightarrow> True | Some v \<Rightarrow> \<exists>q. v = Fin q \<and> representable q)"

lemma parse_encoded:
  "- (2 ^ 63) \<le> i \<Longrightarrow> i < 2 ^ 63 \<Longrightarrow> parseInt64 (intJson i) = Some i"
  "parseUint64 (JInteger False (unat (n :: uint64))) = Some n"
  "parseUint32 (JInteger False (unat (k :: uint32))) = Some k"
  "parseString (JString s) = Some s"
  "parseBool (JBool b) = Some b"
  "representable q \<Longrightarrow> parseFloat64 (floatJson (Fin q)) = Some (Fin q)"
  using unsigned_less [of n, where 'a = nat] unsigned_less [of k, where 'a = nat]
  by (auto simp: parseInt64_def intJson_def parseUint64_def parseUint32_def parseString_def parseBool_def parseFloat64_def floatJson_def
      representable_def Let_def)

lemma decodeFields_saved [simp]: "decodeFields table xs r (Some err) \<noteq> (r', None)"
proof (induction xs arbitrary: r)
  case (Cons x xs)
  then show ?case by (cases x) (auto split: option.splits prod.splits)
qed simp

lemma decodeFields_append:
  "decodeFields table xs r None = (r', None) \<Longrightarrow> decodeFields table (xs @ ys) r None = decodeFields table ys r' None"
proof (induction xs arbitrary: r)
  case (Cons x xs)
  then show ?case
    by (cases x) (auto split: option.splits prod.splits)
qed simp

text \<open>A field that is not yet set gets the value that was encoded, or stays as it is.\<close>

lemma decode_member:
  assumes "findField table name = Some (field put get (optional zero parse))" and "get r = None" and "put None r = r"
    and "\<And>y. x = Some y \<Longrightarrow> parse (enc y) = Some y \<and> enc y \<noteq> JNull"
  shows "decodeFields table (member name (map_option enc x)) r None = (put x r, None)"
  using assms by (cases x) (simp_all add: member_def field_def optional_def)

text \<open>The messages that an encoder can write.\<close>

definition encodable :: "inputRequest \<Rightarrow> bool" where
  "encodable r \<longleftrightarrow> int64Option (irVersion r) \<and> (\<forall>v\<in>{irX r, irY r, irDX r, irDY r, irHorizontal r, irVertical r}. floatOption v)"

lemma int64Option_parse: "int64Option x \<Longrightarrow> x = Some i \<Longrightarrow> parseInt64 (intJson i) = Some i \<and> intJson i \<noteq> JNull"
  by (simp add: int64Option_def parse_encoded) (simp add: intJson_def)

lemma floatOption_parse: "floatOption x \<Longrightarrow> x = Some v \<Longrightarrow> parseFloat64 (floatJson v) = Some v \<and> floatJson v \<noteq> JNull"
  by (auto simp: floatOption_def parse_encoded) (simp add: floatJson_def)

lemma inputFields_find:
  "findField inputMessageFields ''version'' = Some (field (\<lambda>x r. r\<lparr>irVersion := x\<rparr>) irVersion (optional 0 parseInt64))"
  "findField inputMessageFields ''sequence'' = Some (field (\<lambda>x r. r\<lparr>irSequence := x\<rparr>) irSequence (optional 0 parseUint64))"
  "findField inputMessageFields ''type'' = Some (field (\<lambda>x r. r\<lparr>irType := x\<rparr>) irType (optional [] parseString))"
  "findField inputMessageFields ''x'' = Some (field (\<lambda>x r. r\<lparr>irX := x\<rparr>) irX (optional (Fin 0) parseFloat64))"
  "findField inputMessageFields ''y'' = Some (field (\<lambda>x r. r\<lparr>irY := x\<rparr>) irY (optional (Fin 0) parseFloat64))"
  "findField inputMessageFields ''dx'' = Some (field (\<lambda>x r. r\<lparr>irDX := x\<rparr>) irDX (optional (Fin 0) parseFloat64))"
  "findField inputMessageFields ''dy'' = Some (field (\<lambda>x r. r\<lparr>irDY := x\<rparr>) irDY (optional (Fin 0) parseFloat64))"
  "findField inputMessageFields ''button'' = Some (field (\<lambda>x r. r\<lparr>irButton := x\<rparr>) irButton (optional [] parseString))"
  "findField inputMessageFields ''pressed'' = Some (field (\<lambda>x r. r\<lparr>irPressed := x\<rparr>) irPressed (optional False parseBool))"
  "findField inputMessageFields ''horizontal'' = Some (field (\<lambda>x r. r\<lparr>irHorizontal := x\<rparr>) irHorizontal (optional (Fin 0) parseFloat64))"
  "findField inputMessageFields ''vertical'' = Some (field (\<lambda>x r. r\<lparr>irVertical := x\<rparr>) irVertical (optional (Fin 0) parseFloat64))"
  "findField inputMessageFields ''stop_horizontal'' = Some (field (\<lambda>x r. r\<lparr>irStopHorizontal := x\<rparr>) irStopHorizontal (optional False parseBool))"
  "findField inputMessageFields ''stop_vertical'' = Some (field (\<lambda>x r. r\<lparr>irStopVertical := x\<rparr>) irStopVertical (optional False parseBool))"
  "findField inputMessageFields ''keycode'' = Some (field (\<lambda>x r. r\<lparr>irKeycode := x\<rparr>) irKeycode (optional 0 parseUint32))"
  "findField inputMessageFields ''text'' = Some (field (\<lambda>x r. r\<lparr>irText := x\<rparr>) irText (optional [] parseString))"
  by (simp_all add: findField_def inputMessageFields_def)

lemmas decode_input = decode_member [OF inputFields_find(1), of _ _ intJson] decode_member [OF inputFields_find(2), of _ _ "\<lambda>n. JInteger False (unat n)"]
  decode_member [OF inputFields_find(3), of _ _ JString] decode_member [OF inputFields_find(4), of _ _ floatJson]
  decode_member [OF inputFields_find(5), of _ _ floatJson] decode_member [OF inputFields_find(6), of _ _ floatJson]
  decode_member [OF inputFields_find(7), of _ _ floatJson] decode_member [OF inputFields_find(8), of _ _ JString]
  decode_member [OF inputFields_find(9), of _ _ JBool] decode_member [OF inputFields_find(10), of _ _ floatJson]
  decode_member [OF inputFields_find(11), of _ _ floatJson] decode_member [OF inputFields_find(12), of _ _ JBool]
  decode_member [OF inputFields_find(13), of _ _ JBool] decode_member [OF inputFields_find(14), of _ _ "\<lambda>n. JInteger False (unat n)"]
  decode_member [OF inputFields_find(15), of _ _ JString]

lemma decode_inputJson:
  assumes "encodable r"
  shows "decodeInputRequest ([inputJson r], StreamEOF) = (r, None)"
proof -
  have ok: "int64Option (irVersion r)" "floatOption (irX r)" "floatOption (irY r)" "floatOption (irDX r)" "floatOption (irDY r)"
    "floatOption (irHorizontal r)" "floatOption (irVertical r)"
    using assms by (simp_all add: encodable_def)
  note step = decodeFields_append [OF decode_input(1)] decodeFields_append [OF decode_input(2)] decodeFields_append [OF decode_input(3)]
    decodeFields_append [OF decode_input(4)] decodeFields_append [OF decode_input(5)] decodeFields_append [OF decode_input(6)]
    decodeFields_append [OF decode_input(7)] decodeFields_append [OF decode_input(8)] decodeFields_append [OF decode_input(9)]
    decodeFields_append [OF decode_input(10)] decodeFields_append [OF decode_input(11)] decodeFields_append [OF decode_input(12)]
    decodeFields_append [OF decode_input(13)] decodeFields_append [OF decode_input(14)]
  show ?thesis
    unfolding decodeInputRequest_def decodeMessage_def decodeStruct_def inputJson_def
    by (simp add: step decode_input zeroInput_def parse_encoded int64Option_parse [OF ok(1)] floatOption_parse [OF ok(2)] floatOption_parse [OF ok(3)]
        floatOption_parse [OF ok(4)] floatOption_parse [OF ok(5)] floatOption_parse [OF ok(6)] floatOption_parse [OF ok(7)])
qed

section \<open>Strictness\<close>

definition refusesNull :: "(string \<times> 'r setter) list \<Rightarrow> bool" where
  "refusesNull table \<longleftrightarrow> (\<forall>(name, f)\<in>set table. \<forall>r. snd (f JNull r) \<noteq> None)"

lemma findField_in: "findField table key = Some f \<Longrightarrow> \<exists>name. (name, f) \<in> set table"
proof (cases "map_of table key")
  case None
  assume "findField table key = Some f"
  then obtain p where p: "find (\<lambda>(name, f). foldName name = foldName key) table = Some p" "snd p = f"
    using None by (auto simp: findField_def)
  then obtain i where "i < length table" "table ! i = p"
    by (auto simp: find_Some_iff)
  then have "p \<in> set table" by (metis nth_mem)
  then show ?thesis using p(2) by (metis surjective_pairing)
next
  case (Some g)
  assume "findField table key = Some f"
  then have "map_of table key = Some f"
    using Some by (simp add: findField_def)
  then show ?thesis by (blast dest: map_of_SomeD)
qed

lemma decodeFields_strict:
  assumes "refusesNull table"
  shows "decodeFields table fs r None = (r', None) \<Longrightarrow> (key, v) \<in> set fs \<Longrightarrow> v \<noteq> JNull \<and> findField table key \<noteq> None"
proof (induction fs arbitrary: r)
  case (Cons x fs)
  obtain k w where x: "x = (k, w)" by (cases x)
  obtain f where f: "findField table k = Some f"
    using Cons.prems(1) by (cases "findField table k") (simp_all add: x)
  obtain r1 where r1: "f w r = (r1, None)" and rest: "decodeFields table fs r1 None = (r', None)"
    using Cons.prems(1) by (auto simp: x f split: prod.splits option.splits)
  have "w \<noteq> JNull"
  proof
    assume "w = JNull"
    then have "snd (f JNull r) = None" using r1 by simp
    then show False using assms findField_in [OF f] unfolding refusesNull_def by fastforce
  qed
  then show ?case
    using Cons.IH [OF rest] Cons.prems(2) f by (auto simp: x)
qed simp

lemma decodeMessage_strict:
  assumes "decodeMessage table zero msg = (r, None)" and "refusesNull table"
  shows "(msg = ([JNull], StreamEOF) \<and> r = zero) \<or>
    (\<exists>fs. msg = ([JObject fs], StreamEOF) \<and> (\<forall>(key, v)\<in>set fs. v \<noteq> JNull \<and> findField table key \<noteq> None))"
proof -
  obtain vals ends where msg: "msg = (vals, ends)" by (cases msg)
  from assms(1) obtain v where v: "vals = [v]" "ends = StreamEOF" and r: "decodeStruct table v zero = (r, None)"
    by (auto simp: decodeMessage_def msg split: list.splits prod.splits option.splits streamEnd.splits)
  show ?thesis
  proof (cases v)
    case JNull
    then show ?thesis using r v msg by (simp add: decodeStruct_def)
  next
    case (JObject fs)
    then have "decodeFields table fs zero None = (r, None)" using r by (simp add: decodeStruct_def)
    then show ?thesis
      using decodeFields_strict [OF assms(2)] JObject v msg by fastforce
  qed (use r in \<open>simp_all add: decodeStruct_def\<close>)
qed

lemma field_refuses: "(\<And>old. snd (decode JNull old) \<noteq> None) \<Longrightarrow> snd (field put get decode JNull r) \<noteq> None"
  by (simp add: field_def split: prod.split) (metis snd_conv)

lemma optional_refuses [simp]: "snd (optional zero parse JNull old) = Some (errorsNew ''null is not allowed'')"
  by (simp add: optional_def)

lemma inputFields_refuse: "refusesNull inputMessageFields"
  by (auto simp: refusesNull_def inputMessageFields_def field_def split_beta)

lemma controlFields_refuse: "refusesNull controlFields"
  by (auto simp: refusesNull_def controlFields_def field_def split_beta optionalQuality_def)

lemma signalFields_refuse: "refusesNull (signalFields parse)"
  by (auto simp: refusesNull_def signalFields_def field_def split_beta optionalStringMap_def optionalCandidate_def)

section \<open>Checks of a control message\<close>

text \<open>
  What \<open>handleControlMessage\<close> does of a message before it acts on it: it ignores the message, answers with an error that has the
  identifier as far as it was decoded, or accepts the request.
\<close>

record controlMessage =
  cgIsString :: bool
  cgData :: string
  cgJson :: "json list \<times> streamEnd"

datatype controlCheck = ControlIgnored | ControlRefused string string goerror | ControlAccepted controlRequest

definition requestID :: "controlRequest \<Rightarrow> string" where
  "requestID r = (case crqID r of Some i \<Rightarrow> i | None \<Rightarrow> [])"

definition checkControlMessage :: "bool \<Rightarrow> bool \<Rightarrow> controlMessage \<Rightarrow> controlCheck" where
  "checkControlMessage current closing m =
    (if \<not> current \<or> closing then ControlIgnored
     else if \<not> cgIsString m then ControlRefused [] ''invalid_message'' (errorsNew ''control messages must be text'')
     else if 16384 < length (cgData m) then ControlRefused [] ''message_too_large'' (errorsNew ''control message exceeds 16384 bytes'')
     else if \<not> utf8Valid (cgData m) then ControlRefused [] ''invalid_message'' (errorsNew ''control message is not valid UTF-8'')
     else (case decodeControlRequest (cgJson m) of
         (r, Some err) \<Rightarrow> ControlRefused (requestID r) ''invalid_message'' (Errorf ''decode control message: %v'' [FErr err])
       | (r, None) \<Rightarrow> (case validateControlRequest r of
             Some e \<Rightarrow> ControlRefused (requestID r) (peCode e) (peMessage e)
           | None \<Rightarrow> ControlAccepted r)))"

section \<open>Quality requests\<close>

text \<open>
  The quality that a request of \<open>video.quality.set\<close> asks for: the current one, or the option of the profile it names, with
  the values of its other fields; an error if there is no such profile or option.
\<close>

definition requestedQuality :: "(string \<Rightarrow> encoderProfile option) \<Rightarrow> quality \<Rightarrow> qualityPatch \<Rightarrow> (string \<times> goerror) + quality" where
  "requestedQuality profiles current patch =
    (let profileName = (case qpProfile patch of Some name \<Rightarrow> name | None \<Rightarrow> qProfile current)
     in case profiles profileName of
          None \<Rightarrow> Inl (''quality_update_failed'', Errorf ''video profile %q is not configured'' [FStr profileName])
        | Some profile \<Rightarrow>
            let optionName = (case qpOption patch of Some name \<Rightarrow> name
                  | None \<Rightarrow> if qpProfile patch \<noteq> None then pfDefaultOption profile else qOption current)
            in case (if qpProfile patch \<noteq> None \<or> qpOption patch \<noteq> None
                     then (case fmlookup (pfOptions profile) optionName of
                         None \<Rightarrow> Inl (''quality_update_failed'',
                             Errorf ''video option %q is not configured for profile %q'' [FStr optionName, FStr profileName])
                       | Some opt \<Rightarrow> Inr (optionQuality opt profileName optionName))
                     else Inr current) of
                 Inl err \<Rightarrow> Inl err
               | Inr q \<Rightarrow> Inr (q\<lparr>qWidth := (case qpWidth patch of Some w \<Rightarrow> w | None \<Rightarrow> qWidth q),
                     qHeight := (case qpHeight patch of Some h \<Rightarrow> h | None \<Rightarrow> qHeight q),
                     qFramerate := (case qpFramerate patch of Some f \<Rightarrow> f | None \<Rightarrow> qFramerate q),
                     qBitrateKbps := (case qpBitrateKbps patch of Some b \<Rightarrow> b | None \<Rightarrow> qBitrateKbps q)\<rparr>))"

text \<open>A request that names the current profile and option, or nothing, and no values asks for a quality of that option.\<close>

lemma requestedQuality_option:
  assumes "profiles name = Some profile" and "fmlookup (pfOptions profile) (pfDefaultOption profile) = Some opt"
  shows "requestedQuality profiles current (emptyQuality\<lparr>qpProfile := Some name\<rparr>) = Inr (optionQuality opt name (pfDefaultOption profile))"
  using assms by (simp add: requestedQuality_def emptyQuality_def Let_def optionQuality_def)

lemma requestedQuality_names:
  assumes "requestedQuality profiles current patch = Inr q"
  shows "(qpProfile patch = None \<and> qpOption patch = None \<and> qProfile q = qProfile current \<and> qOption q = qOption current) \<or>
    (\<exists>profile opt. profiles (qProfile q) = Some profile \<and> fmlookup (pfOptions profile) (qOption q) = Some opt)"
  using assms
  by (auto simp: requestedQuality_def Let_def optionQuality_def split: option.splits if_splits)

lemma validated_event: "validateInputRequest r = Inr ev \<longleftrightarrow> eventWF ev \<and> r = encodeEvent ev"
  using encodeEvent_accepted validateKind_Inr [of r _ _ ev] unfolding validateInputRequest_Inr by metis

section \<open>Properties\<close>

text \<open>
  C17: What the decoder and the validator of the input channel accept together.  The message that encodes an event
  is decoded to the event and accepted; and a message that is accepted is one JSON object, with known fields only, up to their
  case, and no nulls, which yields a well-formed event.
\<close>

theorem input_message_correct:
  "(eventWF ev \<and> encodable (encodeEvent ev) \<longrightarrow>
      decodeInputRequest ([inputJson (encodeEvent ev)], StreamEOF) = (encodeEvent ev, None) \<and> validateInputRequest (encodeEvent ev) = Inr ev) \<and>
   (decodeInputRequest msg = (r, None) \<and> validateInputRequest r = Inr ev' \<longrightarrow>
      eventWF ev' \<and> r = encodeEvent ev' \<and>
      (\<exists>fs. msg = ([JObject fs], StreamEOF) \<and> (\<forall>(key, v)\<in>set fs. v \<noteq> JNull \<and> findField inputMessageFields key \<noteq> None)))"
proof (intro conjI impI)
  assume "eventWF ev \<and> encodable (encodeEvent ev)"
  then show "decodeInputRequest ([inputJson (encodeEvent ev)], StreamEOF) = (encodeEvent ev, None)"
    by (simp add: decode_inputJson)
next
  assume "eventWF ev \<and> encodable (encodeEvent ev)"
  then show "validateInputRequest (encodeEvent ev) = Inr ev"
    by (simp add: validated_event)
next
  assume accepted: "decodeInputRequest msg = (r, None) \<and> validateInputRequest r = Inr ev'"
  then show event: "eventWF ev'" "r = encodeEvent ev'"
    by (simp_all add: validated_event)
  have "r \<noteq> zeroInput"
    using accepted by (auto simp: validateInputRequest_def zeroInput_def)
  with accepted decodeMessage_strict [OF _ inputFields_refuse, of zeroInput msg r]
  show "\<exists>fs. msg = ([JObject fs], StreamEOF) \<and> (\<forall>(key, v)\<in>set fs. v \<noteq> JNull \<and> findField inputMessageFields key \<noteq> None)"
    by (auto simp: decodeInputRequest_def)
qed

text \<open>A control request that is accepted came from the current channel as one strict JSON object and passed the validator.\<close>

lemma control_message_accepted:
  assumes "checkControlMessage current closing m = ControlAccepted r"
  shows "current \<and> \<not> closing \<and> cgIsString m \<and> length (cgData m) \<le> 16384 \<and> utf8Valid (cgData m) \<and> validateControlRequest r = None \<and>
    (\<exists>fs. cgJson m = ([JObject fs], StreamEOF) \<and> (\<forall>(key, v)\<in>set fs. v \<noteq> JNull \<and> findField controlFields key \<noteq> None))"
proof -
  have parts: "current" "\<not> closing" "cgIsString m" "length (cgData m) \<le> 16384" "utf8Valid (cgData m)" "validateControlRequest r = None"
    and decoded: "decodeControlRequest (cgJson m) = (r, None)"
    using assms by (auto simp: checkControlMessage_def split: if_splits prod.splits option.splits)
  have "r \<noteq> emptyControl"
    using parts(6) by (auto simp: validateControlRequest_def emptyControl_def)
  then show ?thesis
    using parts decodeMessage_strict [OF decoded [unfolded decodeControlRequest_def] controlFields_refuse] by auto
qed

text \<open>A field may be named in any case, and the last of several values counts.\<close>

lemma demo_field_case:
  "decodeControlRequest ([JObject [(''id'', JString ''1''), (''ID'', JString ''2''), (''Version'', JInteger False 4)]], StreamEOF) =
    (emptyControl\<lparr>crqVersion := Some 4, crqID := Some ''2''\<rparr>, None)"
  by code_simp

section \<open>Witnesses\<close>

definition demoKeyEvent :: event where
  "demoKeyEvent = (zeroEvent 5)\<lparr>evType := EventKeyboardKey, evKeycode := 30, evPressed := True\<rparr>"

lemma input_message_correct_witness:
  "decodeInputRequest ([inputJson (encodeEvent demoKeyEvent)], StreamEOF) = (encodeEvent demoKeyEvent, None) \<and>
   validateInputRequest (encodeEvent demoKeyEvent) = Inr demoKeyEvent \<and>
   (\<exists>fs. inputJson (encodeEvent demoKeyEvent) = JObject fs \<and> (\<forall>(key, v)\<in>set fs. v \<noteq> JNull))"
proof -
  have "eventWF demoKeyEvent"
    by (simp add: eventWF_def demoKeyEvent_def zeroEvent_def)
  moreover have "encodable (encodeEvent demoKeyEvent)"
    by (simp add: encodable_def encodeEvent_def demoKeyEvent_def zeroEvent_def emptyRequest_def int64Option_def floatOption_def inputVersion_def)
  ultimately have accepted: "decodeInputRequest ([inputJson (encodeEvent demoKeyEvent)], StreamEOF) = (encodeEvent demoKeyEvent, None) \<and>
      validateInputRequest (encodeEvent demoKeyEvent) = Inr demoKeyEvent"
    using input_message_correct [THEN conjunct1] by blast
  then have "\<exists>fs. ([inputJson (encodeEvent demoKeyEvent)], StreamEOF) = ([JObject fs], StreamEOF) \<and>
      (\<forall>(key, v)\<in>set fs. v \<noteq> JNull \<and> findField inputMessageFields key \<noteq> None)"
    using input_message_correct [THEN conjunct2] by blast
  then show ?thesis using accepted by fastforce
qed

end
