(* ===== verification/Spec2Isabelle.thy ===== *)
theory Spec2Isabelle
  imports Float64 Input_Controller Bandwidth Track Media_Transport Clipboard_Controller Clipboard_Transfer Protocol Sdp_Negotiation Peer_Quality Peer_Lease
    Peer_Signaling Input_Messages Application_Channels Startup Default_Config Eis_Sender Portal_Session Portal_Open App_Run Json_Messages
begin

text \<open>
  Verification of webdesktop, a Go server that streams a KDE Plasma session to browsers over WebRTC and sends their
  input and clipboard back.

  The program.  \<open>capture\<close> gets the screen from the desktop portal; \<open>media\<close> encodes it with GStreamer and replaces
  the encoder while it runs; \<open>webrtc\<close> accepts browsers, negotiates with them, writes the encoded frames to each peer,
  limits the bitrate to what the slowest peer receives, and handles the control, input and clipboard channels;
  \<open>input\<close> arbitrates which peer may press keys, and sends the events to libei; \<open>clipboard\<close> follows the selection of
  the desktop.

  Theories, in the order of their imports.

  \<^item> \<open>Prelude\<close>: Go's errors (\<open>errors.New\<close>, \<open>%w\<close>, \<open>errors.Join\<close>, \<open>errors.Is\<close>), division that truncates, UTF-8
    decoding, finite maps.  \<open>Float64\<close>: float64 as the rationals it represents, with rounding to nearest even.
  \<^item> \<open>Input_Controller\<close> (\<open>src/input/controller.go\<close>): leases, the event queue, reference counts of held keys, the worker
    and watch goroutines, over any sender.  C1, C2, C4.  \<open>Eis_Sender\<close> (\<open>src/input/eis/sender.go\<close>): the sender that emulates
    the input through libei.  C9, C21, C30.
  \<^item> \<open>Bandwidth\<close> (\<open>src/webrtc/bandwidth_estimator.go\<close>): the bitrate estimator with its ring of sent bytes.  C8, C10.
  \<^item> \<open>Track\<close> (\<open>src/webrtc/track.go\<close>): RTP clock ticks of a track.  C11.
  \<^item> \<open>Mailbox\<close> is the interface of a bounded mailbox (a locale with the law of a put); \<open>Media_Transport\<close>
    (\<open>src/webrtc/media_transport.go\<close>) interprets it on the audio and video mailboxes and models the writers.  C12 to C15.
  \<^item> \<open>Clipboard_Controller\<close> (\<open>src/clipboard/controller.go\<close>) and \<open>Clipboard_Transfer\<close> (\<open>src/webrtc/clipboard.go\<close>): the
    selection, its subscribers, and the chunked transfer to and from the browser.  C19, C20, C22, C23.
  \<^item> \<open>Protocol\<close> and \<open>Sdp_Negotiation\<close> (\<open>src/webrtc/protocol.go\<close>): validators of the messages, checks of offers and the
    rewriting of answers.  C18, C26.  \<open>Json_Messages\<close> (\<open>src/webrtc/protocol.go\<close>, \<open>handleControlMessage\<close> in
    \<open>src/webrtc/control.go\<close>): the decoding of JSON values into the requests, the checks of a control message and the quality it asks for.  C17.
  \<^item> \<open>Input_Messages\<close> (\<open>handleInputMessage\<close> in \<open>src/webrtc/control.go\<close>): the handlers of the two input channels as
    interleaved steps, over the channel operations of \<open>Peer_Lease\<close>.  C28.  \<open>Application_Channels\<close>
    (\<open>src/webrtc/application.go\<close>): the data channels of the application.  C27.
  \<^item> \<open>Media_Quality\<close> (\<open>src/media/profile.go\<close>): profiles, qualities, limits, codec compatibility and the rendering of live
    encoder properties.
  \<^item> \<open>Video_Pipeline\<close> (\<open>src/media/persistent_pipeline.go\<close>): encoder branches, their activation, replacement and shutdown as
    interleaved steps.  C31, C32.  \<open>Media_Service\<close> (\<open>src/media/media.go\<close>): quality and bitrate of the service, in a locale
    for the pipeline, interpreted on \<open>Video_Pipeline\<close>.  C33.
  \<^item> \<open>Peer_Registry\<close> (\<open>src/webrtc/service.go\<close>, \<open>peer.go\<close>): reservations, the peer map and closing.  C34, C35.
  \<^item> \<open>Rtc_Config\<close> (\<open>Config.Validate\<close>, origin check) and \<open>Peer_Quality\<close> (\<open>src/webrtc/service.go\<close>,
    \<open>src/internal/app/webrtc_adapters.go\<close>): the congestion limit and quality updates over all peers, in a locale for the
    media source, interpreted on \<open>Media_Service\<close>.  C36 to C38.
  \<^item> \<open>Peer_Lease\<close> (\<open>src/webrtc/control.go\<close>): data channels, lease generations and the goroutines that acquire, release
    and lose a lease, in a locale for the input controller, interpreted on \<open>Input_Controller\<close> and on the disabled
    controller.  C3.
  \<^item> \<open>Peer_Signaling\<close> (\<open>src/webrtc/peer.go\<close>): the WebSocket read loop, the offer and the ICE candidates of both sides.  C40.
  \<^item> \<open>Portal_Session\<close> (\<open>Session\<close> in \<open>src/capture/portal.go\<close>): the open portal session, its clipboard transfers, the goroutine that
    follows its signals and its close, as interleaved steps.  C7, C16.  \<open>Portal_Open\<close> (\<open>Open\<close>, \<open>request\<close>, \<open>loadRestoreToken\<close>,
    \<open>storeRestoreToken\<close>): the requests that lead to a session, the clean-up after an error, and the token file.  C6, C29.
  \<^item> \<open>App_Run\<close> (\<open>src/desktop/service.go\<close>, \<open>Serve\<close> in \<open>src/internal/app/app.go\<close> and \<open>src/httpserver/server.go\<close>): the run of the
    desktop service over the portal session and the controllers, and how the application ends.  C5, C24.
  \<^item> \<open>Startup\<close> (\<open>src/config/config.go\<close>, \<open>New\<close> in \<open>src/internal/app/app.go\<close>): the checks of a configuration, and the
    construction of all the parts from it.  C25.  \<open>Profile_Template\<close> models the part of \<open>text/template\<close> that the
    built-in profiles use, and \<open>Default_Config\<close> the built-in configuration and profiles.  C39.

  How the code is modelled.  A struct is a record with its fields, an operation a function on it that returns the new
  state, an error a value of \<open>goerror\<close>.  Where goroutines run side by side, each critical section is one step of an
  inductive relation and the properties hold in every reachable state.  Integers of the code that may wrap are
  words; \<open>int\<close> values of the code are integers, with the wrap written out where sizes are multiplied.  The channel and
  lease generations, 64-bit counters in the code, are natural numbers: one step per nanosecond takes five hundred
  years to wrap them.  Iteration over a Go map takes the order of the keys as an argument, on which no result depends.
  No fuel is used; every loop is structurally recursive or has a termination proof.

  Arguments of the model, with what is assumed of them.  libei, the replies of the desktop portal and the decoding of D-Bus values, GStreamer elements,
  pion's peer connections and its SDP parser, the grammar of JSON, URL and template parsing are arguments; a locale names the laws
  a component relies on, and each is interpreted on the model of the component that provides them.

  Not modelled.  The C code of
  \<open>src/input/eis\<close>, the construction of GStreamer pipelines and their bus, the audio
  pipeline, the RTCP reader, trace logging, the handlers of the HTTP routes, the command line, the reading of configuration
  files and the browser client.  Of \<open>handleControlMessage\<close> its checks, its lease requests and the quality update are modelled, not
  the text of its replies.
\<close>

end
